(* ===== verification/Prelude.thy ===== *)
theory Prelude
  imports Main "HOL-Library.Word" "HOL-Library.List_Lexorder" "HOL-Library.AList"
begin

text \<open>
  What every component of the ll-vpn model shares: the machine integer types, byte
  strings and their big-endian reading (Rust's \<open>to_be_bytes\<close> and \<open>from_be_bytes\<close>),
  fixed 32-byte arrays, text as UTF-8 bytes, the two clocks, and the generic lemmas on
  lists that the component proofs use. The collection \<open>bytes_simps\<close> carries the
  rewrite rules of the byte encodings. The locale \<open>op_machine\<close> at the end is the shared
  contract of a component whose operations keep an invariant; it gives the invariant
  along every run.
\<close>

unbundle bit_operations_syntax

named_theorems bytes_simps \<open>rewrite rules of the byte encodings\<close>

section \<open>Types\<close>

type_synonym byte = "8 word"
type_synonym bytes = "8 word list"
type_synonym u16 = "16 word"
type_synonym u32 = "32 word"
type_synonym u64 = "64 word"

text \<open>
  Monotonic time (\<open>std::time::Instant\<close>) is an integer count of nanoseconds, a
  \<open>Duration\<close> a natural one. \<open>elapsed now t\<close> is \<open>t.elapsed()\<close> read at \<open>now\<close>, which the
  standard library saturates at zero.
\<close>

type_synonym instant = int
type_synonym duration = nat

definition from_secs :: "nat \<Rightarrow> duration" where
  "from_secs n = n * 1000000000"

definition from_millis :: "nat \<Rightarrow> duration" where
  "from_millis n = n * 1000000"

definition elapsed :: "instant \<Rightarrow> instant \<Rightarrow> duration" where
  "elapsed now t = nat (now - t)"

lemma elapsed_mono: "now \<le> now' \<Longrightarrow> elapsed now t \<le> elapsed now' t"
  by (simp add: elapsed_def)

lemma elapsed_self [simp]: "elapsed t t = 0"
  by (simp add: elapsed_def)

section \<open>Words\<close>

lemma unat_inc: "(w :: 'a::len word) \<noteq> - 1 \<Longrightarrow> unat (w + 1) = Suc (unat w)"
proof -
  assume "w \<noteq> - 1"
  then have "w + 1 \<noteq> 0" by (simp add: eq_neg_iff_add_eq_0)
  moreover have "unat (w + 1) = (unat w + 1) mod 2 ^ LENGTH('a)"
    by (simp add: unat_word_ariths)
  moreover have "unat w < 2 ^ LENGTH('a)" by (rule unsigned_less)
  ultimately show ?thesis
    by (metis Suc_eq_plus1 Suc_lessI mod_less mod_self unat_eq_zero)
qed

lemma word_less_inc: "(w :: 'a::len word) \<noteq> - 1 \<Longrightarrow> w < w + 1"
  by (simp add: word_less_nat_alt unat_inc)

section \<open>Lists\<close>

text \<open>\<open>sub_slice xs a b\<close> is Rust's \<open>&xs[a..b]\<close> for \<open>a <= b <= xs.len()\<close>.\<close>

definition sub_slice :: "'a list \<Rightarrow> nat \<Rightarrow> nat \<Rightarrow> 'a list" where
  "sub_slice xs a b = take (b - a) (drop a xs)"

lemma length_sub_slice [simp]: "length (sub_slice xs a b) = min (b - a) (length xs - a)"
  by (simp add: sub_slice_def min.commute)

lemma slice_append_left:
  assumes "a = length p" and "b = a + length m"
  shows "sub_slice (p @ m @ s) a b = m"
  using assms by (simp add: sub_slice_def)

lemma slice_glue: "a \<le> b \<Longrightarrow> b \<le> c \<Longrightarrow> sub_slice xs a b @ sub_slice xs b c = sub_slice xs a c"
proof -
  assume le: "a \<le> b" "b \<le> c"
  have "take (b - a) (drop a xs) @ take (c - b) (drop (b - a) (drop a xs))
      = take ((b - a) + (c - b)) (drop a xs)"
    by (rule take_add [symmetric])
  with le show ?thesis by (simp add: sub_slice_def)
qed

lemma slice_all [simp]: "sub_slice xs 0 (length xs) = xs"
  by (simp add: sub_slice_def)

lemma slice_same [simp]: "sub_slice xs a a = []"
  by (simp add: sub_slice_def)

lemma nth_append_length_plus: "(p @ xs) ! (length p + i) = xs ! i"
  by (simp add: nth_append)

lemma length_takeWhile_less: "\<exists>x \<in> set xs. \<not> p x \<Longrightarrow> length (takeWhile p xs) < length xs"
  by (induction xs) auto

text \<open>\<open>iter().position(p)\<close> and \<open>VecDeque::remove(i)\<close>.\<close>

fun position :: "('a \<Rightarrow> bool) \<Rightarrow> 'a list \<Rightarrow> nat option" where
  "position p [] = None"
| "position p (x # xs) = (if p x then Some 0 else map_option Suc (position p xs))"

definition remove_at :: "nat \<Rightarrow> 'a list \<Rightarrow> 'a list" where
  "remove_at i xs = take i xs @ drop (Suc i) xs"

lemma position_None: "position p xs = None \<longleftrightarrow> (\<forall>x \<in> set xs. \<not> p x)"
  by (induction xs) auto

lemma position_Some:
  "position p xs = Some i \<Longrightarrow> i < length xs \<and> p (xs ! i) \<and> (\<forall>j < i. \<not> p (xs ! j))"
proof (induction xs arbitrary: i)
  case (Cons x xs)
  show ?case
  proof (cases "p x")
    case False
    with Cons.prems obtain k where k: "position p xs = Some k" "i = Suc k" by auto
    with Cons.IH [OF k(1)] False show ?thesis by (auto simp: nth_Cons split: nat.split)
  qed (use Cons.prems in auto)
qed simp

lemma length_remove_at: "i < length xs \<Longrightarrow> length (remove_at i xs) = length xs - 1"
  by (simp add: remove_at_def)

lemma set_remove_at_subset: "set (remove_at i xs) \<subseteq> set xs"
  by (auto simp: remove_at_def dest: in_set_takeD in_set_dropD)

lemma map_remove_at: "map f (remove_at i xs) = remove_at i (map f xs)"
  by (simp add: remove_at_def take_map drop_map)

lemma split_at: "i < length xs \<Longrightarrow> xs = take i xs @ xs ! i # drop (Suc i) xs"
  by (rule id_take_nth_drop)

lemma set_remove_at: "i < length xs \<Longrightarrow> insert (xs ! i) (set (remove_at i xs)) = set xs"
proof -
  assume "i < length xs"
  then have "set xs = set (take i xs @ xs ! i # drop (Suc i) xs)" by (simp only: split_at [symmetric])
  then show ?thesis by (auto simp: remove_at_def)
qed

lemma distinct_remove_at:
  assumes "distinct xs"
  shows "distinct (remove_at i xs)" and "i < length xs \<Longrightarrow> xs ! i \<notin> set (remove_at i xs)"
proof -
  show "distinct (remove_at i xs)"
    using assms by (simp add: remove_at_def set_take_disj_set_drop_if_distinct)
  assume i: "i < length xs"
  with assms have "distinct (take i xs @ xs ! i # drop (Suc i) xs)" by (simp only: split_at [symmetric])
  then show "xs ! i \<notin> set (remove_at i xs)" by (auto simp: remove_at_def)
qed

text \<open>
  \<open>sub_slice::sort_by\<close>, the stable sort of the standard library, for a comparison function:
  here by insertion, which returns the one stable sorted permutation.
\<close>

datatype ordering = Less | Equal | Greater

fun insert_by :: "('a \<Rightarrow> 'a \<Rightarrow> ordering) \<Rightarrow> 'a \<Rightarrow> 'a list \<Rightarrow> 'a list" where
  "insert_by cmp x [] = [x]"
| "insert_by cmp x (y # ys) = (if cmp x y = Greater then y # insert_by cmp x ys else x # y # ys)"

definition sort_by :: "('a \<Rightarrow> 'a \<Rightarrow> ordering) \<Rightarrow> 'a list \<Rightarrow> 'a list" where
  "sort_by cmp xs = foldr (insert_by cmp) xs []"

text \<open>\<open>Ord::cmp\<close> of a linear order.\<close>

definition compare :: "'a::linorder \<Rightarrow> 'a \<Rightarrow> ordering" where
  "compare x y = (if x < y then Less else if x = y then Equal else Greater)"

lemma sort_by_key:
  assumes "\<And>x y. cmp x y = compare (f x) (f y)"
  shows "sort_by cmp xs = sort_key f xs"
proof -
  have "insert_by cmp x ys = insort_key f x ys" for x ys
    by (induction ys) (auto simp: assms compare_def)
  then have "insert_by cmp = insort_key f" by (intro ext)
  then show ?thesis by (simp add: sort_by_def sort_key_def)
qed

lemma sort_key_map: "sort_key f (map g xs) = map g (sort_key (\<lambda>x. f (g x)) xs)"
proof -
  have "insort_key f (g x) (map g ys) = map g (insort_key (\<lambda>x. f (g x)) x ys)" for x ys
    by (induction ys) auto
  then show ?thesis by (induction xs) simp_all
qed

text \<open>The first elements of a sorted list are the least ones.\<close>

lemma take_sort_key_least:
  assumes "x \<in> set xs" and "x \<notin> set (take n (sort_key f xs))" and "y \<in> set (take n (sort_key f xs))"
  shows "f y \<le> f x"
proof -
  let ?s = "sort_key f xs"
  have "x \<in> set (drop n ?s)"
    by (metis UnE append_take_drop_id assms(1,2) set_append set_sort)
  moreover have "sorted (map f (take n ?s @ drop n ?s))" by simp
  ultimately show ?thesis using assms(3) unfolding map_append sorted_append by auto
qed

text \<open>\<open>Iterator::min_by_key\<close>: the first element with the least key.\<close>

fun min_by_key :: "('a \<Rightarrow> 'k::linorder) \<Rightarrow> 'a list \<Rightarrow> 'a option" where
  "min_by_key f [] = None"
| "min_by_key f (x # xs) =
     (case min_by_key f xs of
        None \<Rightarrow> Some x
      | Some y \<Rightarrow> Some (if f x \<le> f y then x else y))"

lemma min_by_key_None [simp]: "min_by_key f xs = None \<longleftrightarrow> xs = []"
  by (cases xs) (auto split: option.splits)

lemma min_by_key_Some: "min_by_key f xs = Some x \<Longrightarrow> x \<in> set xs \<and> (\<forall>y \<in> set xs. f x \<le> f y)"
  by (induction xs arbitrary: x) (fastforce split: option.splits if_splits)+

text \<open>Decimal rendering, as \<open>format!("{}", n)\<close> of an unsigned integer.\<close>

fun show_nat :: "nat \<Rightarrow> string" where
  "show_nat n = (if n < 10 then [char_of (48 + n)]
                 else show_nat (n div 10) @ [char_of (48 + n mod 10)])"

declare show_nat.simps [simp del]

text \<open>
  \<open>s.trim().is_empty()\<close>: every character is Unicode white space, read off the bytes of
  the UTF-8 text.
\<close>

definition white3 :: "nat \<Rightarrow> nat \<Rightarrow> nat \<Rightarrow> bool" where
  "white3 a b c \<longleftrightarrow>
     a = 0xE1 \<and> b = 0x9A \<and> c = 0x80
   \<or> a = 0xE2 \<and> b = 0x80 \<and> (0x80 \<le> c \<and> c \<le> 0x8A \<or> c = 0xA8 \<or> c = 0xA9 \<or> c = 0xAF)
   \<or> a = 0xE2 \<and> b = 0x81 \<and> c = 0x9F
   \<or> a = 0xE3 \<and> b = 0x80 \<and> c = 0x80"

fun blank_codes :: "nat list \<Rightarrow> bool" where
  "blank_codes [] = True"
| "blank_codes (a # as) =
     (if 9 \<le> a \<and> a \<le> 13 \<or> a = 32 then blank_codes as
      else case as of
             [] \<Rightarrow> False
           | b # bs \<Rightarrow>
               if a = 0xC2 \<and> (b = 0x85 \<or> b = 0xA0) then blank_codes bs
               else case bs of [] \<Rightarrow> False | c # cs \<Rightarrow> white3 a b c \<and> blank_codes cs)"

definition is_blank :: "string \<Rightarrow> bool" where
  "is_blank s = blank_codes (map of_char s)"

text \<open>The order of strings, by their bytes.\<close>

definition name_compare :: "string \<Rightarrow> string \<Rightarrow> ordering" where
  "name_compare a b = compare (map of_char a :: nat list) (map of_char b)"

text \<open>The number of blocks of size \<open>c\<close> that cover \<open>n\<close> bytes, \<open>(n + c - 1) / c\<close>.\<close>

definition div_ceil :: "nat \<Rightarrow> nat \<Rightarrow> nat" where
  "div_ceil n c = (n + c - 1) div c"

lemma div_ceil_0 [simp]: "0 < c \<Longrightarrow> div_ceil 0 c = 0"
  by (simp add: div_ceil_def)

lemma div_ceil_step: "0 < k \<Longrightarrow> k \<le> n \<Longrightarrow> div_ceil n k = Suc (div_ceil (n - k) k)"
proof -
  assume k: "0 < k" "k \<le> n"
  then have "n + k - 1 = (n - k + k - 1) + k" by simp
  then have "div_ceil n k = ((n - k + k - 1) + k) div k" by (simp only: div_ceil_def)
  also have "\<dots> = Suc (div_ceil (n - k) k)" using k(1) by (simp only: div_add_self2 div_ceil_def)
  finally show ?thesis .
qed

lemma div_ceil_last: "0 < n \<Longrightarrow> n \<le> k \<Longrightarrow> div_ceil n k = 1"
  unfolding div_ceil_def by (rule div_nat_eqI) simp_all

lemma div_ceil_upper: "0 < c \<Longrightarrow> n \<le> div_ceil n c * c"
proof -
  assume "0 < c"
  then have "n + c - 1 < (n + c - 1) div c * c + c"
    by (metis add.commute div_mult_mod_eq mod_less_divisor nat_add_left_cancel_less)
  then show ?thesis using \<open>0 < c\<close> by (simp add: div_ceil_def)
qed

lemma div_ceil_lower: "0 < c \<Longrightarrow> i < div_ceil n c \<Longrightarrow> i * c < n"
proof -
  assume c: "0 < c" and "i < div_ceil n c"
  then have "Suc i * c \<le> (n + c - 1) div c * c"
    by (simp add: div_ceil_def Suc_leI mult_le_mono1 del: mult_Suc)
  also have "\<dots> \<le> n + c - 1" by (rule div_times_less_eq_dividend)
  finally show ?thesis using c by simp
qed

lemma div_ceil_iff: "0 < c \<Longrightarrow> i < div_ceil n c \<longleftrightarrow> i * c < n"
proof
  assume c: "0 < c" and lt: "i * c < n"
  show "i < div_ceil n c"
  proof (rule ccontr)
    assume "\<not> i < div_ceil n c"
    then have "div_ceil n c * c \<le> i * c" by simp
    with div_ceil_upper [OF c, of n] lt show False by simp
  qed
qed (rule div_ceil_lower)

section \<open>Big-endian byte strings\<close>

text \<open>
  \<open>to_be n k\<close> is the \<open>n\<close>-byte big-endian form of \<open>k\<close> modulo \<open>256 ^ n\<close>; \<open>of_be\<close> reads a
  byte string back.
\<close>

fun to_be :: "nat \<Rightarrow> nat \<Rightarrow> bytes" where
  "to_be 0 k = []"
| "to_be (Suc n) k = of_nat (k div 256 ^ n) # to_be n k"

fun of_be :: "bytes \<Rightarrow> nat" where
  "of_be [] = 0"
| "of_be (b # bs) = unat b * 256 ^ length bs + of_be bs"

lemma length_to_be [simp]: "length (to_be n k) = n"
  by (induction n) auto

lemma unat_byte_less: "unat (b :: byte) < 256"
  using unsigned_less [of b, where 'a = nat] by simp

lemma of_be_less: "of_be bs < 256 ^ length bs"
proof (induction bs)
  case (Cons b bs)
  have "unat b * 256 ^ length bs + of_be bs < (unat b + 1) * 256 ^ length bs"
    using Cons.IH by simp
  also have "\<dots> \<le> 256 * 256 ^ length bs"
    using unat_byte_less [of b] by (intro mult_le_mono1) simp
  finally show ?case by simp
qed simp

lemma of_be_to_be [bytes_simps]: "of_be (to_be n k) = k mod 256 ^ n"
proof (induction n)
  case (Suc n)
  have "unat (of_nat (k div 256 ^ n) :: byte) = (k div 256 ^ n) mod 256"
    by (simp add: unat_of_nat)
  moreover have "k mod (256 ^ n * 256) = 256 ^ n * ((k div 256 ^ n) mod 256) + k mod 256 ^ n"
    by (rule mod_mult2_eq)
  ultimately show ?case using Suc.IH by (simp add: mult.commute)
qed simp

lemma of_be_to_be_id: "k < 256 ^ n \<Longrightarrow> of_be (to_be n k) = k"
  by (simp add: of_be_to_be)

lemma of_be_less_head: "length xs = length ys \<Longrightarrow> x < y \<Longrightarrow> of_be (x # xs) < of_be (y # ys)"
proof -
  assume len: "length xs = length ys" and "x < y"
  then have "Suc (unat x) \<le> unat y" by (simp add: word_less_nat_alt)
  then have "Suc (unat x) * 256 ^ length xs \<le> unat y * 256 ^ length xs" by (rule mult_le_mono1)
  with of_be_less [of xs] have "of_be (x # xs) < unat y * 256 ^ length xs" by simp
  with len show ?thesis by simp
qed

lemma of_be_inject: "length xs = length ys \<Longrightarrow> of_be xs = of_be ys \<longleftrightarrow> xs = ys"
proof (induction xs ys rule: list_induct2)
  case (Cons x xs y ys)
  show ?case
  proof (cases "x = y")
    case True
    with Cons show ?thesis by simp
  next
    case False
    then have "x < y \<or> y < x" by auto
    then have "of_be (x # xs) \<noteq> of_be (y # ys)"
      using of_be_less_head [of xs ys x y] of_be_less_head [of ys xs y x] Cons.hyps by auto
    with False show ?thesis by simp
  qed
qed simp

lemma to_be_of_be [bytes_simps]: "to_be (length bs) (of_be bs) = bs"
  using of_be_less [of bs]
  by (subst of_be_inject [symmetric]) (simp_all add: of_be_to_be)

section \<open>Arrays of 32 bytes\<close>

text \<open>
  Rust's \<open>[u8; 32]\<close>: node identities and SHA-256 digests. The order is that of the
  big-endian value, which is the lexicographic order of the bytes.
\<close>

typedef b32 = "{bs :: bytes. length bs = 32}"
  morphisms as_bytes B32
  by (rule exI [of _ "replicate 32 0"]) simp

lemma length_as_bytes [simp]: "length (as_bytes x) = 32"
  using as_bytes [of x] by simp

lemma as_bytes_B32 [simp]: "length bs = 32 \<Longrightarrow> as_bytes (B32 bs) = bs"
  by (simp add: B32_inverse)

lemma B32_as_bytes [simp]: "B32 (as_bytes x) = x"
  by (rule as_bytes_inverse)

lemma B32_eq_iff [simp]: "length bs = 32 \<Longrightarrow> length cs = 32 \<Longrightarrow> B32 bs = B32 cs \<longleftrightarrow> bs = cs"
  by (simp add: B32_inject)

definition b32_val :: "b32 \<Rightarrow> nat" where
  "b32_val x = of_be (as_bytes x)"

lemma b32_val_inject: "b32_val x = b32_val y \<longleftrightarrow> x = y"
  by (simp add: b32_val_def of_be_inject as_bytes_inject)

instantiation b32 :: linorder
begin

definition less_eq_b32 :: "b32 \<Rightarrow> b32 \<Rightarrow> bool" where
  "less_eq_b32 x y \<longleftrightarrow> b32_val x \<le> b32_val y"

definition less_b32 :: "b32 \<Rightarrow> b32 \<Rightarrow> bool" where
  "less_b32 x y \<longleftrightarrow> b32_val x < b32_val y"

instance
  by standard (auto simp: less_eq_b32_def less_b32_def b32_val_inject)

end

instantiation b32 :: equal
begin

definition equal_b32 :: "b32 \<Rightarrow> b32 \<Rightarrow> bool" where
  "equal_b32 x y \<longleftrightarrow> as_bytes x = as_bytes y"

instance
  by standard (simp add: equal_b32_def as_bytes_inject)

end

lemma b32_abstype [code abstype]: "B32 (as_bytes x) = x"
  by simp

text \<open>The array whose bytes are all \<open>b\<close>, as in \<open>[b; 32]\<close>.\<close>

definition fill32 :: "byte \<Rightarrow> b32" where
  "fill32 b = B32 (replicate 32 b)"

lemma as_bytes_fill32 [simp, code abstract]: "as_bytes (fill32 b) = replicate 32 b"
  by (simp add: fill32_def)

lemma fill32_inject [simp]: "fill32 b = fill32 c \<longleftrightarrow> b = c"
  by (simp add: fill32_def)

section \<open>Text\<close>

text \<open>
  A Rust \<open>String\<close> is its UTF-8 bytes; an Isabelle character is one byte. \<open>str_bytes\<close>
  is \<open>as_bytes()\<close>, \<open>from_utf8\<close> is \<open>String::from_utf8\<close> with the validity check of the
  standard library.
\<close>

definition str_bytes :: "string \<Rightarrow> bytes" where
  "str_bytes s = map (\<lambda>c. of_nat (of_char c)) s"

definition bytes_str :: "bytes \<Rightarrow> string" where
  "bytes_str bs = map (\<lambda>b. char_of (unat b)) bs"

definition utf8_cont :: "byte \<Rightarrow> bool" where
  "utf8_cont b \<longleftrightarrow> 0x80 \<le> b \<and> b \<le> 0xBF"

definition utf8_second3 :: "byte \<Rightarrow> byte \<Rightarrow> bool" where
  "utf8_second3 b c \<longleftrightarrow>
     (if b = 0xE0 then 0xA0 \<le> c \<and> c \<le> 0xBF
      else if b = 0xED then 0x80 \<le> c \<and> c \<le> 0x9F else utf8_cont c)"

definition utf8_second4 :: "byte \<Rightarrow> byte \<Rightarrow> bool" where
  "utf8_second4 b c \<longleftrightarrow>
     (if b = 0xF0 then 0x90 \<le> c \<and> c \<le> 0xBF
      else if b = 0xF4 then 0x80 \<le> c \<and> c \<le> 0x8F else utf8_cont c)"

fun utf8_valid :: "bytes \<Rightarrow> bool" where
  "utf8_valid [] = True"
| "utf8_valid (b # bs) =
     (if b < 0x80 then utf8_valid bs
      else if 0xC2 \<le> b \<and> b \<le> 0xDF then
        (case bs of c # r \<Rightarrow> utf8_cont c \<and> utf8_valid r | _ \<Rightarrow> False)
      else if 0xE0 \<le> b \<and> b \<le> 0xEF then
        (case bs of c # d # r \<Rightarrow> utf8_second3 b c \<and> utf8_cont d \<and> utf8_valid r | _ \<Rightarrow> False)
      else if 0xF0 \<le> b \<and> b \<le> 0xF4 then
        (case bs of c # d # e # r \<Rightarrow>
           utf8_second4 b c \<and> utf8_cont d \<and> utf8_cont e \<and> utf8_valid r | _ \<Rightarrow> False)
      else False)"

definition from_utf8 :: "bytes \<Rightarrow> string option" where
  "from_utf8 bs = (if utf8_valid bs then Some (bytes_str bs) else None)"

lemma length_str_bytes [simp]: "length (str_bytes s) = length s"
  by (simp add: str_bytes_def)

lemma bytes_str_str_bytes [simp]: "bytes_str (str_bytes s) = s"
  by (induction s) (auto simp: bytes_str_def str_bytes_def unat_of_nat)

lemma str_bytes_inject: "str_bytes s = str_bytes t \<longleftrightarrow> s = t"
  by (metis bytes_str_str_bytes)

lemma from_utf8_str_bytes: "utf8_valid (str_bytes s) \<Longrightarrow> from_utf8 (str_bytes s) = Some s"
  by (simp add: from_utf8_def)

section \<open>Components whose operations keep an invariant\<close>

locale op_machine =
  fixes step :: "'e \<Rightarrow> 's \<Rightarrow> 's" and inv :: "'s \<Rightarrow> bool"
  assumes step_inv: "inv s \<Longrightarrow> inv (step e s)"
begin

lemma run_inv: "inv s \<Longrightarrow> inv (fold step es s)"
  by (induction es arbitrary: s) (auto intro: step_inv)

end

end
