(* ===== verification/NodeId.thy ===== *)
theory NodeId
  imports Prelude
begin

text \<open>
  Node identities (\<open>src/vpn/identity.rs\<close>). A \<open>NodeID\<close> is a 32-byte array; the SHA-256
  digest and the hexadecimal codec are library code and enter as parameters. The file with
  an identity and its key is in \<open>IdentityFile\<close>. The last section holds the laws of bytewise XOR
  that the routing components share.
\<close>

type_synonym node_id = b32
type_synonym u128 = "128 word"

section \<open>The operations of identity.rs\<close>

definition from_public_key :: "(bytes \<Rightarrow> b32) \<Rightarrow> bytes \<Rightarrow> node_id" where
  "from_public_key sha256 key = sha256 key"

definition id_from_bytes :: "b32 \<Rightarrow> node_id" where
  "id_from_bytes b = b"

definition id_to_hex :: "(bytes \<Rightarrow> string) \<Rightarrow> node_id \<Rightarrow> string" where
  "id_to_hex hex_encode i = hex_encode (as_bytes i)"

text \<open>\<open>generate\<close>: a signing key is its 32 random bytes; the public key is library code.\<close>

definition id_generate :: "(bytes \<Rightarrow> b32) \<Rightarrow> (b32 \<Rightarrow> bytes) \<Rightarrow> b32 \<Rightarrow> node_id \<times> b32" where
  "id_generate sha256 verifying_key secret = (from_public_key sha256 (verifying_key secret), secret)"

datatype hex_error = InvalidHexCharacter | OddLength | InvalidStringLength

definition id_from_hex :: "(string \<Rightarrow> hex_error + bytes) \<Rightarrow> string \<Rightarrow> hex_error + node_id" where
  "id_from_hex hex_decode s =
     (case hex_decode s of
        Inl e \<Rightarrow> Inl e
      | Inr bs \<Rightarrow> if length bs \<noteq> 32 then Inl InvalidStringLength else Inr (B32 bs))"

text \<open>
  The accumulation \<open>dist = (dist << 8) | x as u128\<close> over a byte string. The shift of a
  \<open>u128\<close> drops the bits above the 128th.
\<close>

definition shift_in :: "u128 \<Rightarrow> byte \<Rightarrow> u128" where
  "shift_in d x = push_bit 8 d OR ucast x"

definition u128_of_bytes :: "bytes \<Rightarrow> u128" where
  "u128_of_bytes bs = foldl shift_in 0 bs"

text \<open>
  \<open>NodeID::distance\<close> up to its last step: the accumulated \<open>u128\<close>, which the code then
  converts to \<open>f64\<close>.
\<close>

definition id_distance :: "node_id \<Rightarrow> node_id \<Rightarrow> u128" where
  "id_distance a b = u128_of_bytes (map2 (XOR) (as_bytes a) (as_bytes b))"

text \<open>Decoding gives back what was encoded: the documented contract of the \<open>hex\<close> crate.\<close>

definition hex_ok :: "(bytes \<Rightarrow> string) \<Rightarrow> (string \<Rightarrow> hex_error + bytes) \<Rightarrow> bool" where
  "hex_ok hex_encode hex_decode \<longleftrightarrow> (\<forall>bs. hex_decode (hex_encode bs) = Inr bs)"

lemma id_to_hex_inject: "hex_ok enc dec \<Longrightarrow> id_to_hex enc i = id_to_hex enc j \<longleftrightarrow> i = j"
  by (simp add: id_to_hex_def hex_ok_def) (metis as_bytes_inject sum.inject(2))

section \<open>Accumulated values\<close>

lemma shift_in_eq: "shift_in d x = d * 256 + ucast x"
proof -
  have "push_bit 8 d OR ucast x = push_bit 8 d + ucast x"
  proof (rule disjunctive_add_eq_or [symmetric])
    show "push_bit 8 d AND ucast x = 0"
      by (rule bit_word_eqI) (auto simp: bit_simps dest: bit_imp_le_length)
  qed
  then show ?thesis by (simp add: shift_in_def push_bit_eq_mult mult.commute)
qed

lemma foldl_shift_in: "foldl shift_in d bs = d * 256 ^ length bs + of_nat (of_be bs)"
proof (induction bs arbitrary: d)
  case (Cons b bs)
  have b: "(ucast b :: u128) = of_nat (unat b)" by simp
  have "foldl shift_in d (b # bs) = (d * 256 + of_nat (unat b)) * 256 ^ length bs + of_nat (of_be bs)"
    by (simp only: foldl_Cons Cons.IH shift_in_eq b)
  also have "\<dots> = d * 256 ^ length (b # bs) + of_nat (of_be (b # bs))"
    by (simp only: of_be.simps of_nat_add of_nat_mult of_nat_power of_nat_numeral
        length_Cons power_Suc distrib_right mult.assoc add.assoc)
  finally show ?case .
qed simp

lemma u128_of_bytes_eq: "u128_of_bytes bs = of_nat (of_be bs)"
  by (simp add: u128_of_bytes_def foldl_shift_in)

lemma of_be_append: "of_be (xs @ ys) = of_be xs * 256 ^ length ys + of_be ys"
  by (induction xs) (simp_all add: power_add algebra_simps)

lemma u128_of_bytes_append16:
  assumes "length ys = 16"
  shows "u128_of_bytes (xs @ ys) = u128_of_bytes ys"
proof -
  have "(256 :: u128) ^ 16 = 2 ^ (8 * 16)"
    by (subst power_mult) simp
  also have "\<dots> = 0" by (simp only: exp_eq_zero_iff) simp
  finally have "of_nat (256 ^ 16) = (0 :: u128)" by (simp only: of_nat_power of_nat_numeral)
  with assms show ?thesis
    by (simp only: u128_of_bytes_eq of_be_append of_nat_add of_nat_mult mult_zero_right add_0_left)
qed

lemma unat_u128_of_bytes: "length bs \<le> 16 \<Longrightarrow> unat (u128_of_bytes bs) = of_be bs"
proof -
  assume "length bs \<le> 16"
  then have "(256 :: nat) ^ length bs \<le> 256 ^ 16" by (rule power_increasing) simp
  with of_be_less [of bs] have "of_be bs < 2 ^ 128" by simp
  then show ?thesis by (simp add: u128_of_bytes_eq unat_of_nat)
qed

section \<open>Bytewise XOR\<close>

lemma xor_eq_0_iff: "(a :: byte) XOR b = 0 \<longleftrightarrow> a = b"
  by (metis xor.assoc xor.left_neutral xor_self_eq)

lemma map2_xor_commute: "map2 (XOR) xs ys = map2 (XOR) ys (xs :: bytes)"
  by (induction xs ys rule: list_induct2') (auto simp: xor.commute)

lemma map2_xor_self: "map2 (XOR) xs (xs :: bytes) = replicate (length xs) 0"
  by (induction xs) auto

lemma of_be_replicate_0 [simp]: "of_be (replicate n 0) = 0"
  by (induction n) auto

lemma map2_xor_cancel:
  "length xs = length ys \<Longrightarrow> length ys = length zs \<Longrightarrow>
   map2 (XOR) xs ys = map2 (XOR) xs (zs :: bytes) \<longleftrightarrow> ys = zs"
proof (induction xs ys zs rule: list_induct3)
  case (Cons x xs y ys z zs)
  have "x XOR y = x XOR z \<longleftrightarrow> y = z"
    by (metis xor.assoc xor.left_neutral xor_self_eq)
  with Cons.IH show ?case by simp
qed simp

text \<open>
  The property behind both: two identities that agree on their last 16 bytes are at
  distance zero, whatever their first 16 bytes are.
\<close>

lemma id_distance_low:
  "id_distance a b = u128_of_bytes (map2 (XOR) (drop 16 (as_bytes a)) (drop 16 (as_bytes b)))"
proof -
  have "map2 (XOR) (as_bytes a) (as_bytes b)
      = map2 (XOR) (take 16 (as_bytes a)) (take 16 (as_bytes b))
        @ map2 (XOR) (drop 16 (as_bytes a)) (drop 16 (as_bytes b))"
    by (metis append_take_drop_id drop_map drop_zip take_map take_zip)
  then show ?thesis by (simp add: id_distance_def u128_of_bytes_append16)
qed

text \<open>NodeID::distance of two identities that agree on their last 16 bytes is zero,
  whatever their first 16 bytes are.\<close>

theorem distance_ignores_high_half:
  assumes "drop 16 (as_bytes a) = drop 16 (as_bytes b)"
  shows "id_distance a b = 0"
  using assms by (simp add: id_distance_low map2_xor_self u128_of_bytes_eq)

theorem distance_ignores_high_half_witness:
  "id_distance (B32 (replicate 16 1 @ replicate 16 7)) (B32 (replicate 16 2 @ replicate 16 7)) = 0"
  by (rule distance_ignores_high_half) simp

end
