(* ===== verification/HashMap.thy ===== *)
theory HashMap
  imports Prelude
begin

text \<open>
  The hash maps of the code (\<open>std::collections::HashMap\<close>) as association lists without
  repeated keys: the list order is the iteration order of the map, so lookups, sizes,
  \<open>retain\<close> and iteration all compute. The locale \<open>map_store\<close> states what the components
  rely on.
\<close>

section \<open>The operations\<close>

type_synonym ('k, 'v) hashmap = "('k \<times> 'v) list"

definition hm_ok :: "('k, 'v) hashmap \<Rightarrow> bool" where
  "hm_ok m \<longleftrightarrow> distinct (map fst m)"

definition hm_empty :: "('k, 'v) hashmap" where
  "hm_empty = []"

definition hm_get :: "('k, 'v) hashmap \<Rightarrow> 'k \<Rightarrow> 'v option" where
  "hm_get m k = map_of m k"

definition hm_contains :: "('k, 'v) hashmap \<Rightarrow> 'k \<Rightarrow> bool" where
  "hm_contains m k \<longleftrightarrow> hm_get m k \<noteq> None"

definition hm_insert :: "'k \<Rightarrow> 'v \<Rightarrow> ('k, 'v) hashmap \<Rightarrow> ('k, 'v) hashmap" where
  "hm_insert k v m = AList.update k v m"

definition hm_remove :: "'k \<Rightarrow> ('k, 'v) hashmap \<Rightarrow> ('k, 'v) hashmap" where
  "hm_remove k m = AList.delete k m"

definition hm_retain :: "('k \<Rightarrow> 'v \<Rightarrow> bool) \<Rightarrow> ('k, 'v) hashmap \<Rightarrow> ('k, 'v) hashmap" where
  "hm_retain P m = filter (\<lambda>(k, v). P k v) m"

definition hm_len :: "('k, 'v) hashmap \<Rightarrow> nat" where
  "hm_len m = length m"

definition hm_keys :: "('k, 'v) hashmap \<Rightarrow> 'k list" where
  "hm_keys m = map fst m"

definition hm_values :: "('k, 'v) hashmap \<Rightarrow> 'v list" where
  "hm_values m = map snd m"

text \<open>\<open>if let Some(v) = map.get_mut(&k) { *v = f(v) }\<close>\<close>

definition hm_modify :: "'k \<Rightarrow> ('v \<Rightarrow> 'v) \<Rightarrow> ('k, 'v) hashmap \<Rightarrow> ('k, 'v) hashmap" where
  "hm_modify k f m = (case hm_get m k of None \<Rightarrow> m | Some v \<Rightarrow> hm_insert k (f v) m)"

lemmas hm_defs = hm_ok_def hm_empty_def hm_get_def hm_insert_def hm_remove_def hm_len_def

section \<open>The contract of a map\<close>

locale map_store =
  fixes empty :: "'m" and get :: "'m \<Rightarrow> 'k \<Rightarrow> 'v option"
    and insert :: "'k \<Rightarrow> 'v \<Rightarrow> 'm \<Rightarrow> 'm" and remove :: "'k \<Rightarrow> 'm \<Rightarrow> 'm"
    and len :: "'m \<Rightarrow> nat" and ok :: "'m \<Rightarrow> bool"
  assumes get_empty: "get empty k = None"
    and get_insert: "get (insert k v m) j = (if j = k then Some v else get m j)"
    and get_remove: "get (remove k m) j = (if j = k then None else get m j)"
    and len_empty: "len empty = 0"
    and len_insert: "len (insert k v m) = (if get m k = None then Suc (len m) else len m)"
    and len_remove: "ok m \<Longrightarrow> len (remove k m) = (if get m k = None then len m else len m - 1)"
    and len_pos: "get m k = Some v \<Longrightarrow> 0 < len m"
    and ok_empty: "ok empty"
    and ok_insert: "ok m \<Longrightarrow> ok (insert k v m)"
    and ok_remove: "ok m \<Longrightarrow> ok (remove k m)"
begin

lemma get_insert_same: "get (insert k v m) k = Some v"
  by (simp add: get_insert)

lemma get_insert_other: "j \<noteq> k \<Longrightarrow> get (insert k v m) j = get m j"
  by (simp add: get_insert)

lemma get_remove_same: "get (remove k m) k = None"
  by (simp add: get_remove)

lemma get_remove_SomeD: "get (remove k m) j = Some v \<Longrightarrow> j \<noteq> k \<and> get m j = Some v"
  by (simp add: get_remove split: if_splits)

text \<open>Replacing the entry of a present key, or making room first, keeps a size bound.\<close>

lemma len_insert_le: "len (insert k v m) \<le> Suc (len m)"
  by (simp add: len_insert)

lemma bound_insert_present: "len m \<le> n \<Longrightarrow> get m k = Some w \<Longrightarrow> len (insert k v m) \<le> n"
  by (simp add: len_insert)

lemma bound_insert_room: "len m < n \<Longrightarrow> len (insert k v m) \<le> n"
  by (simp add: len_insert)

lemma bound_evict_insert:
  assumes "ok m" and "len m \<le> n" and "get m old = Some w"
  shows "len (insert k v (remove old m)) \<le> n"
proof -
  have "len (remove old m) = len m - 1" using assms by (simp add: len_remove)
  moreover have "0 < len m" using len_pos assms(3) by blast
  ultimately show ?thesis using assms(2) len_insert_le [of k v "remove old m"] by linarith
qed

end

lemma hm_get_mem: "hm_get m k = Some v \<Longrightarrow> (k, v) \<in> set m"
  by (simp add: hm_get_def map_of_SomeD)

lemma hm_get_iff: "hm_ok m \<Longrightarrow> hm_get m k = Some v \<longleftrightarrow> (k, v) \<in> set m"
  by (simp add: hm_get_def hm_ok_def map_of_eq_Some_iff)

lemma hm_get_None: "hm_get m k = None \<longleftrightarrow> k \<notin> fst ` set m"
  by (simp add: hm_get_def map_of_eq_None_iff)

lemma length_update: "length (AList.update k v m) = (if map_of m k = None then Suc (length m) else length m)"
  by (induction m) auto

lemma delete_not_in: "k \<notin> fst ` set m \<Longrightarrow> AList.delete k m = m"
  by (rule delete_id)

lemma length_delete_distinct:
  "distinct (map fst m) \<Longrightarrow> length (AList.delete k m) = (if map_of m k = None then length m else length m - 1)"
proof (induction m)
  case (Cons p m)
  obtain a v where p: "p = (a, v)" by force
  show ?case
  proof (cases "a = k")
    case True
    with Cons.prems p have "AList.delete k m = m" by (intro delete_not_in) auto
    with True p show ?thesis by simp
  next
    case False
    moreover have "map_of m k \<noteq> None \<Longrightarrow> 0 < length m" by (cases m) auto
    moreover have "length (AList.delete k m) = (if map_of m k = None then length m else length m - 1)"
      using Cons by simp
    ultimately show ?thesis using p by (auto simp del: map_of_eq_None_iff split: if_splits)
  qed
qed simp

interpretation hm: map_store hm_empty hm_get hm_insert hm_remove hm_len hm_ok
proof unfold_locales
  fix m :: "('k, 'v) hashmap" and k j :: 'k and v :: 'v
  show "hm_get hm_empty k = (None :: 'v option)" by (simp add: hm_defs)
  show "hm_get (hm_insert k v m) j = (if j = k then Some v else hm_get m j)"
    by (simp add: hm_defs update_conv')
  show "hm_get (hm_remove k m) j = (if j = k then None else hm_get m j)"
    by (simp add: hm_defs delete_conv')
  show "hm_len (hm_empty :: ('k, 'v) hashmap) = 0" by (simp add: hm_defs)
  show "hm_len (hm_insert k v m) = (if hm_get m k = None then Suc (hm_len m) else hm_len m)"
    by (simp add: hm_defs length_update)
  show "hm_len (hm_remove k m) = (if hm_get m k = None then hm_len m else hm_len m - 1)"
    if "hm_ok m"
    using that length_delete_distinct [of m k] by (simp only: hm_defs)
  show "0 < hm_len m" if "hm_get m k = Some v"
    using that by (cases m) (auto simp: hm_defs)
  show "hm_ok (hm_empty :: ('k, 'v) hashmap)" by (simp add: hm_defs)
  show "hm_ok (hm_insert k v m)" if "hm_ok m"
    using that by (simp add: hm_defs distinct_update)
  show "hm_ok (hm_remove k m)" if "hm_ok m"
    using that by (simp add: hm_defs distinct_delete)
qed

lemmas hm_simps = hm.get_empty hm.get_insert hm.get_remove hm.len_empty hm.len_insert
  hm.ok_empty hm.ok_insert hm.ok_remove

lemma hm_ok_retain [simp]: "hm_ok m \<Longrightarrow> hm_ok (hm_retain P m)"
  unfolding hm_ok_def hm_retain_def by (rule distinct_map_filter)

lemma hm_get_retain_Some:
  "hm_ok m \<Longrightarrow> hm_get (hm_retain P m) k = Some v \<longleftrightarrow> hm_get m k = Some v \<and> P k v"
  by (simp add: hm_get_iff) (auto simp: hm_retain_def)

lemma hm_get_retain:
  assumes ok: "hm_ok m"
  shows "hm_get (hm_retain P m) k
     = (case hm_get m k of Some v \<Rightarrow> if P k v then Some v else None | None \<Rightarrow> None)"
proof (cases "hm_get (hm_retain P m) k")
  case None
  then have "\<not> (hm_get m k = Some v \<and> P k v)" for v
    using hm_get_retain_Some [OF ok, of P k v] by simp
  with None show ?thesis by (cases "hm_get m k") auto
next
  case (Some v)
  then show ?thesis using hm_get_retain_Some [OF ok, of P k v] by simp
qed

lemma hm_len_retain: "hm_len (hm_retain P m) \<le> hm_len m"
  by (simp add: hm_len_def hm_retain_def)

lemma hm_ok_modify [simp]: "hm_ok m \<Longrightarrow> hm_ok (hm_modify k f m)"
  by (simp add: hm_modify_def hm.ok_insert split: option.splits)

lemma hm_get_modify:
  "hm_get (hm_modify k f m) j = (if j = k then map_option f (hm_get m k) else hm_get m j)"
  by (auto simp: hm_modify_def hm.get_insert split: option.splits)

lemma hm_len_modify [simp]: "hm_len (hm_modify k f m) = hm_len m"
  by (simp add: hm_modify_def hm.len_insert split: option.splits)

lemma hm_insert_mem: "hm_ok m \<Longrightarrow> (j, w) \<in> set (hm_insert k v m) \<longleftrightarrow> (if j = k then w = v else (j, w) \<in> set m)"
  by (simp add: hm_get_iff [symmetric] hm.ok_insert hm.get_insert) auto

lemma hm_remove_mem: "hm_ok m \<Longrightarrow> (j, w) \<in> set (hm_remove k m) \<longleftrightarrow> j \<noteq> k \<and> (j, w) \<in> set m"
  by (simp add: hm_get_iff [symmetric] hm.ok_remove hm.get_remove)

lemma hm_values_insert: "x \<in> set (hm_values (hm_insert k v m)) \<Longrightarrow> x = v \<or> x \<in> set (hm_values m)"
  by (induction m) (auto simp: hm_values_def hm_insert_def split: if_splits)

section \<open>Building one map from the entries of another\<close>

text \<open>Collecting entries under the keys \<open>g k v\<close>.\<close>

lemma hm_get_Cons: "hm_get ((k, v) # m) j = (if k = j then Some v else hm_get m j)"
  by (simp add: hm_get_def)

lemma fold_insert_get:
  assumes "distinct (map (\<lambda>(k, v). g k v) kvs)"
  shows "hm_get (fold (\<lambda>(k, v). hm_insert (g k v) v) kvs m) j
    = (case List.find (\<lambda>(k, v). g k v = j) kvs of Some (_, v) \<Rightarrow> Some v | None \<Rightarrow> hm_get m j)"
  using assms
proof (induction kvs arbitrary: m)
  case (Cons kv kvs)
  obtain k v where kv: "kv = (k, v)" by force
  have "g k v = j \<Longrightarrow> List.find (\<lambda>(k, v). g k v = j) kvs = None"
    using Cons.prems by (force simp: kv find_None_iff)
  with Cons show ?case by (auto simp: kv hm_simps split: option.split)
qed simp

lemma fold_insert_ok: "hm_ok m \<Longrightarrow> hm_ok (fold (\<lambda>(k, v). hm_insert (g k v) v) kvs m)"
  by (induction kvs arbitrary: m) (auto simp: hm_simps)

lemma hm_rekey:
  assumes ok: "hm_ok kvs" and inj: "inj f"
  shows "hm_get (fold (\<lambda>(k, v). hm_insert (f k) v) kvs hm_empty) (f i) = hm_get kvs i"
    and "hm_get (fold (\<lambda>(k, v). hm_insert (f k) v) kvs hm_empty) j \<noteq> None \<Longrightarrow> \<exists>i. j = f i"
proof -
  have "map (\<lambda>(k, v). f k) kvs = map f (map fst kvs)" by (simp add: comp_def case_prod_beta')
  moreover have "distinct (map f (map fst kvs))"
    using ok inj by (subst distinct_map) (auto simp: hm_ok_def intro: inj_on_subset)
  ultimately have d: "distinct (map (\<lambda>(k, v). f k) kvs)" by (simp only:)
  note get = fold_insert_get [OF d, of hm_empty]
  show "hm_get (fold (\<lambda>(k, v). hm_insert (f k) v) kvs hm_empty) (f i) = hm_get kvs i"
  proof -
    have "f a = f b \<longleftrightarrow> a = b" for a b using inj by (auto simp: inj_def)
    then have "(case List.find (\<lambda>(k, v). f k = f i) kvs of Some (_, v) \<Rightarrow> Some v | None \<Rightarrow> None) = hm_get kvs i"
      by (induction kvs) (auto simp: hm_get_def)
    then show ?thesis unfolding get hm.get_empty .
  qed
  show "\<exists>i. j = f i" if "hm_get (fold (\<lambda>(k, v). hm_insert (f k) v) kvs hm_empty) j \<noteq> None"
    using that unfolding get by (auto simp: hm_simps find_Some_iff split: option.splits)
qed

section \<open>Hash sets\<close>

text \<open>A \<open>HashSet\<close> is a list without repetitions, in its iteration order.\<close>

definition hs_insert :: "'a \<Rightarrow> 'a list \<Rightarrow> 'a list" where
  "hs_insert x s = (if x \<in> set s then s else s @ [x])"

definition hs_collect :: "'a list \<Rightarrow> 'a list" where
  "hs_collect xs = fold hs_insert xs []"

lemma fold_hs_insert:
  "set (fold hs_insert xs s) = set s \<union> set xs"
  "distinct s \<Longrightarrow> distinct (fold hs_insert xs s)"
  by (induction xs arbitrary: s) (auto simp: hs_insert_def)

lemma set_hs_collect [simp]: "set (hs_collect xs) = set xs"
  by (simp add: hs_collect_def fold_hs_insert)

lemma distinct_hs_collect [simp]: "distinct (hs_collect xs)"
  by (simp add: hs_collect_def fold_hs_insert)

lemma keys_insert: "fst ` set (hm_insert k v b) = insert k (fst ` set b)"
  by (simp add: hm_insert_def dom_update)

end
