(* ===== verification/Wire.thy ===== *)
theory Wire
  imports Prelude
begin

text \<open>
  The one-byte type tags that the protocols put in front of their payloads. Each message
  enumeration of the code has \<open>from_u8\<close> and \<open>to_u8\<close>; the locale states what the framing
  relies on, and every enumeration interprets it.
\<close>

locale wire_tag =
  fixes to_u8 :: "'t \<Rightarrow> byte" and from_u8 :: "byte \<Rightarrow> 't option"
  assumes from_to: "from_u8 (to_u8 t) = Some t"
    and to_from: "from_u8 b = Some t \<Longrightarrow> to_u8 t = b"
begin

lemma to_u8_inject: "to_u8 s = to_u8 t \<longleftrightarrow> s = t"
  using from_to by (metis option.inject)

lemma from_u8_iff: "from_u8 b = Some t \<longleftrightarrow> b = to_u8 t"
  using from_to to_from by blast

lemma from_u8_None: "from_u8 b = None \<longleftrightarrow> b \<notin> range to_u8"
  using from_u8_iff by (metis not_None_eq rangeE rangeI)

end

end
