(* ===== verification/Relay.thy ===== *)
theory Relay
  imports NodeId HashMap Wire
begin

text \<open>
  TCP relay communication (\<open>src/vpn/relay.rs\<close>): the message frame and its codec, the
  server's reading of frames from a byte stream, the connection pool, and the relay
  manager that sends to a known node or through a relay. Sockets are outside: a record of
  functions says what connecting, cloning, probing and writing return. A connection that the
  accept loop serves is one step, without the threads.
\<close>

section \<open>Message types and frames\<close>

datatype message_type =
  MtHandshake | MtData | MtAck | MtHeartbeat | MtRelay | MtRegistry | MtDht | MtRoute | MtSelfHeal

definition message_type_from_u8 :: "byte \<Rightarrow> message_type option" where
  "message_type_from_u8 b =
     (if b = 0x01 then Some MtHandshake
      else if b = 0x02 then Some MtData
      else if b = 0x03 then Some MtAck
      else if b = 0x04 then Some MtHeartbeat
      else if b = 0x05 then Some MtRelay
      else if b = 0x06 then Some MtRegistry
      else if b = 0x07 then Some MtDht
      else if b = 0x08 then Some MtRoute
      else if b = 0x09 then Some MtSelfHeal
      else None)"

fun message_type_to_u8 :: "message_type \<Rightarrow> byte" where
  "message_type_to_u8 MtHandshake = 0x01"
| "message_type_to_u8 MtData = 0x02"
| "message_type_to_u8 MtAck = 0x03"
| "message_type_to_u8 MtHeartbeat = 0x04"
| "message_type_to_u8 MtRelay = 0x05"
| "message_type_to_u8 MtRegistry = 0x06"
| "message_type_to_u8 MtDht = 0x07"
| "message_type_to_u8 MtRoute = 0x08"
| "message_type_to_u8 MtSelfHeal = 0x09"

interpretation mt: wire_tag message_type_to_u8 message_type_from_u8
proof unfold_locales
  fix t b
  show "message_type_from_u8 (message_type_to_u8 t) = Some t"
    by (cases t) (simp_all add: message_type_from_u8_def)
  show "message_type_from_u8 b = Some t \<Longrightarrow> message_type_to_u8 t = b"
    by (auto simp: message_type_from_u8_def split: if_splits)
qed

datatype io_error = UnexpectedEof | WouldBlock | OtherIo string

datatype relay_error =
  IoError io_error | ConnectionError string | ParseError string
| PoolFull | Unreachable string | RelayTimeout

record message =
  msg_type :: message_type
  payload :: bytes

definition message_new :: "message_type \<Rightarrow> bytes \<Rightarrow> message" where
  "message_new t p = \<lparr>msg_type = t, payload = p\<rparr>"

text \<open>\<open>payload.len() as u32\<close> keeps the low 32 bits, which \<open>to_be 4\<close> does.\<close>

definition message_to_bytes :: "message \<Rightarrow> bytes" where
  "message_to_bytes m =
     to_be 4 (length (payload m)) @ [message_type_to_u8 (msg_type m)] @ payload m"

definition message_from_bytes :: "bytes \<Rightarrow> relay_error + message" where
  "message_from_bytes data =
     (if length data < 5 then Inl (ParseError ''message too short'')
      else
        let len = of_be (sub_slice data 0 4) in
        case message_type_from_u8 (data ! 4) of
          None \<Rightarrow> Inl (ParseError (''invalid message type: '' @ show_nat (unat (data ! 4))))
        | Some t \<Rightarrow>
            if length data < 5 + len
            then Inl (ParseError (''payload too short: expected '' @ show_nat len @ '' bytes''))
            else Inr \<lparr>msg_type = t, payload = sub_slice data 5 (5 + len)\<rparr>)"

section \<open>Reading frames from a stream\<close>

text \<open>
  The stream is the list of bytes that arrive before the peer closes; \<open>read_exact n\<close>
  takes \<open>n\<close> of them or fails with \<open>UnexpectedEof\<close>.
\<close>

definition read_exact :: "nat \<Rightarrow> bytes \<Rightarrow> io_error + bytes \<times> bytes" where
  "read_exact n s = (if length s < n then Inl UnexpectedEof else Inr (take n s, drop n s))"

definition max_message_len :: nat where
  "max_message_len = 1024 * 1024"

definition read_message :: "bytes \<Rightarrow> relay_error + ((node_id \<times> message) \<times> bytes) option" where
  "read_message s =
     (case read_exact 4 s of
        Inl e \<Rightarrow> if e = UnexpectedEof \<or> e = WouldBlock then Inr None else Inl (IoError e)
      | Inr (len_buf, s1) \<Rightarrow>
          let len = of_be len_buf in
          if max_message_len < len then Inl (ParseError ''message too large'')
          else case read_exact 1 s1 of
            Inl e \<Rightarrow> Inl (IoError e)
          | Inr (type_buf, s2) \<Rightarrow>
              (case read_exact len s2 of
                 Inl e \<Rightarrow> Inl (IoError e)
               | Inr (p, s3) \<Rightarrow>
                   (case message_type_from_u8 (type_buf ! 0) of
                      None \<Rightarrow> Inl (ParseError (''invalid type: '' @ show_nat (unat (type_buf ! 0))))
                    | Some t \<Rightarrow> Inr (Some ((fill32 0, \<lparr>msg_type = t, payload = p\<rparr>), s3)))))"

lemma read_message_shrinks: "read_message s = Inr (Some (m, s')) \<Longrightarrow> length s' < length s"
  by (auto simp: read_message_def read_exact_def Let_def split: sum.splits if_splits option.splits) arith

text \<open>
  The loop of \<open>handle_connection\<close> while the server runs: the messages it records. Its argument
  is what arrives before the stream ends. The end is the peer closing the connection or a
  read that waits longer than the timeout: \<open>read_message\<close> treats the two errors alike.
\<close>

function handle_connection :: "bytes \<Rightarrow> (node_id \<times> message) list" where
  "handle_connection s =
     (case read_message s of
        Inr (Some (m, s')) \<Rightarrow> m # handle_connection s'
      | Inr None \<Rightarrow> []
      | Inl e \<Rightarrow> [])"
  by pat_completeness auto
termination
  by (relation "measure length") (auto dest: read_message_shrinks)

declare handle_connection.simps [simp del]

text \<open>The bytes of a stream with the time each group of them keeps the reader waiting.\<close>

definition connection_read_timeout :: duration where
  "connection_read_timeout = from_secs 30"

fun before_timeout :: "(duration \<times> bytes) list \<Rightarrow> bytes" where
  "before_timeout [] = []"
| "before_timeout ((wait, b) # rest) = (if connection_read_timeout \<le> wait then [] else b @ before_timeout rest)"

definition handle_timed_connection :: "(duration \<times> bytes) list \<Rightarrow> (node_id \<times> message) list" where
  "handle_timed_connection chunks = handle_connection (before_timeout chunks)"

text \<open>
  The TCP server. Binding the port is a function from the address to the error, if there is
  one; a connection is the bytes that its peer writes before it closes.
\<close>

record tcp_server =
  tcp_listen_addr :: string
  tcp_local_id :: node_id
  tcp_running :: bool
  tcp_received :: "(node_id \<times> message) list"

definition server_new :: "node_id \<Rightarrow> u16 \<Rightarrow> tcp_server" where
  "server_new i port =
     \<lparr>tcp_listen_addr = ''0.0.0.0:'' @ show_nat (unat port), tcp_local_id = i, tcp_running = False, tcp_received = []\<rparr>"

definition server_start :: "(string \<Rightarrow> io_error option) \<Rightarrow> tcp_server \<Rightarrow> tcp_server \<times> (relay_error + unit)" where
  "server_start bind srv =
     (case bind (tcp_listen_addr srv) of
        Some e \<Rightarrow> (srv, Inl (IoError e))
      | None \<Rightarrow> (srv\<lparr>tcp_running := True\<rparr>, Inr ()))"

definition server_stop :: "tcp_server \<Rightarrow> tcp_server" where
  "server_stop srv = srv\<lparr>tcp_running := False\<rparr>"

definition server_accept :: "bytes \<Rightarrow> tcp_server \<Rightarrow> tcp_server" where
  "server_accept stream srv =
     (if tcp_running srv then srv\<lparr>tcp_received := tcp_received srv @ handle_connection stream\<rparr> else srv)"

definition take_received :: "tcp_server \<Rightarrow> tcp_server \<times> (node_id \<times> message) list" where
  "take_received srv = (srv\<lparr>tcp_received := []\<rparr>, tcp_received srv)"

section \<open>The connection pool\<close>

type_synonym stream = nat

record net_env =
  ne_alive :: "stream \<Rightarrow> bool"
  ne_connect :: "string \<Rightarrow> io_error + stream"
  ne_clone :: "stream \<Rightarrow> io_error + stream"
  ne_write :: "stream \<Rightarrow> bytes \<Rightarrow> io_error option"

record pooled_connection =
  pc_stream :: stream
  pc_peer_id :: "node_id option"
  pc_last_used :: instant
  pc_in_use :: bool

definition pooled_new :: "instant \<Rightarrow> stream \<Rightarrow> pooled_connection" where
  "pooled_new now s = \<lparr>pc_stream = s, pc_peer_id = None, pc_last_used = now, pc_in_use = False\<rparr>"

definition pooled_is_idle :: "instant \<Rightarrow> duration \<Rightarrow> pooled_connection \<Rightarrow> bool" where
  "pooled_is_idle now max_idle c \<longleftrightarrow> \<not> pc_in_use c \<and> max_idle < elapsed now (pc_last_used c)"

record connection_pool =
  cp_connections :: "(string, pooled_connection list) hashmap"
  cp_max_size :: nat
  cp_max_idle :: duration
  cp_active_count :: u64

definition pool_new :: "nat \<Rightarrow> connection_pool" where
  "pool_new n = \<lparr>cp_connections = hm_empty, cp_max_size = n, cp_max_idle = from_secs 60,
                 cp_active_count = 0\<rparr>"

text \<open>
  The search loops of the pool: the first connection that satisfies a test is rewritten.
\<close>

fun update_first :: "('a \<Rightarrow> bool) \<Rightarrow> ('a \<Rightarrow> 'a) \<Rightarrow> 'a list \<Rightarrow> ('a \<times> 'a list) option" where
  "update_first p f [] = None"
| "update_first p f (x # xs) =
     (if p x then Some (f x, f x # xs)
      else map_option (\<lambda>(y, ys). (y, x # ys)) (update_first p f xs))"

definition get_connection ::
  "net_env \<Rightarrow> instant \<Rightarrow> string \<Rightarrow> connection_pool \<Rightarrow> connection_pool \<times> (relay_error + stream)" where
  "get_connection env now addr cp =
     (let conns = (if hm_contains (cp_connections cp) addr then cp_connections cp
                   else hm_insert addr [] (cp_connections cp));
          pool = (case hm_get conns addr of Some p \<Rightarrow> p | None \<Rightarrow> []);
          cp0 = cp\<lparr>cp_connections := conns\<rparr>
      in case update_first (\<lambda>c. \<not> pc_in_use c \<and> ne_alive env (pc_stream c))
                           (\<lambda>c. c\<lparr>pc_in_use := True, pc_last_used := now\<rparr>) pool of
           Some (c, pool') \<Rightarrow>
             (cp0\<lparr>cp_connections := hm_insert addr pool' conns,
                  cp_active_count := cp_active_count cp + 1\<rparr>,
              map_sum IoError id (ne_clone env (pc_stream c)))
         | None \<Rightarrow>
             if length pool < cp_max_size cp then
               (case ne_connect env addr of
                  Inl e \<Rightarrow> (cp0, Inl (IoError e))
                | Inr s \<Rightarrow>
                    (case ne_clone env s of
                       Inl e \<Rightarrow> (cp0, Inl (IoError e))
                     | Inr s' \<Rightarrow>
                         (cp0\<lparr>cp_connections :=
                                hm_insert addr (pool @ [(pooled_new now s')\<lparr>pc_in_use := True\<rparr>]) conns,
                              cp_active_count := cp_active_count cp + 1\<rparr>,
                          Inr s)))
             else (cp0, Inl PoolFull))"

definition return_connection ::
  "net_env \<Rightarrow> instant \<Rightarrow> string \<Rightarrow> stream \<Rightarrow> connection_pool \<Rightarrow> connection_pool" where
  "return_connection env now addr s cp =
     (case hm_get (cp_connections cp) addr of
        None \<Rightarrow> cp\<lparr>cp_active_count := cp_active_count cp - 1\<rparr>
      | Some pool \<Rightarrow>
          (case update_first (\<lambda>c. pc_in_use c \<and> ne_alive env (pc_stream c))
                             (\<lambda>c. c\<lparr>pc_in_use := False, pc_last_used := now\<rparr>) pool of
             None \<Rightarrow> cp\<lparr>cp_active_count := cp_active_count cp - 1\<rparr>
           | Some (_, pool') \<Rightarrow>
               cp\<lparr>cp_connections := hm_insert addr pool' (cp_connections cp),
                  cp_active_count := cp_active_count cp - 1\<rparr>))"

definition cleanup_idle :: "instant \<Rightarrow> connection_pool \<Rightarrow> connection_pool" where
  "cleanup_idle now cp =
     cp\<lparr>cp_connections :=
          map (\<lambda>(a, pool). (a, filter (\<lambda>c. \<not> pooled_is_idle now (cp_max_idle cp) c) pool))
              (cp_connections cp)\<rparr>"

definition pool_clear :: "connection_pool \<Rightarrow> connection_pool" where
  "pool_clear cp = cp\<lparr>cp_connections := hm_empty, cp_active_count := 0\<rparr>"

section \<open>Client and relay manager\<close>

text \<open>A write is what reaches a stream; the last component of the result is the return value.\<close>

definition server_send :: "net_env \<Rightarrow> stream \<Rightarrow> message \<Rightarrow> (stream \<times> bytes) list \<times> (relay_error + unit)" where
  "server_send env s m =
     (let data = message_to_bytes m in
      ([(s, data)], (case ne_write env s data of Some e \<Rightarrow> Inl (IoError e) | None \<Rightarrow> Inr ())))"

definition send_message ::
  "net_env \<Rightarrow> instant \<Rightarrow> string \<Rightarrow> message \<Rightarrow> connection_pool
   \<Rightarrow> connection_pool \<times> (stream \<times> bytes) list \<times> (relay_error + unit)" where
  "send_message env now addr m cp =
     (case get_connection env now addr cp of
        (cp1, Inl e) \<Rightarrow> (cp1, [], Inl e)
      | (cp1, Inr s) \<Rightarrow>
          (case server_send env s m of
             (w, r) \<Rightarrow> (return_connection env now addr s cp1, w, r)))"

record relay_manager =
  rm_local_id :: node_id
  rm_server :: tcp_server
  rm_pool :: connection_pool
  rm_known_nodes :: "(node_id, string) hashmap"
  rm_relay_table :: "(node_id, string) hashmap"

definition default_pool_size :: nat where
  "default_pool_size = 10"

definition relay_new :: "node_id \<Rightarrow> u16 \<Rightarrow> relay_manager" where
  "relay_new i port = \<lparr>rm_local_id = i, rm_server = server_new i port, rm_pool = pool_new default_pool_size,
                  rm_known_nodes = hm_empty, rm_relay_table = hm_empty\<rparr>"

definition relay_start ::
  "(string \<Rightarrow> io_error option) \<Rightarrow> relay_manager \<Rightarrow> relay_manager \<times> (relay_error + unit)" where
  "relay_start bind rm = (case server_start bind (rm_server rm) of (srv, r) \<Rightarrow> (rm\<lparr>rm_server := srv\<rparr>, r))"

definition relay_stop :: "relay_manager \<Rightarrow> relay_manager" where
  "relay_stop rm = rm\<lparr>rm_server := server_stop (rm_server rm)\<rparr>"

definition register_node :: "node_id \<Rightarrow> string \<Rightarrow> relay_manager \<Rightarrow> relay_manager" where
  "register_node i addr rm = rm\<lparr>rm_known_nodes := hm_insert i addr (rm_known_nodes rm)\<rparr>"

definition get_node_addr :: "relay_manager \<Rightarrow> node_id \<Rightarrow> string option" where
  "get_node_addr rm i = hm_get (rm_known_nodes rm) i"

definition set_relay :: "node_id \<Rightarrow> string \<Rightarrow> relay_manager \<Rightarrow> relay_manager" where
  "set_relay target next_hop rm = rm\<lparr>rm_relay_table := hm_insert target next_hop (rm_relay_table rm)\<rparr>"

definition via_client ::
  "net_env \<Rightarrow> instant \<Rightarrow> string \<Rightarrow> message \<Rightarrow> relay_manager
   \<Rightarrow> relay_manager \<times> (stream \<times> bytes) list \<times> (relay_error + unit)" where
  "via_client env now addr m rm =
     (case send_message env now addr m (rm_pool rm) of
        (cp, w, r) \<Rightarrow> (rm\<lparr>rm_pool := cp\<rparr>, w, r))"

definition relay_send ::
  "(bytes \<Rightarrow> string) \<Rightarrow> net_env \<Rightarrow> instant \<Rightarrow> node_id \<Rightarrow> message \<Rightarrow> relay_manager
   \<Rightarrow> relay_manager \<times> (stream \<times> bytes) list \<times> (relay_error + unit)" where
  "relay_send hex env now target m rm =
     (case get_node_addr rm target of
        Some addr \<Rightarrow> via_client env now addr m rm
      | None \<Rightarrow>
          (case hm_get (rm_relay_table rm) target of
             Some next_hop \<Rightarrow> via_client env now next_hop (message_new MtRelay (as_bytes target)) rm
           | None \<Rightarrow> (rm, [], Inl (Unreachable (id_to_hex hex target)))))"

definition relay_forward ::
  "(bytes \<Rightarrow> string) \<Rightarrow> net_env \<Rightarrow> instant \<Rightarrow> node_id \<Rightarrow> bytes \<Rightarrow> relay_manager
   \<Rightarrow> relay_manager \<times> (stream \<times> bytes) list \<times> (relay_error + unit)" where
  "relay_forward hex env now target p rm =
     (case get_node_addr rm target of
        None \<Rightarrow> (rm, [], Inl (Unreachable (id_to_hex hex target)))
      | Some addr \<Rightarrow> via_client env now addr (message_new MtData p) rm)"

section \<open>The frame codec\<close>

lemma length_message_to_bytes: "length (message_to_bytes m) = 5 + length (payload m)"
  by (simp add: message_to_bytes_def)

lemma message_header:
  assumes "length (payload m) < 2 ^ 32"
  shows "of_be (take 4 (message_to_bytes m @ rest)) = length (payload m)"
    and "(message_to_bytes m @ rest) ! 4 = message_type_to_u8 (msg_type m)"
    and "drop 5 (message_to_bytes m @ rest) = payload m @ rest"
  using assms by (simp_all add: message_to_bytes_def of_be_to_be_id nth_append)

text \<open>Parsing the bytes of a message gives the message back, whatever follows them, when
  its payload is shorter than 2^32 bytes.\<close>

theorem message_roundtrip:
  assumes "length (payload m) < 2 ^ 32"
  shows "message_from_bytes (message_to_bytes m @ rest) = Inr m"
  using message_header [OF assms, of rest]
  by (simp add: message_from_bytes_def sub_slice_def mt.from_to length_message_to_bytes)

theorem message_roundtrip_witness:
  "message_from_bytes (message_to_bytes (message_new MtDht [1, 2]) @ [9]) = Inr (message_new MtDht [1, 2])"
  by (rule message_roundtrip) (simp add: message_new_def)

text \<open>Every input that parses as a message begins with the serialised form of that
  message: nothing else is accepted.\<close>

theorem message_from_bytes_sound:
  assumes "message_from_bytes data = Inr m"
  shows "\<exists>rest. data = message_to_bytes m @ rest"
proof -
  from assms have len: "5 + of_be (take 4 data) \<le> length data"
    and t: "data ! 4 = message_type_to_u8 (msg_type m)"
    and p: "payload m = take (of_be (take 4 data)) (drop 5 data)"
    by (auto simp: message_from_bytes_def sub_slice_def Let_def mt.from_u8_iff split: if_splits option.splits)
  have "data = take 4 data @ data ! 4 # drop 5 data"
    using len id_take_nth_drop [of 4 data] by simp
  moreover have "to_be 4 (length (payload m)) = take 4 data"
    using to_be_of_be [of "take 4 data"] len p by simp
  moreover have "drop 5 data = payload m @ drop (of_be (take 4 data)) (drop 5 data)"
    unfolding p by (rule append_take_drop_id [symmetric])
  ultimately have "data = message_to_bytes m @ drop (of_be (take 4 data)) (drop 5 data)"
    unfolding message_to_bytes_def t append_Cons append_Nil append_assoc by metis
  then show ?thesis by blast
qed

theorem message_from_bytes_sound_witness:
  "\<exists>rest. [0, 0, 0, 1, 2, 9, 77] = message_to_bytes \<lparr>msg_type = MtData, payload = [9]\<rparr> @ rest"
  by (rule message_from_bytes_sound)
     (simp add: message_from_bytes_def sub_slice_def message_type_from_u8_def Let_def)

section \<open>Framing on a stream\<close>

text \<open>What the server reads from one frame followed by anything, by the frame's length.\<close>

lemma read_message_parts:
  assumes "of_be (take 4 s) = length p" and "s ! 4 = message_type_to_u8 t"
    and "drop 5 s = p @ rest" and "length s = 5 + length p + length rest"
  shows "read_message s =
    (if max_message_len < length p then Inl (ParseError ''message too large'')
     else Inr (Some ((fill32 0, \<lparr>msg_type = t, payload = p\<rparr>), rest)))"
  using assms by (simp add: read_message_def read_exact_def mt.from_to)

lemma read_message_frame:
  assumes "length (payload m) < 2 ^ 32"
  shows "read_message (message_to_bytes m @ rest) =
    (if max_message_len < length (payload m) then Inl (ParseError ''message too large'')
     else Inr (Some ((fill32 0, m), rest)))"
  using read_message_parts [OF message_header [OF assms, of rest]]
  by (simp add: length_message_to_bytes)

lemma frames_read_back:
  assumes "\<forall>m \<in> set ms. length (payload m) \<le> max_message_len"
  shows "handle_connection (concat (map message_to_bytes ms)) = map (Pair (fill32 0)) ms"
  using assms
proof (induction ms)
  case Nil
  then show ?case by (simp add: handle_connection.simps read_message_def read_exact_def)
next
  case (Cons m ms)
  then have "length (payload m) < 2 ^ 32" by (simp add: max_message_len_def)
  with Cons show ?case
    by (simp add: handle_connection.simps [of "message_to_bytes m @ _"] read_message_frame)
qed

text \<open>C23. A server that reads a stream of serialised messages, none with a payload over 1
  MiB, records exactly those messages in order.\<close>

theorem framing_recovers_messages:
  assumes "\<forall>m \<in> set ms. length (payload m) \<le> max_message_len"
  shows "handle_connection (concat (map message_to_bytes ms)) = map (Pair (fill32 0)) ms"
  using assms by (rule frames_read_back)

theorem framing_recovers_messages_witness:
  "handle_connection (concat (map message_to_bytes [message_new MtData [7], message_new MtAck []]))
    = [(fill32 0, message_new MtData [7]), (fill32 0, message_new MtAck [])]"
  using framing_recovers_messages [of "[message_new MtData [7], message_new MtAck []]"]
  by (simp add: message_new_def max_message_len_def)

text \<open>A peer that pauses for the read timeout between its messages has those after the pause
  ignored.\<close>

theorem pause_ends_connection:
  assumes "\<forall>m \<in> set ms. length (payload m) \<le> max_message_len" and "connection_read_timeout \<le> wait"
  shows "handle_timed_connection (map (\<lambda>m. (0, message_to_bytes m)) ms @ (wait, b) # rest) = map (Pair (fill32 0)) ms"
proof -
  have "before_timeout (map (\<lambda>m. (0, message_to_bytes m)) ms @ (wait, b) # rest) = concat (map message_to_bytes ms)"
    using assms(2) by (induction ms) (simp_all add: connection_read_timeout_def from_secs_def)
  then show ?thesis using frames_read_back [OF assms(1)] by (simp add: handle_timed_connection_def)
qed

lemma oversized_frame:
  assumes "max_message_len < length (payload m)" and "length (payload m) < 2 ^ 32"
  shows "handle_connection (message_to_bytes m @ rest) = []"
  using assms by (simp add: handle_connection.simps read_message_frame)

text \<open>A message with a payload over 1 MiB, which the sender serialises without complaint,
  makes the receiving server record nothing and drop the connection.\<close>

theorem oversized_frame_closes_connection:
  assumes "max_message_len < length (payload m)" and "length (payload m) < 2 ^ 32"
  shows "handle_connection (message_to_bytes m @ rest) = []"
  using assms by (rule oversized_frame)

theorem oversized_frame_closes_connection_witness:
  "handle_connection (message_to_bytes (message_new MtData (replicate (max_message_len + 1) 0)) @ [])
    = []"
  by (rule oversized_frame_closes_connection) (simp_all add: message_new_def max_message_len_def)

section \<open>What a send writes\<close>

lemma send_message_writes:
  "send_message env now addr m cp = (cp', w, Inr ()) \<Longrightarrow> \<exists>s. w = [(s, message_to_bytes m)]"
  by (auto simp: send_message_def server_send_def Let_def split: prod.splits sum.splits option.splits)

lemma via_client_writes:
  "via_client env now addr m rm = (rm', w, Inr ()) \<Longrightarrow> \<exists>s. w = [(s, message_to_bytes m)]"
  by (auto simp: via_client_def dest: send_message_writes split: prod.splits)

text \<open>A successful send to a node with a known address writes one frame, from which the
  receiving server reads exactly that message.\<close>

theorem direct_send_delivers:
  assumes "get_node_addr rm target = Some addr" and "length (payload m) \<le> max_message_len"
    and "relay_send hex env now target m rm = (rm', w, Inr ())"
  shows "\<exists>s b. w = [(s, b)] \<and> handle_connection b = [(fill32 0, m)]"
proof -
  from assms(1,3) obtain s where "w = [(s, message_to_bytes m)]"
    by (auto simp: relay_send_def dest: via_client_writes)
  with frames_read_back [of "[m]"] assms(2) show ?thesis by simp
qed

text \<open>A successful send through a relay writes one frame from which the relay reads a
  RELAY message holding only the identity of the target: no byte of the message to
  deliver is sent.\<close>

theorem relayed_send_drops_payload:
  assumes "get_node_addr rm target = None"
    and "relay_send hex env now target m rm = (rm', w, Inr ())"
  shows "\<exists>s b. w = [(s, b)] \<and> handle_connection b = [(fill32 0, message_new MtRelay (as_bytes target))]"
proof -
  from assms obtain s where "w = [(s, message_to_bytes (message_new MtRelay (as_bytes target)))]"
    by (auto simp: relay_send_def dest: via_client_writes split: option.splits)
  with frames_read_back [of "[message_new MtRelay (as_bytes target)]"]
  show ?thesis by (simp add: message_new_def max_message_len_def)
qed

text \<open>A network on which every call succeeds, for the witnesses.\<close>

definition sample_net :: net_env where
  "sample_net = \<lparr>ne_alive = (\<lambda>_. True), ne_connect = (\<lambda>_. Inr 1), ne_clone = (\<lambda>s. Inr s),
                 ne_write = (\<lambda>_ _. None)\<rparr>"

lemmas relay_eval = relay_send_def via_client_def send_message_def server_send_def get_connection_def
  return_connection_def sample_net_def relay_new_def register_node_def set_relay_def pool_new_def
  get_node_addr_def hm_contains_def default_pool_size_def hm_simps

theorem direct_send_delivers_witness:
  "\<exists>s b. fst (snd (relay_send (\<lambda>_. []) sample_net 0 (fill32 1) (message_new MtData [1, 2, 3])
             (register_node (fill32 1) ''10.0.0.1:9876'' (relay_new (fill32 2) 9877)))) = [(s, b)]
     \<and> handle_connection b = [(fill32 0, message_new MtData [1, 2, 3])]"
  by (rule direct_send_delivers [where rm = "register_node (fill32 1) ''10.0.0.1:9876'' (relay_new (fill32 2) 9877)"
        and hex = "\<lambda>_. []" and env = sample_net and now = 0 and target = "fill32 1"])
     (simp_all add: relay_eval message_new_def max_message_len_def)

theorem relayed_send_drops_payload_witness:
  "\<exists>s b. fst (snd (relay_send (\<lambda>_. []) sample_net 0 (fill32 1) (message_new MtData [1, 2, 3])
             (set_relay (fill32 1) ''10.0.0.1:9876'' (relay_new (fill32 2) 9877)))) = [(s, b)]
     \<and> handle_connection b = [(fill32 0, message_new MtRelay (as_bytes (fill32 1)))]"
  by (rule relayed_send_drops_payload [where rm = "set_relay (fill32 1) ''10.0.0.1:9876'' (relay_new (fill32 2) 9877)"
        and m = "message_new MtData [1, 2, 3]" and hex = "\<lambda>_. []" and env = sample_net and now = 0])
     (simp_all add: relay_eval)

section \<open>The pool: capacity and the count of active connections\<close>

text \<open>
  The operations a client can make, each with the network as it is at that moment, and the
  invariant they keep: no address holds more than \<open>max_size\<close> connections.
\<close>

datatype pool_op =
  PoolGet net_env instant string
| PoolReturn net_env instant string stream
| PoolCleanup instant
| PoolClear

fun pool_step :: "pool_op \<Rightarrow> connection_pool \<Rightarrow> connection_pool" where
  "pool_step (PoolGet env now addr) cp = fst (get_connection env now addr cp)"
| "pool_step (PoolReturn env now addr s) cp = return_connection env now addr s cp"
| "pool_step (PoolCleanup now) cp = cleanup_idle now cp"
| "pool_step PoolClear cp = pool_clear cp"

definition pool_bounded :: "nat \<Rightarrow> connection_pool \<Rightarrow> bool" where
  "pool_bounded n cp \<longleftrightarrow> cp_max_size cp = n \<and>
     (\<forall>a p. hm_get (cp_connections cp) a = Some p \<longrightarrow> length p \<le> n)"

lemma update_first_length: "update_first p f xs = Some (y, ys) \<Longrightarrow> length ys = length xs"
  by (induction xs arbitrary: y ys) (auto split: if_splits)

lemma hm_get_map_values:
  "hm_get (map (\<lambda>(a, p). (a, f p)) m) k = map_option f (hm_get m k)"
  by (induction m) (auto simp: hm_get_def)

lemma pool_step_bounded: "pool_bounded n cp \<Longrightarrow> pool_bounded n (pool_step e cp)"
proof (cases e)
  case (PoolGet env now addr)
  moreover assume "pool_bounded n cp"
  ultimately show ?thesis
    by (auto simp: pool_bounded_def get_connection_def Let_def hm_simps hm_contains_def
        dest!: update_first_length split: option.splits sum.splits if_splits)
next
  case (PoolReturn env now addr s)
  moreover assume "pool_bounded n cp"
  ultimately show ?thesis
    by (auto simp: pool_bounded_def return_connection_def hm_simps
        dest!: update_first_length split: option.splits if_splits)
next
  case (PoolCleanup now)
  moreover assume "pool_bounded n cp"
  ultimately show ?thesis
    by (auto simp: pool_bounded_def cleanup_idle_def hm_get_map_values intro: le_trans [OF length_filter_le])
next
  case PoolClear
  moreover assume "pool_bounded n cp"
  ultimately show ?thesis by (simp add: pool_bounded_def pool_clear_def hm_simps)
qed

interpretation pool: op_machine pool_step "pool_bounded n"
  by unfold_locales (rule pool_step_bounded)

text \<open>After any sequence of pool operations on any network, no address holds more
  connections than the configured maximum.\<close>

theorem pool_never_exceeds_max_size:
  "hm_get (cp_connections (fold pool_step ops (pool_new n))) addr = Some p \<Longrightarrow> length p \<le> n"
proof -
  assume got: "hm_get (cp_connections (fold pool_step ops (pool_new n))) addr = Some p"
  have "pool_bounded n (pool_new n)" by (simp add: pool_bounded_def pool_new_def hm_simps)
  then have "pool_bounded n (fold pool_step ops (pool_new n))" by (rule pool.run_inv)
  with got show "length p \<le> n" by (simp add: pool_bounded_def)
qed

theorem pool_never_exceeds_max_size_witness:
  "\<exists>p. hm_get (cp_connections (fold pool_step
       [PoolGet sample_net 0 ''a'', PoolGet sample_net 1 ''a'', PoolReturn sample_net 2 ''a'' 1]
       (pool_new 1))) ''a'' = Some p \<and> length p \<le> 1"
proof -
  have "hm_get (cp_connections (fold pool_step
      [PoolGet sample_net 0 ''a'', PoolGet sample_net 1 ''a'', PoolReturn sample_net 2 ''a'' 1]
      (pool_new 1))) ''a'' = Some [\<lparr>pc_stream = 1, pc_peer_id = None, pc_last_used = 2, pc_in_use = False\<rparr>]"
    by (simp add: relay_eval pooled_new_def)
  then show ?thesis using pool_never_exceeds_max_size by blast
qed

text \<open>
  Two ways the bookkeeping goes wrong. A connection in use whose peer is gone is found by
  no loop of the pool: returning it frees nothing, and the cleanup skips it.
\<close>

definition dead_in :: "net_env \<Rightarrow> pooled_connection list \<Rightarrow> bool" where
  "dead_in env p \<longleftrightarrow> (\<forall>c \<in> set p. pc_in_use c \<and> \<not> ne_alive env (pc_stream c))"

fun op_sees_dead :: "pooled_connection list \<Rightarrow> pool_op \<Rightarrow> bool" where
  "op_sees_dead p (PoolGet env now a) = dead_in env p"
| "op_sees_dead p (PoolReturn env now a s) = dead_in env p"
| "op_sees_dead p (PoolCleanup now) = True"
| "op_sees_dead p PoolClear = False"

lemma update_first_None: "update_first q f xs = None \<longleftrightarrow> (\<forall>x \<in> set xs. \<not> q x)"
  by (induction xs) auto

lemma pool_step_dead:
  assumes "hm_get (cp_connections cp) addr = Some p" and "\<forall>c \<in> set p. pc_in_use c"
    and "length p = cp_max_size cp" and "op_sees_dead p e"
  shows "hm_get (cp_connections (pool_step e cp)) addr = Some p \<and> cp_max_size (pool_step e cp) = cp_max_size cp"
proof (cases e)
  case (PoolGet env now a)
  with assms have "update_first (\<lambda>c. \<not> pc_in_use c \<and> ne_alive env (pc_stream c))
      (\<lambda>c. c\<lparr>pc_in_use := True, pc_last_used := now\<rparr>) p = None"
    by (simp add: update_first_None)
  with PoolGet assms show ?thesis
    by (cases "a = addr")
       (auto simp: get_connection_def Let_def hm_simps hm_contains_def split: option.splits sum.splits if_splits)
next
  case (PoolReturn env now a s)
  with assms have "update_first (\<lambda>c. pc_in_use c \<and> ne_alive env (pc_stream c))
      (\<lambda>c. c\<lparr>pc_in_use := False, pc_last_used := now\<rparr>) p = None"
    by (simp add: update_first_None dead_in_def)
  with PoolReturn assms show ?thesis
    by (cases "a = addr") (auto simp: return_connection_def hm_simps split: option.splits)
next
  case (PoolCleanup now)
  with assms show ?thesis by (auto simp: cleanup_idle_def hm_get_map_values pooled_is_idle_def)
next
  case PoolClear
  with assms show ?thesis by simp
qed

text \<open>C40. Once every connection of a full address is in use with its peer gone, no
  sequence of returns, cleanups and further requests that sees those peers gone frees
  a slot: every later request for that address fails with PoolFull.\<close>

theorem dead_connections_block_address:
  assumes "hm_get (cp_connections cp) addr = Some p" and "\<forall>c \<in> set p. pc_in_use c"
    and "length p = cp_max_size cp" and "\<forall>e \<in> set ops. op_sees_dead p e"
  shows "snd (get_connection env now addr (fold pool_step ops cp)) = Inl PoolFull"
proof -
  have "hm_get (cp_connections (fold pool_step ops cp)) addr = Some p
      \<and> length p = cp_max_size (fold pool_step ops cp)"
    using assms(1,3,4)
  proof (induction ops arbitrary: cp)
    case (Cons e ops)
    with pool_step_dead [of cp addr p e] assms(2) show ?case by simp
  qed simp
  moreover have "update_first (\<lambda>c. \<not> pc_in_use c \<and> ne_alive env (pc_stream c))
      (\<lambda>c. c\<lparr>pc_in_use := True, pc_last_used := now\<rparr>) p = None"
    using assms(2) by (simp add: update_first_None)
  ultimately show ?thesis by (simp add: get_connection_def Let_def hm_contains_def)
qed

theorem dead_connections_block_address_witness:
  "snd (get_connection sample_net 100 ''a''
     (fold pool_step [PoolReturn (sample_net\<lparr>ne_alive := \<lambda>_. False\<rparr>) 5 ''a'' 1, PoolCleanup 99]
       (pool_step (PoolGet sample_net 0 ''a'') (pool_new 1)))) = Inl PoolFull"
  by (rule dead_connections_block_address
        [where p = "[\<lparr>pc_stream = 1, pc_peer_id = None, pc_last_used = 0, pc_in_use = True\<rparr>]"])
     (simp_all add: relay_eval pooled_new_def dead_in_def)

text \<open>Returning a connection after the pool was cleared wraps the counter of active
  connections around to its maximum.\<close>

theorem return_after_clear_underflows:
  "cp_active_count (return_connection env now addr s (pool_clear cp)) = - 1"
  by (simp add: return_connection_def pool_clear_def hm_simps)

end
