(* ===== verification/Dht.thy ===== *)
theory Dht
  imports Relay "HOL-Library.Multiset"
begin

text \<open>
  Node discovery (\<open>src/vpn/dht.rs\<close>): K-buckets, the routing table of 256 buckets around
  the local identity, the value store with expiry, the node-list codec and the handling of
  DHT messages. SHA-256 is a parameter. The mutexes are not modelled: every operation takes
  one or more of them and releases them before it returns. Wall-clock seconds are \<open>u64\<close> and
  wrap around on addition, as in a release build (a debug build panics there).
\<close>

section \<open>Message types\<close>

datatype dht_message_type = DPing | DPong | DFindNode | DNodes | DPut | DGet | DValue

definition dht_type_from_u8 :: "byte \<Rightarrow> dht_message_type option" where
  "dht_type_from_u8 b =
     (if b = 0x01 then Some DPing
      else if b = 0x02 then Some DPong
      else if b = 0x03 then Some DFindNode
      else if b = 0x04 then Some DNodes
      else if b = 0x05 then Some DPut
      else if b = 0x06 then Some DGet
      else if b = 0x07 then Some DValue
      else None)"

fun dht_type_to_u8 :: "dht_message_type \<Rightarrow> byte" where
  "dht_type_to_u8 DPing = 0x01"
| "dht_type_to_u8 DPong = 0x02"
| "dht_type_to_u8 DFindNode = 0x03"
| "dht_type_to_u8 DNodes = 0x04"
| "dht_type_to_u8 DPut = 0x05"
| "dht_type_to_u8 DGet = 0x06"
| "dht_type_to_u8 DValue = 0x07"

interpretation dt: wire_tag dht_type_to_u8 dht_type_from_u8
proof unfold_locales
  fix t b
  show "dht_type_from_u8 (dht_type_to_u8 t) = Some t"
    by (cases t) (simp_all add: dht_type_from_u8_def)
  show "dht_type_from_u8 b = Some t \<Longrightarrow> dht_type_to_u8 t = b"
    by (auto simp: dht_type_from_u8_def split: if_splits)
qed

section \<open>K-buckets\<close>

definition k_bucket_size :: nat where
  "k_bucket_size = 20"

definition bucket_count :: nat where
  "bucket_count = 256"

definition node_timeout_secs :: nat where
  "node_timeout_secs = 600"

record bucket_entry =
  be_node_id :: node_id
  be_addr :: string
  be_last_seen :: instant

record kbucket =
  kb_entries :: "bucket_entry list"
  kb_capacity :: nat

definition kb_new :: "nat \<Rightarrow> kbucket" where
  "kb_new n = \<lparr>kb_entries = [], kb_capacity = n\<rparr>"

text \<open>
  \<open>insert\<close> returns \<open>Inr True\<close> for a new entry, \<open>Inr False\<close> for an update in place, and
  for a full bucket the entry it could not store.
\<close>

definition kb_insert :: "instant \<Rightarrow> node_id \<Rightarrow> string \<Rightarrow> kbucket \<Rightarrow> kbucket \<times> (bucket_entry + bool)" where
  "kb_insert now nid addr b =
     (case update_first (\<lambda>e. be_node_id e = nid)
                        (\<lambda>e. e\<lparr>be_last_seen := now, be_addr := addr\<rparr>) (kb_entries b) of
        Some (_, es) \<Rightarrow> (b\<lparr>kb_entries := es\<rparr>, Inr False)
      | None \<Rightarrow>
          let entry = \<lparr>be_node_id = nid, be_addr = addr, be_last_seen = now\<rparr> in
          if length (kb_entries b) < kb_capacity b
          then (b\<lparr>kb_entries := kb_entries b @ [entry]\<rparr>, Inr True)
          else (b, Inl entry))"

definition kb_touch :: "instant \<Rightarrow> node_id \<Rightarrow> kbucket \<Rightarrow> kbucket \<times> bool" where
  "kb_touch now nid b =
     (case position (\<lambda>e. be_node_id e = nid) (kb_entries b) of
        None \<Rightarrow> (b, False)
      | Some i \<Rightarrow>
          (b\<lparr>kb_entries := remove_at i (kb_entries b)
                          @ [(kb_entries b ! i)\<lparr>be_last_seen := now\<rparr>]\<rparr>, True))"

definition kb_remove :: "node_id \<Rightarrow> kbucket \<Rightarrow> kbucket \<times> bucket_entry option" where
  "kb_remove nid b =
     (case position (\<lambda>e. be_node_id e = nid) (kb_entries b) of
        None \<Rightarrow> (b, None)
      | Some i \<Rightarrow> (b\<lparr>kb_entries := remove_at i (kb_entries b)\<rparr>, Some (kb_entries b ! i)))"

definition kb_len :: "kbucket \<Rightarrow> nat" where
  "kb_len b = length (kb_entries b)"

definition kb_is_empty :: "kbucket \<Rightarrow> bool" where
  "kb_is_empty b \<longleftrightarrow> kb_entries b = []"

definition kb_is_full :: "kbucket \<Rightarrow> bool" where
  "kb_is_full b \<longleftrightarrow> kb_capacity b \<le> length (kb_entries b)"

definition kb_least_recently_seen :: "kbucket \<Rightarrow> bucket_entry option" where
  "kb_least_recently_seen b = (case kb_entries b of [] \<Rightarrow> None | e # _ \<Rightarrow> Some e)"

definition kb_clear :: "kbucket \<Rightarrow> kbucket" where
  "kb_clear b = b\<lparr>kb_entries := []\<rparr>"

section \<open>Stored values\<close>

record value_entry =
  ve_value :: bytes
  ve_created_at :: u64
  ve_ttl :: u64

definition value_new :: "u64 \<Rightarrow> bytes \<Rightarrow> u64 \<Rightarrow> value_entry" where
  "value_new now_secs v ttl = \<lparr>ve_value = v, ve_created_at = now_secs, ve_ttl = ttl\<rparr>"

definition value_is_expired :: "u64 \<Rightarrow> value_entry \<Rightarrow> bool" where
  "value_is_expired now_secs v \<longleftrightarrow> ve_created_at v + ve_ttl v \<le> now_secs"

section \<open>The routing table\<close>

record dht_manager =
  dht_local_id :: node_id
  dht_buckets :: "kbucket list"
  dht_values :: "(b32, value_entry) hashmap"
  dht_local_addr :: string
  dht_relay_manager :: "relay_manager option"
  dht_running :: bool

definition dht_new :: "node_id \<Rightarrow> dht_manager" where
  "dht_new i = \<lparr>dht_local_id = i, dht_buckets = replicate bucket_count (kb_new k_bucket_size),
                dht_values = hm_empty, dht_local_addr = [], dht_relay_manager = None,
                dht_running = False\<rparr>"

definition dht_set_relay_manager :: "relay_manager \<Rightarrow> dht_manager \<Rightarrow> dht_manager" where
  "dht_set_relay_manager rm d = d\<lparr>dht_relay_manager := Some rm\<rparr>"

definition dht_set_local_addr :: "string \<Rightarrow> dht_manager \<Rightarrow> dht_manager" where
  "dht_set_local_addr a d = d\<lparr>dht_local_addr := a\<rparr>"

definition xor_distance :: "node_id \<Rightarrow> node_id \<Rightarrow> b32" where
  "xor_distance a b = B32 (map2 (XOR) (as_bytes a) (as_bytes b))"

text \<open>The byte loop of \<open>cmp_xor\<close>.\<close>

fun cmp_bytes :: "bytes \<Rightarrow> bytes \<Rightarrow> ordering" where
  "cmp_bytes (a # as) (b # bs) = (if a \<noteq> b then compare a b else cmp_bytes as bs)"
| "cmp_bytes _ _ = Equal"

definition cmp_xor :: "b32 \<Rightarrow> b32 \<Rightarrow> ordering" where
  "cmp_xor a b = cmp_bytes (as_bytes a) (as_bytes b)"

definition leading_zeros :: "byte \<Rightarrow> nat" where
  "leading_zeros b = length (takeWhile (\<lambda>i. \<not> bit b i) [7, 6, 5, 4, 3, 2, 1, 0])"

fun first_bit :: "nat \<Rightarrow> bytes \<Rightarrow> nat" where
  "first_bit i [] = bucket_count - 1"
| "first_bit i (x # xs) = (if x \<noteq> 0 then i * 8 + leading_zeros x else first_bit (Suc i) xs)"

definition bucket_index :: "node_id \<Rightarrow> node_id \<Rightarrow> nat" where
  "bucket_index local_id target = first_bit 0 (as_bytes (xor_distance local_id target))"

definition insert_node ::
  "instant \<Rightarrow> node_id \<Rightarrow> string \<Rightarrow> dht_manager \<Rightarrow> dht_manager \<times> (bucket_entry option + bool)" where
  "insert_node now nid addr d =
     (if nid = dht_local_id d then (d, Inr False)
      else
        let idx = bucket_index (dht_local_id d) nid in
        case kb_insert now nid addr (dht_buckets d ! idx) of
          (b, r) \<Rightarrow> (d\<lparr>dht_buckets := (dht_buckets d)[idx := b]\<rparr>, map_sum Some id r))"

definition touch_node :: "instant \<Rightarrow> node_id \<Rightarrow> dht_manager \<Rightarrow> dht_manager \<times> bool" where
  "touch_node now nid d =
     (if nid = dht_local_id d then (d, False)
      else
        let idx = bucket_index (dht_local_id d) nid in
        case kb_touch now nid (dht_buckets d ! idx) of
          (b, r) \<Rightarrow> (d\<lparr>dht_buckets := (dht_buckets d)[idx := b]\<rparr>, r))"

definition remove_node :: "node_id \<Rightarrow> dht_manager \<Rightarrow> dht_manager \<times> bucket_entry option" where
  "remove_node nid d =
     (if nid = dht_local_id d then (d, None)
      else
        let idx = bucket_index (dht_local_id d) nid in
        case kb_remove nid (dht_buckets d ! idx) of
          (b, r) \<Rightarrow> (d\<lparr>dht_buckets := (dht_buckets d)[idx := b]\<rparr>, r))"

definition all_nodes :: "dht_manager \<Rightarrow> (node_id \<times> string) list" where
  "all_nodes d = concat (map (\<lambda>b. map (\<lambda>e. (be_node_id e, be_addr e)) (kb_entries b)) (dht_buckets d))"

definition find_nearest :: "dht_manager \<Rightarrow> node_id \<Rightarrow> nat \<Rightarrow> (node_id \<times> string) list" where
  "find_nearest d target limit =
     (let candidates = concat (map (\<lambda>b. map (\<lambda>e. (be_node_id e, be_addr e,
                                                     xor_distance target (be_node_id e)))
                                             (kb_entries b)) (dht_buckets d));
          sorted = sort_by (\<lambda>(_, _, x) (_, _, y). cmp_xor x y) candidates
      in map (\<lambda>(i, a, _). (i, a)) (take limit sorted))"

definition find_node :: "dht_manager \<Rightarrow> node_id \<Rightarrow> (node_id \<times> string) list" where
  "find_node d target = find_nearest d target k_bucket_size"

definition node_count :: "dht_manager \<Rightarrow> nat" where
  "node_count d = sum_list (map kb_len (dht_buckets d))"

definition bucket_size :: "dht_manager \<Rightarrow> nat \<Rightarrow> nat" where
  "bucket_size d idx = (if idx < bucket_count then kb_len (dht_buckets d ! idx) else 0)"

section \<open>The value store\<close>

definition put_value ::
  "(bytes \<Rightarrow> b32) \<Rightarrow> u64 \<Rightarrow> bytes \<Rightarrow> bytes \<Rightarrow> u64 \<Rightarrow> dht_manager \<Rightarrow> dht_manager \<times> b32" where
  "put_value sha256 now_secs key v ttl d =
     (let key_bytes = sha256 key in
      (d\<lparr>dht_values := hm_insert key_bytes (value_new now_secs v ttl) (dht_values d)\<rparr>, key_bytes))"

definition get_value_by_hash :: "u64 \<Rightarrow> b32 \<Rightarrow> dht_manager \<Rightarrow> value_entry option" where
  "get_value_by_hash now_secs key_hash d =
     (case hm_get (dht_values d) key_hash of
        None \<Rightarrow> None
      | Some v \<Rightarrow> if value_is_expired now_secs v then None else Some v)"

definition get_value :: "(bytes \<Rightarrow> b32) \<Rightarrow> u64 \<Rightarrow> bytes \<Rightarrow> dht_manager \<Rightarrow> value_entry option" where
  "get_value sha256 now_secs key d = get_value_by_hash now_secs (sha256 key) d"

definition cleanup_values :: "u64 \<Rightarrow> dht_manager \<Rightarrow> dht_manager \<times> nat" where
  "cleanup_values now_secs d =
     (let kept = hm_retain (\<lambda>_ v. \<not> value_is_expired now_secs v) (dht_values d) in
      (d\<lparr>dht_values := kept\<rparr>, hm_len (dht_values d) - hm_len kept))"

definition value_count :: "dht_manager \<Rightarrow> nat" where
  "value_count d = hm_len (dht_values d)"

section \<open>Bootstrap and refresh\<close>

text \<open>The argument of \<open>bootstrap_from_nodes\<close> is the list of the nodes' \<open>addr()\<close>.\<close>

definition bootstrap_from_nodes :: "instant \<Rightarrow> string list \<Rightarrow> dht_manager \<Rightarrow> dht_manager" where
  "bootstrap_from_nodes now addrs d =
     fold (\<lambda>a d. fst (insert_node now (fill32 0) a d)) addrs d"

definition kb_refresh :: "instant \<Rightarrow> kbucket \<Rightarrow> kbucket \<times> nat" where
  "kb_refresh now b =
     (let should_ping = (case kb_least_recently_seen b of
                           Some e \<Rightarrow> from_secs (node_timeout_secs div 2) < elapsed now (be_last_seen e)
                         | None \<Rightarrow> False);
          stale = (if should_ping then map be_node_id (kb_entries b) else [])
      in (fold (\<lambda>nid b. fst (kb_remove nid b)) stale b, length stale))"

definition dht_refresh :: "instant \<Rightarrow> dht_manager \<Rightarrow> dht_manager \<times> nat" where
  "dht_refresh now d =
     (let rs = map (kb_refresh now) (dht_buckets d)
      in (d\<lparr>dht_buckets := map fst rs\<rparr>, sum_list (map snd rs)))"

definition dht_start :: "dht_manager \<Rightarrow> dht_manager" where
  "dht_start d = d\<lparr>dht_running := True\<rparr>"

definition dht_stop :: "dht_manager \<Rightarrow> dht_manager" where
  "dht_stop d = d\<lparr>dht_running := False\<rparr>"

section \<open>The node-list codec\<close>

definition u16_max :: nat where
  "u16_max = 65535"

definition encode_node :: "node_id \<times> string \<Rightarrow> bytes" where
  "encode_node = (\<lambda>(nid, addr).
     let addr_bytes = str_bytes addr;
         addr_len = min (length addr_bytes) u16_max
     in as_bytes nid @ to_be 2 addr_len @ take addr_len addr_bytes)"

definition encode_node_list :: "(node_id \<times> string) list \<Rightarrow> bytes" where
  "encode_node_list nodes =
     (let n_entries = min (length nodes) u16_max
      in to_be 2 n_entries @ concat (map encode_node (take n_entries nodes)))"

text \<open>
  The decoding loop over the remaining count, at an offset into the data. Its two early
  exits are the two \<open>break\<close>s; an address that is not UTF-8 becomes the empty string.
\<close>

fun decode_nodes :: "nat \<Rightarrow> bytes \<Rightarrow> nat \<Rightarrow> (node_id \<times> string) list" where
  "decode_nodes 0 data offset = []"
| "decode_nodes (Suc n) data offset =
     (if length data < offset + 32 + 2 then []
      else
        let nid = B32 (sub_slice data offset (offset + 32));
            addr_len = of_be (sub_slice data (offset + 32) (offset + 34));
            off = offset + 34
        in if length data < off + addr_len then []
           else
             let addr = (case from_utf8 (sub_slice data off (off + addr_len)) of
                           Some s \<Rightarrow> s | None \<Rightarrow> [])
             in (nid, addr) # decode_nodes n data (off + addr_len))"

definition decode_node_list :: "bytes \<Rightarrow> (node_id \<times> string) list" where
  "decode_node_list data =
     (if length data < 2 then [] else decode_nodes (of_be (sub_slice data 0 2)) data 2)"

section \<open>Message handling\<close>

definition create_dht_message :: "dht_message_type \<Rightarrow> bytes \<Rightarrow> message" where
  "create_dht_message t p = message_new MtDht ([dht_type_to_u8 t] @ p)"

definition handle_put :: "(bytes \<Rightarrow> b32) \<Rightarrow> u64 \<Rightarrow> bytes \<Rightarrow> dht_manager \<Rightarrow> dht_manager \<times> unit option" where
  "handle_put sha256 now_secs data d =
     (if length data < 2 then (d, None)
      else
        let key_len = of_be (sub_slice data 0 2) in
        if length data < 2 + key_len + 4 then (d, None)
        else
          let key = sub_slice data 2 (2 + key_len);
              value_len = of_be (sub_slice data (2 + key_len) (2 + key_len + 4))
          in if length data < 2 + key_len + 4 + value_len + 8 then (d, None)
             else
               let v = sub_slice data (2 + key_len + 4) (2 + key_len + 4 + value_len);
                   ttl = of_nat (of_be (sub_slice data (2 + key_len + 4 + value_len)
                                                   (2 + key_len + 4 + value_len + 8)))
               in (fst (put_value sha256 now_secs key v ttl d), Some ()))"

definition insert_nodes :: "instant \<Rightarrow> (node_id \<times> string) list \<Rightarrow> dht_manager \<Rightarrow> dht_manager" where
  "insert_nodes now nodes d = fold (\<lambda>(i, a) d. fst (insert_node now i a d)) nodes d"

definition process_message ::
  "(bytes \<Rightarrow> b32) \<Rightarrow> instant \<Rightarrow> u64 \<Rightarrow> node_id \<Rightarrow> bytes \<Rightarrow> dht_manager \<Rightarrow> dht_manager \<times> message list" where
  "process_message sha256 now now_secs sender p d =
     (case p of
        [] \<Rightarrow> (d, [])
      | b # data \<Rightarrow>
          (case dht_type_from_u8 b of
             None \<Rightarrow> (d, [])
           | Some DPing \<Rightarrow> (fst (touch_node now sender d), [create_dht_message DPong []])
           | Some DPong \<Rightarrow> (fst (touch_node now sender d), [])
           | Some DFindNode \<Rightarrow>
               if length data < 32
               then (d, [create_dht_message DNodes (encode_node_list [])])
               else (d, [create_dht_message DNodes
                          (encode_node_list (find_node d (B32 (sub_slice data 0 32))))])
           | Some DNodes \<Rightarrow> (insert_nodes now (decode_node_list data) d, [])
           | Some DPut \<Rightarrow> (fst (handle_put sha256 now_secs data d), [])
           | Some DGet \<Rightarrow>
               if length data < 32 then (d, [])
               else
                 let key_hash = B32 (sub_slice data 0 32) in
                 (case get_value_by_hash now_secs key_hash d of
                    Some e \<Rightarrow>
                      (d, [create_dht_message DValue
                            (as_bytes key_hash @ to_be 4 (length (ve_value e)) @ ve_value e)])
                  | None \<Rightarrow> (d, []))
           | Some DValue \<Rightarrow> (d, [])))"

section \<open>Distances are numbers\<close>

lemma as_bytes_xor_distance [simp]:
  "as_bytes (xor_distance a b) = map2 (XOR) (as_bytes a) (as_bytes b)"
  by (simp add: xor_distance_def)

lemma xor_distance_commute: "xor_distance a b = xor_distance b a"
  by (metis xor_distance_def map2_xor_commute)

lemma xor_distance_cancel: "xor_distance t x = xor_distance t y \<longleftrightarrow> x = y"
  by (simp add: xor_distance_def map2_xor_cancel as_bytes_inject)

lemma xor_distance_self: "xor_distance a a = fill32 0"
  by (simp add: xor_distance_def map2_xor_self fill32_def)

lemma xor_distance_0: "xor_distance a b = fill32 0 \<longleftrightarrow> a = b"
  by (metis xor_distance_cancel xor_distance_self)

lemma fill32_0_least: "fill32 0 \<le> x"
  by (simp add: less_eq_b32_def b32_val_def)

lemma cmp_bytes_eq:
  "length xs = length ys \<Longrightarrow> cmp_bytes xs ys = compare (of_be xs) (of_be ys)"
proof (induction xs ys rule: list_induct2)
  case (Cons x xs y ys)
  consider "x < y" | "x = y" | "y < x" by force
  then show ?case
    using Cons of_be_less_head [of xs ys x y] of_be_less_head [of ys xs y x]
    by cases (auto simp: compare_def)
qed (simp add: compare_def)

lemma cmp_xor_compare: "cmp_xor a b = compare a b"
  by (simp add: cmp_xor_def cmp_bytes_eq compare_def less_b32_def b32_val_def of_be_inject as_bytes_inject)

lemma leading_zeros_bits:
  assumes "b \<noteq> 0"
  shows "leading_zeros b < 8" and "bit b (7 - leading_zeros b)"
    and "\<And>i. 8 - leading_zeros b \<le> i \<Longrightarrow> \<not> bit b i"
proof -
  let ?xs = "[7, 6, 5, 4, 3, 2, 1, 0 :: nat]"
  have mem: "i < 8 \<longleftrightarrow> i \<in> set ?xs" for i :: nat by auto
  have nth: "k < 8 \<Longrightarrow> ?xs ! k = 7 - k" for k :: nat
    by (auto simp: less_Suc_eq numeral_eq_Suc)
  from assms obtain i where "bit b i" by (metis bit_0_eq bit_eqI bot_apply bot_bool_def)
  moreover from this have "i < 8" using bit_imp_le_length [of b i] by simp
  ultimately have ex: "\<exists>x \<in> set ?xs. \<not> \<not> bit b x" using mem by blast
  then have "length (takeWhile (\<lambda>i. \<not> bit b i) ?xs) < length ?xs"
    by (intro length_takeWhile_less) blast
  then show lt: "leading_zeros b < 8" by (simp add: leading_zeros_def)
  have "\<not> \<not> bit b (?xs ! leading_zeros b)"
    unfolding leading_zeros_def using lt
    by (intro nth_length_takeWhile) (simp add: leading_zeros_def)
  with nth [OF lt] show "bit b (7 - leading_zeros b)" by simp
  fix i assume i: "8 - leading_zeros b \<le> i"
  show "\<not> bit b i"
  proof (cases "i < 8")
    case True
    with i have "7 - i < leading_zeros b" by simp
    then have "\<not> bit b (?xs ! (7 - i))"
      unfolding leading_zeros_def by (metis nth_mem set_takeWhileD takeWhile_nth)
    with nth [of "7 - i"] True show ?thesis by simp
  next
    case False
    then show ?thesis using bit_imp_le_length [of b i] by auto
  qed
qed

lemma leading_zeros_range:
  assumes "b \<noteq> 0"
  shows "2 ^ (7 - leading_zeros b) \<le> unat b" and "unat b < 2 ^ (8 - leading_zeros b)"
proof -
  have "bit (unat b) (7 - leading_zeros b)"
    using leading_zeros_bits(2) [OF assms] by (simp add: bit_unsigned_iff)
  then have "odd (unat b div 2 ^ (7 - leading_zeros b))" by (simp add: bit_iff_odd)
  then show "2 ^ (7 - leading_zeros b) \<le> unat b"
    by (metis div_less even_zero not_le_imp_less)
  have "take_bit (8 - leading_zeros b) (unat b) = unat b"
    using leading_zeros_bits(3) [OF assms] by (intro bit_eqI) (auto simp: bit_simps not_le [symmetric])
  then show "unat b < 2 ^ (8 - leading_zeros b)"
    by (metis take_bit_nat_less_exp)
qed

lemma leading_zeros_le_7: "b \<noteq> 0 \<Longrightarrow> leading_zeros b \<le> 7"
  using leading_zeros_bits(1) [of b] by simp

text \<open>
  The scan for the first set bit, read as a number: a byte string whose value is not zero
  has its leading bit at the scanned position.
\<close>

lemma first_bit_range:
  assumes "of_be xs \<noteq> 0"
  shows "\<exists>k. first_bit i xs = i * 8 + k \<and> k < 8 * length xs
           \<and> 2 ^ (8 * length xs - 1 - k) \<le> of_be xs \<and> of_be xs < 2 ^ (8 * length xs - k)"
  using assms
proof (induction xs arbitrary: i)
  case (Cons x xs)
  have pow: "(256 :: nat) ^ length xs = 2 ^ (8 * length xs)" by (simp add: power_mult)
  show ?case
  proof (cases "x = 0")
    case True
    with Cons.prems have "of_be xs \<noteq> 0" by simp
    from Cons.IH [OF this, of "Suc i"] obtain k where k: "first_bit (Suc i) xs = Suc i * 8 + k"
      "k < 8 * length xs" "2 ^ (8 * length xs - 1 - k) \<le> of_be xs" "of_be xs < 2 ^ (8 * length xs - k)"
      by blast
    have "8 * length (x # xs) - 1 - (8 + k) = 8 * length xs - 1 - k"
      and "8 * length (x # xs) - (8 + k) = 8 * length xs - k" by simp_all
    with k True show ?thesis by (intro exI [of _ "8 + k"]) simp
  next
    case False
    let ?z = "leading_zeros x"
    have z: "?z \<le> 7" using leading_zeros_le_7 [OF False] .
    have "2 ^ (7 - ?z) * 2 ^ (8 * length xs) \<le> unat x * 256 ^ length xs"
      using leading_zeros_range(1) [OF False] pow by (intro mult_le_mono) simp_all
    then have low: "2 ^ (8 * length (x # xs) - 1 - ?z) \<le> of_be (x # xs)"
      using z by (simp add: power_add [symmetric] algebra_simps)
    have "of_be (x # xs) < Suc (unat x) * 256 ^ length xs"
      using of_be_less [of xs] by simp
    also have "\<dots> \<le> 2 ^ (8 - ?z) * 2 ^ (8 * length xs)"
      using leading_zeros_range(2) [OF False] pow by (intro mult_le_mono) simp_all
    also have "\<dots> = 2 ^ (8 * length (x # xs) - ?z)"
      using z by (simp add: power_add [symmetric])
    finally show ?thesis using low z False by (intro exI [of _ ?z]) simp
  qed
qed simp

lemma b32_val_0_iff: "b32_val x = 0 \<longleftrightarrow> x = fill32 0"
proof -
  have "b32_val (fill32 0) = 0" by (simp add: b32_val_def)
  then show ?thesis by (metis b32_val_inject)
qed

lemma bucket_index_self: "bucket_index a a = 255"
  by (simp add: bucket_index_def map2_xor_self bucket_count_def numeral_eq_Suc)

lemma bucket_index_range:
  assumes "a \<noteq> b"
  shows "bucket_index a b < 256"
    and "2 ^ (255 - bucket_index a b) \<le> b32_val (xor_distance a b)"
    and "b32_val (xor_distance a b) < 2 ^ (256 - bucket_index a b)"
proof -
  let ?xs = "as_bytes (xor_distance a b)"
  have "of_be ?xs \<noteq> 0"
    using assms b32_val_0_iff [of "xor_distance a b"] unfolding b32_val_def by (simp add: xor_distance_0)
  from first_bit_range [OF this, of 0] obtain k where
    "bucket_index a b = k" "k < 8 * 32" "2 ^ (8 * 32 - 1 - k) \<le> of_be ?xs" "of_be ?xs < 2 ^ (8 * 32 - k)"
    by (auto simp: bucket_index_def)
  then show "bucket_index a b < 256" "2 ^ (255 - bucket_index a b) \<le> b32_val (xor_distance a b)"
    "b32_val (xor_distance a b) < 2 ^ (256 - bucket_index a b)"
    by (simp_all add: b32_val_def)
qed

lemma bucket_index_less [simp]: "bucket_index a b < 256"
  by (cases "a = b") (simp_all add: bucket_index_self bucket_index_range)

lemma bucket_index_fill32:
  "bucket_index (fill32 a) (fill32 b) = (if a = b then 255 else leading_zeros (a XOR b))"
proof -
  have "replicate 32 c = c # replicate 31 c" for c :: byte by (simp add: numeral_eq_Suc)
  then show ?thesis
    by (auto simp: bucket_index_self) (simp add: bucket_index_def zip_replicate xor_eq_0_iff)
qed

text \<open>Bucket i holds exactly the nodes whose XOR distance to the local node, read as a
  number, lies between 2^(255-i) inclusive and 2^(256-i) exclusive: the byte scan of
  bucket_index computes the position of the leading bit.\<close>

theorem bucket_holds_distance_range:
  assumes "a \<noteq> b"
  shows "bucket_index a b = i \<longleftrightarrow>
     i < 256 \<and> 2 ^ (255 - i) \<le> b32_val (xor_distance a b) \<and> b32_val (xor_distance a b) < 2 ^ (256 - i)"
proof
  assume i: "i < 256 \<and> 2 ^ (255 - i) \<le> b32_val (xor_distance a b)
    \<and> b32_val (xor_distance a b) < 2 ^ (256 - i)"
  let ?j = "bucket_index a b"
  note j = bucket_index_range [OF assms]
  from i j have "(2::nat) ^ (255 - i) < 2 ^ (256 - ?j)" "(2::nat) ^ (255 - ?j) < 2 ^ (256 - i)"
    by (meson le_less_trans)+
  then have "255 - i < 256 - ?j" "255 - ?j < 256 - i" by (simp_all del: One_nat_def)
  with i j(1) show "?j = i" by linarith
qed (use bucket_index_range [OF assms] in auto)

theorem bucket_holds_distance_range_witness:
  "bucket_index (fill32 0) (fill32 1) = 7 \<longleftrightarrow>
     (7::nat) < 256 \<and> 2 ^ (255 - 7) \<le> b32_val (xor_distance (fill32 0) (fill32 1))
     \<and> b32_val (xor_distance (fill32 0) (fill32 1)) < 2 ^ (256 - 7)"
  by (rule bucket_holds_distance_range) simp

text \<open>A node in a bucket of higher index is strictly closer to the local node than one in
  a bucket of lower index.\<close>

theorem higher_bucket_is_closer:
  assumes "bucket_index l a < bucket_index l b"
  shows "xor_distance l b < xor_distance l a"
proof -
  from assms have "l \<noteq> a" using bucket_index_self bucket_index_less [of l b] by force
  show ?thesis
  proof (cases "l = b")
    case True
    with \<open>l \<noteq> a\<close> show ?thesis
      by (metis fill32_0_least order_le_imp_less_or_eq xor_distance_0 xor_distance_self)
  next
    case False
    have "256 - bucket_index l b \<le> 255 - bucket_index l a" using assms by linarith
    then have "(2::nat) ^ (256 - bucket_index l b) \<le> 2 ^ (255 - bucket_index l a)"
      by (rule power_increasing) simp
    with bucket_index_range(3) [OF False] bucket_index_range(2) [OF \<open>l \<noteq> a\<close>]
    show ?thesis unfolding less_b32_def by linarith
  qed
qed

theorem higher_bucket_is_closer_witness:
  "xor_distance (fill32 0) (fill32 1) < xor_distance (fill32 0) (fill32 128)"
  by (rule higher_bucket_is_closer) (simp add: bucket_index_fill32 leading_zeros_def)

section \<open>The routing table invariant\<close>

text \<open>
  A bucket holds distinct identities, no more than its capacity, never the local one, and
  each in the bucket of its own distance.
\<close>

definition bucket_ok :: "node_id \<Rightarrow> nat \<Rightarrow> kbucket \<Rightarrow> bool" where
  "bucket_ok l i b \<longleftrightarrow> distinct (map be_node_id (kb_entries b))
     \<and> length (kb_entries b) \<le> kb_capacity b \<and> kb_capacity b = k_bucket_size
     \<and> (\<forall>e \<in> set (kb_entries b). be_node_id e \<noteq> l \<and> bucket_index l (be_node_id e) = i)"

definition dht_ok :: "dht_manager \<Rightarrow> bool" where
  "dht_ok d \<longleftrightarrow> length (dht_buckets d) = bucket_count \<and> hm_ok (dht_values d)
     \<and> (\<forall>i < bucket_count. bucket_ok (dht_local_id d) i (dht_buckets d ! i))"

lemma bucket_ok_new [simp]: "bucket_ok l i (kb_new k_bucket_size)"
  by (simp add: bucket_ok_def kb_new_def)

lemma dht_ok_new [simp]: "dht_ok (dht_new l)"
  by (simp add: dht_ok_def dht_new_def hm_simps)

lemma update_first_map:
  "update_first p f xs = Some (y, ys) \<Longrightarrow> (\<And>x. g (f x) = g x) \<Longrightarrow> map g ys = map g xs"
  by (induction xs arbitrary: y ys) (auto split: if_splits)

lemma kb_insert_ok:
  assumes "bucket_ok l i b" and "nid \<noteq> l" and "bucket_index l nid = i"
  shows "bucket_ok l i (fst (kb_insert now nid addr b))"
proof (cases "update_first (\<lambda>e. be_node_id e = nid)
    (\<lambda>e. e\<lparr>be_last_seen := now, be_addr := addr\<rparr>) (kb_entries b)")
  case None
  then have "nid \<notin> be_node_id ` set (kb_entries b)" by (auto simp: update_first_None)
  with None assms show ?thesis by (auto simp: kb_insert_def bucket_ok_def Let_def)
next
  case (Some p)
  obtain y ys where p: "p = (y, ys)" by force
  with Some have m: "map be_node_id ys = map be_node_id (kb_entries b)"
    by (auto intro: update_first_map)
  then have "be_node_id ` set ys = be_node_id ` set (kb_entries b)" by (metis set_map)
  with Some p m assms(1) have "bucket_ok l i (b\<lparr>kb_entries := ys\<rparr>)"
    unfolding bucket_ok_def
    by (simp add: update_first_length) (metis (no_types, lifting) image_iff)
  with Some p show ?thesis by (simp add: kb_insert_def)
qed

lemma kb_remove_ok: "bucket_ok l i b \<Longrightarrow> bucket_ok l i (fst (kb_remove nid b))"
proof (cases "position (\<lambda>e. be_node_id e = nid) (kb_entries b)")
  case (Some j)
  assume ok: "bucket_ok l i b"
  from Some have "j < length (kb_entries b)" by (simp add: position_Some)
  with ok Some set_remove_at_subset [of j "kb_entries b"] show ?thesis
    by (auto simp: bucket_ok_def kb_remove_def length_remove_at map_remove_at distinct_remove_at)
qed (simp add: kb_remove_def)

lemma kb_touch_ok: "bucket_ok l i b \<Longrightarrow> bucket_ok l i (fst (kb_touch now nid b))"
proof (cases "position (\<lambda>e. be_node_id e = nid) (kb_entries b)")
  case (Some j)
  assume ok: "bucket_ok l i b"
  let ?es = "kb_entries b"
  from Some have j: "j < length ?es" by (simp add: position_Some)
  from ok have dist: "distinct (map be_node_id ?es)" by (simp add: bucket_ok_def)
  have "be_node_id (?es ! j) \<notin> set (map be_node_id (remove_at j ?es))"
    using distinct_remove_at(2) [OF dist, of j] j by (simp add: map_remove_at)
  moreover have "set (remove_at j ?es) \<subseteq> set ?es" by (rule set_remove_at_subset)
  moreover have "?es ! j \<in> set ?es" using j by (rule nth_mem)
  ultimately show ?thesis using ok Some j distinct_remove_at(1) [OF dist, of j]
    by (auto simp: bucket_ok_def kb_touch_def length_remove_at map_remove_at)
qed (simp add: kb_touch_def)

text \<open>Replacing one bucket by one that is still right keeps the table right.\<close>

lemma dht_ok_update_bucket:
  assumes "dht_ok d" and "bucket_ok (dht_local_id d) idx b"
  shows "dht_ok (d\<lparr>dht_buckets := (dht_buckets d)[idx := b]\<rparr>)"
proof -
  have "bucket_ok (dht_local_id d) i ((dht_buckets d)[idx := b] ! i)" if "i < bucket_count" for i
    using assms that by (cases "i = idx") (simp_all add: dht_ok_def)
  with assms show ?thesis by (simp add: dht_ok_def)
qed

lemma dht_ok_bucket: "dht_ok d \<Longrightarrow> i < 256 \<Longrightarrow> bucket_ok (dht_local_id d) i (dht_buckets d ! i)"
  by (simp add: dht_ok_def bucket_count_def)

lemma dht_ok_bucket_index:
  "dht_ok d \<Longrightarrow> bucket_ok (dht_local_id d) (bucket_index (dht_local_id d) nid)
                     (dht_buckets d ! bucket_index (dht_local_id d) nid)"
  by (rule dht_ok_bucket) simp_all

lemma insert_node_ok: "dht_ok d \<Longrightarrow> dht_ok (fst (insert_node now nid addr d))"
  by (simp add: insert_node_def Let_def case_prod_beta dht_ok_update_bucket kb_insert_ok dht_ok_bucket_index)

lemma touch_node_ok: "dht_ok d \<Longrightarrow> dht_ok (fst (touch_node now nid d))"
  by (simp add: touch_node_def Let_def case_prod_beta dht_ok_update_bucket kb_touch_ok dht_ok_bucket_index)

lemma remove_node_ok: "dht_ok d \<Longrightarrow> dht_ok (fst (remove_node nid d))"
  by (simp add: remove_node_def Let_def case_prod_beta dht_ok_update_bucket kb_remove_ok dht_ok_bucket_index)

lemma put_value_ok: "dht_ok d \<Longrightarrow> dht_ok (fst (put_value h now k v ttl d))"
  by (simp add: put_value_def dht_ok_def Let_def hm_simps)

lemma cleanup_values_ok: "dht_ok d \<Longrightarrow> dht_ok (fst (cleanup_values now d))"
  by (simp add: cleanup_values_def dht_ok_def Let_def)

lemma insert_nodes_ok: "dht_ok d \<Longrightarrow> dht_ok (insert_nodes now ns d)"
  unfolding insert_nodes_def
  by (induction ns arbitrary: d) (auto intro: insert_node_ok)

lemma bootstrap_ok: "dht_ok d \<Longrightarrow> dht_ok (bootstrap_from_nodes now as d)"
  unfolding bootstrap_from_nodes_def
  by (induction as arbitrary: d) (auto intro: insert_node_ok)

lemma handle_put_ok: "dht_ok d \<Longrightarrow> dht_ok (fst (handle_put h now data d))"
  by (simp add: handle_put_def Let_def put_value_ok)

lemma process_message_ok: "dht_ok d \<Longrightarrow> dht_ok (fst (process_message h now secs sender p d))"
  by (auto simp: process_message_def Let_def touch_node_ok insert_nodes_ok handle_put_ok
      split: list.split option.split dht_message_type.split)

text \<open>
  Refreshing a bucket: removing each listed identity in turn empties the bucket, so the
  whole operation either clears it or leaves it.
\<close>

lemma fold_kb_remove_all:
  "kb_entries b = es \<Longrightarrow> fold (\<lambda>nid b. fst (kb_remove nid b)) (map be_node_id es) b = b\<lparr>kb_entries := []\<rparr>"
proof (induction es arbitrary: b)
  case (Cons e es)
  then have "fst (kb_remove (be_node_id e) b) = b\<lparr>kb_entries := es\<rparr>"
    by (simp add: kb_remove_def remove_at_def)
  with Cons.IH [of "b\<lparr>kb_entries := es\<rparr>"] show ?case by simp
qed simp

lemma kb_refresh_eq:
  "kb_refresh now b =
    (if \<exists>e es. kb_entries b = e # es \<and> from_secs 300 < elapsed now (be_last_seen e)
     then (b\<lparr>kb_entries := []\<rparr>, length (kb_entries b)) else (b, 0))"
  using fold_kb_remove_all [OF refl, of b]
  by (cases "kb_entries b")
     (simp_all add: kb_refresh_def kb_least_recently_seen_def node_timeout_secs_def)

lemma dht_refresh_ok: "dht_ok d \<Longrightarrow> dht_ok (fst (dht_refresh now d))"
proof -
  assume ok: "dht_ok d"
  have "bucket_ok l i b \<Longrightarrow> bucket_ok l i (fst (kb_refresh now b))" for l i b
    by (subst kb_refresh_eq) (auto simp: bucket_ok_def)
  with ok show ?thesis by (simp add: dht_refresh_def dht_ok_def Let_def)
qed

text \<open>Every operation of the manager, message handling included, as one step.\<close>

datatype dht_op =
  DhtInsert instant node_id string
| DhtTouch instant node_id
| DhtRemove node_id
| DhtPut u64 bytes bytes u64
| DhtCleanup u64
| DhtBootstrap instant "string list"
| DhtRefresh instant
| DhtMessage instant u64 node_id bytes
| DhtSetAddr string
| DhtStart
| DhtStop

fun dht_step :: "(bytes \<Rightarrow> b32) \<Rightarrow> dht_op \<Rightarrow> dht_manager \<Rightarrow> dht_manager" where
  "dht_step h (DhtInsert now i a) d = fst (insert_node now i a d)"
| "dht_step h (DhtTouch now i) d = fst (touch_node now i d)"
| "dht_step h (DhtRemove i) d = fst (remove_node i d)"
| "dht_step h (DhtPut secs k v ttl) d = fst (put_value h secs k v ttl d)"
| "dht_step h (DhtCleanup secs) d = fst (cleanup_values secs d)"
| "dht_step h (DhtBootstrap now as) d = bootstrap_from_nodes now as d"
| "dht_step h (DhtRefresh now) d = fst (dht_refresh now d)"
| "dht_step h (DhtMessage now secs sender p) d = fst (process_message h now secs sender p d)"
| "dht_step h (DhtSetAddr a) d = dht_set_local_addr a d"
| "dht_step h DhtStart d = dht_start d"
| "dht_step h DhtStop d = dht_stop d"

lemma local_id_insert [simp]: "dht_local_id (fst (insert_node now i a d)) = dht_local_id d"
  by (simp add: insert_node_def Let_def case_prod_beta)

lemma local_id_touch [simp]: "dht_local_id (fst (touch_node now i d)) = dht_local_id d"
  by (simp add: touch_node_def Let_def case_prod_beta)

lemma local_id_remove [simp]: "dht_local_id (fst (remove_node i d)) = dht_local_id d"
  by (simp add: remove_node_def Let_def case_prod_beta)

lemma local_id_insert_nodes [simp]: "dht_local_id (insert_nodes now ns d) = dht_local_id d"
  unfolding insert_nodes_def by (induction ns arbitrary: d) (auto split: prod.split)

lemma local_id_bootstrap [simp]: "dht_local_id (bootstrap_from_nodes now as d) = dht_local_id d"
  unfolding bootstrap_from_nodes_def by (induction as arbitrary: d) auto

lemma local_id_put [simp]: "dht_local_id (fst (put_value h now k v ttl d)) = dht_local_id d"
  by (simp add: put_value_def Let_def)

lemma local_id_process [simp]: "dht_local_id (fst (process_message h now secs sender p d)) = dht_local_id d"
  by (auto simp: process_message_def handle_put_def Let_def
      split: list.split option.split dht_message_type.split)

lemma dht_step_inv:
  "dht_ok d \<and> dht_local_id d = l \<Longrightarrow> dht_ok (dht_step h e d) \<and> dht_local_id (dht_step h e d) = l"
  by (cases e)
     (simp_all add: insert_node_ok touch_node_ok remove_node_ok put_value_ok cleanup_values_ok
       bootstrap_ok dht_refresh_ok process_message_ok,
      auto simp: cleanup_values_def dht_refresh_def dht_set_local_addr_def dht_start_def
       dht_stop_def dht_ok_def Let_def)

interpretation dht: op_machine "dht_step h" "\<lambda>d. dht_ok d \<and> dht_local_id d = l"
  by unfold_locales (rule dht_step_inv)

lemma dht_run_ok:
  "dht_ok (fold (dht_step h) ops (dht_new l)) \<and> dht_local_id (fold (dht_step h) ops (dht_new l)) = l"
  by (rule dht.run_inv) (simp add: dht_new_def [of l, THEN arg_cong [where f = dht_local_id], simplified])

text \<open>C3. After any sequence of operations on a new DHT manager, messages from other nodes
  included, every bucket holds distinct node identities, at most 20 of them, never the
  local identity, and each node in the bucket of its XOR distance.\<close>

theorem routing_table_invariant:
  assumes "d = fold (dht_step h) ops (dht_new l)" and "i < 256" and "es = kb_entries (dht_buckets d ! i)"
  shows "distinct (map be_node_id es) \<and> length es \<le> 20
     \<and> (\<forall>e \<in> set es. be_node_id e \<noteq> l \<and> bucket_index l (be_node_id e) = i)"
  using dht_run_ok [of h ops l] dht_ok_bucket [of d i] assms
  by (auto simp: bucket_ok_def k_bucket_size_def)

theorem routing_table_invariant_witness:
  "let es = kb_entries (dht_buckets (fold (dht_step (\<lambda>_. fill32 0))
              [DhtInsert 0 (fill32 1) ''a'', DhtMessage 1 0 (fill32 1) [1]] (dht_new (fill32 0))) ! 7)
   in distinct (map be_node_id es) \<and> length es \<le> 20
     \<and> (\<forall>e \<in> set es. be_node_id e \<noteq> fill32 0 \<and> bucket_index (fill32 0) (be_node_id e) = 7)"
  unfolding Let_def
  by (rule routing_table_invariant [OF refl _ refl]) simp

section \<open>The nearest nodes\<close>

lemma all_nodes_length: "length (all_nodes d) = node_count d"
  by (simp add: all_nodes_def node_count_def kb_len_def [abs_def] length_concat o_def)

text \<open>
  \<open>find_nearest\<close> in one expression: the known nodes sorted by distance, stably, and cut.
\<close>

lemma find_nearest_eq:
  "find_nearest d t n = take n (sort_key (\<lambda>p. xor_distance t (fst p)) (all_nodes d))"
proof -
  let ?g = "\<lambda>(i, a). (i, a, xor_distance t i)"
  let ?c = "concat (map (\<lambda>b. map (\<lambda>e. (be_node_id e, be_addr e, xor_distance t (be_node_id e)))
              (kb_entries b)) (dht_buckets d))"
  have c: "?c = map ?g (all_nodes d)"
    by (simp add: all_nodes_def map_concat o_def)
  have "sort_by (\<lambda>(_, _, x) (_, _, y). cmp_xor x y) ?c = sort_key (\<lambda>(_, _, x). x) ?c"
    by (rule sort_by_key) (auto simp: cmp_xor_compare)
  also have "\<dots> = map ?g (sort_key (\<lambda>p. xor_distance t (fst p)) (all_nodes d))"
    unfolding c sort_key_map by (simp add: case_prod_beta)
  finally show ?thesis
    by (simp add: find_nearest_def Let_def take_map o_def case_prod_beta)
qed

text \<open>
  What a router expects of whatever finds nodes for it: the answer is drawn from the known
  nodes, holds as many as there are up to the limit, is sorted by distance, and leaves out
  no node closer than one it holds.
\<close>

locale node_finder =
  fixes find :: "'d \<Rightarrow> node_id \<Rightarrow> (node_id \<times> string) list"
    and known :: "'d \<Rightarrow> (node_id \<times> string) list" and limit :: nat
  assumes find_known: "set (find d t) \<subseteq> set (known d)"
    and find_length: "length (find d t) = min limit (length (known d))"
    and find_sorted: "sorted (map (\<lambda>p. xor_distance t (fst p)) (find d t))"
    and find_least: "x \<in> set (known d) \<Longrightarrow> x \<notin> set (find d t) \<Longrightarrow> y \<in> set (find d t)
                     \<Longrightarrow> xor_distance t (fst y) \<le> xor_distance t (fst x)"
    and limit_pos: "0 < limit"
begin

lemma find_empty: "find d t = [] \<longleftrightarrow> known d = []"
  using find_length [of d t] limit_pos by (cases "known d") auto

lemma first_is_closest:
  assumes "find d t = p # ps" and "x \<in> set (known d)"
  shows "xor_distance t (fst p) \<le> xor_distance t (fst x)"
proof (cases "x \<in> set (find d t)")
  case True
  with assms find_sorted [of t d] show ?thesis by auto
next
  case False
  with assms find_least [of x d t p] show ?thesis by simp
qed

text \<open>A known target is the first node of its own answer, since its distance is zero.\<close>

lemma known_target_first:
  assumes "find d t = p # ps" and "(t, a) \<in> set (known d)"
  shows "fst p = t"
proof -
  have "xor_distance t (fst p) \<le> fill32 0"
    using first_is_closest [OF assms] by (simp add: xor_distance_self)
  then have "xor_distance t (fst p) = fill32 0"
    using fill32_0_least [of "xor_distance t (fst p)"] by (rule antisym)
  then show ?thesis by (simp add: xor_distance_0)
qed

end

lemma find_nearest_finder:
  assumes "0 < n"
  shows "node_finder (\<lambda>d t. find_nearest d t n) all_nodes n"
proof (unfold_locales, unfold find_nearest_eq)
  fix d t x y
  let ?s = "sort_key (\<lambda>p. xor_distance t (fst p)) (all_nodes d)"
  show "set (take n ?s) \<subseteq> set (all_nodes d)" by (metis set_sort set_take_subset)
  show "length (take n ?s) = min n (length (all_nodes d))" by (simp add: min.commute)
  show "sorted (map (\<lambda>p. xor_distance t (fst p)) (take n ?s))" by (simp add: sorted_wrt_take flip: take_map)
  show "x \<in> set (all_nodes d) \<Longrightarrow> x \<notin> set (take n ?s) \<Longrightarrow> y \<in> set (take n ?s)
      \<Longrightarrow> xor_distance t (fst y) \<le> xor_distance t (fst x)"
    by (rule take_sort_key_least)
qed (rule assms)

interpretation dht_find: node_finder find_node all_nodes k_bucket_size
  using find_nearest_finder [of k_bucket_size] by (simp add: find_node_def [abs_def] k_bucket_size_def)

text \<open>C10. The answer of find_nearest is sorted by XOR distance to the target, is part of
  the known nodes, holds as many as asked for or all there are, and no known node left
  out is closer than one it holds: for every table, target and number, and also when
  all nodes fit.\<close>

theorem find_nearest_returns_nearest:
  "sorted (map (\<lambda>p. xor_distance t (fst p)) (find_nearest d t n))
   \<and> mset (find_nearest d t n) \<subseteq># mset (all_nodes d)
   \<and> length (find_nearest d t n) = min n (node_count d)
   \<and> (\<forall>x \<in># mset (all_nodes d) - mset (find_nearest d t n). \<forall>y \<in> set (find_nearest d t n).
         xor_distance t (fst y) \<le> xor_distance t (fst x))"
proof -
  let ?s = "sort_key (\<lambda>p. xor_distance t (fst p)) (all_nodes d)"
  have split: "mset (all_nodes d) = mset (take n ?s) + mset (drop n ?s)"
    by (metis append_take_drop_id mset_append mset_sort)
  then have rest: "mset (all_nodes d) - mset (take n ?s) = mset (drop n ?s)" by simp
  have s: "sorted (map (\<lambda>p. xor_distance t (fst p)) (take n ?s) @ map (\<lambda>p. xor_distance t (fst p)) (drop n ?s))"
    by (simp flip: map_append)
  then have "sorted (map (\<lambda>p. xor_distance t (fst p)) (take n ?s))"
    and "\<forall>x \<in> set (drop n ?s). \<forall>y \<in> set (take n ?s). xor_distance t (fst y) \<le> xor_distance t (fst x)"
    unfolding sorted_append by auto
  then show ?thesis
    unfolding find_nearest_eq rest by (simp add: split min.commute flip: all_nodes_length)
qed

definition sample_dht :: dht_manager where
  "sample_dht = (dht_new (fill32 0))\<lparr>dht_buckets :=
     [\<lparr>kb_entries = [\<lparr>be_node_id = fill32 1, be_addr = ''a'', be_last_seen = 0\<rparr>,
                    \<lparr>be_node_id = fill32 2, be_addr = ''b'', be_last_seen = 0\<rparr>],
       kb_capacity = k_bucket_size\<rparr>]\<rparr>"

lemma all_nodes_sample: "all_nodes sample_dht = [(fill32 1, ''a''), (fill32 2, ''b'')]"
  by (simp add: all_nodes_def sample_dht_def)

lemma find_nearest_sample: "find_nearest sample_dht (fill32 1) 1 = [(fill32 1, ''a'')]"
  by (simp add: find_nearest_eq all_nodes_sample xor_distance_self fill32_0_least)

theorem find_nearest_returns_nearest_witness:
  "find_nearest sample_dht (fill32 1) 1 = [(fill32 1, ''a'')]
   \<and> xor_distance (fill32 1) (fill32 1) \<le> xor_distance (fill32 1) (fill32 2)"
proof -
  have "(fill32 2, ''b'') \<in># mset (all_nodes sample_dht) - mset (find_nearest sample_dht (fill32 1) 1)"
    and "(fill32 1, ''a'') \<in> set (find_nearest sample_dht (fill32 1) 1)"
    by (simp_all add: find_nearest_sample [simplified] all_nodes_sample)
  with find_nearest_returns_nearest [of "fill32 1" sample_dht 1]
  have "xor_distance (fill32 1) (fst (fill32 1, ''a'')) \<le> xor_distance (fill32 1) (fst (fill32 2, ''b''))" by blast
  then show ?thesis by (simp add: find_nearest_sample [simplified])
qed

section \<open>The codec of node lists\<close>

definition node_encodable :: "node_id \<times> string \<Rightarrow> bool" where
  "node_encodable p \<longleftrightarrow> length (snd p) \<le> u16_max \<and> utf8_valid (str_bytes (snd p))"

lemma encode_node_eq:
  "node_encodable (i, a) \<Longrightarrow> encode_node (i, a) = as_bytes i @ to_be 2 (length a) @ str_bytes a"
  by (simp add: encode_node_def node_encodable_def Let_def min_def)

lemma slice_at: "sub_slice (p @ xs) (length p + a) (length p + b) = sub_slice xs a b"
  by (simp add: sub_slice_def)

lemma decode_one:
  assumes "node_encodable (i, a)"
  shows "decode_nodes (Suc n) (p @ encode_node (i, a) @ s) (length p)
       = (i, a) # decode_nodes n (p @ encode_node (i, a) @ s) (length (p @ encode_node (i, a)))"
proof -
  let ?d = "p @ encode_node (i, a) @ s"
  note enc = encode_node_eq [OF assms]
  have la: "length a < 256 ^ 2" using assms by (simp add: node_encodable_def u16_max_def)
  have "sub_slice ?d (length p + 0) (length p + 32) = as_bytes i"
    unfolding slice_at by (simp add: sub_slice_def enc)
  moreover have "sub_slice ?d (length p + 32) (length p + 34) = to_be 2 (length a)"
    unfolding slice_at by (simp add: sub_slice_def enc)
  moreover have "sub_slice ?d (length p + 34) (length p + 34 + length a) = str_bytes a"
    unfolding add.assoc slice_at by (simp add: sub_slice_def enc)
  moreover have "of_be (to_be 2 (length a)) = length a" using la by (rule of_be_to_be_id)
  moreover have "from_utf8 (str_bytes a) = Some a"
    using assms by (simp add: from_utf8_str_bytes node_encodable_def)
  moreover have "length ?d = length p + 34 + length a + length s" by (simp add: enc)
  ultimately show ?thesis by (simp add: Let_def enc add.assoc)
qed

lemma decode_nodes_encoded:
  "\<forall>x \<in> set ns. node_encodable x \<Longrightarrow>
   decode_nodes (length ns) (p @ concat (map encode_node ns) @ s) (length p) = ns"
proof (induction ns arbitrary: p)
  case (Cons x ns)
  obtain i a where x: "x = (i, a)" by force
  with Cons.prems have "node_encodable (i, a)" by simp
  from decode_one [OF this, of "length ns" p "concat (map encode_node ns) @ s"]
  have "decode_nodes (length (x # ns)) (p @ concat (map encode_node (x # ns)) @ s) (length p)
      = x # decode_nodes (length ns) ((p @ encode_node x) @ concat (map encode_node ns) @ s)
              (length (p @ encode_node x))"
    by (simp only: x length_Cons list.map concat.simps append_assoc)
  also have "\<dots> = x # ns" by (subst Cons.IH) (use Cons.prems in auto)
  finally show ?case .
qed simp

text \<open>Decoding an encoded node list gives the list back, whatever bytes follow it, when it
  has at most 65535 nodes with valid addresses of at most 65535 bytes.\<close>

theorem node_list_roundtrip:
  assumes "\<forall>p \<in> set ns. node_encodable p" and "length ns \<le> 65535"
  shows "decode_node_list (encode_node_list ns @ rest) = ns"
proof -
  have e: "encode_node_list ns = to_be 2 (length ns) @ concat (map encode_node ns)"
    using assms(2) by (simp add: encode_node_list_def u16_max_def)
  have "of_be (to_be 2 (length ns)) = length ns"
    using assms(2) by (intro of_be_to_be_id) simp
  moreover have "sub_slice (encode_node_list ns @ rest) 0 2 = to_be 2 (length ns)"
    by (simp add: sub_slice_def e)
  moreover have "decode_nodes (length ns) (encode_node_list ns @ rest) 2 = ns"
    using decode_nodes_encoded [OF assms(1), of "to_be 2 (length ns)" rest] by (simp add: e)
  ultimately show ?thesis by (simp add: decode_node_list_def e)
qed

theorem node_list_roundtrip_witness:
  "decode_node_list (encode_node_list [(fill32 7, ''10.0.0.7:9885'')] @ [255])
   = [(fill32 7, ''10.0.0.7:9885'')]"
  by (rule node_list_roundtrip) (simp_all add: node_encodable_def u16_max_def str_bytes_def)

lemma decode_nodes_bound:
  "length (decode_nodes n data off) \<le> n \<and>
   (decode_nodes n data off \<noteq> [] \<longrightarrow> off + 34 * length (decode_nodes n data off) \<le> length data)"
proof (induction n data off rule: decode_nodes.induct)
  case (2 n data off)
  let ?al = "of_be (sub_slice data (off + 32) (off + 34))"
  show ?case
  proof (cases "length data < off + 32 + 2 \<or> length data < off + 34 + ?al")
    case False
    with "2" [OF _ refl refl refl _ refl] have
      "length (decode_nodes n data (off + 34 + ?al)) \<le> n \<and>
       (decode_nodes n data (off + 34 + ?al) \<noteq> [] \<longrightarrow>
        off + 34 + ?al + 34 * length (decode_nodes n data (off + 34 + ?al)) \<le> length data)"
      by simp
    with False show ?thesis by (cases "decode_nodes n data (off + 34 + ?al)") (auto simp: Let_def)
  qed (auto simp: Let_def)
qed simp

text \<open>Whatever count a node list claims, decoding returns at most 65535 nodes and consumes
  at least 34 bytes of input for each of them.\<close>

theorem decoded_nodes_bounded_by_input:
  "length (decode_node_list data) \<le> 65535 \<and> 34 * length (decode_node_list data) \<le> length data"
proof (cases "length data < 2")
  case False
  have "length (sub_slice data 0 2) = 2" using False by simp
  with of_be_less [of "sub_slice data 0 2"] have "of_be (sub_slice data 0 2) < 65536" by simp
  with False decode_nodes_bound [of "of_be (sub_slice data 0 2)" data 2] show ?thesis
    by (cases "decode_node_list data = []") (auto simp: decode_node_list_def)
qed (simp add: decode_node_list_def)

section \<open>Queries and their answers\<close>

lemma find_node_encodable:
  "\<forall>p \<in> set (all_nodes d). node_encodable p \<Longrightarrow> \<forall>p \<in> set (find_node d t). node_encodable p"
  using dht_find.find_known [of d t] by blast

text \<open>A FIND_NODE request is answered by one NODES message that decodes to exactly the
  nearest known nodes, and leaves the routing table as it was.\<close>

theorem find_node_query_answered:
  assumes "\<forall>p \<in> set (all_nodes d). node_encodable p"
  shows "\<exists>reply. process_message h now secs sender (dht_type_to_u8 DFindNode # as_bytes t @ rest) d
            = (d, [create_dht_message DNodes reply]) \<and> decode_node_list reply = find_node d t"
proof -
  have "length (find_node d t) \<le> 65535"
    by (simp add: dht_find.find_length k_bucket_size_def)
  then have "decode_node_list (encode_node_list (find_node d t)) = find_node d t"
    using node_list_roundtrip [OF find_node_encodable [OF assms], of t "[]"] by simp
  then show ?thesis
    by (intro exI [of _ "encode_node_list (find_node d t)"])
       (simp add: process_message_def dht_type_from_u8_def sub_slice_def)
qed

theorem find_node_query_answered_witness:
  "\<exists>reply. process_message (\<lambda>_. fill32 0) 1 0 (fill32 9) (dht_type_to_u8 DFindNode # as_bytes (fill32 5) @ [])
      (dht_new (fill32 0)) = (dht_new (fill32 0), [create_dht_message DNodes reply])
    \<and> decode_node_list reply = find_node (dht_new (fill32 0)) (fill32 5)"
  by (rule find_node_query_answered) (simp add: all_nodes_def dht_new_def kb_new_def)

text \<open>The layout of a PUT request, as the comment of \<open>process_message\<close> gives it.\<close>

definition put_request :: "bytes \<Rightarrow> bytes \<Rightarrow> u64 \<Rightarrow> bytes" where
  "put_request key v ttl =
     to_be 2 (length key) @ key @ to_be 4 (length v) @ v @ to_be 8 (unat ttl)"

lemma u64_of_be [bytes_simps]: "of_nat (of_be (to_be 8 (unat (w :: u64)))) = w"
proof -
  have "unat w < 256 ^ 8" using unsigned_less [of w, where 'a = nat] by simp
  then show ?thesis by (simp add: of_be_to_be_id)
qed

lemma handle_put_request:
  assumes "length key < 2 ^ 16" and "length v < 2 ^ 32"
  shows "handle_put h secs (put_request key v ttl @ rest) d = (fst (put_value h secs key v ttl d), Some ())"
proof -
  let ?d = "put_request key v ttl @ rest" and ?k = "length key" and ?v = "length v"
  have "sub_slice ?d 0 2 = to_be 2 ?k" by (simp add: put_request_def sub_slice_def)
  moreover have "sub_slice ?d 2 (2 + ?k) = key"
    by (rule slice_append_left [where p = "to_be 2 ?k" and s = "to_be 4 ?v @ v @ to_be 8 (unat ttl) @ rest",
          THEN [2] trans, OF _ _ refl, rotated 2]) (simp_all add: put_request_def)
  moreover have "sub_slice ?d (2 + ?k) (2 + ?k + 4) = to_be 4 ?v" by (simp add: put_request_def sub_slice_def)
  moreover have "sub_slice ?d (2 + ?k + 4) (2 + ?k + 4 + ?v) = v" by (simp add: put_request_def sub_slice_def)
  moreover have "sub_slice ?d (2 + ?k + 4 + ?v) (2 + ?k + 4 + ?v + 8) = to_be 8 (unat ttl)"
    by (simp add: put_request_def sub_slice_def)
  moreover have "of_be (to_be 2 ?k) = ?k" "of_be (to_be 4 ?v) = ?v"
    using assms by (simp_all add: of_be_to_be_id)
  moreover have "length ?d = 2 + ?k + 4 + ?v + 8 + length rest" by (simp add: put_request_def)
  ultimately show ?thesis by (simp add: handle_put_def Let_def u64_of_be add.assoc)
qed

lemma value_expired_iff:
  "unat t0 + unat ttl < 2 ^ 64 \<Longrightarrow>
   value_is_expired t1 (value_new t0 v ttl) \<longleftrightarrow> unat t0 + unat ttl \<le> unat t1"
  by (simp add: value_is_expired_def value_new_def word_le_nat_alt unat_word_ariths)

lemma dht_get_after_put:
  "get_value_by_hash t1 (h key) (fst (put_value h t0 key v ttl d)) =
     (if value_is_expired t1 (value_new t0 v ttl) then None else Some (value_new t0 v ttl))"
  by (simp add: get_value_by_hash_def put_value_def Let_def hm_simps)

text \<open>C11. A value stored by a PUT message is returned unchanged by a later GET message
  for the hash of its key, as long as its time to live has not run out and the sum of
  creation time and time to live fits 64 bits.\<close>

theorem put_then_get_over_messages:
  assumes "length key < 2 ^ 16" and "length v < 2 ^ 32"
    and "unat t0 + unat ttl < 2 ^ 64" and "unat t1 < unat t0 + unat ttl"
  shows "snd (process_message h now t1 q (dht_type_to_u8 DGet # as_bytes (h key))
            (fst (process_message h now t0 p (dht_type_to_u8 DPut # put_request key v ttl) d)))
       = [create_dht_message DValue (as_bytes (h key) @ to_be 4 (length v) @ v)]"
proof -
  have "handle_put h t0 (put_request key v ttl) d = (fst (put_value h t0 key v ttl d), Some ())"
    using handle_put_request [OF assms(1,2), of h t0 ttl "[]"] by simp
  moreover have "\<not> value_is_expired t1 (value_new t0 v ttl)"
    using assms(3,4) by (simp add: value_expired_iff)
  ultimately show ?thesis
    by (simp add: process_message_def dht_type_from_u8_def sub_slice_def dht_get_after_put) (simp add: value_new_def)
qed

theorem put_then_get_over_messages_witness:
  "snd (process_message (\<lambda>_. fill32 3) 0 1003 (fill32 8) (dht_type_to_u8 DGet # as_bytes (fill32 3))
      (fst (process_message (\<lambda>_. fill32 3) 0 1000 (fill32 9)
        (dht_type_to_u8 DPut # put_request [1] [2, 3] 3600) (dht_new (fill32 0)))))
   = [create_dht_message DValue (as_bytes (fill32 3) @ to_be 4 (length [2 :: byte, 3]) @ [2, 3])]"
  by (rule put_then_get_over_messages) simp_all

lemma value_lifetime:
  "get_value h t1 key (fst (put_value h t0 key v ttl d)) =
     (if unat t1 < (unat t0 + unat ttl) mod 2 ^ 64 then Some (value_new t0 v ttl) else None)"
  by (simp add: get_value_def dht_get_after_put value_is_expired_def value_new_def word_le_nat_alt
      unat_word_ariths not_le [symmetric])

text \<open>A value stored with a time to live that overflows the 64-bit expiry sum is already
  expired when it is stored (in a release build, where the addition wraps).\<close>

theorem huge_ttl_expires_at_once:
  assumes "2 ^ 64 \<le> unat t0 + unat ttl"
  shows "get_value h t0 key (fst (put_value h t0 key v ttl d)) = None"
proof -
  have "unat ttl < 2 ^ 64" using unsigned_less [of ttl, where 'a = nat] by simp
  have "(unat t0 + unat ttl) mod 2 ^ 64 = (unat t0 + unat ttl - 2 ^ 64) mod 2 ^ 64"
    using assms by (rule le_mod_geq)
  also have "\<dots> \<le> unat t0 + unat ttl - 2 ^ 64" by (rule mod_less_eq_dividend)
  also have "\<dots> \<le> unat t0" using \<open>unat ttl < 2 ^ 64\<close> by linarith
  finally show ?thesis by (simp add: value_lifetime not_less)
qed

theorem huge_ttl_expires_at_once_witness:
  "get_value (\<lambda>_. fill32 3) 1700000000 [1]
     (fst (put_value (\<lambda>_. fill32 3) 1700000000 [1] [2] 18446744073709551615 (dht_new (fill32 0)))) = None"
  by (rule huge_ttl_expires_at_once) simp

text \<open>Removing expired values never changes what a lookup returns at that time or later.\<close>

theorem cleanup_is_invisible:
  assumes "dht_ok d" and "t0 \<le> t1"
  shows "get_value_by_hash t1 k (fst (cleanup_values t0 d)) = get_value_by_hash t1 k d"
  using assms
  by (auto simp: get_value_by_hash_def cleanup_values_def Let_def hm_get_retain dht_ok_def
      value_is_expired_def split: option.split)

theorem cleanup_is_invisible_witness:
  "get_value_by_hash 50 (fill32 3) (fst (cleanup_values 40
      (fst (put_value (\<lambda>_. fill32 3) 0 [1] [2] 45 (dht_new (fill32 0))))))
   = get_value_by_hash 50 (fill32 3) (fst (put_value (\<lambda>_. fill32 3) 0 [1] [2] 45 (dht_new (fill32 0))))"
  by (rule cleanup_is_invisible) (simp_all add: put_value_ok)

section \<open>Where the table departs from its description\<close>

text \<open>
  An update leaves the order of the bucket as it was, and a full bucket turns the new node
  away without naming the oldest one.
\<close>

lemma kb_insert_present:
  assumes "nid \<in> be_node_id ` set (kb_entries b)"
  shows "snd (kb_insert now nid addr b) = Inr False"
    and "map be_node_id (kb_entries (fst (kb_insert now nid addr b))) = map be_node_id (kb_entries b)"
proof -
  let ?f = "\<lambda>e. e\<lparr>be_last_seen := now, be_addr := addr\<rparr>"
  from assms obtain y ys where u: "update_first (\<lambda>e. be_node_id e = nid) ?f (kb_entries b) = Some (y, ys)"
    by (cases "update_first (\<lambda>e. be_node_id e = nid) ?f (kb_entries b)")
       (auto simp: update_first_None)
  then have "map be_node_id ys = map be_node_id (kb_entries b)"
    by (rule update_first_map) simp
  with u show "snd (kb_insert now nid addr b) = Inr False"
    and "map be_node_id (kb_entries (fst (kb_insert now nid addr b))) = map be_node_id (kb_entries b)"
    by (simp_all add: kb_insert_def)
qed

lemma kb_insert_absent:
  assumes "nid \<notin> be_node_id ` set (kb_entries b)"
  shows "kb_insert now nid addr b =
    (if kb_is_full b then (b, Inl \<lparr>be_node_id = nid, be_addr = addr, be_last_seen = now\<rparr>)
     else (b\<lparr>kb_entries := kb_entries b @ [\<lparr>be_node_id = nid, be_addr = addr, be_last_seen = now\<rparr>]\<rparr>,
           Inr True))"
proof -
  have "update_first (\<lambda>e. be_node_id e = nid)
      (\<lambda>e. e\<lparr>be_last_seen := now, be_addr := addr\<rparr>) (kb_entries b) = None"
    using assms by (auto simp: update_first_None)
  then show ?thesis by (simp add: kb_insert_def kb_is_full_def Let_def not_le)
qed

text \<open>Inserting into a K-bucket has three outcomes: a known node is updated in place
  without moving it to the tail, a new node is appended when there is room, and a full
  bucket is left as it was and returns the rejected new entry (not the oldest one).\<close>

theorem bucket_insert_cases:
  "kb_insert now nid addr b = (b', r) \<Longrightarrow>
     (case r of
        Inr False \<Rightarrow> nid \<in> be_node_id ` set (kb_entries b)
                     \<and> map be_node_id (kb_entries b') = map be_node_id (kb_entries b)
      | Inr True \<Rightarrow> nid \<notin> be_node_id ` set (kb_entries b) \<and> \<not> kb_is_full b
                    \<and> map be_node_id (kb_entries b') = map be_node_id (kb_entries b) @ [nid]
      | Inl e \<Rightarrow> kb_is_full b \<and> b' = b \<and> be_node_id e = nid \<and> nid \<notin> be_node_id ` set (kb_entries b))"
  using kb_insert_present [of nid b now addr] kb_insert_absent [of nid b now addr]
  by (cases "nid \<in> be_node_id ` set (kb_entries b)") (auto split: if_splits)

theorem bucket_insert_cases_witness:
  "case snd (kb_insert 5 (fill32 1) ''b'' \<lparr>kb_entries = [\<lparr>be_node_id = fill32 1, be_addr = ''a'',
       be_last_seen = 0\<rparr>, \<lparr>be_node_id = fill32 2, be_addr = ''c'', be_last_seen = 1\<rparr>], kb_capacity = 2\<rparr>) of
     Inr False \<Rightarrow> True | _ \<Rightarrow> False"
proof -
  let ?b = "\<lparr>kb_entries = [\<lparr>be_node_id = fill32 1, be_addr = ''a'', be_last_seen = 0\<rparr>,
     \<lparr>be_node_id = fill32 2, be_addr = ''c'', be_last_seen = 1\<rparr>], kb_capacity = 2\<rparr>"
  obtain b' r where k: "kb_insert 5 (fill32 1) ''b'' ?b = (b', r)" by force
  from bucket_insert_cases [OF k] k show ?thesis
    by (simp add: kb_insert_def split: sum.splits bool.splits)
qed

text \<open>Refreshing a bucket whose first entry was not seen for 300 seconds removes every
  entry of the bucket, recently seen ones too; any other bucket is left alone.\<close>

theorem refresh_clears_whole_bucket:
  "kb_refresh now b =
    (if \<exists>e es. kb_entries b = e # es \<and> from_secs 300 < elapsed now (be_last_seen e)
     then (kb_clear b, kb_len b) else (b, 0))"
  by (subst kb_refresh_eq) (auto simp: kb_clear_def kb_len_def)

lemma bootstrap_snoc:
  "bootstrap_from_nodes now (as @ [a]) d = fst (insert_node now (fill32 0) a (bootstrap_from_nodes now as d))"
  by (simp add: bootstrap_from_nodes_def)

lemma bootstrap_state:
  assumes "l \<noteq> fill32 0"
  shows "as \<noteq> [] \<Longrightarrow> bootstrap_from_nodes now as (dht_new l) =
    (dht_new l)\<lparr>dht_buckets := (dht_buckets (dht_new l))[bucket_index l (fill32 0) :=
       \<lparr>kb_entries = [\<lparr>be_node_id = fill32 0, be_addr = last as, be_last_seen = now\<rparr>],
        kb_capacity = k_bucket_size\<rparr>]\<rparr>"
proof (induction as rule: rev_induct)
  case (snoc a as)
  show ?case
  proof (cases "as = []")
    case True
    with assms show ?thesis unfolding bootstrap_snoc
      by (simp add: bootstrap_from_nodes_def insert_node_def Let_def dht_new_def bucket_count_def
          kb_insert_def kb_new_def k_bucket_size_def)
  next
    case False
    with assms snoc.IH show ?thesis unfolding bootstrap_snoc
      by (simp add: insert_node_def Let_def dht_new_def bucket_count_def kb_insert_def)
  qed
qed simp

lemma concat_replicate_update:
  "i < n \<Longrightarrow> f e = [] \<Longrightarrow> concat (map f ((replicate n e)[i := b])) = f b"
proof (induction n arbitrary: i)
  case (Suc n)
  then show ?case by (cases i) (auto simp: map_replicate_const)
qed simp

text \<open>Bootstrapping a new manager from any non-empty list of addresses leaves one node in
  the table, the all-zero placeholder with the last address: the placeholders
  overwrite each other.\<close>

theorem bootstrap_keeps_one_node:
  assumes "l \<noteq> fill32 0" and "as \<noteq> []"
  shows "all_nodes (bootstrap_from_nodes now as (dht_new l)) = [(fill32 0, last as)]"
  unfolding bootstrap_state [OF assms]
  by (simp add: all_nodes_def dht_new_def concat_replicate_update kb_new_def bucket_count_def)

theorem bootstrap_keeps_one_node_witness:
  "all_nodes (bootstrap_from_nodes 0 [''a:1'', ''b:2'', ''c:3''] (dht_new (fill32 1)))
   = [(fill32 0, last [''a:1'', ''b:2'', ''c:3''])]"
  by (rule bootstrap_keeps_one_node) simp_all

end
