(* ===== verification/Election.thy ===== *)
theory Election
  imports NodeId Wire
begin

text \<open>
  Election of the registry centre (\<open>src/registry/election.rs\<close>): the state of one
  \<open>ElectionManager\<close>, its transitions and its message handlers. The JSON codec is library
  code and enters as a record of encoders and decoders, SHA-256 as a function; the
  callbacks that the owner injects show as the effects a handler has: the messages it
  sends, the starts and stops of the registry service, the data it loads. Locks are never
  poisoned in the model (that needs a panic while one is held), and the monitor thread,
  which only sleeps, is left out.
\<close>

section \<open>Messages\<close>

datatype registry_status = Follower | Candidate | Leader

datatype election_message_type =
  ElectionRequest | ElectionVote | ElectionResult | RegistryChange | RegistrySync

definition election_type_from_u8 :: "byte \<Rightarrow> election_message_type option" where
  "election_type_from_u8 b =
     (if b = 0x11 then Some ElectionRequest
      else if b = 0x12 then Some ElectionVote
      else if b = 0x13 then Some ElectionResult
      else if b = 0x14 then Some RegistryChange
      else if b = 0x15 then Some RegistrySync
      else None)"

fun election_type_to_u8 :: "election_message_type \<Rightarrow> byte" where
  "election_type_to_u8 ElectionRequest = 0x11"
| "election_type_to_u8 ElectionVote = 0x12"
| "election_type_to_u8 ElectionResult = 0x13"
| "election_type_to_u8 RegistryChange = 0x14"
| "election_type_to_u8 RegistrySync = 0x15"

interpretation et: wire_tag election_type_to_u8 election_type_from_u8
proof unfold_locales
  fix t b
  show "election_type_from_u8 (election_type_to_u8 t) = Some t"
    by (cases t) (simp_all add: election_type_from_u8_def)
  show "election_type_from_u8 b = Some t \<Longrightarrow> election_type_to_u8 t = b"
    by (auto simp: election_type_from_u8_def split: if_splits)
qed

record election_request =
  er_candidate_id :: node_id
  er_candidate_name :: string
  er_term :: u64

record election_vote =
  ev_voter_id :: node_id
  ev_candidate_id :: node_id
  ev_term :: u64
  ev_granted :: bool

record election_result =
  es_leader_id :: node_id
  es_leader_name :: string
  es_term :: u64

record registry_change =
  rc_registry_id :: node_id
  rc_registry_name :: string
  rc_registry_addr :: string
  rc_term :: u64

record registry_sync =
  sy_requester_id :: node_id
  sy_requester_name :: string
  sy_term :: u64

record sync_response =
  sr_leader_id :: node_id
  sr_leader_name :: string
  sr_term :: u64
  sr_registry_data :: string

text \<open>What \<open>serde_json::to_vec\<close> and \<open>from_slice\<close> do on each payload.\<close>

record json_codec =
  enc_request :: "election_request \<Rightarrow> bytes"
  dec_request :: "bytes \<Rightarrow> string + election_request"
  enc_vote :: "election_vote \<Rightarrow> bytes"
  dec_vote :: "bytes \<Rightarrow> string + election_vote"
  enc_result :: "election_result \<Rightarrow> bytes"
  dec_result :: "bytes \<Rightarrow> string + election_result"
  enc_change :: "registry_change \<Rightarrow> bytes"
  dec_change :: "bytes \<Rightarrow> string + registry_change"
  enc_sync :: "registry_sync \<Rightarrow> bytes"
  dec_sync :: "bytes \<Rightarrow> string + registry_sync"
  enc_response :: "sync_response \<Rightarrow> bytes"
  dec_response :: "bytes \<Rightarrow> string + sync_response"

datatype election_error =
  NoRelayManager | SerializeError string | SendFailed string | LockPoisoned
| ElectionTimeout | NotEnoughNodes

definition is_follower :: "registry_status \<Rightarrow> bool" where
  "is_follower s \<longleftrightarrow> s = Follower"

definition is_candidate :: "registry_status \<Rightarrow> bool" where
  "is_candidate s \<longleftrightarrow> s = Candidate"

definition is_leader :: "registry_status \<Rightarrow> bool" where
  "is_leader s \<longleftrightarrow> s = Leader"

fun registry_status_display :: "registry_status \<Rightarrow> string" where
  "registry_status_display Follower = ''Follower''"
| "registry_status_display Candidate = ''Candidate''"
| "registry_status_display Leader = ''Leader''"

fun election_error_display :: "election_error \<Rightarrow> string" where
  "election_error_display NoRelayManager = ''no relay manager configured''"
| "election_error_display (SerializeError msg) = ''serialize error: '' @ msg"
| "election_error_display (SendFailed msg) = ''send failed: '' @ msg"
| "election_error_display LockPoisoned = ''lock poisoned''"
| "election_error_display ElectionTimeout = ''election timeout''"
| "election_error_display NotEnoughNodes = ''not enough nodes for election''"

section \<open>The manager\<close>

record election_config =
  cf_heartbeat_miss_threshold :: u32
  cf_election_timeout :: duration

definition election_config_default :: election_config where
  "election_config_default = \<lparr>cf_heartbeat_miss_threshold = 3, cf_election_timeout = from_millis 1500\<rparr>"

record known_node =
  kn_id :: node_id
  kn_name :: string
  kn_addr :: string

record election_manager =
  em_local_id :: node_id
  em_local_name :: string
  em_status :: registry_status
  em_term :: u64
  em_voted_for :: "node_id option"
  em_registry_id :: "node_id option"
  em_registry_name :: "string option"
  em_registry_addr :: "string option"
  em_last_heartbeat :: instant
  em_missed :: u32
  em_miss_threshold :: u32
  em_election_timeout :: duration
  em_known_nodes :: "known_node list"
  em_votes_received :: "node_id list"
  em_running :: bool
  em_send_fn :: "(string \<Rightarrow> bytes \<Rightarrow> string + unit) option"
  em_registry_control :: bool
  em_sync_callback :: "string option"
  em_load_callback :: bool

text \<open>
  The control, sync and load callbacks are kept as what the model needs of them: whether
  the control and load callbacks are set, and what the sync callback returns.
\<close>

datatype effect = Sent string bytes | Control bool | Loaded string

definition election_new ::
  "instant \<Rightarrow> node_id \<Rightarrow> string \<Rightarrow> election_config option \<Rightarrow> election_manager" where
  "election_new now i name config =
     (let c = (case config of Some c \<Rightarrow> c | None \<Rightarrow> election_config_default) in
      \<lparr>em_local_id = i, em_local_name = name, em_status = Follower, em_term = 0,
       em_voted_for = None, em_registry_id = None, em_registry_name = None,
       em_registry_addr = None, em_last_heartbeat = now, em_missed = 0,
       em_miss_threshold = cf_heartbeat_miss_threshold c,
       em_election_timeout = cf_election_timeout c, em_known_nodes = [],
       em_votes_received = [], em_running = False, em_send_fn = None,
       em_registry_control = False, em_sync_callback = None, em_load_callback = False\<rparr>)"

definition set_send_fn :: "(string \<Rightarrow> bytes \<Rightarrow> string + unit) \<Rightarrow> election_manager \<Rightarrow> election_manager" where
  "set_send_fn f m = m\<lparr>em_send_fn := Some f\<rparr>"

definition set_registry_control :: "election_manager \<Rightarrow> election_manager" where
  "set_registry_control m = m\<lparr>em_registry_control := True\<rparr>"

definition set_sync_callback :: "string \<Rightarrow> election_manager \<Rightarrow> election_manager" where
  "set_sync_callback d m = m\<lparr>em_sync_callback := Some d\<rparr>"

definition set_load_callback :: "election_manager \<Rightarrow> election_manager" where
  "set_load_callback m = m\<lparr>em_load_callback := True\<rparr>"

definition election_monitor_start :: "election_manager \<Rightarrow> election_manager" where
  "election_monitor_start m = m\<lparr>em_running := True\<rparr>"

definition election_monitor_stop :: "election_manager \<Rightarrow> election_manager" where
  "election_monitor_stop m = m\<lparr>em_running := False\<rparr>"

definition add_known_node :: "node_id \<Rightarrow> string \<Rightarrow> string \<Rightarrow> election_manager \<Rightarrow> election_manager" where
  "add_known_node i name addr m =
     (if list_ex (\<lambda>n. kn_id n = i) (em_known_nodes m) then m
      else m\<lparr>em_known_nodes := em_known_nodes m @ [\<lparr>kn_id = i, kn_name = name, kn_addr = addr\<rparr>]\<rparr>)"

definition remove_known_node :: "node_id \<Rightarrow> election_manager \<Rightarrow> election_manager" where
  "remove_known_node i m = m\<lparr>em_known_nodes := filter (\<lambda>n. kn_id n \<noteq> i) (em_known_nodes m)\<rparr>"

definition reset_heartbeat_monitor :: "instant \<Rightarrow> election_manager \<Rightarrow> election_manager" where
  "reset_heartbeat_monitor now m = m\<lparr>em_last_heartbeat := now, em_missed := 0\<rparr>"

definition set_registry :: "instant \<Rightarrow> node_id \<Rightarrow> string \<Rightarrow> string \<Rightarrow> election_manager \<Rightarrow> election_manager" where
  "set_registry now i name addr m =
     reset_heartbeat_monitor now
       (m\<lparr>em_registry_id := Some i, em_registry_name := Some name, em_registry_addr := Some addr\<rparr>)"

definition record_missed_heartbeat :: "election_manager \<Rightarrow> election_manager" where
  "record_missed_heartbeat m = m\<lparr>em_missed := em_missed m + 1\<rparr>"

definition known_nodes :: "election_manager \<Rightarrow> (node_id \<times> string \<times> string) list" where
  "known_nodes m = map (\<lambda>n. (kn_id n, kn_name n, kn_addr n)) (em_known_nodes m)"

definition known_nodes_count :: "election_manager \<Rightarrow> nat" where
  "known_nodes_count m = length (em_known_nodes m)"

definition get_local_addr :: "election_manager \<Rightarrow> string option" where
  "get_local_addr m =
     map_option kn_addr (List.find (\<lambda>n. kn_id n = em_local_id m) (em_known_nodes m))"

definition is_registry_healthy :: "election_manager \<Rightarrow> bool" where
  "is_registry_healthy m \<longleftrightarrow> em_missed m < em_miss_threshold m"

definition should_start_election :: "election_manager \<Rightarrow> bool" where
  "should_start_election m \<longleftrightarrow>
     (if em_status m \<noteq> Follower then False
      else if em_registry_id m = None then False
      else \<not> is_registry_healthy m)"

section \<open>Transitions\<close>

text \<open>\<open>broadcast\<close> tries every known node; a failed send is only logged.\<close>

definition broadcast :: "bytes \<Rightarrow> election_manager \<Rightarrow> effect list" where
  "broadcast msg m =
     (case em_send_fn m of
        None \<Rightarrow> []
      | Some _ \<Rightarrow> map (\<lambda>n. Sent (kn_addr n) msg) (em_known_nodes m))"

definition control :: "bool \<Rightarrow> election_manager \<Rightarrow> effect list" where
  "control on m = (if em_registry_control m then [Control on] else [])"

definition start_election ::
  "json_codec \<Rightarrow> election_manager \<Rightarrow> election_manager \<times> effect list \<times> (election_error + unit)" where
  "start_election c m =
     (if em_status m = Candidate then (m, [], Inr ())
      else if length (em_known_nodes m) = 0 then (m, [], Inl NotEnoughNodes)
      else
        let new_term = em_term m + 1;
            m1 = m\<lparr>em_status := Candidate, em_term := new_term,
                   em_voted_for := Some (em_local_id m), em_votes_received := [em_local_id m]\<rparr>;
            req = \<lparr>er_candidate_id = em_local_id m, er_candidate_name = em_local_name m,
                   er_term = new_term\<rparr>
        in (m1, broadcast (election_type_to_u8 ElectionRequest # enc_request c req) m1, Inr ()))"

definition become_leader :: "json_codec \<Rightarrow> election_manager \<Rightarrow> election_manager \<times> effect list" where
  "become_leader c m =
     (let addr = get_local_addr m;
          m1 = m\<lparr>em_status := Leader, em_registry_id := Some (em_local_id m),
                 em_registry_name := Some (em_local_name m), em_registry_addr := addr\<rparr>;
          result = \<lparr>es_leader_id = em_local_id m, es_leader_name = em_local_name m,
                    es_term = em_term m\<rparr>;
          changes = (case addr of
              None \<Rightarrow> []
            | Some a \<Rightarrow>
                broadcast (election_type_to_u8 RegistryChange #
                  enc_change c \<lparr>rc_registry_id = em_local_id m, rc_registry_name = em_local_name m,
                                rc_registry_addr = a, rc_term = em_term m\<rparr>) m1)
      in (m1, control True m1
              @ broadcast (election_type_to_u8 ElectionResult # enc_result c result) m1
              @ changes))"

definition become_follower ::
  "instant \<Rightarrow> u64 \<Rightarrow> node_id option \<Rightarrow> election_manager \<Rightarrow> election_manager \<times> effect list" where
  "become_follower now new_term new_registry m =
     (let m1 = (if em_term m < new_term then m\<lparr>em_term := new_term\<rparr> else m);
          m2 = m1\<lparr>em_status := Follower, em_voted_for := None, em_votes_received := []\<rparr>;
          m3 = (case new_registry of None \<Rightarrow> m2 | Some r \<Rightarrow> m2\<lparr>em_registry_id := Some r\<rparr>);
          effs = (case new_registry of
                    None \<Rightarrow> []
                  | Some r \<Rightarrow> if r \<noteq> em_local_id m then control False m3 else [])
      in (reset_heartbeat_monitor now m3, effs))"

section \<open>Voting\<close>

definition compute_candidate_hash :: "(bytes \<Rightarrow> b32) \<Rightarrow> node_id \<Rightarrow> u64 \<Rightarrow> nat" where
  "compute_candidate_hash sha256 cand term =
     of_be (take 8 (as_bytes (sha256 (as_bytes cand @ to_be 8 (unat term)))))"

definition should_vote_for :: "(bytes \<Rightarrow> b32) \<Rightarrow> election_manager \<Rightarrow> node_id \<Rightarrow> u64 \<Rightarrow> bool" where
  "should_vote_for sha256 m cand term \<longleftrightarrow>
     (if em_voted_for m \<noteq> None then False
      else if cand = em_local_id m then True
      else of_be (take 8 (as_bytes (em_local_id m))) < compute_candidate_hash sha256 cand term)"

definition build_vote_message ::
  "json_codec \<Rightarrow> election_manager \<Rightarrow> node_id \<Rightarrow> u64 \<Rightarrow> bool \<Rightarrow> bytes" where
  "build_vote_message c m cand term granted =
     election_type_to_u8 ElectionVote #
       enc_vote c \<lparr>ev_voter_id = em_local_id m, ev_candidate_id = cand, ev_term = term,
                   ev_granted = granted\<rparr>"

text \<open>
  The body of \<open>handle_election_request\<close> once the payload is parsed: the new state, the
  effects, and whether the vote is granted.
\<close>

definition vote_on_request ::
  "(bytes \<Rightarrow> b32) \<Rightarrow> instant \<Rightarrow> election_request \<Rightarrow> election_manager
   \<Rightarrow> election_manager \<times> effect list \<times> bool" where
  "vote_on_request sha256 now req m =
     (if er_term req < em_term m then (m, [], False)
      else
        let (m1, effs) = (if em_term m < er_term req then become_follower now (er_term req) None m
                          else (m, []));
            granted = should_vote_for sha256 m1 (er_candidate_id req) (er_term req);
            m2 = (if granted then m1\<lparr>em_voted_for := Some (er_candidate_id req)\<rparr> else m1)
        in (m2, effs, granted))"

type_synonym handled = "election_manager \<times> effect list \<times> (election_error + bytes option)"

definition handle_election_request ::
  "(bytes \<Rightarrow> b32) \<Rightarrow> json_codec \<Rightarrow> instant \<Rightarrow> bytes \<Rightarrow> election_manager \<Rightarrow> handled" where
  "handle_election_request sha256 c now p m =
     (case dec_request c p of
        Inl e \<Rightarrow> (m, [], Inl (SerializeError e))
      | Inr req \<Rightarrow>
          (case vote_on_request sha256 now req m of
             (m', effs, granted) \<Rightarrow>
               (m', effs, Inr (Some (build_vote_message c m' (er_candidate_id req) (er_term req) granted)))))"

text \<open>The body of \<open>handle_election_vote\<close> once the payload is parsed.\<close>

definition count_vote :: "json_codec \<Rightarrow> election_vote \<Rightarrow> election_manager \<Rightarrow> election_manager \<times> effect list" where
  "count_vote c vote m =
     (if em_status m \<noteq> Candidate then (m, [])
      else if ev_term vote \<noteq> em_term m then (m, [])
      else if ev_candidate_id vote \<noteq> em_local_id m then (m, [])
      else if ev_granted vote \<and> ev_voter_id vote \<notin> set (em_votes_received m) then
        let m1 = m\<lparr>em_votes_received := em_votes_received m @ [ev_voter_id vote]\<rparr>;
            total_nodes = length (em_known_nodes m) + 1
        in if total_nodes div 2 < length (em_votes_received m1) then become_leader c m1 else (m1, [])
      else (m, []))"

definition handle_election_vote :: "json_codec \<Rightarrow> bytes \<Rightarrow> election_manager \<Rightarrow> handled" where
  "handle_election_vote c p m =
     (case dec_vote c p of
        Inl e \<Rightarrow> (m, [], Inl (SerializeError e))
      | Inr vote \<Rightarrow> (case count_vote c vote m of (m', effs) \<Rightarrow> (m', effs, Inr None)))"

section \<open>Results, changes and synchronisation\<close>

definition accept_result :: "instant \<Rightarrow> election_result \<Rightarrow> election_manager \<Rightarrow> election_manager \<times> effect list" where
  "accept_result now r m =
     (if es_term r < em_term m then (m, [])
      else if es_leader_id r = em_local_id m then (m, [])
      else become_follower now (es_term r) (Some (es_leader_id r)) m)"

definition handle_election_result :: "json_codec \<Rightarrow> instant \<Rightarrow> bytes \<Rightarrow> election_manager \<Rightarrow> handled" where
  "handle_election_result c now p m =
     (case dec_result c p of
        Inl e \<Rightarrow> (m, [], Inl (SerializeError e))
      | Inr r \<Rightarrow> (case accept_result now r m of (m', effs) \<Rightarrow> (m', effs, Inr None)))"

definition accept_change :: "instant \<Rightarrow> registry_change \<Rightarrow> election_manager \<Rightarrow> election_manager \<times> effect list" where
  "accept_change now ch m =
     (if rc_term ch < em_term m then (m, [])
      else if rc_registry_id ch = em_local_id m then (m, [])
      else
        let m1 = m\<lparr>em_registry_id := Some (rc_registry_id ch),
                   em_registry_name := Some (rc_registry_name ch),
                   em_registry_addr := Some (rc_registry_addr ch)\<rparr>;
            stop = (if em_status m1 = Leader then control False m1 else [])
        in case become_follower now (rc_term ch) (Some (rc_registry_id ch)) m1 of
             (m2, effs) \<Rightarrow> (m2, stop @ effs))"

definition handle_registry_change :: "json_codec \<Rightarrow> instant \<Rightarrow> bytes \<Rightarrow> election_manager \<Rightarrow> handled" where
  "handle_registry_change c now p m =
     (case dec_change c p of
        Inl e \<Rightarrow> (m, [], Inl (SerializeError e))
      | Inr ch \<Rightarrow> (case accept_change now ch m of (m', effs) \<Rightarrow> (m', effs, Inr None)))"

definition answer_sync ::
  "json_codec \<Rightarrow> instant \<Rightarrow> registry_sync \<Rightarrow> election_manager \<Rightarrow> election_manager \<times> effect list \<times> bytes option" where
  "answer_sync c now sy m =
     (if em_status m \<noteq> Leader then (m, [], None)
      else if em_term m < sy_term sy then
        (case become_follower now (sy_term sy) (Some (sy_requester_id sy)) m of
           (m', effs) \<Rightarrow> (m', effs, None))
      else
        let data = (case em_sync_callback m of Some d \<Rightarrow> d | None \<Rightarrow> []);
            resp = \<lparr>sr_leader_id = em_local_id m, sr_leader_name = em_local_name m,
                    sr_term = em_term m, sr_registry_data = data\<rparr>
        in (m, [], Some (election_type_to_u8 RegistrySync # enc_response c resp)))"

definition handle_registry_sync :: "json_codec \<Rightarrow> instant \<Rightarrow> bytes \<Rightarrow> election_manager \<Rightarrow> handled" where
  "handle_registry_sync c now p m =
     (case dec_sync c p of
        Inl e \<Rightarrow> (m, [], Inl (SerializeError e))
      | Inr sy \<Rightarrow> (case answer_sync c now sy m of (m', effs, r) \<Rightarrow> (m', effs, Inr r)))"

definition request_sync ::
  "json_codec \<Rightarrow> string \<Rightarrow> election_manager \<Rightarrow> effect list \<times> (election_error + unit)" where
  "request_sync c leader_addr m =
     (let msg = election_type_to_u8 RegistrySync #
                  enc_sync c \<lparr>sy_requester_id = em_local_id m, sy_requester_name = em_local_name m,
                              sy_term = em_term m\<rparr>
      in case em_send_fn m of
           None \<Rightarrow> ([], Inl NoRelayManager)
         | Some send \<Rightarrow> ([Sent leader_addr msg], map_sum SendFailed id (send leader_addr msg)))"

definition handle_sync_response ::
  "json_codec \<Rightarrow> bytes \<Rightarrow> election_manager \<Rightarrow> election_manager \<times> effect list \<times> (election_error + unit)" where
  "handle_sync_response c p m =
     (case dec_response c p of
        Inl e \<Rightarrow> (m, [], Inl (SerializeError e))
      | Inr r \<Rightarrow>
          let m1 = (if em_term m < sr_term r then m\<lparr>em_term := sr_term r\<rparr> else m);
              m2 = m1\<lparr>em_registry_id := Some (sr_leader_id r),
                      em_registry_name := Some (sr_leader_name r)\<rparr>;
              effs = (if sr_registry_data r \<noteq> [] \<and> em_load_callback m
                      then [Loaded (sr_registry_data r)] else [])
          in (m2, effs, Inr ()))"

definition handle_message ::
  "(bytes \<Rightarrow> b32) \<Rightarrow> json_codec \<Rightarrow> instant \<Rightarrow> bytes \<Rightarrow> election_manager \<Rightarrow> handled" where
  "handle_message sha256 c now data m =
     (case data of
        [] \<Rightarrow> (m, [], Inr None)
      | b # p \<Rightarrow>
          (case election_type_from_u8 b of
             Some ElectionRequest \<Rightarrow> handle_election_request sha256 c now p m
           | Some ElectionVote \<Rightarrow> handle_election_vote c p m
           | Some ElectionResult \<Rightarrow> handle_election_result c now p m
           | Some RegistryChange \<Rightarrow> handle_registry_change c now p m
           | Some RegistrySync \<Rightarrow> handle_registry_sync c now p m
           | None \<Rightarrow> (m, [], Inr None)))"

section \<open>One vote per term\<close>

text \<open>
  The steps that concern ballots, with a log of the votes this node has given, its own
  included: (term, candidate).
\<close>

datatype ballot_op = BallotRequest instant election_request | BallotVote election_vote | BallotStart

type_synonym ballot_log = "(u64 \<times> node_id) set"

fun ballot_step ::
  "(bytes \<Rightarrow> b32) \<Rightarrow> json_codec \<Rightarrow> ballot_op \<Rightarrow> election_manager \<times> ballot_log
   \<Rightarrow> election_manager \<times> ballot_log" where
  "ballot_step h c (BallotRequest now req) (m, log) =
     (case vote_on_request h now req m of
        (m', _, granted) \<Rightarrow>
          (m', if granted then insert (er_term req, er_candidate_id req) log else log))"
| "ballot_step h c (BallotVote vote) (m, log) = (fst (count_vote c vote m), log)"
| "ballot_step h c BallotStart (m, log) =
     (let m' = fst (start_election c m)
      in (m', if em_term m' \<noteq> em_term m then insert (em_term m', em_local_id m) log else log))"

fun op_term :: "ballot_op \<Rightarrow> nat" where
  "op_term (BallotRequest now req) = unat (er_term req)"
| "op_term (BallotVote vote) = 0"
| "op_term BallotStart = 0"

definition log_ok :: "election_manager \<times> ballot_log \<Rightarrow> bool" where
  "log_ok = (\<lambda>(m, log). (\<forall>(t, x) \<in> log. t \<le> em_term m \<and> (t = em_term m \<longrightarrow> em_voted_for m = Some x))
      \<and> (\<forall>(t, x) \<in> log. \<forall>(u, y) \<in> log. t = u \<longrightarrow> x = y))"

lemma log_okI:
  assumes "\<And>t x. (t, x) \<in> log \<Longrightarrow> t \<le> em_term m"
    and "\<And>x. (em_term m, x) \<in> log \<Longrightarrow> em_voted_for m = Some x"
    and "\<And>t x y. (t, x) \<in> log \<Longrightarrow> (t, y) \<in> log \<Longrightarrow> x = y"
  shows "log_ok (m, log)"
  using assms unfolding log_ok_def by blast

lemma log_okD:
  assumes "log_ok (m, log)"
  shows "(t, x) \<in> log \<Longrightarrow> t \<le> em_term m"
    and "(em_term m, x) \<in> log \<Longrightarrow> em_voted_for m = Some x"
    and "(t, x) \<in> log \<Longrightarrow> (t, y) \<in> log \<Longrightarrow> x = y"
  using assms unfolding log_ok_def by blast+

text \<open>A node that moves to a later term, or has not voted in this one, may vote.\<close>

lemma log_ok_insert:
  assumes "log_ok (m, log)" and "em_term m < em_term m' \<or> em_term m = em_term m' \<and> em_voted_for m = None"
    and "em_voted_for m' = Some x"
  shows "log_ok (m', insert (em_term m', x) log)"
proof -
  have fresh: "(em_term m', y) \<notin> log" for y
    using assms(2) log_okD [OF assms(1)] by (metis leD option.distinct(1))
  show ?thesis
  proof (rule log_okI)
    fix t y assume "(t, y) \<in> insert (em_term m', x) log"
    then show "t \<le> em_term m'" using log_okD(1) [OF assms(1)] assms(2) by force
  next
    fix y assume "(em_term m', y) \<in> insert (em_term m', x) log"
    with fresh assms(3) show "em_voted_for m' = Some y" by auto
  next
    fix t y z assume "(t, y) \<in> insert (em_term m', x) log" "(t, z) \<in> insert (em_term m', x) log"
    with fresh log_okD(3) [OF assms(1)] show "y = z" by blast
  qed
qed

lemma log_ok_keep:
  assumes "log_ok (m, log)"
    and "em_term m < em_term m' \<or> em_term m = em_term m' \<and> em_voted_for m' = em_voted_for m"
  shows "log_ok (m', log)"
proof (rule log_okI)
  show "t \<le> em_term m'" if "(t, y) \<in> log" for t y
    using log_okD(1) [OF assms(1) that] assms(2) by force
  show "em_voted_for m' = Some y" if "(em_term m', y) \<in> log" for y
    using log_okD(1,2) [OF assms(1)] that assms(2) by (metis leD)
  show "x = y" if "(t, x) \<in> log" "(t, y) \<in> log" for t x y
    using log_okD(3) [OF assms(1) that] .
qed

lemma become_follower_term:
  "em_term (fst (become_follower now t r m)) = max (em_term m) t"
  by (auto simp: become_follower_def Let_def reset_heartbeat_monitor_def max_def split: option.split)

lemma become_follower_votes:
  "em_voted_for (fst (become_follower now t r m)) = None"
  "em_votes_received (fst (become_follower now t r m)) = []"
  "em_status (fst (become_follower now t r m)) = Follower"
  "em_known_nodes (fst (become_follower now t r m)) = em_known_nodes m"
  "em_local_id (fst (become_follower now t r m)) = em_local_id m"
  by (auto simp: become_follower_def Let_def reset_heartbeat_monitor_def split: option.split)

lemma become_leader_keeps:
  "em_term (fst (become_leader c m)) = em_term m"
  "em_voted_for (fst (become_leader c m)) = em_voted_for m"
  "em_votes_received (fst (become_leader c m)) = em_votes_received m"
  "em_status (fst (become_leader c m)) = Leader"
  "em_known_nodes (fst (become_leader c m)) = em_known_nodes m"
  "em_local_id (fst (become_leader c m)) = em_local_id m"
  by (auto simp: become_leader_def Let_def split: option.split)

lemmas transition_facts = become_follower_term become_follower_votes become_leader_keeps

lemma count_vote_keeps:
  "em_term (fst (count_vote c v m)) = em_term m"
  "em_voted_for (fst (count_vote c v m)) = em_voted_for m"
  "em_local_id (fst (count_vote c v m)) = em_local_id m"
  by (simp_all add: count_vote_def Let_def transition_facts)

text \<open>The outcomes of a request, by the comparison of terms.\<close>

lemma vote_on_request_cases:
  assumes "vote_on_request h now req m = (m', effs, granted)"
  obtains (stale) "er_term req < em_term m" "m' = m" "\<not> granted"
  | (grant_new) "em_term m < er_term req" "granted" "em_term m' = er_term req"
      "em_voted_for m' = Some (er_candidate_id req)"
  | (deny_new) "em_term m < er_term req" "\<not> granted" "em_term m' = er_term req"
  | (grant_same) "er_term req = em_term m" "granted" "em_voted_for m = None" "em_term m' = em_term m"
      "em_voted_for m' = Some (er_candidate_id req)"
  | (deny_same) "er_term req = em_term m" "\<not> granted" "m' = m"
proof (cases rule: linorder_cases [of "er_term req" "em_term m"])
  case less
  with assms have "m' = m" "\<not> granted" by (simp_all add: vote_on_request_def)
  with less stale show ?thesis by blast
next
  case equal
  let ?g = "should_vote_for h m (er_candidate_id req) (er_term req)"
  from equal have "vote_on_request h now req m
      = ((if ?g then m\<lparr>em_voted_for := Some (er_candidate_id req)\<rparr> else m), [], ?g)"
    by (simp add: vote_on_request_def Let_def)
  with assms have e: "((if ?g then m\<lparr>em_voted_for := Some (er_candidate_id req)\<rparr> else m), [], ?g) = (m', effs, granted)" by (simp only:)
  have m': "m' = (if ?g then m\<lparr>em_voted_for := Some (er_candidate_id req)\<rparr> else m)"
    using e by (elim Pair_inject) (rule sym)
  have g: "granted = ?g" using e by (auto elim!: Pair_inject)
  show ?thesis
  proof (cases ?g)
    case True
    then have "em_voted_for m = None" by (simp add: should_vote_for_def split: if_splits)
    with True m' g equal grant_same show ?thesis by simp
  next
    case False
    with m' g equal deny_same show ?thesis by simp
  qed
next
  case greater
  obtain m1 effs1 where b: "become_follower now (er_term req) None m = (m1, effs1)" by force
  with greater have t: "em_term m1 = er_term req"
    using become_follower_term [of now "er_term req" None m] by simp
  let ?g = "should_vote_for h m1 (er_candidate_id req) (er_term req)"
  from greater b have "vote_on_request h now req m
      = ((if ?g then m1\<lparr>em_voted_for := Some (er_candidate_id req)\<rparr> else m1), effs1, ?g)"
    by (simp add: vote_on_request_def Let_def less_not_sym)
  with assms have e: "((if ?g then m1\<lparr>em_voted_for := Some (er_candidate_id req)\<rparr> else m1), effs1, ?g) = (m', effs, granted)" by (simp only:)
  have m': "m' = (if ?g then m1\<lparr>em_voted_for := Some (er_candidate_id req)\<rparr> else m1)"
    using e by (elim Pair_inject) (rule sym)
  have g: "granted = ?g" using e by (auto elim!: Pair_inject)
  show ?thesis
  proof (cases ?g)
    case True
    with m' g greater t grant_new show ?thesis by simp
  next
    case False
    with m' g greater t deny_new show ?thesis by simp
  qed
qed

lemma ballot_step_ok:
  assumes "log_ok s" and "op = BallotStart \<Longrightarrow> em_term (fst s) \<noteq> - 1"
  shows "log_ok (ballot_step h c op s)"
proof -
  obtain m log where s: "s = (m, log)" by force
  show ?thesis
  proof (cases op)
    case (BallotRequest now req)
    obtain m' effs granted where v: "vote_on_request h now req m = (m', effs, granted)"
      by (metis prod_cases3)
    have ok: "log_ok (m, log)" using assms(1) s by simp
    have "log_ok (m', if granted then insert (er_term req, er_candidate_id req) log else log)"
      using v
    proof (cases rule: vote_on_request_cases)
      case grant_new
      then show ?thesis using log_ok_insert [OF ok, of m' "er_candidate_id req"] by simp
    next
      case grant_same
      then show ?thesis using log_ok_insert [OF ok, of m' "er_candidate_id req"] by simp
    qed (use ok log_ok_keep [OF ok, of m'] in simp_all)
    then show ?thesis by (simp add: BallotRequest s v)
  next
    case (BallotVote vote)
    with assms(1) log_ok_keep [of m log "fst (count_vote c vote m)"] show ?thesis
      by (simp add: s count_vote_keeps)
  next
    case BallotStart
    with assms(2) s have up: "em_term m < em_term m + 1" by (simp add: word_less_inc)
    let ?m = "m\<lparr>em_status := Candidate, em_term := em_term m + 1,
                em_voted_for := Some (em_local_id m), em_votes_received := [em_local_id m]\<rparr>"
    have ok: "log_ok (m, log)" using assms(1) s by simp
    have "log_ok (?m, insert (em_term ?m, em_local_id m) log)"
      by (rule log_ok_insert [OF ok]) (use up in simp_all)
    with BallotStart ok show ?thesis by (simp add: s start_election_def Let_def)
  qed
qed

lemma ballot_step_term:
  "unat (em_term (fst (ballot_step h c op (m, log)))) \<le> max (unat (em_term m) + 1) (op_term op)"
proof (cases op)
  case (BallotRequest now req)
  obtain m' effs granted where v: "vote_on_request h now req m = (m', effs, granted)"
    by (metis prod_cases3)
  then show ?thesis by (cases rule: vote_on_request_cases) (simp_all add: BallotRequest v)
next
  case BallotStart
  have "unat (em_term m + 1) \<le> unat (em_term m) + 1"
    by (cases "em_term m = - 1") (simp_all add: unat_inc)
  then show ?thesis by (simp add: BallotStart start_election_def Let_def)
qed (simp add: count_vote_keeps)

text \<open>A run whose terms stay at most \<open>T\<close> before its \<open>length ops\<close> steps cannot overflow.\<close>

lemma ballot_run_ok:
  "log_ok s \<Longrightarrow> unat (em_term (fst s)) \<le> T \<Longrightarrow> \<forall>op \<in> set ops. op_term op \<le> T \<Longrightarrow>
   T + length ops < 2 ^ 64 \<Longrightarrow> log_ok (fold (ballot_step h c) ops s)"
proof (induction ops arbitrary: s T)
  case (Cons op ops)
  obtain m log where s: "s = (m, log)" by force
  have "em_term m \<noteq> - 1"
  proof
    assume "em_term m = - 1"
    with Cons.prems s show False by (simp add: unsigned_minus_1_eq_mask mask_eq_exp_minus_1)
  qed
  with Cons.prems s have ok: "log_ok (ballot_step h c op s)" by (simp add: ballot_step_ok)
  have le: "unat (em_term (fst (ballot_step h c op s))) \<le> T + 1"
    using ballot_step_term [of h c op m log] Cons.prems(2,3) by (auto simp: s)
  have "log_ok (fold (ballot_step h c) ops (ballot_step h c op s))"
    by (rule Cons.IH [OF ok le]) (use Cons.prems in auto)
  then show ?case by simp
qed simp

text \<open>C7. In any run of requests, votes and election starts whose terms cannot reach 2^64,
  a node gives at most one candidate its vote in a term, itself included.\<close>

theorem one_vote_per_term:
  assumes "unat (em_term m) \<le> T" and "\<forall>op \<in> set ops. op_term op \<le> T" and "T + length ops < 2 ^ 64"
    and "fold (ballot_step h c) ops (m, {}) = (m', log)"
    and "(t, x) \<in> log" and "(t, y) \<in> log"
  shows "x = y"
proof -
  have "log_ok (m, {})" by (simp add: log_ok_def)
  then have "log_ok (m', log)" using ballot_run_ok [of "(m, {})" T ops h c] assms by simp
  then show ?thesis using assms log_okD(3) by blast
qed

text \<open>A codec to run the model with: it reads one request and one vote.\<close>

definition sample_codec :: json_codec where
  "sample_codec =
     \<lparr>enc_request = (\<lambda>r. []),
      dec_request = (\<lambda>b. Inr \<lparr>er_candidate_id = fill32 3, er_candidate_name = [], er_term = 9\<rparr>),
      enc_vote = (\<lambda>v. []),
      dec_vote = (\<lambda>b. Inr \<lparr>ev_voter_id = fill32 2, ev_candidate_id = fill32 1, ev_term = 1, ev_granted = True\<rparr>),
      enc_result = (\<lambda>r. []), dec_result = (\<lambda>b. Inl ''EOF''),
      enc_change = (\<lambda>r. []), dec_change = (\<lambda>b. Inl ''EOF''),
      enc_sync = (\<lambda>r. []), dec_sync = (\<lambda>b. Inl ''EOF''),
      enc_response = (\<lambda>r. []), dec_response = (\<lambda>b. Inl ''EOF'')\<rparr>"

definition sample_manager :: election_manager where
  "sample_manager =
     add_known_node (fill32 2) ''b'' ''b'' (add_known_node (fill32 3) ''c'' ''c'' (election_new 0 (fill32 1) ''a'' None))"

lemmas manager_defs = sample_manager_def add_known_node_def election_new_def Let_def

lemma top_hash_less:
  assumes "b < 255"
  shows "of_be (take 8 (as_bytes (fill32 b))) < compute_candidate_hash (\<lambda>_. fill32 255) x t"
proof -
  have "of_be (b # replicate 7 b) < of_be (255 # replicate 7 255)"
    by (rule of_be_less_head) (simp_all add: assms)
  then show ?thesis
    by (simp add: compute_candidate_hash_def replicate_Suc [symmetric] del: replicate_Suc of_be.simps)
qed

lemma top_hash_votes:
  assumes "em_local_id m = fill32 b" "b < 255"
  shows "should_vote_for (\<lambda>_. fill32 255) m x t \<longleftrightarrow> em_voted_for m = None"
  using assms top_hash_less [of b x t] by (simp add: should_vote_for_def)

lemma sample_manager_facts:
  "em_local_id sample_manager = fill32 1" "em_term sample_manager = 0" "em_status sample_manager = Follower"
  "length (em_known_nodes sample_manager) = 2" "em_voted_for sample_manager = None"
  by (simp_all add: manager_defs)

theorem one_vote_per_term_witness:
  "let h = (\<lambda>_. fill32 255);
       req = (\<lambda>c. BallotRequest 5 \<lparr>er_candidate_id = fill32 c, er_candidate_name = [], er_term = 4\<rparr>);
       log = snd (fold (ballot_step h sample_codec) [req 2, req 3] (sample_manager, {}))
   in (4, fill32 2) \<in> log \<and> (\<forall>x y. (4, x) \<in> log \<and> (4, y) \<in> log \<longrightarrow> x = y)"
proof -
  let ?m = sample_manager and ?h = "\<lambda>_. fill32 255"
  let ?req = "\<lambda>c. BallotRequest 5 \<lparr>er_candidate_id = fill32 c, er_candidate_name = [], er_term = 4\<rparr>"
  let ?run = "fold (ballot_step ?h sample_codec) [?req 2, ?req 3] (?m, {})"
  have "(4, fill32 2) \<in> snd ?run"
    by (simp add: vote_on_request_def top_hash_votes become_follower_def sample_manager_facts Let_def
        reset_heartbeat_monitor_def)
  moreover have "x = y" if "(4, x) \<in> snd ?run" "(4, y) \<in> snd ?run" for x y
    by (rule one_vote_per_term [of ?m 4 "[?req 2, ?req 3]" ?h sample_codec "fst ?run" "snd ?run" 4 x y])
       (use that in \<open>simp_all add: sample_manager_facts del: fold_simps\<close>)
  ultimately show ?thesis unfolding Let_def by blast
qed

section \<open>How a node becomes leader\<close>

datatype election_op =
  OStart | OMessage instant bytes | OSyncResponse bytes | OAddNode node_id string string
| ORemoveNode node_id | OSetRegistry instant node_id string string | OReset instant | OMiss | OMonitor bool

fun election_step ::
  "(bytes \<Rightarrow> b32) \<Rightarrow> json_codec \<Rightarrow> election_op \<Rightarrow> election_manager \<Rightarrow> election_manager" where
  "election_step h c OStart m = fst (start_election c m)"
| "election_step h c (OMessage now data) m = fst (handle_message h c now data m)"
| "election_step h c (OSyncResponse p) m = fst (handle_sync_response c p m)"
| "election_step h c (OAddNode i name addr) m = add_known_node i name addr m"
| "election_step h c (ORemoveNode i) m = remove_known_node i m"
| "election_step h c (OSetRegistry now i name addr) m = set_registry now i name addr m"
| "election_step h c (OReset now) m = reset_heartbeat_monitor now m"
| "election_step h c OMiss m = record_missed_heartbeat m"
| "election_step h c (OMonitor on) m = (if on then election_monitor_start m else election_monitor_stop m)"

text \<open>The state after a message is that of the handler of its payload.\<close>

lemma handler_states:
  "fst (handle_election_request h c now p m) =
     (case dec_request c p of Inl e \<Rightarrow> m | Inr req \<Rightarrow> fst (vote_on_request h now req m))"
  "fst (handle_election_vote c p m) =
     (case dec_vote c p of Inl e \<Rightarrow> m | Inr v \<Rightarrow> fst (count_vote c v m))"
  "fst (handle_election_result c now p m) =
     (case dec_result c p of Inl e \<Rightarrow> m | Inr r \<Rightarrow> fst (accept_result now r m))"
  "fst (handle_registry_change c now p m) =
     (case dec_change c p of Inl e \<Rightarrow> m | Inr ch \<Rightarrow> fst (accept_change now ch m))"
  "fst (handle_registry_sync c now p m) =
     (case dec_sync c p of Inl e \<Rightarrow> m | Inr sy \<Rightarrow> fst (answer_sync c now sy m))"
  by (simp_all add: handle_election_request_def handle_election_vote_def handle_election_result_def
      handle_registry_change_def handle_registry_sync_def split_beta split: sum.split)

lemma handle_message_cases:
  obtains (kept) "fst (handle_message h c now data m) = m"
  | (request) req where "fst (handle_message h c now data m) = fst (vote_on_request h now req m)"
  | (vote) v where "fst (handle_message h c now data m) = fst (count_vote c v m)"
  | (result) r where "fst (handle_message h c now data m) = fst (accept_result now r m)"
  | (change) ch where "fst (handle_message h c now data m) = fst (accept_change now ch m)"
  | (sync) sy where "fst (handle_message h c now data m) = fst (answer_sync c now sy m)"
proof (cases data)
  case Nil
  then show ?thesis using kept by (simp add: handle_message_def)
next
  case (Cons b p)
  show ?thesis
  proof (cases "election_type_from_u8 b")
    case None
    then show ?thesis using kept Cons by (simp add: handle_message_def)
  next
    case (Some t)
    show ?thesis
    proof (cases t)
      case ElectionRequest
      then show ?thesis using kept request Some Cons
        by (cases "dec_request c p") (simp_all add: handle_message_def handler_states)
    next
      case ElectionVote
      then show ?thesis using kept vote Some Cons
        by (cases "dec_vote c p") (simp_all add: handle_message_def handler_states)
    next
      case ElectionResult
      then show ?thesis using kept result Some Cons
        by (cases "dec_result c p") (simp_all add: handle_message_def handler_states)
    next
      case RegistryChange
      then show ?thesis using kept change Some Cons
        by (cases "dec_change c p") (simp_all add: handle_message_def handler_states)
    next
      case RegistrySync
      then show ?thesis using kept sync Some Cons
        by (cases "dec_sync c p") (simp_all add: handle_message_def handler_states)
    qed
  qed
qed

text \<open>What every handler that ends in \<open>become_follower\<close> leaves.\<close>

lemma step_down_facts:
  "fst (accept_result now r m) = m \<or> fst (accept_result now r m) = fst (become_follower now (es_term r) (Some (es_leader_id r)) m)"
  "fst (answer_sync c now sy m) = m \<or> fst (answer_sync c now sy m) = fst (become_follower now (sy_term sy) (Some (sy_requester_id sy)) m)"
  by (auto simp: accept_result_def answer_sync_def Let_def split: prod.splits)

lemma accept_change_facts:
  "fst (accept_change now ch m) = m \<or>
   em_status (fst (accept_change now ch m)) = Follower \<and> em_votes_received (fst (accept_change now ch m)) = []
   \<and> em_term (fst (accept_change now ch m)) = max (em_term m) (rc_term ch)
   \<and> em_local_id (fst (accept_change now ch m)) = em_local_id m"
  by (auto simp: accept_change_def Let_def transition_facts split_beta)

lemma vote_on_request_keeps:
  "fst (vote_on_request h now req m) = m
   \<or> fst (vote_on_request h now req m) = m\<lparr>em_voted_for := Some (er_candidate_id req)\<rparr>
   \<or> em_status (fst (vote_on_request h now req m)) = Follower
     \<and> em_votes_received (fst (vote_on_request h now req m)) = []
     \<and> em_term (fst (vote_on_request h now req m)) = max (em_term m) (er_term req)
     \<and> em_local_id (fst (vote_on_request h now req m)) = em_local_id m"
  by (auto simp: vote_on_request_def Let_def transition_facts split_beta)

definition ballot_inv :: "node_id \<Rightarrow> election_manager \<Rightarrow> bool" where
  "ballot_inv i m \<longleftrightarrow> em_local_id m = i \<and> distinct (em_votes_received m)
     \<and> (em_status m = Candidate \<longrightarrow> i \<in> set (em_votes_received m))"

text \<open>Every way a step can change what an election depends on.\<close>

lemma election_step_ballot_inv:
  assumes "ballot_inv i m"
  shows "ballot_inv i (election_step h c op m)"
proof (cases op)
  case OStart
  with assms show ?thesis by (auto simp: ballot_inv_def start_election_def Let_def)
next
  case (OMessage now data)
  show ?thesis unfolding OMessage election_step.simps
  proof (cases rule: handle_message_cases [of h c now data m])
    case kept
    with assms show "ballot_inv i (fst (handle_message h c now data m))" by simp
  next
    case (request req)
    with assms vote_on_request_keeps [of h now req m]
    show "ballot_inv i (fst (handle_message h c now data m))" by (auto simp: ballot_inv_def)
  next
    case (vote v)
    with assms show "ballot_inv i (fst (handle_message h c now data m))"
      by (auto simp: ballot_inv_def count_vote_def Let_def transition_facts)
  next
    case (result r)
    with assms step_down_facts(1) [of now r m]
    show "ballot_inv i (fst (handle_message h c now data m))" by (auto simp: ballot_inv_def transition_facts)
  next
    case (change ch)
    with assms accept_change_facts [of now ch m]
    show "ballot_inv i (fst (handle_message h c now data m))" by (auto simp: ballot_inv_def)
  next
    case (sync sy)
    with assms step_down_facts(2) [of c now sy m]
    show "ballot_inv i (fst (handle_message h c now data m))" by (auto simp: ballot_inv_def transition_facts)
  qed
qed (use assms in \<open>auto simp: ballot_inv_def handle_sync_response_def add_known_node_def remove_known_node_def
      set_registry_def reset_heartbeat_monitor_def record_missed_heartbeat_def election_monitor_start_def
      election_monitor_stop_def Let_def split: sum.split\<close>)

interpretation el: op_machine "election_step h c" "ballot_inv i"
  by unfold_locales (rule election_step_ballot_inv)

text \<open>Only a counted vote makes a leader.\<close>

lemma only_votes_elect:
  assumes "em_status m \<noteq> Leader" and "em_status (election_step h c op m) = Leader"
  obtains v where "election_step h c op m = fst (count_vote c v m)"
proof (cases op)
  case (OMessage now data)
  show ?thesis
  proof (cases rule: handle_message_cases [of h c now data m])
    case kept
    with assms OMessage show ?thesis by simp
  next
    case (request req)
    with assms OMessage vote_on_request_keeps [of h now req m] show ?thesis by auto
  next
    case (vote v)
    with OMessage that show ?thesis by simp
  next
    case (result r)
    with assms OMessage step_down_facts(1) [of now r m] show ?thesis by (auto simp: transition_facts)
  next
    case (change ch)
    with assms OMessage accept_change_facts [of now ch m] show ?thesis by auto
  next
    case (sync sy)
    with assms OMessage step_down_facts(2) [of c now sy m] show ?thesis by (auto simp: transition_facts)
  qed
qed (use assms in \<open>auto simp: start_election_def handle_sync_response_def add_known_node_def remove_known_node_def
      set_registry_def reset_heartbeat_monitor_def record_missed_heartbeat_def election_monitor_start_def
      election_monitor_stop_def Let_def split: sum.splits if_splits\<close>)

text \<open>C8. Whatever a manager was sent since it was created, a step that makes it leader is
  a counted vote: it was a candidate, its term stays, and its distinct votes, its own
  included, are more than half of the known nodes and itself.\<close>

theorem leader_has_majority:
  assumes "m = fold (election_step h c) ops (election_new now i name config)"
    and "m' = election_step h c op m" and "em_status m \<noteq> Leader" and "em_status m' = Leader"
  shows "em_status m = Candidate \<and> em_term m' = em_term m \<and> i \<in> set (em_votes_received m')
    \<and> known_nodes_count m' + 1 < 2 * card (set (em_votes_received m'))"
proof -
  have inv: "ballot_inv i m" unfolding assms(1)
    by (rule el.run_inv) (simp add: ballot_inv_def election_new_def Let_def)
  obtain v where v: "m' = fst (count_vote c v m)"
    using only_votes_elect [of m h c op] assms(2-4) by metis
  have "em_status m = Candidate" "known_nodes_count m' + 1 < 2 * length (em_votes_received m')"
    using v assms(3,4) by (auto simp: count_vote_def Let_def transition_facts known_nodes_count_def split: if_splits)
  moreover have "ballot_inv i m'" using election_step_ballot_inv [OF inv] assms(2) by simp
  moreover have "set (em_votes_received m) \<subseteq> set (em_votes_received m')"
    unfolding v by (auto simp: count_vote_def Let_def transition_facts)
  ultimately show ?thesis using inv v
    by (auto simp: ballot_inv_def distinct_card count_vote_keeps)
qed

lemmas election_step_defs = add_known_node_def remove_known_node_def set_registry_def
  reset_heartbeat_monitor_def record_missed_heartbeat_def election_monitor_start_def
  election_monitor_stop_def start_election_def handle_sync_response_def Let_def

definition sample_run :: "election_op list" where
  "sample_run = [OAddNode (fill32 2) ''b'' ''b'', OAddNode (fill32 3) ''c'' ''c'', OStart]"

lemma sample_run_facts:
  "let m = fold (election_step (\<lambda>_. fill32 0) sample_codec) sample_run (election_new 0 (fill32 1) ''a'' None) in
   em_status m = Candidate \<and> em_term m = 1 \<and> em_local_id m = fill32 1 \<and> em_votes_received m = [fill32 1]
   \<and> length (em_known_nodes m) = 2"
  by (simp add: sample_run_def election_step_defs election_new_def)

theorem leader_has_majority_witness:
  "let m = fold (election_step (\<lambda>_. fill32 0) sample_codec) sample_run (election_new 0 (fill32 1) ''a'' None);
       m' = election_step (\<lambda>_. fill32 0) sample_codec (OMessage 5 [0x12]) m
   in em_status m' = Leader \<and> em_status m = Candidate \<and> em_term m' = em_term m
      \<and> fill32 1 \<in> set (em_votes_received m')
      \<and> known_nodes_count m' + 1 < 2 * card (set (em_votes_received m'))"
proof -
  let ?m = "fold (election_step (\<lambda>_. fill32 0) sample_codec) sample_run (election_new 0 (fill32 1) ''a'' None)"
  let ?m' = "election_step (\<lambda>_. fill32 0) sample_codec (OMessage 5 [0x12]) ?m"
  have c: "em_status ?m = Candidate" "em_term ?m = 1" "em_local_id ?m = fill32 1"
    "em_votes_received ?m = [fill32 1]" "length (em_known_nodes ?m) = 2"
    using sample_run_facts by (simp_all add: Let_def)
  have "dec_vote sample_codec [] =
      Inr \<lparr>ev_voter_id = fill32 2, ev_candidate_id = fill32 1, ev_term = 1, ev_granted = True\<rparr>"
    by (simp add: sample_codec_def)
  with c have l: "em_status ?m' = Leader"
    by (simp add: handle_message_def handler_states election_type_from_u8_def count_vote_def Let_def
        transition_facts del: fold_simps)
  have "em_status ?m = Candidate \<and> em_term ?m' = em_term ?m \<and> fill32 1 \<in> set (em_votes_received ?m')
      \<and> known_nodes_count ?m' + 1 < 2 * card (set (em_votes_received ?m'))"
    by (rule leader_has_majority [OF refl refl]) (use l c in auto)
  with l show ?thesis by (simp only: Let_def simp_thms)
qed

text \<open>No operation and no message lowers the term of a manager, except an election started
  at the maximal term, where the counter wraps.\<close>

theorem term_never_decreases:
  assumes "op = OStart \<Longrightarrow> em_term m \<noteq> - 1"
  shows "em_term m \<le> em_term (election_step h c op m)"
proof (cases op)
  case OStart
  with assms show ?thesis by (simp add: start_election_def Let_def word_less_inc less_imp_le)
next
  case (OMessage now data)
  show ?thesis unfolding OMessage election_step.simps
  proof (cases rule: handle_message_cases [of h c now data m])
    case (request req)
    with vote_on_request_keeps [of h now req m] show "em_term m \<le> em_term (fst (handle_message h c now data m))"
      by auto
  next
    case (result r)
    with step_down_facts(1) [of now r m] show "em_term m \<le> em_term (fst (handle_message h c now data m))"
      by (auto simp: transition_facts)
  next
    case (change ch)
    with accept_change_facts [of now ch m] show "em_term m \<le> em_term (fst (handle_message h c now data m))"
      by auto
  next
    case (sync sy)
    with step_down_facts(2) [of c now sy m] show "em_term m \<le> em_term (fst (handle_message h c now data m))"
      by (auto simp: transition_facts)
  qed (simp_all add: count_vote_keeps)
qed (auto simp: election_step_defs split: sum.split)

theorem term_never_decreases_witness:
  "em_term sample_manager \<le> em_term (election_step (\<lambda>_. fill32 0) sample_codec OStart sample_manager)
   \<and> em_term sample_manager \<noteq> - 1"
  using term_never_decreases [of OStart sample_manager "\<lambda>_. fill32 0" sample_codec]
  by (simp add: sample_manager_facts)

text \<open>After k missed heartbeats of a known registry, an election is due exactly when the
  node is a follower and k has reached the threshold.\<close>

theorem misses_trigger_election:
  assumes "k < 2 ^ 32"
  shows "should_start_election ((record_missed_heartbeat ^^ k) (set_registry now j name addr m)) \<longleftrightarrow>
    em_status m = Follower \<and> unat (em_miss_threshold m) \<le> k"
proof -
  have "(record_missed_heartbeat ^^ n) m = m\<lparr>em_missed := em_missed m + of_nat n\<rparr>" for n m
    by (induction n) (simp_all add: record_missed_heartbeat_def)
  moreover have "unat (of_nat k :: u32) = k" using assms by (simp add: unat_of_nat take_bit_nat_eq_self)
  ultimately show ?thesis
    by (auto simp: should_start_election_def set_registry_def reset_heartbeat_monitor_def
        is_registry_healthy_def word_less_nat_alt)
qed

theorem misses_trigger_election_witness:
  "\<not> should_start_election ((record_missed_heartbeat ^^ 2) (set_registry 0 (fill32 2) ''b'' ''b'' sample_manager))
   \<and> should_start_election ((record_missed_heartbeat ^^ 3) (set_registry 0 (fill32 2) ''b'' ''b'' sample_manager))"
proof -
  have "em_status sample_manager = Follower" "em_miss_threshold sample_manager = 3"
    by (simp_all add: manager_defs election_config_default_def)
  then show ?thesis
    using misses_trigger_election [of 2 0 "fill32 2" "''b''" "''b''" sample_manager]
      misses_trigger_election [of 3 0 "fill32 2" "''b''" "''b''" sample_manager] by simp
qed

text \<open>A node that voted for one candidate votes for another one in the same term once an
  election result of that term from another node reached it in between: stepping down
  clears its vote.\<close>

theorem result_allows_second_vote:
  assumes "vote_on_request h t1 a m = (m1, effs, True)"
    and "es_term r = er_term a" and "es_leader_id r \<noteq> em_local_id m"
    and "er_term b = er_term a"
    and "of_be (take 8 (as_bytes (em_local_id m))) < compute_candidate_hash h (er_candidate_id b) (er_term b)"
  shows "\<exists>m2. vote_on_request h t3 b (fst (accept_result t2 r m1)) = (m2, [], True)
    \<and> em_voted_for m2 = Some (er_candidate_id b) \<and> em_term m2 = em_term m1"
proof -
  from assms(1) have t: "em_term m1 = er_term a"
    by (cases rule: vote_on_request_cases) auto
  have l: "em_local_id m1 = em_local_id m"
    using vote_on_request_keeps [of h t1 a m] assms(1) by auto
  let ?m = "fst (accept_result t2 r m1)"
  have "?m = fst (become_follower t2 (es_term r) (Some (es_leader_id r)) m1)"
    using assms t l by (simp add: accept_result_def)
  then have "em_term ?m = er_term b" "em_voted_for ?m = None" "em_local_id ?m = em_local_id m"
    using assms t l by (simp_all add: transition_facts)
  then show ?thesis
    using assms t by (simp add: vote_on_request_def should_vote_for_def Let_def)
qed

text \<open>A leader that sees an election request of a higher term becomes a follower without a
  stop signal to its registry service, and still names itself as the registry.\<close>

theorem deposed_leader_keeps_serving:
  assumes "em_status m = Leader" and "dec_request c p = Inr req" and "em_term m < er_term req"
    and "handle_election_request h c now p m = (m', effs, r)"
  shows "em_status m' = Follower \<and> em_term m' = er_term req \<and> Control False \<notin> set effs
    \<and> em_registry_id m' = em_registry_id m"
  using assms
  by (auto simp: handle_election_request_def vote_on_request_def become_follower_def Let_def
      reset_heartbeat_monitor_def split: if_splits)

theorem result_allows_second_vote_witness:
  "let h = (\<lambda>_. fill32 255);
       a = \<lparr>er_candidate_id = fill32 2, er_candidate_name = [], er_term = 4\<rparr>;
       b = \<lparr>er_candidate_id = fill32 3, er_candidate_name = [], er_term = 4\<rparr>;
       r = \<lparr>es_leader_id = fill32 2, es_leader_name = [], es_term = 4\<rparr>;
       (m1, effs, granted) = vote_on_request h 1 a sample_manager
   in granted \<and> (\<exists>m2. vote_on_request h 3 b (fst (accept_result 2 r m1)) = (m2, [], True)
        \<and> em_voted_for m2 = Some (fill32 3) \<and> em_term m2 = em_term m1)"
proof -
  let ?h = "\<lambda>_. fill32 255"
  let ?a = "\<lparr>er_candidate_id = fill32 2, er_candidate_name = [], er_term = 4\<rparr>"
  obtain m1 effs g where v: "vote_on_request ?h 1 ?a sample_manager = (m1, effs, g)" by (metis prod_cases3)
  then have g: "g = True"
    by (auto simp: vote_on_request_def top_hash_votes become_follower_def sample_manager_facts Let_def
        reset_heartbeat_monitor_def)
  show ?thesis
    using result_allows_second_vote [of ?h 1 ?a sample_manager m1 effs
        "\<lparr>es_leader_id = fill32 2, es_leader_name = [], es_term = 4\<rparr>"
        "\<lparr>er_candidate_id = fill32 3, er_candidate_name = [], er_term = 4\<rparr>" 3 2]
    using top_hash_less [of 1 "fill32 3" 4] by (simp add: v g [simplified] sample_manager_facts)
qed

theorem deposed_leader_keeps_serving_witness:
  "let m = sample_manager\<lparr>em_status := Leader, em_term := 1, em_registry_control := True\<rparr>;
       (m', effs, r) = handle_election_request (\<lambda>_. fill32 0) sample_codec 5 [] m
   in em_status m' = Follower \<and> em_term m' = 9 \<and> Control False \<notin> set effs \<and> em_registry_id m' = em_registry_id m"
proof -
  let ?m = "sample_manager\<lparr>em_status := Leader, em_term := 1, em_registry_control := True\<rparr>"
  let ?req = "\<lparr>er_candidate_id = fill32 3, er_candidate_name = [], er_term = 9\<rparr>"
  obtain m' effs r where h: "handle_election_request (\<lambda>_. fill32 0) sample_codec 5 [] ?m = (m', effs, r)"
    by (metis prod_cases3)
  have "em_status m' = Follower \<and> em_term m' = er_term ?req \<and> Control False \<notin> set effs
      \<and> em_registry_id m' = em_registry_id ?m"
    by (rule deposed_leader_keeps_serving [OF _ _ _ h]) (simp_all add: sample_codec_def)
  then show ?thesis by (simp add: h)
qed

end
