(* ===== verification/Cluster.thy ===== *)
theory Cluster
  imports Election
begin

text \<open>
  A cluster of election managers that exchange requests and votes, and the theorem that two
  of them never lead in the same term. The network may lose, delay, duplicate and reorder
  messages: a message once sent stays available to every node. Result and change messages
  are not among the steps: they clear the vote of a node within a term
  (\<open>result_allows_second_vote\<close> of theory \<open>Election\<close>), and the theorem fails with them.
\<close>

section \<open>Quorums\<close>

lemma majorities_meet:
  assumes "finite N" "A \<subseteq> N" "B \<subseteq> N" "card N < 2 * card A" "card N < 2 * card B"
  shows "A \<inter> B \<noteq> {}"
proof
  assume "A \<inter> B = {}"
  with assms have "card A + card B = card (A \<union> B)"
    by (simp add: card_Un_disjoint finite_subset)
  also have "\<dots> \<le> card N" using assms by (simp add: card_mono)
  finally show False using assms by simp
qed

section \<open>The cluster\<close>

record cluster =
  cl_node :: "node_id \<Rightarrow> election_manager"
  cl_requests :: "election_request set"
  cl_votes :: "election_vote set"
  cl_log :: "node_id \<Rightarrow> ballot_log"

text \<open>
  The steps. A node starts an election (its term below the maximum), answers a request, or
  counts a vote; \<open>cl_log\<close> records the votes it gives.
\<close>

inductive cluster_step ::
  "(bytes \<Rightarrow> b32) \<Rightarrow> json_codec \<Rightarrow> node_id set \<Rightarrow> cluster \<Rightarrow> cluster \<Rightarrow> bool"
  for h c N where
  start: "n \<in> N \<Longrightarrow> em_term (cl_node s n) \<noteq> - 1 \<Longrightarrow>
    start_election c (cl_node s n) = (m', effs, r) \<Longrightarrow> em_term m' \<noteq> em_term (cl_node s n) \<Longrightarrow>
    cluster_step h c N s (s\<lparr>cl_node := (cl_node s)(n := m'),
      cl_requests := insert \<lparr>er_candidate_id = n, er_candidate_name = em_local_name m', er_term = em_term m'\<rparr> (cl_requests s),
      cl_log := (cl_log s)(n := insert (em_term m', n) (cl_log s n))\<rparr>)"
| answer: "n \<in> N \<Longrightarrow> req \<in> cl_requests s \<Longrightarrow>
    vote_on_request h now req (cl_node s n) = (m', effs, granted) \<Longrightarrow>
    cluster_step h c N s (s\<lparr>cl_node := (cl_node s)(n := m'),
      cl_votes := insert \<lparr>ev_voter_id = n, ev_candidate_id = er_candidate_id req, ev_term = er_term req,
                         ev_granted = granted\<rparr> (cl_votes s),
      cl_log := (cl_log s)(n := (if granted then insert (er_term req, er_candidate_id req) (cl_log s n)
                                 else cl_log s n))\<rparr>)"
| count: "n \<in> N \<Longrightarrow> v \<in> cl_votes s \<Longrightarrow> count_vote c v (cl_node s n) = (m', effs) \<Longrightarrow>
    cluster_step h c N s (s\<lparr>cl_node := (cl_node s)(n := m')\<rparr>)"

inductive cluster_reach :: "(bytes \<Rightarrow> b32) \<Rightarrow> json_codec \<Rightarrow> node_id set \<Rightarrow> cluster \<Rightarrow> cluster \<Rightarrow> bool"
  for h c N s0 where
  here: "cluster_reach h c N s0 s0"
| more: "cluster_reach h c N s0 s \<Longrightarrow> cluster_step h c N s s' \<Longrightarrow> cluster_reach h c N s0 s'"

text \<open>Every node starts as a follower that knows the other nodes of the cluster.\<close>

definition cluster_init :: "node_id set \<Rightarrow> cluster \<Rightarrow> bool" where
  "cluster_init N s \<longleftrightarrow> finite N \<and> cl_requests s = {} \<and> cl_votes s = {} \<and>
     (\<forall>n \<in> N. em_local_id (cl_node s n) = n \<and> em_status (cl_node s n) = Follower \<and> cl_log s n = {}
        \<and> em_votes_received (cl_node s n) = []
        \<and> length (em_known_nodes (cl_node s n)) + 1 = card N)"

text \<open>What holds of a node: its log is sound, its votes are in the logs of their voters, a leader has a majority.\<close>

definition node_inv :: "node_id set \<Rightarrow> cluster \<Rightarrow> node_id \<Rightarrow> bool" where
  "node_inv N s n \<longleftrightarrow>
     (let m = cl_node s n in
      em_local_id m = n \<and> log_ok (m, cl_log s n) \<and> length (em_known_nodes m) + 1 = card N
      \<and> distinct (em_votes_received m)
      \<and> (em_status m \<noteq> Follower \<longrightarrow>
           set (em_votes_received m) \<subseteq> {v \<in> N. (em_term m, n) \<in> cl_log s v})
      \<and> (em_status m = Leader \<longrightarrow> card N < 2 * length (em_votes_received m)))"

definition cluster_inv :: "node_id set \<Rightarrow> cluster \<Rightarrow> bool" where
  "cluster_inv N s \<longleftrightarrow> finite N \<and> (\<forall>n \<in> N. node_inv N s n)
     \<and> (\<forall>v \<in> cl_votes s. ev_granted v \<longrightarrow>
          ev_voter_id v \<in> N \<and> (ev_term v, ev_candidate_id v) \<in> cl_log s (ev_voter_id v))"

lemma node_inv_mono:
  assumes "node_inv N s n" "cl_node s' n = cl_node s n" "cl_log s' n = cl_log s n"
    and "\<And>v. cl_log s v \<subseteq> cl_log s' v"
  shows "node_inv N s' n"
  using assms unfolding node_inv_def Let_def by fastforce

lemma known_nodes_kept:
  "em_known_nodes (fst (vote_on_request h now req m)) = em_known_nodes m"
  "em_known_nodes (fst (count_vote c v m)) = em_known_nodes m"
  "em_known_nodes (fst (start_election c m)) = em_known_nodes m"
  by (simp_all add: vote_on_request_def count_vote_def start_election_def Let_def split_beta transition_facts)

lemma node_inv_start:
  assumes "node_inv N s n" "n \<in> N" "em_term (cl_node s n) \<noteq> - 1"
    and "start_election c (cl_node s n) = (m', effs, r)" "em_term m' \<noteq> em_term (cl_node s n)"
    and "cl_node s' n = m'" "cl_log s' n = insert (em_term m', n) (cl_log s n)"
  shows "node_inv N s' n"
proof -
  let ?m = "cl_node s n"
  have ok: "log_ok (?m, cl_log s n)" and l: "em_local_id ?m = n" and k: "length (em_known_nodes ?m) + 1 = card N"
    using assms(1) by (simp_all add: node_inv_def Let_def)
  have "log_ok (ballot_step undefined c BallotStart (?m, cl_log s n))"
    by (rule ballot_step_ok) (use ok assms(3) in simp_all)
  with assms(4,5) l have "log_ok (m', insert (em_term m', n) (cl_log s n))" by simp
  moreover have "em_known_nodes m' = em_known_nodes ?m"
    using known_nodes_kept(3) [of c ?m] assms(4) by simp
  moreover have "em_local_id m' = n" "em_votes_received m' = [n]" "em_status m' = Candidate"
    using assms(4,5) l by (auto simp: start_election_def Let_def split: if_splits)
  ultimately show ?thesis using assms(2,6,7) k by (simp add: node_inv_def)
qed

lemma node_inv_answer:
  assumes "node_inv N s n"
    and "vote_on_request h now req (cl_node s n) = (m', effs, granted)"
    and "cl_node s' n = m'"
    and "cl_log s' n = (if granted then insert (er_term req, er_candidate_id req) (cl_log s n) else cl_log s n)"
    and "\<And>v. cl_log s v \<subseteq> cl_log s' v"
  shows "node_inv N s' n"
proof -
  let ?m = "cl_node s n"
  have m: "log_ok (?m, cl_log s n)" "em_local_id ?m = n" "length (em_known_nodes ?m) + 1 = card N"
    "distinct (em_votes_received ?m)"
    "em_status ?m \<noteq> Follower \<longrightarrow> set (em_votes_received ?m) \<subseteq> {v \<in> N. (em_term ?m, n) \<in> cl_log s v}"
    "em_status ?m = Leader \<longrightarrow> card N < 2 * length (em_votes_received ?m)"
    using assms(1) by (simp_all add: node_inv_def Let_def)
  have "log_ok (ballot_step h undefined (BallotRequest now req) (?m, cl_log s n))"
    by (rule ballot_step_ok) (use m in simp_all)
  with assms(2,4) have "log_ok (m', cl_log s' n)" by simp
  moreover have "em_known_nodes m' = em_known_nodes ?m"
    using known_nodes_kept(1) [of h now req ?m] assms(2) by simp
  moreover have "em_local_id m' = n \<and> distinct (em_votes_received m')
      \<and> (em_status m' \<noteq> Follower \<longrightarrow> set (em_votes_received m') \<subseteq> {v \<in> N. (em_term m', n) \<in> cl_log s' v})
      \<and> (em_status m' = Leader \<longrightarrow> card N < 2 * length (em_votes_received m'))"
    using vote_on_request_keeps [of h now req ?m] assms(2,5) m by fastforce
  ultimately show ?thesis using m(3) assms(3) by (simp add: node_inv_def)
qed

lemma node_inv_count:
  assumes "node_inv N s n" and "count_vote c v (cl_node s n) = (m', effs)"
    and "ev_granted v \<Longrightarrow> ev_voter_id v \<in> N \<and> (ev_term v, ev_candidate_id v) \<in> cl_log s (ev_voter_id v)"
    and "cl_node s' n = m'" "cl_log s' = cl_log s"
  shows "node_inv N s' n"
proof -
  let ?m = "cl_node s n"
  have m: "log_ok (?m, cl_log s n)" "em_local_id ?m = n" "length (em_known_nodes ?m) + 1 = card N"
    "distinct (em_votes_received ?m)"
    "em_status ?m \<noteq> Follower \<longrightarrow> set (em_votes_received ?m) \<subseteq> {v \<in> N. (em_term ?m, n) \<in> cl_log s v}"
    "em_status ?m = Leader \<longrightarrow> card N < 2 * length (em_votes_received ?m)"
    using assms(1) by (simp_all add: node_inv_def Let_def)
  have m': "m' = fst (count_vote c v ?m)" using assms(2) by simp
  show ?thesis
  proof (cases "m' = ?m")
    case True
    with assms(1,4,5) show ?thesis by (simp add: node_inv_def)
  next
    case False
    then have v: "em_status ?m = Candidate" "ev_term v = em_term ?m" "ev_candidate_id v = n" "ev_granted v"
        "ev_voter_id v \<notin> set (em_votes_received ?m)"
      using m(2) by (auto simp: m' count_vote_def split: if_splits)
    then have "em_votes_received m' = em_votes_received ?m @ [ev_voter_id v]"
      and "em_status m' = Leader \<Longrightarrow> card N < 2 * length (em_votes_received m')"
      using m(2,3) by (auto simp: m' count_vote_def Let_def transition_facts split: if_splits)
    moreover have "log_ok (m', cl_log s n)"
      by (rule log_ok_keep [OF m(1)]) (simp add: m' count_vote_keeps)
    ultimately show ?thesis using m v assms(3-5)
      by (auto simp: node_inv_def m' count_vote_keeps known_nodes_kept)
  qed
qed

lemma cluster_step_inv:
  assumes "cluster_step h c N s s'" and "cluster_inv N s"
  shows "cluster_inv N s'"
  using assms
proof cases
  case (start n m' effs r)
  have "node_inv N s' k" if "k \<in> N" for k
  proof (cases "k = n")
    case True
    show ?thesis unfolding True
      by (rule node_inv_start [of N s n c m' effs r]) (use start assms(2) in \<open>auto simp: cluster_inv_def\<close>)
  next
    case False
    show ?thesis
      by (rule node_inv_mono [of N s]) (use False start assms(2) that in \<open>auto simp: cluster_inv_def\<close>)
  qed
  with assms(2) start(1) show ?thesis by (auto simp: cluster_inv_def)
next
  case (answer n req now m' effs granted)
  have "node_inv N s' k" if "k \<in> N" for k
  proof (cases "k = n")
    case True
    show ?thesis unfolding True
      by (rule node_inv_answer [of N s n h now req m' effs granted])
         (use answer assms(2) in \<open>auto simp: cluster_inv_def\<close>)
  next
    case False
    show ?thesis
      by (rule node_inv_mono [of N s]) (use False answer assms(2) that in \<open>auto simp: cluster_inv_def\<close>)
  qed
  with assms(2) answer(1,2) show ?thesis by (auto simp: cluster_inv_def)
next
  case (count n v m' effs)
  have "node_inv N s' k" if "k \<in> N" for k
  proof (cases "k = n")
    case True
    show ?thesis unfolding True
      by (rule node_inv_count [of N s n c v m' effs]) (use count assms(2) in \<open>auto simp: cluster_inv_def\<close>)
  next
    case False
    show ?thesis
      by (rule node_inv_mono [of N s]) (use False count assms(2) that in \<open>auto simp: cluster_inv_def\<close>)
  qed
  with assms(2) count(1) show ?thesis by (auto simp: cluster_inv_def)
qed

lemma cluster_reach_inv:
  assumes "cluster_reach h c N s0 s" and "cluster_inv N s0"
  shows "cluster_inv N s"
  using assms by induction (auto intro: cluster_step_inv)

lemma cluster_init_inv: "cluster_init N s \<Longrightarrow> cluster_inv N s"
  by (auto simp: cluster_init_def cluster_inv_def node_inv_def log_ok_def Let_def)

text \<open>C1. In a cluster whose nodes know each other and exchange requests and votes over a
  network that loses, delays, duplicates and reorders messages, two nodes never lead
  in the same term.\<close>

theorem election_safety:
  assumes "cluster_init N s0" and "cluster_reach h c N s0 s"
    and "a \<in> N" "b \<in> N" "em_status (cl_node s a) = Leader" "em_status (cl_node s b) = Leader"
    and "em_term (cl_node s a) = em_term (cl_node s b)"
  shows "a = b"
proof -
  have inv: "cluster_inv N s" using assms(1,2) cluster_init_inv cluster_reach_inv by blast
  let ?V = "\<lambda>n. set (em_votes_received (cl_node s n))"
  have V: "?V n \<subseteq> {v \<in> N. (em_term (cl_node s n), n) \<in> cl_log s v}" "card N < 2 * card (?V n)"
    if "n \<in> N" "em_status (cl_node s n) = Leader" for n
    using inv that by (auto simp: cluster_inv_def node_inv_def Let_def distinct_card)
  have "?V a \<inter> ?V b \<noteq> {}"
    by (rule majorities_meet [of N]) (use V assms inv in \<open>auto simp: cluster_inv_def\<close>)
  then obtain v where v: "v \<in> ?V a" "v \<in> ?V b" by blast
  then have "v \<in> N" "(em_term (cl_node s a), a) \<in> cl_log s v" "(em_term (cl_node s a), b) \<in> cl_log s v"
    using V(1) [OF assms(3,5)] V(1) [OF assms(4,6)] assms(7) by auto
  moreover have "log_ok (cl_node s v, cl_log s v)"
    using inv \<open>v \<in> N\<close> by (simp add: cluster_inv_def node_inv_def Let_def)
  ultimately show ?thesis using log_okD(3) by blast
qed

text \<open>A cluster of two nodes that elects the first.\<close>

definition duo_node :: "byte \<Rightarrow> byte \<Rightarrow> election_manager" where
  "duo_node i j = add_known_node (fill32 j) ''x'' ''x'' (election_new 0 (fill32 i) ''n'' None)"

definition duo :: cluster where
  "duo = \<lparr>cl_node = (\<lambda>n. if n = fill32 1 then duo_node 1 2 else duo_node 2 1),
          cl_requests = {}, cl_votes = {}, cl_log = (\<lambda>_. {})\<rparr>"

lemma duo_node_facts:
  "em_local_id (duo_node i j) = fill32 i" "em_term (duo_node i j) = 0" "em_status (duo_node i j) = Follower"
  "length (em_known_nodes (duo_node i j)) = 1" "em_voted_for (duo_node i j) = None"
  "em_votes_received (duo_node i j) = []" "em_known_nodes (duo_node i j) \<noteq> []"
  by (simp_all add: duo_node_def add_known_node_def election_new_def Let_def)

lemma duo_init: "cluster_init {fill32 1, fill32 2} duo"
  by (auto simp: cluster_init_def duo_def duo_node_facts)

lemma duo_elects:
  "\<exists>s. cluster_reach (\<lambda>_. fill32 255) sample_codec {fill32 1, fill32 2} duo s
     \<and> em_status (cl_node s (fill32 1)) = Leader"
proof -
  let ?h = "\<lambda>_. fill32 255" and ?N = "{fill32 1, fill32 2}"
  obtain m1 e1 r1 where 1: "start_election sample_codec (duo_node 1 2) = (m1, e1, r1)" by (metis prod_cases3)
  then have m1: "em_term m1 = 1" "em_status m1 = Candidate" "em_local_id m1 = fill32 1"
    "em_votes_received m1 = [fill32 1]" "length (em_known_nodes m1) = 1"
    by (auto simp: start_election_def duo_node_facts Let_def)
  let ?req = "\<lparr>er_candidate_id = fill32 1, er_candidate_name = em_local_name m1, er_term = em_term m1\<rparr>"
  let ?v = "\<lparr>ev_voter_id = fill32 2, ev_candidate_id = fill32 1, ev_term = 1, ev_granted = True\<rparr>"
  obtain m2 e2 g2 where 2: "vote_on_request ?h 5 ?req (duo_node 2 1) = (m2, e2, g2)" by (metis prod_cases3)
  then have g2: "g2 = True"
    by (auto simp: vote_on_request_def top_hash_votes become_follower_def duo_node_facts m1 Let_def
        reset_heartbeat_monitor_def)
  obtain m3 e3 where 3: "count_vote sample_codec ?v m1 = (m3, e3)" by force
  then have m3: "em_status m3 = Leader"
    using become_leader_keeps(4) [of sample_codec "m1\<lparr>em_votes_received := [fill32 1, fill32 2]\<rparr>"]
    by (simp add: count_vote_def m1 Let_def)
  let ?s1 = "duo\<lparr>cl_node := (cl_node duo)(fill32 1 := m1), cl_requests := {?req},
     cl_log := (cl_log duo)(fill32 1 := {(1, fill32 1)})\<rparr>"
  have "cluster_step ?h sample_codec ?N duo ?s1"
    using cluster_step.start [of "fill32 1" ?N duo sample_codec m1 e1 r1 ?h] 1 m1
    by (simp add: duo_def duo_node_facts)
  moreover
  let ?s2 = "?s1\<lparr>cl_node := (cl_node ?s1)(fill32 2 := m2), cl_votes := {?v},
     cl_log := (cl_log ?s1)(fill32 2 := {(1, fill32 1)})\<rparr>"
  have "cluster_step ?h sample_codec ?N ?s1 ?s2"
    using cluster_step.answer [of "fill32 2" ?N ?req ?s1 ?h 5 m2 e2 g2 sample_codec] 2 g2 m1
    by (simp add: duo_def)
  moreover
  let ?s3 = "?s2\<lparr>cl_node := (cl_node ?s2)(fill32 1 := m3)\<rparr>"
  have "cluster_step ?h sample_codec ?N ?s2 ?s3"
    using cluster_step.count [of "fill32 1" ?N ?v ?s2 sample_codec m3 e3 ?h] 3 by (simp add: duo_def)
  ultimately have "cluster_reach ?h sample_codec ?N duo ?s3"
    by (meson cluster_reach.intros)
  moreover have "em_status (cl_node ?s3 (fill32 1)) = Leader" by (simp add: m3)
  ultimately show ?thesis by blast
qed

theorem election_safety_witness:
  "\<exists>s. cluster_reach (\<lambda>_. fill32 255) sample_codec {fill32 1, fill32 2} duo s
     \<and> em_status (cl_node s (fill32 1)) = Leader
     \<and> (\<forall>b. b \<in> {fill32 1, fill32 2} \<and> em_status (cl_node s b) = Leader
           \<and> em_term (cl_node s (fill32 1)) = em_term (cl_node s b) \<longrightarrow> fill32 1 = b)"
  using duo_elects election_safety [OF duo_init, of "\<lambda>_. fill32 255" sample_codec _ "fill32 1"] by blast

end
