(* ===== verification/Router.thy ===== *)
theory Router
  imports NodeId HashMap
begin

text \<open>
  The router interface (\<open>src/router.rs\<close>): error and status types with their text forms,
  the route table and the route manager over it.
\<close>

section \<open>Errors and states\<close>

datatype router_error =
  Unreachable string | Timeout | NoRoute node_id | SendFailedTo string
| NodeOffline node_id | InvalidData string

text \<open>An identity is shown in hexadecimal, by the encoder of the \<open>hex\<close> crate.\<close>

fun router_error_display :: "(bytes \<Rightarrow> string) \<Rightarrow> router_error \<Rightarrow> string" where
  "router_error_display hex_encode (Unreachable t) = ''target unreachable: '' @ t"
| "router_error_display hex_encode Timeout = ''connection timeout''"
| "router_error_display hex_encode (NoRoute i) = ''no route to node: '' @ id_to_hex hex_encode i"
| "router_error_display hex_encode (SendFailedTo m) = ''send failed: '' @ m"
| "router_error_display hex_encode (NodeOffline i) = ''node offline: '' @ id_to_hex hex_encode i"
| "router_error_display hex_encode (InvalidData m) = ''invalid data: '' @ m"

datatype connection_type = Lan | Vpn | RelayConn | UnknownConn

fun connection_type_display :: "connection_type \<Rightarrow> string" where
  "connection_type_display Lan = ''LAN''"
| "connection_type_display Vpn = ''VPN''"
| "connection_type_display RelayConn = ''Relay''"
| "connection_type_display UnknownConn = ''Unknown''"

datatype node_status = Online | Offline | Connecting | ErrorStatus

fun node_status_display :: "node_status \<Rightarrow> string" where
  "node_status_display Online = ''online''"
| "node_status_display Offline = ''offline''"
| "node_status_display Connecting = ''connecting''"
| "node_status_display ErrorStatus = ''error''"

record router_status =
  rs_node_status :: node_status
  rs_connection_type :: connection_type
  rs_known_nodes :: nat
  rs_active_routes :: nat
  rs_last_update :: u64

section \<open>The route table\<close>

record route_entry =
  re_target :: node_id
  re_next_hop :: node_id
  re_connection_type :: connection_type
  re_metric :: u32
  re_last_active :: u64

record route_table =
  rt_routes :: "(node_id, route_entry) hashmap"

definition rt_new :: route_table where
  "rt_new = \<lparr>rt_routes = hm_empty\<rparr>"

definition rt_upsert :: "route_entry \<Rightarrow> route_table \<Rightarrow> route_table" where
  "rt_upsert e t = t\<lparr>rt_routes := hm_insert (re_target e) e (rt_routes t)\<rparr>"

definition rt_remove :: "node_id \<Rightarrow> route_table \<Rightarrow> route_table \<times> route_entry option" where
  "rt_remove i t = (t\<lparr>rt_routes := hm_remove i (rt_routes t)\<rparr>, hm_get (rt_routes t) i)"

definition rt_lookup :: "route_table \<Rightarrow> node_id \<Rightarrow> route_entry option" where
  "rt_lookup t i = hm_get (rt_routes t) i"

definition rt_entries :: "route_table \<Rightarrow> route_entry list" where
  "rt_entries t = hm_values (rt_routes t)"

definition rt_len :: "route_table \<Rightarrow> nat" where
  "rt_len t = hm_len (rt_routes t)"

definition rt_is_empty :: "route_table \<Rightarrow> bool" where
  "rt_is_empty t \<longleftrightarrow> hm_len (rt_routes t) = 0"

definition rt_clear :: "route_table \<Rightarrow> route_table" where
  "rt_clear t = t\<lparr>rt_routes := hm_empty\<rparr>"

definition rt_best_route :: "route_table \<Rightarrow> node_id \<Rightarrow> route_entry option" where
  "rt_best_route t i =
     min_by_key re_metric (filter (\<lambda>e. re_target e = i) (hm_values (rt_routes t)))"

section \<open>The manager\<close>

record router_manager =
  rm_route_table :: route_table
  rm_name :: string

definition rm_new :: "string \<Rightarrow> router_manager" where
  "rm_new name = \<lparr>rm_route_table = rt_new, rm_name = name\<rparr>"

definition add_route :: "route_entry \<Rightarrow> router_manager \<Rightarrow> router_manager" where
  "add_route e m = m\<lparr>rm_route_table := rt_upsert e (rm_route_table m)\<rparr>"

definition rm_remove_route :: "node_id \<Rightarrow> router_manager \<Rightarrow> router_manager \<times> route_entry option" where
  "rm_remove_route i m =
     (case rt_remove i (rm_route_table m) of (t, e) \<Rightarrow> (m\<lparr>rm_route_table := t\<rparr>, e))"

definition rm_find_route :: "router_manager \<Rightarrow> node_id \<Rightarrow> route_entry option" where
  "rm_find_route m i = rt_lookup (rm_route_table m) i"

section \<open>Correctness of the table\<close>

text \<open>Every entry is stored under its own target.\<close>

definition rt_ok :: "route_table \<Rightarrow> bool" where
  "rt_ok t \<longleftrightarrow> hm_ok (rt_routes t) \<and> (\<forall>i e. hm_get (rt_routes t) i = Some e \<longrightarrow> re_target e = i)"

datatype table_op = Upsert route_entry | Remove node_id | ClearAll

fun table_step :: "table_op \<Rightarrow> route_table \<Rightarrow> route_table" where
  "table_step (Upsert e) t = rt_upsert e t"
| "table_step (Remove i) t = fst (rt_remove i t)"
| "table_step ClearAll t = rt_clear t"

interpretation rt: op_machine table_step rt_ok
proof
  fix t op assume "rt_ok t"
  then show "rt_ok (table_step op t)"
    by (cases op)
       (auto simp: rt_ok_def rt_upsert_def rt_remove_def rt_clear_def hm_simps hm.ok_remove)
qed

text \<open>With one entry per key, the entries for a target are its lookup, or none.\<close>

lemma rt_ok_filter:
  assumes "rt_ok t"
  shows "filter (\<lambda>e. re_target e = i) (hm_values (rt_routes t))
    = (case rt_lookup t i of None \<Rightarrow> [] | Some e \<Rightarrow> [e])"
proof -
  have "filter (\<lambda>e. re_target e = i) (hm_values m)
      = (case hm_get m i of None \<Rightarrow> [] | Some e \<Rightarrow> [e])"
    if "hm_ok m" "\<forall>j e. hm_get m j = Some e \<longrightarrow> re_target e = j" for m
    using that
  proof (induction m)
    case (Cons p m)
    obtain j e where p: "p = (j, e)" by force
    have ok: "hm_ok m" and j: "j \<notin> fst ` set m" using Cons.prems(1) p by (auto simp: hm_ok_def)
    have own: "re_target e = j" using Cons.prems(2) p by (auto simp: hm_get_def)
    have rest: "\<forall>k f. hm_get m k = Some f \<longrightarrow> re_target f = k"
    proof (intro allI impI)
      fix k f assume k: "hm_get m k = Some f"
      with j have "k \<noteq> j" by (auto dest!: hm_get_mem intro: rev_image_eqI)
      with k have "hm_get (p # m) k = Some f" by (simp add: p hm_get_def)
      with Cons.prems(2) show "re_target f = k" by blast
    qed
    have "hm_get m j = None" using j by (simp add: hm_get_None)
    with Cons.IH [OF ok rest] own show ?case
      by (cases "i = j") (auto simp: p hm_get_def hm_values_def)
  qed (simp add: hm_get_def hm_values_def)
  with assms show ?thesis unfolding rt_ok_def rt_lookup_def by blast
qed

text \<open>In every route table that the operations can build, the best route to a target by
  metric is the one stored route of that target: the scan of best_route never has a
  choice.\<close>

theorem best_route_is_lookup:
  "rt_best_route (fold table_step ops rt_new) i = rt_lookup (fold table_step ops rt_new) i"
proof -
  have "rt_ok rt_new" by (simp add: rt_ok_def rt_new_def hm_simps)
  then have "rt_ok (fold table_step ops rt_new)" by (rule rt.run_inv)
  then show ?thesis
    by (simp add: rt_best_route_def rt_ok_filter split: option.split)
qed

end
