(* ===== verification/Multihop.thy ===== *)
theory Multihop
  imports Router Dht
begin

text \<open>
  Multi-hop routing (\<open>src/vpn/multihop.rs\<close>): the routing table keyed by target, route
  discovery through the DHT, failover to the candidates of the last discovery, expiry and
  eviction. Every operation reads the clock once, as its argument \<open>now\<close>. The relay manager
  is only stored by this module and has no part in the model.
\<close>

section \<open>Constants and message types\<close>

definition max_route_entries :: nat where
  "max_route_entries = 1000"

definition default_route_timeout_secs :: nat where
  "default_route_timeout_secs = 300"

definition metric_per_hop :: u32 where
  "metric_per_hop = 100"

definition metric_relay_penalty :: u32 where
  "metric_relay_penalty = 50"

definition metric_direct_penalty :: u32 where
  "metric_direct_penalty = 10"

definition cleanup_interval_secs :: nat where
  "cleanup_interval_secs = 60"

definition k_candidates_max :: nat where
  "k_candidates_max = 10"

datatype route_message_type = RouteDiscovery | RouteReply | RouteErrorMsg

definition route_type_from_u8 :: "byte \<Rightarrow> route_message_type option" where
  "route_type_from_u8 b =
     (if b = 0x01 then Some RouteDiscovery
      else if b = 0x02 then Some RouteReply
      else if b = 0x03 then Some RouteErrorMsg
      else None)"

fun route_type_to_u8 :: "route_message_type \<Rightarrow> byte" where
  "route_type_to_u8 RouteDiscovery = 0x01"
| "route_type_to_u8 RouteReply = 0x02"
| "route_type_to_u8 RouteErrorMsg = 0x03"

interpretation rmt: wire_tag route_type_to_u8 route_type_from_u8
proof unfold_locales
  fix t b
  show "route_type_from_u8 (route_type_to_u8 t) = Some t"
    by (cases t) (simp_all add: route_type_from_u8_def)
  show "route_type_from_u8 b = Some t \<Longrightarrow> route_type_to_u8 t = b"
    by (auto simp: route_type_from_u8_def split: if_splits)
qed

section \<open>Routes\<close>

record multihop_entry =
  mh_target :: node_id
  mh_next_hop :: node_id
  mh_hop_count :: byte
  mh_metric :: u32
  mh_connection_type :: connection_type
  mh_last_active :: instant
  mh_expires_at :: instant
  mh_candidates :: "(node_id \<times> string) list"

fun calculate_metric :: "byte \<Rightarrow> connection_type \<Rightarrow> u32" where
  "calculate_metric hops RelayConn = ucast hops * metric_per_hop + metric_relay_penalty"
| "calculate_metric hops Lan = ucast hops * metric_per_hop + metric_direct_penalty"
| "calculate_metric hops Vpn = ucast hops * metric_per_hop + metric_direct_penalty"
| "calculate_metric hops UnknownConn = ucast hops * metric_per_hop + 999"

definition route_timeout :: instant where
  "route_timeout = int (from_secs default_route_timeout_secs)"

definition multihop_entry_new ::
  "instant \<Rightarrow> node_id \<Rightarrow> node_id \<Rightarrow> byte \<Rightarrow> connection_type \<Rightarrow> (node_id \<times> string) list \<Rightarrow> multihop_entry" where
  "multihop_entry_new now target next_hop hops ct candidates =
     \<lparr>mh_target = target, mh_next_hop = next_hop, mh_hop_count = hops,
      mh_metric = calculate_metric hops ct, mh_connection_type = ct, mh_last_active = now,
      mh_expires_at = now + route_timeout, mh_candidates = candidates\<rparr>"

definition mh_is_expired :: "instant \<Rightarrow> multihop_entry \<Rightarrow> bool" where
  "mh_is_expired now e \<longleftrightarrow> mh_expires_at e \<le> now"

definition mh_refresh :: "instant \<Rightarrow> multihop_entry \<Rightarrow> multihop_entry" where
  "mh_refresh now e = e\<lparr>mh_last_active := now, mh_expires_at := now + route_timeout\<rparr>"

definition mh_is_direct :: "multihop_entry \<Rightarrow> bool" where
  "mh_is_direct e \<longleftrightarrow> mh_hop_count e = 1"

section \<open>The manager\<close>

record multihop_manager =
  mm_local_id :: node_id
  mm_routes :: "(node_id, multihop_entry) hashmap"
  mm_dht :: "dht_manager option"
  mm_max_entries :: nat
  mm_last_cleanup :: instant

definition multihop_new :: "instant \<Rightarrow> node_id \<Rightarrow> multihop_manager" where
  "multihop_new now i =
     \<lparr>mm_local_id = i, mm_routes = hm_empty, mm_dht = None,
      mm_max_entries = max_route_entries, mm_last_cleanup = now\<rparr>"

definition multihop_set_dht :: "dht_manager \<Rightarrow> multihop_manager \<Rightarrow> multihop_manager" where
  "multihop_set_dht d m = m\<lparr>mm_dht := Some d\<rparr>"

text \<open>The bytes fold into a \<open>u128\<close> from the first 16 bytes, unlike \<open>NodeID::distance\<close>.\<close>

definition xor_distance_u128 :: "node_id \<Rightarrow> node_id \<Rightarrow> u128" where
  "xor_distance_u128 a b = u128_of_bytes (map2 (XOR) (take 16 (as_bytes a)) (take 16 (as_bytes b)))"

definition insert_or_evict :: "multihop_entry \<Rightarrow> multihop_manager \<Rightarrow> multihop_manager" where
  "insert_or_evict e m =
     (if hm_contains (mm_routes m) (mh_target e) then
        m\<lparr>mm_routes := hm_insert (mh_target e) e (mm_routes m)\<rparr>
      else if hm_len (mm_routes m) < mm_max_entries m then
        m\<lparr>mm_routes := hm_insert (mh_target e) e (mm_routes m)\<rparr>
      else
        let kept = (case min_by_key (\<lambda>(k, r). mh_last_active r) (mm_routes m) of
                      None \<Rightarrow> mm_routes m
                    | Some (oldest, _) \<Rightarrow> hm_remove oldest (mm_routes m))
        in m\<lparr>mm_routes := hm_insert (mh_target e) e kept\<rparr>)"

definition discover_route ::
  "instant \<Rightarrow> node_id \<Rightarrow> multihop_manager \<Rightarrow> multihop_manager \<times> (router_error + unit)" where
  "discover_route now target m =
     (if target = mm_local_id m then (m, Inl (InvalidData ''cannot route to self''))
      else case mm_dht m of
        None \<Rightarrow> (m, Inl (SendFailedTo ''DHT not bound''))
      | Some d \<Rightarrow>
          let candidates = find_node d target in
          if candidates = [] then (m, Inl (NoRoute target))
          else
            let sorted = sort_by (\<lambda>a b. compare (xor_distance_u128 (fst a) target)
                                              (xor_distance_u128 (fst b) target)) candidates;
                next_hop = fst (sorted ! 0);
                (hops, ct) = (if next_hop = target then (1, Lan) else (2, RelayConn));
                fallback = take k_candidates_max (filter (\<lambda>p. fst p \<noteq> next_hop) (drop 1 sorted))
            in (insert_or_evict (multihop_entry_new now target next_hop hops ct fallback) m, Inr ()))"

definition add_direct_route :: "instant \<Rightarrow> node_id \<Rightarrow> string \<Rightarrow> multihop_manager \<Rightarrow> multihop_manager" where
  "add_direct_route now target addr m =
     (if target = mm_local_id m then m
      else insert_or_evict (multihop_entry_new now target target 1 Lan [(target, addr)]) m)"

definition mh_find_route :: "instant \<Rightarrow> node_id \<Rightarrow> multihop_manager \<Rightarrow> multihop_entry option" where
  "mh_find_route now target m =
     (case hm_get (mm_routes m) target of
        None \<Rightarrow> None
      | Some e \<Rightarrow> if mh_is_expired now e then None else Some e)"

definition next_hop :: "instant \<Rightarrow> node_id \<Rightarrow> multihop_manager \<Rightarrow> router_error + node_id" where
  "next_hop now target m =
     (case mh_find_route now target m of
        None \<Rightarrow> Inl (NoRoute target)
      | Some e \<Rightarrow> Inr (mh_next_hop e))"

definition mh_remove_route :: "node_id \<Rightarrow> multihop_manager \<Rightarrow> multihop_manager \<times> multihop_entry option" where
  "mh_remove_route target m =
     (m\<lparr>mm_routes := hm_remove target (mm_routes m)\<rparr>, hm_get (mm_routes m) target)"

definition mark_invalid :: "instant \<Rightarrow> node_id \<Rightarrow> multihop_manager \<Rightarrow> multihop_manager" where
  "mark_invalid now target m =
     m\<lparr>mm_routes := hm_modify target (\<lambda>e. e\<lparr>mh_expires_at := now - int (from_secs 1)\<rparr>) (mm_routes m)\<rparr>"

definition find_alternative ::
  "instant \<Rightarrow> node_id \<Rightarrow> multihop_manager \<Rightarrow> multihop_manager \<times> (router_error + unit)" where
  "find_alternative now target m =
     (case hm_get (mm_routes m) target of
        None \<Rightarrow> (m, Inl (NoRoute target))
      | Some old \<Rightarrow>
          (case List.find (\<lambda>p. fst p \<noteq> mh_next_hop old \<and> fst p \<noteq> mm_local_id m) (mh_candidates old) of
             None \<Rightarrow> (m, Inl (NoRoute target))
           | Some (best, _) \<Rightarrow>
               let new = \<lparr>mh_target = target, mh_next_hop = best, mh_hop_count = mh_hop_count old,
                          mh_metric = calculate_metric (mh_hop_count old) RelayConn,
                          mh_connection_type = RelayConn, mh_last_active = now,
                          mh_expires_at = now + route_timeout, mh_candidates = mh_candidates old\<rparr>
               in (m\<lparr>mm_routes := hm_insert target new (mm_routes m)\<rparr>, Inr ())))"

text \<open>One iteration of the loop of \<open>refresh_stale_routes\<close>.\<close>

definition refresh_target :: "instant \<Rightarrow> node_id \<Rightarrow> multihop_manager \<times> nat \<Rightarrow> multihop_manager \<times> nat" where
  "refresh_target now target = (\<lambda>(m, n).
     case discover_route now target m of
       (m', Inr ()) \<Rightarrow> (m', n + 1)
     | (m', Inl _) \<Rightarrow>
         (m'\<lparr>mm_routes := hm_modify target (\<lambda>e. e\<lparr>mh_expires_at := now + route_timeout\<rparr>) (mm_routes m')\<rparr>, n))"

definition refresh_stale_routes :: "instant \<Rightarrow> multihop_manager \<Rightarrow> multihop_manager \<times> nat" where
  "refresh_stale_routes now m =
     fold (refresh_target now) (map fst (filter (\<lambda>(_, e). mh_is_expired now e) (mm_routes m))) (m, 0)"

definition route_count :: "multihop_manager \<Rightarrow> nat" where
  "route_count m = hm_len (mm_routes m)"

definition insert_route :: "multihop_entry \<Rightarrow> multihop_manager \<Rightarrow> multihop_manager" where
  "insert_route e m = insert_or_evict e m"

definition find_routes_by_next_hop :: "node_id \<Rightarrow> multihop_manager \<Rightarrow> node_id list" where
  "find_routes_by_next_hop hop m = map fst (filter (\<lambda>(_, e). mh_next_hop e = hop) (mm_routes m))"

definition mh_cleanup_expired :: "instant \<Rightarrow> multihop_manager \<Rightarrow> multihop_manager \<times> nat" where
  "mh_cleanup_expired now m =
     (if elapsed now (mm_last_cleanup m) < from_secs cleanup_interval_secs then (m, 0)
      else
        let kept = hm_retain (\<lambda>_ e. \<not> mh_is_expired now e) (mm_routes m)
        in (m\<lparr>mm_last_cleanup := now, mm_routes := kept\<rparr>, hm_len (mm_routes m) - hm_len kept))"

section \<open>The table stays bounded\<close>

datatype multihop_op =
  Discover instant node_id | AddDirect instant node_id string | RemoveRoute node_id
| MarkInvalid instant node_id | FindAlternative instant node_id | RefreshStale instant
| InsertRoute multihop_entry | CleanupExpired instant | BindDht dht_manager

fun multihop_step :: "multihop_op \<Rightarrow> multihop_manager \<Rightarrow> multihop_manager" where
  "multihop_step (Discover now t) m = fst (discover_route now t m)"
| "multihop_step (AddDirect now t a) m = add_direct_route now t a m"
| "multihop_step (RemoveRoute t) m = fst (mh_remove_route t m)"
| "multihop_step (MarkInvalid now t) m = mark_invalid now t m"
| "multihop_step (FindAlternative now t) m = fst (find_alternative now t m)"
| "multihop_step (RefreshStale now) m = fst (refresh_stale_routes now m)"
| "multihop_step (InsertRoute e) m = insert_route e m"
| "multihop_step (CleanupExpired now) m = fst (mh_cleanup_expired now m)"
| "multihop_step (BindDht d) m = multihop_set_dht d m"

definition multihop_ok :: "multihop_manager \<Rightarrow> bool" where
  "multihop_ok m \<longleftrightarrow> hm_ok (mm_routes m) \<and> hm_len (mm_routes m) \<le> mm_max_entries m
     \<and> mm_max_entries m = max_route_entries
     \<and> (\<forall>t e. hm_get (mm_routes m) t = Some e \<longrightarrow> mh_target e = t)"

lemma insert_or_evict_ok:
  assumes "multihop_ok m"
  shows "multihop_ok (insert_or_evict e m)"
proof -
  let ?r = "mm_routes m"
  have r: "hm_ok ?r" "hm_len ?r \<le> max_route_entries" "mm_max_entries m = max_route_entries"
    "\<forall>t e. hm_get ?r t = Some e \<longrightarrow> mh_target e = t"
    using assms by (simp_all add: multihop_ok_def)
  show ?thesis
  proof (cases "hm_contains ?r (mh_target e) \<or> hm_len ?r < mm_max_entries m")
    case True
    then have "hm_len (hm_insert (mh_target e) e ?r) \<le> max_route_entries"
      using r hm.bound_insert_room [of ?r] hm.bound_insert_present [of ?r]
      by (auto simp: hm_contains_def)
    moreover have "insert_or_evict e m = m\<lparr>mm_routes := hm_insert (mh_target e) e ?r\<rparr>"
      using True by (auto simp: insert_or_evict_def)
    ultimately show ?thesis using r by (auto simp: multihop_ok_def hm_simps)
  next
    case False
    then have "?r \<noteq> []" using r by (auto simp: hm_len_def max_route_entries_def)
    then obtain k x where k: "min_by_key (\<lambda>(k, r). mh_last_active r) ?r = Some (k, x)"
      by (cases "min_by_key (\<lambda>(k, r). mh_last_active r) ?r") auto
    then have "hm_get ?r k = Some x" using min_by_key_Some [OF k] r(1) by (simp add: hm_get_iff)
    then have "hm_len (hm_insert (mh_target e) e (hm_remove k ?r)) \<le> max_route_entries"
      by (rule hm.bound_evict_insert [OF r(1,2)])
    moreover have "insert_or_evict e m = m\<lparr>mm_routes := hm_insert (mh_target e) e (hm_remove k ?r)\<rparr>"
      using False k by (auto simp: insert_or_evict_def)
    ultimately show ?thesis using r by (auto simp: multihop_ok_def hm_simps hm.ok_remove)
  qed
qed

lemma multihop_ok_modify:
  "multihop_ok m \<Longrightarrow> (\<And>e. mh_target (f e) = mh_target e) \<Longrightarrow>
   multihop_ok (m\<lparr>mm_routes := hm_modify t f (mm_routes m)\<rparr>)"
  by (auto simp: multihop_ok_def hm_get_modify)

lemma discover_route_ok: "multihop_ok m \<Longrightarrow> multihop_ok (fst (discover_route now t m))"
  by (simp add: discover_route_def Let_def insert_or_evict_ok split: option.split prod.split)

lemma find_alternative_ok:
  assumes "multihop_ok m"
  shows "multihop_ok (fst (find_alternative now t m))"
proof (cases "hm_get (mm_routes m) t")
  case (Some old)
  with assms have "hm_len (hm_insert t e (mm_routes m)) \<le> mm_max_entries m" for e
    by (simp add: multihop_ok_def hm.bound_insert_present)
  with assms Some show ?thesis
    by (auto simp: find_alternative_def multihop_ok_def hm_simps Let_def split: option.split)
qed (use assms in \<open>simp add: find_alternative_def\<close>)

lemma refresh_target_ok:
  "multihop_ok (fst s) \<Longrightarrow> multihop_ok (fst (refresh_target now t s))"
  using discover_route_ok [of "fst s" now t]
  by (auto simp: refresh_target_def split_beta intro!: multihop_ok_modify split: sum.split unit.split)

lemma refresh_fold_ok:
  "multihop_ok (fst s) \<Longrightarrow> multihop_ok (fst (fold (refresh_target now) ts s))"
  by (induction ts arbitrary: s) (simp_all add: refresh_target_ok)

interpretation mh: op_machine multihop_step multihop_ok
proof
  fix op m assume m: "multihop_ok m"
  show "multihop_ok (multihop_step op m)"
  proof (cases op)
    case (RemoveRoute t)
    have "hm_len (hm_remove t (mm_routes m)) \<le> hm_len (mm_routes m)"
      using m by (simp add: multihop_ok_def hm.len_remove)
    with m RemoveRoute show ?thesis
      by (auto simp: multihop_ok_def mh_remove_route_def hm_simps hm.ok_remove)
  next
    case (CleanupExpired now)
    have "hm_len (hm_retain P (mm_routes m)) \<le> max_route_entries" for P
      using m hm_len_retain [of P "mm_routes m"] by (simp add: multihop_ok_def)
    with m CleanupExpired show ?thesis
      by (auto simp: multihop_ok_def mh_cleanup_expired_def Let_def hm_get_retain_Some)
  qed (use m in \<open>simp_all add: discover_route_ok find_alternative_ok insert_or_evict_ok
      add_direct_route_def insert_route_def mark_invalid_def multihop_ok_modify
      refresh_stale_routes_def refresh_fold_ok multihop_set_dht_def\<close>,
      simp add: multihop_ok_def)
qed

text \<open>C30. After any sequence of operations on a new manager the route table holds at most
  1000 routes, and a route found for a target is a route to that target.\<close>

theorem route_table_bounded:
  "let m = fold multihop_step ops (multihop_new now i) in
   route_count m \<le> 1000 \<and> (case mh_find_route later t m of None \<Rightarrow> True | Some e \<Rightarrow> mh_target e = t)"
proof -
  have "multihop_ok (multihop_new now i)" by (simp add: multihop_ok_def multihop_new_def hm_simps)
  then have "multihop_ok (fold multihop_step ops (multihop_new now i))" by (rule mh.run_inv)
  then show ?thesis
    by (auto simp: multihop_ok_def route_count_def max_route_entries_def mh_find_route_def Let_def
        split: option.split)
qed

section \<open>Discovery\<close>

lemma of_be_take_mono:
  assumes "of_be xs \<le> of_be ys" and "length xs = length ys"
  shows "of_be (take n xs) \<le> of_be (take n ys)"
proof -
  have "of_be zs div 256 ^ length (drop n zs) = of_be (take n zs)" for zs
  proof -
    have "of_be zs = of_be (take n zs) * 256 ^ length (drop n zs) + of_be (drop n zs)"
      by (metis append_take_drop_id of_be_append)
    then show ?thesis using of_be_less [of "drop n zs"] by simp
  qed
  then show ?thesis using assms by (metis div_le_mono length_drop)
qed

text \<open>The 16-byte distance is coarser than the XOR distance of the DHT.\<close>

lemma xor_distance_u128_mono:
  assumes "xor_distance t a \<le> xor_distance t b"
  shows "xor_distance_u128 a t \<le> xor_distance_u128 b t"
proof -
  let ?x = "map2 (XOR) (as_bytes t) (as_bytes a)" and ?y = "map2 (XOR) (as_bytes t) (as_bytes b)"
  have "of_be ?x \<le> of_be ?y"
    using assms by (simp add: xor_distance_def less_eq_b32_def b32_val_def)
  then have "of_be (take 16 ?x) \<le> of_be (take 16 ?y)" by (rule of_be_take_mono) simp
  moreover have "xor_distance_u128 c t = u128_of_bytes (take 16 (map2 (XOR) (as_bytes t) (as_bytes c)))" for c
    by (simp add: xor_distance_u128_def map2_xor_commute take_map take_zip)
  ultimately show ?thesis by (simp add: word_le_nat_alt unat_u128_of_bytes)
qed

text \<open>Hence the second sort of the code leaves the answer of the DHT in order.\<close>

lemma resort_keeps:
  "sort_by (\<lambda>a b. compare (xor_distance_u128 (fst a) t) (xor_distance_u128 (fst b) t)) (find_node d t)
    = find_node d t"
proof -
  have "sorted_wrt (\<lambda>p q. xor_distance t (fst p) \<le> xor_distance t (fst q)) (find_node d t)"
    using dht_find.find_sorted [of t d] by (simp add: sorted_map)
  then have "sorted_wrt (\<lambda>p q. xor_distance_u128 (fst p) t \<le> xor_distance_u128 (fst q) t) (find_node d t)"
    by (rule sorted_wrt_mono_rel [rotated]) (rule xor_distance_u128_mono)
  then have "sorted (map (\<lambda>p. xor_distance_u128 (fst p) t) (find_node d t))"
    by (simp add: sorted_map)
  then show ?thesis
    by (subst sort_by_key [where f = "\<lambda>p. xor_distance_u128 (fst p) t"]) (simp_all add: sort_key_id_if_sorted)
qed

lemma insert_or_evict_get: "hm_get (mm_routes (insert_or_evict e m)) (mh_target e) = Some e"
  by (simp add: insert_or_evict_def hm_simps Let_def)

text \<open>C12. When the DHT knows any node and the target is not the local one, discovery
  succeeds and routes to a known node at least as close to the target as every known
  node, the target itself when it is known; the route is direct exactly then, and
  keeps at most 10 other candidates.\<close>

theorem discover_route_uses_nearest:
  assumes "mm_dht m = Some d" and "target \<noteq> mm_local_id m" and "(i, a) \<in> set (all_nodes d)"
    and "discover_route now target m = (m', r)"
  shows "\<exists>hop. r = Inr () \<and> next_hop now target m' = Inr hop
    \<and> hop \<in> fst ` set (all_nodes d) \<and> xor_distance target hop \<le> xor_distance target i
    \<and> (i = target \<longrightarrow> hop = target)
    \<and> (case mh_find_route now target m' of None \<Rightarrow> False
       | Some e \<Rightarrow> (mh_hop_count e = 1 \<longleftrightarrow> hop = target) \<and> length (mh_candidates e) \<le> 10
           \<and> hop \<notin> fst ` set (mh_candidates e))"
proof -
  obtain p ps where f: "find_node d target = p # ps"
    using dht_find.find_empty [of d target] assms(3) by (cases "find_node d target") auto
  let ?hop = "fst p"
  let ?h = "if ?hop = target then (1 :: byte, Lan) else (2, RelayConn)"
  let ?e = "multihop_entry_new now target ?hop (fst ?h) (snd ?h)
              (take k_candidates_max (filter (\<lambda>q. fst q \<noteq> ?hop) ps))"
  have m': "m' = insert_or_evict ?e m" "r = Inr ()"
    using assms resort_keeps [of target d] by (auto simp: discover_route_def f Let_def split_beta)
  have e: "mh_find_route now target m' = Some ?e"
    using insert_or_evict_get [of ?e m]
    by (simp add: m' mh_find_route_def multihop_entry_new_def mh_is_expired_def route_timeout_def
        default_route_timeout_secs_def from_secs_def)
  have "?hop \<in> fst ` set (all_nodes d)" using dht_find.find_known [of d target] f by auto
  moreover have "xor_distance target ?hop \<le> xor_distance target i"
    using dht_find.first_is_closest [OF f assms(3)] by simp
  moreover have "i = target \<longrightarrow> ?hop = target"
    using dht_find.known_target_first [OF f] assms(3) by blast
  moreover have "next_hop now target m' = Inr ?hop" by (simp add: next_hop_def e multihop_entry_new_def)
  moreover have "case mh_find_route now target m' of None \<Rightarrow> False
       | Some e \<Rightarrow> (mh_hop_count e = 1 \<longleftrightarrow> ?hop = target) \<and> length (mh_candidates e) \<le> 10
           \<and> ?hop \<notin> fst ` set (mh_candidates e)"
    unfolding e by (auto simp: multihop_entry_new_def k_candidates_max_def dest: in_set_takeD)
  ultimately show ?thesis using m'(2) by blast
qed

theorem discover_route_uses_nearest_witness:
  "let m = multihop_set_dht sample_dht (multihop_new 0 (fill32 0));
       (m', r) = discover_route 7 (fill32 2) m
   in \<exists>hop. r = Inr () \<and> next_hop 7 (fill32 2) m' = Inr hop
    \<and> hop \<in> fst ` set (all_nodes sample_dht) \<and> xor_distance (fill32 2) hop \<le> xor_distance (fill32 2) (fill32 2)
    \<and> (fill32 2 = fill32 2 \<longrightarrow> hop = fill32 2)
    \<and> (case mh_find_route 7 (fill32 2) m' of None \<Rightarrow> False
       | Some e \<Rightarrow> (mh_hop_count e = 1 \<longleftrightarrow> hop = fill32 2) \<and> length (mh_candidates e) \<le> 10
           \<and> hop \<notin> fst ` set (mh_candidates e))"
proof -
  let ?m = "multihop_set_dht sample_dht (multihop_new 0 (fill32 0))"
  obtain m' r where d: "discover_route 7 (fill32 2) ?m = (m', r)" by force
  have m: "mm_dht ?m = Some sample_dht" "fill32 2 \<noteq> mm_local_id ?m"
    "(fill32 2, ''b'') \<in> set (all_nodes sample_dht)"
    by (simp_all add: multihop_set_dht_def multihop_new_def all_nodes_sample)
  show ?thesis
    unfolding Let_def d prod.case by (rule discover_route_uses_nearest [OF m d])
qed

section \<open>Failover\<close>

text \<open>
  A failover takes the first candidate that is not the failed hop, and keeps the candidate
  list. So repeated failovers alternate between the first two candidates.
\<close>

lemma failover_next:
  assumes "hm_get (mm_routes m) target = Some e"
    and "mh_candidates e = (c1, a1) # (c2, a2) # cs" and "c1 \<noteq> c2"
    and "c1 \<noteq> mm_local_id m" "c2 \<noteq> mm_local_id m"
  shows "\<exists>m' e'. find_alternative now target m = (m', Inr ()) \<and> mm_local_id m' = mm_local_id m
    \<and> hm_get (mm_routes m') target = Some e' \<and> mh_candidates e' = mh_candidates e
    \<and> mh_next_hop e' = (if mh_next_hop e = c1 then c2 else c1)"
  using assms by (auto simp: find_alternative_def Let_def hm_simps)

fun failovers :: "instant list \<Rightarrow> node_id \<Rightarrow> multihop_manager \<Rightarrow> multihop_manager \<times> node_id option list" where
  "failovers [] target m = (m, [])"
| "failovers (now # ts) target m =
     (let (m1, r) = find_alternative now target m;
          hop = map_option mh_next_hop (hm_get (mm_routes m1) target);
          (m2, hops) = failovers ts target m1
      in (m2, hop # hops))"

lemma failovers_alternate:
  assumes "hm_get (mm_routes m) target = Some e"
    and "mh_candidates e = (c1, a1) # (c2, a2) # cs" and "c1 \<noteq> c2"
    and "c1 \<noteq> mm_local_id m" "c2 \<noteq> mm_local_id m"
  shows "snd (failovers ts target m)
    = map (\<lambda>k. Some (if even k = (mh_next_hop e \<noteq> c1) then c1 else c2)) [0..<length ts]"
  using assms
proof (induction ts arbitrary: m e)
  case (Cons now ts)
  obtain m1 e1 where m1: "find_alternative now target m = (m1, Inr ())" "mm_local_id m1 = mm_local_id m"
      "hm_get (mm_routes m1) target = Some e1" "mh_candidates e1 = mh_candidates e"
      "mh_next_hop e1 = (if mh_next_hop e = c1 then c2 else c1)"
    using failover_next [OF Cons.prems] by blast
  have "snd (failovers ts target m1)
      = map (\<lambda>k. Some (if even k = (mh_next_hop e1 \<noteq> c1) then c1 else c2)) [0..<length ts]"
    by (rule Cons.IH) (use m1 Cons.prems in auto)
  also have "\<dots> = map (\<lambda>k. Some (if even (Suc k) = (mh_next_hop e \<noteq> c1) then c1 else c2)) [0..<length ts]"
    using Cons.prems(3) m1(5) by auto
  also have "\<dots> = map (\<lambda>k. Some (if even k = (mh_next_hop e \<noteq> c1) then c1 else c2)) [1..<Suc (length ts)]"
    by (simp add: map_Suc_upt [symmetric] del: upt_Suc map_Suc_upt)
  finally show ?case
    using m1(3,5) Cons.prems(3)
    by (simp add: m1(1) Let_def split_beta upt_conv_Cons del: upt_Suc)
qed simp

text \<open>Repeated failovers of a route alternate between the first two of its candidates and
  never reach a third one, since a failed candidate stays in the list.\<close>

theorem failover_alternates:
  assumes "hm_get (mm_routes m) target = Some e"
    and "mh_candidates e = (c1, a1) # (c2, a2) # cs" and "distinct [c1, c2, mm_local_id m]"
    and "mh_next_hop e \<notin> {c1, c2}"
  shows "snd (failovers ts target m) = map (\<lambda>k. Some (if even k then c1 else c2)) [0..<length ts]"
  using failovers_alternate [of m target e c1 a1 c2 a2 cs ts] assms by auto

theorem failover_alternates_witness:
  "let e = multihop_entry_new 0 (fill32 9) (fill32 4) 2 RelayConn
             [(fill32 1, ''a''), (fill32 2, ''b''), (fill32 3, ''c'')];
       m = insert_route e (multihop_new 0 (fill32 0))
   in snd (failovers [1, 2, 3, 4] (fill32 9) m)
      = [Some (fill32 1), Some (fill32 2), Some (fill32 1), Some (fill32 2)]"
proof -
  let ?e = "multihop_entry_new 0 (fill32 9) (fill32 4) 2 RelayConn
             [(fill32 1, ''a''), (fill32 2, ''b''), (fill32 3, ''c'')]"
  let ?m = "insert_route ?e (multihop_new 0 (fill32 0))"
  have "hm_get (mm_routes ?m) (fill32 9) = Some ?e"
    using insert_or_evict_get [of ?e] by (simp add: insert_route_def multihop_entry_new_def)
  moreover have "mm_local_id ?m = fill32 0"
    by (simp add: insert_route_def insert_or_evict_def multihop_new_def Let_def)
  ultimately have "snd (failovers [1, 2, 3, 4] (fill32 9) ?m)
      = map (\<lambda>k. Some (if even k then fill32 1 else fill32 2)) [0..<length [1, 2, 3, 4 :: int]]"
    by (intro failover_alternates [where e = ?e]) (auto simp: multihop_entry_new_def)
  then show ?thesis by (simp add: upt_conv_Cons)
qed

end
