(* ===== verification/Address.thy ===== *)
theory Address
  imports NodeId HashMap
begin

text \<open>
  Address resolution (\<open>src/address.rs\<close>): the parser of \<open>node:<name>\<close> and
  \<open>node:<name>:<port>\<close>, the resolver trait as the locale \<open>address_resolver\<close>, the memory
  resolver, and the caching wrapper, which is a resolver again over any resolver.
\<close>

section \<open>Parsing\<close>

datatype address_error =
  InvalidFormat string | UnknownNode string | ResolveTimeout string | CacheExpired string

fun address_error_display :: "address_error \<Rightarrow> string" where
  "address_error_display (InvalidFormat m) = ''invalid address format: '' @ m"
| "address_error_display (UnknownNode n) = ''unknown node: '' @ n"
| "address_error_display (ResolveTimeout n) = ''resolve timeout for node: '' @ n"
| "address_error_display (CacheExpired n) = ''cache expired for node: '' @ n"

record parsed_address =
  pa_name :: string
  pa_port :: "u16 option"

text \<open>\<open>str::splitn(n, c)\<close>: at most \<open>n\<close> pieces, the last one the rest of the text.\<close>

fun splitn :: "nat \<Rightarrow> char \<Rightarrow> string \<Rightarrow> string list" where
  "splitn 0 c s = []"
| "splitn (Suc 0) c s = [s]"
| "splitn (Suc (Suc n)) c s =
     (case dropWhile (\<lambda>x. x \<noteq> c) s of
        [] \<Rightarrow> [s]
      | _ # rest \<Rightarrow> takeWhile (\<lambda>x. x \<noteq> c) s # splitn (Suc n) c rest)"

text \<open>\<open>str::parse::<u16>\<close>: an optional plus sign, then decimal digits, below 65536.\<close>

definition is_digit :: "char \<Rightarrow> bool" where
  "is_digit c \<longleftrightarrow> 48 \<le> (of_char c :: nat) \<and> (of_char c :: nat) \<le> 57"

definition digits_value :: "string \<Rightarrow> nat" where
  "digits_value s = foldl (\<lambda>n c. n * 10 + (of_char c - 48)) 0 s"

definition strip_plus :: "string \<Rightarrow> string" where
  "strip_plus s = (case s of c # cs \<Rightarrow> if c = CHR ''+'' then cs else s | [] \<Rightarrow> [])"

definition parse_u16 :: "string \<Rightarrow> u16 option" where
  "parse_u16 s =
     (let d = strip_plus s in
      if d = [] \<or> \<not> list_all is_digit d then None
      else if 65535 < digits_value d then None
      else Some (of_nat (digits_value d)))"

definition parse_address :: "string \<Rightarrow> address_error + parsed_address" where
  "parse_address addr =
     (let bad = Inl (InvalidFormat (''expected node:<name> or node:<name>:<port>, got: '' @ addr)) in
      case splitn 3 CHR '':'' addr of
        [tag, name] \<Rightarrow>
          if tag \<noteq> ''node'' then bad
          else if name = [] then Inl (InvalidFormat ''node name cannot be empty'')
          else Inr \<lparr>pa_name = name, pa_port = None\<rparr>
      | [tag, name, port_str] \<Rightarrow>
          if tag \<noteq> ''node'' then bad
          else if name = [] then Inl (InvalidFormat ''node name cannot be empty'')
          else (case parse_u16 port_str of
                  None \<Rightarrow> Inl (InvalidFormat (''invalid port number: '' @ port_str))
                | Some port \<Rightarrow>
                    if port = 0 then Inl (InvalidFormat ''port number cannot be zero'')
                    else Inr \<lparr>pa_name = name, pa_port = Some port\<rparr>)
      | _ \<Rightarrow> bad)"

definition is_node_address :: "string \<Rightarrow> bool" where
  "is_node_address addr \<longleftrightarrow> take 5 addr = ''node:''"

section \<open>The memory resolver\<close>

record cache_entry =
  ce_id :: node_id
  ce_inserted_at :: instant
  ce_ttl :: duration

definition ce_is_expired :: "instant \<Rightarrow> cache_entry \<Rightarrow> bool" where
  "ce_is_expired now e \<longleftrightarrow> ce_ttl e < elapsed now (ce_inserted_at e)"

record mem_resolver =
  mr_cache :: "(string, cache_entry) hashmap"
  mr_static_map :: "(string, node_id) hashmap"
  mr_default_ttl :: duration

definition mem_with_ttl :: "duration \<Rightarrow> mem_resolver" where
  "mem_with_ttl ttl = \<lparr>mr_cache = hm_empty, mr_static_map = hm_empty, mr_default_ttl = ttl\<rparr>"

definition mem_new :: mem_resolver where
  "mem_new = \<lparr>mr_cache = hm_empty, mr_static_map = hm_empty, mr_default_ttl = from_secs 300\<rparr>"

definition add_static_mapping :: "string \<Rightarrow> node_id \<Rightarrow> mem_resolver \<Rightarrow> mem_resolver" where
  "add_static_mapping name i r = r\<lparr>mr_static_map := hm_insert name i (mr_static_map r)\<rparr>"

definition remove_static_mapping :: "string \<Rightarrow> mem_resolver \<Rightarrow> mem_resolver \<times> node_id option" where
  "remove_static_mapping name r =
     (r\<lparr>mr_static_map := hm_remove name (mr_static_map r)\<rparr>, hm_get (mr_static_map r) name)"

definition mem_known_nodes :: "instant \<Rightarrow> mem_resolver \<Rightarrow> nat" where
  "mem_known_nodes now r =
     hm_len (mr_static_map r) + length (filter (\<lambda>e. \<not> ce_is_expired now e) (hm_values (mr_cache r)))"

text \<open>\<open>get_cached\<close> of both resolvers.\<close>

definition cached_id :: "instant \<Rightarrow> (string, cache_entry) hashmap \<Rightarrow> string \<Rightarrow> node_id option" where
  "cached_id now c name =
     (case hm_get c name of
        None \<Rightarrow> None
      | Some e \<Rightarrow> if ce_is_expired now e then None else Some (ce_id e))"

definition mem_cache :: "instant \<Rightarrow> string \<Rightarrow> node_id \<Rightarrow> duration \<Rightarrow> mem_resolver \<Rightarrow> mem_resolver" where
  "mem_cache now name i ttl r =
     r\<lparr>mr_cache := hm_insert name \<lparr>ce_id = i, ce_inserted_at = now, ce_ttl = ttl\<rparr> (mr_cache r)\<rparr>"

definition mem_get_cached :: "instant \<Rightarrow> string \<Rightarrow> mem_resolver \<Rightarrow> node_id option" where
  "mem_get_cached now name r = cached_id now (mr_cache r) name"

definition mem_resolve ::
  "instant \<Rightarrow> string \<Rightarrow> mem_resolver \<Rightarrow> mem_resolver \<times> (address_error + node_id)" where
  "mem_resolve now name r =
     (case cached_id now (mr_cache r) name of
        Some i \<Rightarrow> (r, Inr i)
      | None \<Rightarrow>
          (case hm_get (mr_static_map r) name of
             Some i \<Rightarrow> (mem_cache now name i (mr_default_ttl r) r, Inr i)
           | None \<Rightarrow> (r, Inl (UnknownNode name))))"

definition mem_clear_cache :: "mem_resolver \<Rightarrow> mem_resolver" where
  "mem_clear_cache r = r\<lparr>mr_cache := hm_empty\<rparr>"

section \<open>The caching wrapper\<close>

text \<open>Generic in the inner resolver, whose operations the trait object supplies.\<close>

record 'r caching_resolver =
  cr_inner :: 'r
  cr_cache :: "(string, cache_entry) hashmap"

definition caching_new :: "'r \<Rightarrow> 'r caching_resolver" where
  "caching_new inner = \<lparr>cr_inner = inner, cr_cache = hm_empty\<rparr>"

definition caching_with_ttl :: "'r \<Rightarrow> duration \<Rightarrow> 'r caching_resolver" where
  "caching_with_ttl inner ttl = caching_new inner"

definition caching_cache ::
  "(instant \<Rightarrow> string \<Rightarrow> node_id \<Rightarrow> duration \<Rightarrow> 'r \<Rightarrow> 'r)
   \<Rightarrow> instant \<Rightarrow> string \<Rightarrow> node_id \<Rightarrow> duration \<Rightarrow> 'r caching_resolver \<Rightarrow> 'r caching_resolver" where
  "caching_cache inner_cache now name i ttl r =
     r\<lparr>cr_cache := hm_insert name \<lparr>ce_id = i, ce_inserted_at = now, ce_ttl = ttl\<rparr> (cr_cache r),
       cr_inner := inner_cache now name i ttl (cr_inner r)\<rparr>"

definition caching_resolve ::
  "(instant \<Rightarrow> string \<Rightarrow> 'r \<Rightarrow> 'r \<times> (address_error + node_id))
   \<Rightarrow> (instant \<Rightarrow> string \<Rightarrow> node_id \<Rightarrow> duration \<Rightarrow> 'r \<Rightarrow> 'r)
   \<Rightarrow> instant \<Rightarrow> string \<Rightarrow> 'r caching_resolver \<Rightarrow> 'r caching_resolver \<times> (address_error + node_id)" where
  "caching_resolve inner_resolve inner_cache now name r =
     (case cached_id now (cr_cache r) name of
        Some i \<Rightarrow> (r, Inr i)
      | None \<Rightarrow>
          (case inner_resolve now name (cr_inner r) of
             (inner', Inl e) \<Rightarrow> (r\<lparr>cr_inner := inner'\<rparr>, Inl e)
           | (inner', Inr i) \<Rightarrow>
               (caching_cache inner_cache now name i (from_secs 300) (r\<lparr>cr_inner := inner'\<rparr>), Inr i)))"

definition caching_get_cached :: "instant \<Rightarrow> string \<Rightarrow> 'r caching_resolver \<Rightarrow> node_id option" where
  "caching_get_cached now name r = cached_id now (cr_cache r) name"

definition caching_clear_cache :: "('r \<Rightarrow> 'r) \<Rightarrow> 'r caching_resolver \<Rightarrow> 'r caching_resolver" where
  "caching_clear_cache inner_clear r = r\<lparr>cr_cache := hm_empty, cr_inner := inner_clear (cr_inner r)\<rparr>"

definition resolve_address ::
  "(string \<Rightarrow> 'r \<Rightarrow> 'r \<times> (address_error + node_id)) \<Rightarrow> string \<Rightarrow> 'r
   \<Rightarrow> 'r \<times> (address_error + (parsed_address \<times> node_id))" where
  "resolve_address resolve addr r =
     (case parse_address addr of
        Inl e \<Rightarrow> (r, Inl e)
      | Inr p \<Rightarrow>
          (case resolve (pa_name p) r of
             (r', Inl e) \<Rightarrow> (r', Inl e)
           | (r', Inr i) \<Rightarrow> (r', Inr (p, i))))"

section \<open>The contract of a resolver\<close>

locale address_resolver =
  fixes resolve :: "instant \<Rightarrow> string \<Rightarrow> 'r \<Rightarrow> 'r \<times> (address_error + node_id)"
    and cache :: "instant \<Rightarrow> string \<Rightarrow> node_id \<Rightarrow> duration \<Rightarrow> 'r \<Rightarrow> 'r"
    and get_cached :: "instant \<Rightarrow> string \<Rightarrow> 'r \<Rightarrow> node_id option"
    and clear_cache :: "'r \<Rightarrow> 'r"
  assumes cached: "get_cached now' m (cache now n i ttl r)
      = (if m = n then (if ttl < elapsed now' now then None else Some i) else get_cached now' m r)"
    and cleared: "get_cached now n (clear_cache r) = None"
    and resolve_hit: "get_cached now n r = Some i \<Longrightarrow> resolve now n r = (r, Inr i)"
    and resolve_caches: "resolve now n r = (r', Inr i) \<Longrightarrow> get_cached now n r' = Some i"
    and resolve_fails: "resolve now n r = (r', Inl e) \<Longrightarrow> r' = r \<and> e = UnknownNode n"
begin

lemma resolve_after_cache:
  "elapsed now' now \<le> ttl \<Longrightarrow> resolve now' n (cache now n i ttl r) = (cache now n i ttl r, Inr i)"
  by (rule resolve_hit) (simp add: cached)

lemma resolve_twice:
  assumes "resolve now n r = (r', Inr i)"
  shows "resolve now n r' = (r', Inr i)"
  using resolve_caches [OF assms] by (rule resolve_hit)

lemma resolve_address_hit:
  assumes "parse_address addr = Inr p" and "get_cached now (pa_name p) r = Some i"
  shows "resolve_address (resolve now) addr r = (r, Inr (p, i))"
  using assms resolve_hit by (simp add: resolve_address_def)

text \<open>The wrapper of a resolver is a resolver.\<close>

lemma wrapper:
  "address_resolver (caching_resolve resolve cache) (caching_cache cache) caching_get_cached
     (caching_clear_cache clear_cache)"
proof unfold_locales
  fix now now' :: instant and n m :: string and i :: node_id and ttl :: duration and e :: address_error
  fix r r' :: "'r caching_resolver"
  show "caching_get_cached now' m (caching_cache cache now n i ttl r)
      = (if m = n then (if ttl < elapsed now' now then None else Some i) else caching_get_cached now' m r)"
    by (simp add: caching_get_cached_def caching_cache_def cached_id_def hm_simps ce_is_expired_def)
  show "caching_get_cached now n (caching_clear_cache clear_cache r) = None"
    by (simp add: caching_get_cached_def caching_clear_cache_def cached_id_def hm_simps)
  show "caching_get_cached now n r = Some i \<Longrightarrow> caching_resolve resolve cache now n r = (r, Inr i)"
    by (simp add: caching_get_cached_def caching_resolve_def)
  show "caching_get_cached now n r' = Some i" if "caching_resolve resolve cache now n r = (r', Inr i)"
    using that
    by (auto simp: caching_get_cached_def caching_resolve_def caching_cache_def cached_id_def hm_simps
        ce_is_expired_def split: option.splits prod.splits sum.splits if_splits)
  show "r' = r \<and> e = UnknownNode n" if "caching_resolve resolve cache now n r = (r', Inl e)"
    using that resolve_fails [of now n "cr_inner r"]
    by (auto simp: caching_resolve_def split: option.splits prod.splits sum.splits)
qed

end

interpretation mem: address_resolver mem_resolve mem_cache mem_get_cached mem_clear_cache
proof unfold_locales
  fix now now' :: instant and n m :: string and i :: node_id and ttl :: duration and e :: address_error
  fix r r' :: mem_resolver
  show "mem_get_cached now' m (mem_cache now n i ttl r)
      = (if m = n then (if ttl < elapsed now' now then None else Some i) else mem_get_cached now' m r)"
    by (simp add: mem_get_cached_def mem_cache_def cached_id_def hm_simps ce_is_expired_def)
  show "mem_get_cached now n (mem_clear_cache r) = None"
    by (simp add: mem_get_cached_def mem_clear_cache_def cached_id_def hm_simps)
  show "mem_get_cached now n r = Some i \<Longrightarrow> mem_resolve now n r = (r, Inr i)"
    by (simp add: mem_get_cached_def mem_resolve_def)
  show "mem_get_cached now n r' = Some i" if "mem_resolve now n r = (r', Inr i)"
    using that
    by (auto simp: mem_get_cached_def mem_resolve_def mem_cache_def cached_id_def hm_simps
        ce_is_expired_def split: option.splits if_splits)
  show "r' = r \<and> e = UnknownNode n" if "mem_resolve now n r = (r', Inl e)"
    using that by (auto simp: mem_resolve_def split: option.splits)
qed

interpretation wrapped: address_resolver "caching_resolve mem_resolve mem_cache" "caching_cache mem_cache"
  caching_get_cached "caching_clear_cache mem_clear_cache"
  by (rule mem.wrapper)

section \<open>What parses\<close>

lemma splitn_none: "c \<notin> set s \<Longrightarrow> splitn (Suc n) c s = [s]"
proof (cases n)
  case (Suc k)
  assume "c \<notin> set s"
  then have "dropWhile (\<lambda>x. x \<noteq> c) s = []" by (auto simp: dropWhile_eq_Nil_conv)
  then show ?thesis by (simp only: Suc splitn.simps list.case)
qed simp

lemma splitn_some: "c \<notin> set x \<Longrightarrow> splitn (Suc (Suc n)) c (x @ c # y) = x # splitn (Suc n) c y"
proof -
  assume c: "c \<notin> set x"
  then have "dropWhile (\<lambda>z. z \<noteq> c) (x @ c # y) = c # y" "takeWhile (\<lambda>z. z \<noteq> c) (x @ c # y) = x"
    by (induction x) auto
  then show ?thesis by (simp only: splitn.simps list.case)
qed

lemma parse_one: "CHR '':'' \<notin> set a \<Longrightarrow> parse_address a \<noteq> Inr p"
  by (simp add: parse_address_def splitn_none [of _ _ "2", unfolded numeral_2_eq_2] numeral_3_eq_3 Let_def
      del: splitn.simps)

lemma parse_two:
  assumes "CHR '':'' \<notin> set t" "CHR '':'' \<notin> set n"
  shows "parse_address (t @ CHR '':'' # n) = Inr p \<longleftrightarrow>
    t = ''node'' \<and> n \<noteq> [] \<and> p = \<lparr>pa_name = n, pa_port = None\<rparr>"
proof -
  have "splitn 3 CHR '':'' (t @ CHR '':'' # n) = [t, n]"
    unfolding numeral_3_eq_3 by (simp only: splitn_some [OF assms(1)] splitn_none [OF assms(2)])
  then show ?thesis by (auto simp: parse_address_def Let_def)
qed

lemma parse_three:
  assumes "CHR '':'' \<notin> set t" "CHR '':'' \<notin> set n"
  shows "parse_address (t @ CHR '':'' # n @ CHR '':'' # s) = Inr p \<longleftrightarrow>
     t = ''node'' \<and> n \<noteq> [] \<and> (\<exists>q. parse_u16 s = Some q \<and> q \<noteq> 0 \<and> p = \<lparr>pa_name = n, pa_port = Some q\<rparr>)"
proof -
  have "splitn 3 CHR '':'' (t @ CHR '':'' # n @ CHR '':'' # s) = [t, n, s]"
    unfolding numeral_3_eq_3
    by (simp only: splitn_some [OF assms(1)] splitn_some [OF assms(2)] splitn.simps(2))
  then show ?thesis by (auto simp: parse_address_def Let_def split: option.splits)
qed

text \<open>An address parses exactly when it is node:<name> or node:<name>:<port> with a non-
  empty name without a colon and a decimal port from 1 to 65535, and parsing returns
  that name and port.\<close>

theorem parse_address_iff:
  "parse_address a = Inr p \<longleftrightarrow>
     pa_name p \<noteq> [] \<and> CHR '':'' \<notin> set (pa_name p)
     \<and> (case pa_port p of
          None \<Rightarrow> a = ''node:'' @ pa_name p
        | Some q \<Rightarrow> q \<noteq> 0 \<and> (\<exists>s. parse_u16 s = Some q \<and> a = ''node:'' @ pa_name p @ '':'' @ s))"
    (is "_ \<longleftrightarrow> ?rhs")
proof
  assume a: "parse_address a = Inr p"
  then obtain t y where 1: "a = t @ CHR '':'' # y" "CHR '':'' \<notin> set t"
    using parse_one split_list_first by metis
  show ?rhs
  proof (cases "CHR '':'' \<in> set y")
    case False
    with a 1 show ?thesis by (auto simp: parse_two)
  next
    case True
    then obtain n s where 2: "y = n @ CHR '':'' # s" "CHR '':'' \<notin> set n" using split_list_first by metis
    with a 1 show ?thesis by (auto simp: parse_three)
  qed
next
  assume r: ?rhs
  show "parse_address a = Inr p"
  proof (cases "pa_port p")
    case None
    with r parse_two [of "''node''" "pa_name p" p] show ?thesis by (cases p) simp
  next
    case (Some q)
    with r obtain s where "parse_u16 s = Some q" "q \<noteq> 0" "a = ''node:'' @ pa_name p @ '':'' @ s" by auto
    with r Some parse_three [of "''node''" "pa_name p" s p] show ?thesis by (cases p) simp
  qed
qed

section \<open>Lifetimes in the cache\<close>

text \<open>An address resolved through the caching wrapper within its time to live stays
  resolvable for 300 seconds from then, in the inner resolver too, beyond the time to
  live it was cached with.\<close>

theorem wrapper_extends_lifetime:
  assumes "elapsed t1 t0 \<le> ttl" and "ttl < elapsed t2 t0" and "elapsed t2 t1 \<le> from_secs 300"
  shows "let inner = mem_cache t0 n i ttl m;
             w = fst (caching_resolve mem_resolve mem_cache t1 n (caching_new inner))
         in mem_get_cached t2 n inner = None
            \<and> mem_get_cached t2 n (cr_inner w) = Some i
            \<and> caching_resolve mem_resolve mem_cache t2 n w = (w, Inr i)"
proof -
  let ?inner = "mem_cache t0 n i ttl m"
  let ?w = "caching_cache mem_cache t1 n i (from_secs 300) (caching_new ?inner)"
  have "mem_resolve t1 n ?inner = (?inner, Inr i)" using mem.resolve_after_cache assms(1) .
  then have w: "fst (caching_resolve mem_resolve mem_cache t1 n (caching_new ?inner)) = ?w"
    by (simp add: caching_resolve_def caching_new_def cached_id_def hm_simps)
  have "cr_inner ?w = mem_cache t1 n i (from_secs 300) ?inner"
    by (simp add: caching_cache_def caching_new_def)
  then show ?thesis
    using assms by (simp add: w mem.cached wrapped.resolve_after_cache Let_def)
qed

theorem wrapper_extends_lifetime_witness:
  "let inner = mem_cache 0 ''n'' (fill32 1) (from_secs 10) mem_new;
       w = fst (caching_resolve mem_resolve mem_cache (int (from_secs 10)) ''n'' (caching_new inner))
   in mem_get_cached (int (from_secs 200)) ''n'' inner = None
      \<and> mem_get_cached (int (from_secs 200)) ''n'' (cr_inner w) = Some (fill32 1)
      \<and> caching_resolve mem_resolve mem_cache (int (from_secs 200)) ''n'' w = (w, Inr (fill32 1))"
  by (rule wrapper_extends_lifetime) (simp_all add: elapsed_def from_secs_def)

end
