(* ===== verification/Float64.thy ===== *)
theory Float64
  imports Complex_Main Prelude
begin

text \<open>
  Floating-point numbers. An \<open>f64\<close> is a rational with the rounding of the format as the
  parameter \<open>rnd\<close> of each operation: \<open>a + b\<close> of the code is \<open>rnd (a + b)\<close>. Infinities and
  NaN are not modelled.
\<close>

type_synonym f64 = rat
type_synonym rounding = "rat \<Rightarrow> rat"

text \<open>\<open>saturating_sub\<close> of an unsigned integer.\<close>

definition sat_sub :: "'a::len word \<Rightarrow> 'a word \<Rightarrow> 'a word" where
  "sat_sub a b = (if b \<le> a then a - b else 0)"

lemma unat_sat_sub: "unat (sat_sub a b) = unat a - unat b"
  by (auto simp: sat_sub_def unat_sub word_le_nat_alt)

end
