(* ===== verification/Multipath.thy ===== *)
theory Multipath
  imports Float64 NodeId HashMap
begin

text \<open>
  Multi-path transfer (\<open>src/vpn/multipath.rs\<close>): path records and their scores, the
  fragmenting sender, and the reorder buffer of the receiver.
\<close>

section \<open>Constants and records\<close>

definition default_fragment_size :: nat where
  "default_fragment_size = 1400"

definition default_ack_timeout_ms :: nat where
  "default_ack_timeout_ms = 3000"

definition default_max_retransmits :: u32 where
  "default_max_retransmits = 3"

definition latency_weight :: f64 where
  "latency_weight = 7 / 10"

definition hop_weight :: f64 where
  "hop_weight = 3 / 10"

definition hop_penalty :: f64 where
  "hop_penalty = 100"

type_synonym path_id = u64

record fragment =
  fr_seq :: u64
  fr_stream_id :: u64
  fr_data :: bytes
  fr_total_fragments :: u32

datatype path_state = PActive | PDegraded | PDead

record path_info =
  pi_id :: path_id
  pi_target :: node_id
  pi_addr :: string
  pi_hop_count :: byte
  pi_latency_ms :: f64
  pi_score :: f64
  pi_weight :: f64
  pi_state :: path_state
  pi_bytes_sent :: u64
  pi_bytes_acked :: u64
  pi_lost_packets :: u32
  pi_last_updated :: instant
  pi_last_active :: instant

definition calculate_score :: "rounding \<Rightarrow> f64 \<Rightarrow> byte \<Rightarrow> f64" where
  "calculate_score rnd latency hops =
     rnd (rnd (latency * rnd latency_weight)
          + rnd (rnd (rat_of_nat (unat hops) * hop_penalty) * rnd hop_weight))"

definition update_metrics :: "rounding \<Rightarrow> path_info \<Rightarrow> path_info" where
  "update_metrics rnd p =
     (let score = calculate_score rnd (pi_latency_ms p) (pi_hop_count p)
      in p\<lparr>pi_score := score, pi_weight := max (min (rnd (1 / max score 1)) 1) (rnd (1 / 10))\<rparr>)"

definition update_latency :: "rounding \<Rightarrow> instant \<Rightarrow> f64 \<Rightarrow> path_info \<Rightarrow> path_info" where
  "update_latency rnd now l p =
     update_metrics rnd
       (p\<lparr>pi_latency_ms := rnd (rnd (pi_latency_ms p * rnd (7 / 10)) + rnd (l * rnd (3 / 10))),
          pi_last_active := now\<rparr>)"

definition path_record_loss :: "path_info \<Rightarrow> path_info" where
  "path_record_loss p =
     (let p1 = p\<lparr>pi_lost_packets := pi_lost_packets p + 1\<rparr>;
          p2 = (if 5 < pi_lost_packets p1 then p1\<lparr>pi_state := PDegraded\<rparr> else p1)
      in if 20 < pi_lost_packets p2 then p2\<lparr>pi_state := PDead\<rparr> else p2)"

section \<open>The reorder buffer\<close>

record reorder_buffer =
  rb_buffer :: "(u64, bytes) hashmap"
  rb_expected_seq :: u64
  rb_max_size :: nat
  rb_timeout :: duration

definition rb_new :: "nat \<Rightarrow> reorder_buffer" where
  "rb_new max_size =
     \<lparr>rb_buffer = hm_empty, rb_expected_seq = 0, rb_max_size = max_size,
      rb_timeout = from_millis default_ack_timeout_ms\<rparr>"

lemma length_delete_present: "map_of m k \<noteq> None \<Longrightarrow> length (AList.delete k m) < length m"
proof (induction m)
  case (Cons p m)
  then show ?case using length_delete_le [of k m] by (auto simp del: map_of_eq_None_iff)
qed simp

text \<open>The inner loop of \<open>insert\<close>: take consecutive fragments out of the buffer.\<close>

function drain :: "(u64, bytes) hashmap \<Rightarrow> u64 \<Rightarrow> (u64, bytes) hashmap \<times> u64 \<times> bytes list" where
  "drain b e =
     (case hm_get b e of
        None \<Rightarrow> (b, e, [])
      | Some d \<Rightarrow> (case drain (hm_remove e b) (e + 1) of (b', e', ds) \<Rightarrow> (b', e', d # ds)))"
  by pat_completeness auto

termination
  by (relation "measure (\<lambda>(b, e). length b)")
     (auto simp: hm_get_def hm_remove_def intro!: length_delete_present)

declare drain.simps [simp del]

definition rb_insert :: "u64 \<Rightarrow> bytes \<Rightarrow> reorder_buffer \<Rightarrow> reorder_buffer \<times> bytes list option" where
  "rb_insert seq data r =
     (if seq < rb_expected_seq r then (r, None)
      else if seq = rb_expected_seq r then
        (case drain (rb_buffer r) (rb_expected_seq r + 1) of
           (b, e, ds) \<Rightarrow> (r\<lparr>rb_buffer := b, rb_expected_seq := e\<rparr>, Some (data # ds)))
      else if hm_len (rb_buffer r) < rb_max_size r then
        (r\<lparr>rb_buffer := hm_insert seq data (rb_buffer r)\<rparr>, None)
      else (r, None))"

definition buffered_count :: "reorder_buffer \<Rightarrow> nat" where
  "buffered_count r = hm_len (rb_buffer r)"

definition buffered_sequences :: "reorder_buffer \<Rightarrow> u64 list" where
  "buffered_sequences r = sort (hm_keys (rb_buffer r))"

definition has_timeout :: "reorder_buffer \<Rightarrow> bool" where
  "has_timeout r =
     (case min_by_key id (hm_keys (rb_buffer r)) of
        Some min_seq \<Rightarrow> rb_expected_seq r + 10 < min_seq
      | None \<Rightarrow> False)"

definition skip_lost :: "reorder_buffer \<Rightarrow> reorder_buffer \<times> u64" where
  "skip_lost r =
     (case min_by_key id (hm_keys (rb_buffer r)) of
        Some min_seq \<Rightarrow>
          if rb_expected_seq r < min_seq
          then (r\<lparr>rb_expected_seq := min_seq\<rparr>, min_seq - rb_expected_seq r)
          else (r, 0)
      | None \<Rightarrow> (r, 0))"

definition rb_clear :: "reorder_buffer \<Rightarrow> reorder_buffer" where
  "rb_clear r = r\<lparr>rb_buffer := hm_empty, rb_expected_seq := 0\<rparr>"

definition rb_is_empty :: "reorder_buffer \<Rightarrow> bool" where
  "rb_is_empty r \<longleftrightarrow> hm_len (rb_buffer r) = 0"

definition rb_set_timeout :: "duration \<Rightarrow> reorder_buffer \<Rightarrow> reorder_buffer" where
  "rb_set_timeout t r = r\<lparr>rb_timeout := t\<rparr>"

section \<open>The manager\<close>

record multipath_manager =
  mp_local_id :: node_id
  mp_paths :: "(path_id, path_info) hashmap"
  mp_reorder_buffer :: reorder_buffer
  mp_next_path_id :: u64
  mp_next_seq :: u64
  mp_fragment_size :: nat
  mp_ack_timeout :: duration
  mp_max_retransmits :: u32

definition multipath_new :: "node_id \<Rightarrow> multipath_manager" where
  "multipath_new i =
     \<lparr>mp_local_id = i, mp_paths = hm_empty, mp_reorder_buffer = rb_new 1024, mp_next_path_id = 1,
      mp_next_seq = 0, mp_fragment_size = default_fragment_size,
      mp_ack_timeout = from_millis default_ack_timeout_ms, mp_max_retransmits = default_max_retransmits\<rparr>"

definition add_path ::
  "rounding \<Rightarrow> instant \<Rightarrow> node_id \<Rightarrow> string \<Rightarrow> byte \<Rightarrow> multipath_manager \<Rightarrow> multipath_manager \<times> path_id" where
  "add_path rnd now target addr hops m =
     (let i = mp_next_path_id m;
          info = \<lparr>pi_id = i, pi_target = target, pi_addr = addr, pi_hop_count = hops, pi_latency_ms = 50,
                  pi_score = calculate_score rnd 50 hops, pi_weight = 1, pi_state = PActive,
                  pi_bytes_sent = 0, pi_bytes_acked = 0, pi_lost_packets = 0, pi_last_updated = now,
                  pi_last_active = now\<rparr>
      in (m\<lparr>mp_next_path_id := i + 1, mp_paths := hm_insert i info (mp_paths m)\<rparr>, i))"

definition remove_path :: "path_id \<Rightarrow> multipath_manager \<Rightarrow> multipath_manager \<times> path_info option" where
  "remove_path i m = (m\<lparr>mp_paths := hm_remove i (mp_paths m)\<rparr>, hm_get (mp_paths m) i)"

definition path_count :: "multipath_manager \<Rightarrow> nat" where
  "path_count m = hm_len (mp_paths m)"

definition active_paths :: "multipath_manager \<Rightarrow> path_info list" where
  "active_paths m = filter (\<lambda>p. pi_state p \<noteq> PDead) (hm_values (mp_paths m))"

definition active_path_count :: "multipath_manager \<Rightarrow> nat" where
  "active_path_count m = length (active_paths m)"

definition path_score :: "path_id \<Rightarrow> multipath_manager \<Rightarrow> f64 option" where
  "path_score i m = map_option pi_score (hm_get (mp_paths m) i)"

definition all_paths :: "multipath_manager \<Rightarrow> path_info list" where
  "all_paths m = hm_values (mp_paths m)"

text \<open>
  The loop of \<open>fragment_data\<close>. With a fragment size of zero the code panics on the division
  before the loop, so the loop only runs with a positive size.
\<close>

function frag_loop :: "nat \<Rightarrow> bytes \<Rightarrow> nat \<Rightarrow> u64 \<Rightarrow> (u64 \<times> bytes) list" where
  "frag_loop k data offset seq =
     (if offset < length data \<and> 0 < k then
        let e = min (offset + k) (length data)
        in (seq, sub_slice data offset e) # frag_loop k data e (seq + 1)
      else [])"
  by pat_completeness auto
termination
  by (relation "measure (\<lambda>(k, data, offset, seq). length data - offset)") auto

declare frag_loop.simps [simp del]

definition fragment_data :: "bytes \<Rightarrow> multipath_manager \<Rightarrow> (multipath_manager \<times> (u64 \<times> bytes) list) option" where
  "fragment_data data m =
     (if mp_fragment_size m = 0 then None
      else
        let seq_start = mp_next_seq m
        in Some (m\<lparr>mp_next_seq := seq_start + of_nat (div_ceil (length data) (mp_fragment_size m))\<rparr>,
                 frag_loop (mp_fragment_size m) data 0 seq_start))"

text \<open>The inner loop of \<open>send_via_paths\<close>, which moves to the next path by weight.\<close>

function advance_path :: "rounding \<Rightarrow> f64 list \<Rightarrow> u64 \<Rightarrow> nat \<Rightarrow> f64 \<Rightarrow> nat \<times> f64" where
  "advance_path rnd ws seq idx accum =
     (if idx < length ws - 1 \<and> accum < rnd (rat_of_nat (unat seq))
      then advance_path rnd ws seq (idx + 1) (rnd (accum + ws ! (idx + 1)))
      else (idx, accum))"
  by pat_completeness auto
termination
  by (relation "measure (\<lambda>(rnd, ws, seq, idx, accum). length ws - idx)") auto

declare advance_path.simps [simp del]

fun assign_paths ::
  "rounding \<Rightarrow> path_info list \<Rightarrow> u64 \<Rightarrow> u32 \<Rightarrow> nat \<Rightarrow> f64 \<Rightarrow> (u64 \<times> bytes) list \<Rightarrow> (path_id \<times> fragment) list" where
  "assign_paths rnd ps stream n idx accum [] = []"
| "assign_paths rnd ps stream n idx accum ((seq, d) # fs) =
     (let (idx', accum') = advance_path rnd (map pi_weight ps) seq idx accum
      in (pi_id (ps ! (idx' mod length ps)),
          \<lparr>fr_seq = seq, fr_stream_id = stream, fr_data = d, fr_total_fragments = n\<rparr>)
         # assign_paths rnd ps stream n idx' accum' fs)"

definition send_via_paths ::
  "rounding \<Rightarrow> bytes \<Rightarrow> u64 \<Rightarrow> multipath_manager \<Rightarrow> (multipath_manager \<times> (path_id \<times> fragment) list) option" where
  "send_via_paths rnd data stream m =
     (let ps = active_paths m in
      if ps = [] then Some (m, [])
      else case fragment_data data m of
             None \<Rightarrow> None
           | Some (m', fs) \<Rightarrow>
               Some (m', assign_paths rnd ps stream (of_nat (length fs)) 0 (pi_weight (ps ! 0)) fs))"

definition update_path_latency :: "rounding \<Rightarrow> instant \<Rightarrow> path_id \<Rightarrow> f64 \<Rightarrow> multipath_manager \<Rightarrow> multipath_manager" where
  "update_path_latency rnd now i l m = m\<lparr>mp_paths := hm_modify i (update_latency rnd now l) (mp_paths m)\<rparr>"

definition record_ack :: "instant \<Rightarrow> path_id \<Rightarrow> u64 \<Rightarrow> multipath_manager \<Rightarrow> multipath_manager" where
  "record_ack now i n m =
     m\<lparr>mp_paths := hm_modify i (\<lambda>p. p\<lparr>pi_bytes_acked := pi_bytes_acked p + n, pi_last_active := now,
                                        pi_state := PActive\<rparr>) (mp_paths m)\<rparr>"

definition mp_record_loss :: "path_id \<Rightarrow> multipath_manager \<Rightarrow> multipath_manager" where
  "mp_record_loss i m = m\<lparr>mp_paths := hm_modify i path_record_loss (mp_paths m)\<rparr>"

definition set_fragment_size :: "nat \<Rightarrow> multipath_manager \<Rightarrow> multipath_manager" where
  "set_fragment_size n m = m\<lparr>mp_fragment_size := n\<rparr>"

section \<open>In-order delivery\<close>

text \<open>Feed fragments to a buffer and collect what it hands out.\<close>

fun feed :: "(u64 \<times> bytes) list \<Rightarrow> reorder_buffer \<Rightarrow> reorder_buffer \<times> bytes list" where
  "feed [] r = (r, [])"
| "feed ((s, d) # xs) r =
     (let (r1, out) = rb_insert s d r;
          (r2, ds) = feed xs r1
      in (r2, (case out of None \<Rightarrow> [] | Some l \<Rightarrow> l) @ ds))"

text \<open>Payloads by sequence number; no stream reaches the last one, where the counter wraps.\<close>

definition payloads :: "(u64 \<Rightarrow> bytes) \<Rightarrow> nat \<Rightarrow> nat \<Rightarrow> bytes list" where
  "payloads f a b = map (\<lambda>j. f (of_nat j)) [a..<b]"

lemma payloads_append: "a \<le> b \<Longrightarrow> b \<le> c \<Longrightarrow> payloads f a b @ payloads f b c = payloads f a c"
  using upt_add_eq_append [of a b "c - b"] by (simp add: payloads_def flip: map_append)

lemma payloads_Cons: "a < b \<Longrightarrow> payloads f a b = f (of_nat a) # payloads f (Suc a) b"
  by (simp add: payloads_def upt_conv_Cons)

lemma drain_spec:
  assumes "drain b e = (b', e', ds)" and "hm_ok b"
    and "\<And>k d. hm_get b k = Some d \<Longrightarrow> d = f k \<and> k \<noteq> - 1"
  shows "hm_ok b' \<and> hm_get b' e' = None \<and> e \<le> e' \<and> ds = payloads f (unat e) (unat e')
    \<and> (\<forall>k. hm_get b' k = (if e \<le> k \<and> k < e' then None else hm_get b k))
    \<and> (\<forall>k. e \<le> k \<and> k < e' \<longrightarrow> hm_get b k \<noteq> None) \<and> hm_len b' \<le> hm_len b"
  using assms
proof (induction b e arbitrary: ds rule: drain.induct)
  case (1 b e)
  show ?case
  proof (cases "hm_get b e")
    case None
    with 1 show ?thesis by (auto simp: drain.simps [of b e] payloads_def)
  next
    case (Some d)
    obtain ds' where d: "drain (hm_remove e b) (e + 1) = (b', e', ds')" "ds = d # ds'"
      using "1.prems"(1) Some by (auto simp: drain.simps [of b e] split: prod.splits)
    have e: "d = f e" "e \<noteq> - 1" using "1.prems"(3) Some by blast+
    then have s: "unat (e + 1) = Suc (unat e)" by (simp add: unat_inc)
    have IH: "hm_ok b' \<and> hm_get b' e' = None \<and> e + 1 \<le> e' \<and> ds' = payloads f (unat (e + 1)) (unat e')
      \<and> (\<forall>k. hm_get b' k = (if e + 1 \<le> k \<and> k < e' then None else hm_get (hm_remove e b) k))
      \<and> (\<forall>k. e + 1 \<le> k \<and> k < e' \<longrightarrow> hm_get (hm_remove e b) k \<noteq> None) \<and> hm_len b' \<le> hm_len (hm_remove e b)"
      by (rule "1.IH" [OF Some d(1)]) (use "1.prems"(2,3) in \<open>auto simp: hm.ok_remove hm.get_remove split: if_splits\<close>)
    have lt: "e < e'" and k: "e + 1 \<le> k \<longleftrightarrow> e < k" for k
      using IH s by (auto simp: word_le_nat_alt word_less_nat_alt)
    have "hm_len (hm_remove e b) \<le> hm_len b" using "1.prems"(2) by (simp add: hm.len_remove)
    moreover have "ds = payloads f (unat e) (unat e')"
      using IH lt e(1) d(2) s by (simp add: payloads_Cons word_less_nat_alt)
    moreover have mem: "e \<le> k \<and> k < e' \<longleftrightarrow> k = e \<or> e + 1 \<le> k \<and> k < e'" for k
      using k lt by (auto simp: order_le_less)
    moreover have "hm_get b' k = (if e \<le> k \<and> k < e' then None else hm_get b k)" for k
      using IH mem [of k] by (simp add: hm.get_remove)
    moreover have "hm_get b k \<noteq> None" if "e \<le> k \<and> k < e'" for k
      using IH mem [of k] that Some by (metis hm.get_remove option.distinct(1))
    moreover have "hm_ok b'" "hm_get b' e' = None" "hm_len b' \<le> hm_len (hm_remove e b)"
      using IH by blast+
    moreover have "e \<le> e'" using lt by simp
    ultimately show ?thesis by (intro conjI allI impI) (assumption | rule order_trans)+
  qed
qed

definition rb_inv :: "(u64 \<Rightarrow> bytes) \<Rightarrow> u64 set \<Rightarrow> reorder_buffer \<Rightarrow> bool" where
  "rb_inv f S r \<longleftrightarrow>
     (let e = rb_expected_seq r; b = rb_buffer r in
      hm_ok b \<and> e \<notin> S \<and> (\<forall>j < e. j \<in> S) \<and> (\<forall>s \<in> S. s \<noteq> - 1)
      \<and> (\<forall>k. hm_get b k = (if k \<in> S \<and> e < k then Some (f k) else None)))"

lemma rb_insert_spec:
  assumes "rb_inv f S r" and "s \<noteq> - 1" and "hm_len (rb_buffer r) < rb_max_size r"
    and "rb_insert s (f s) r = (r', out)"
  shows "rb_inv f (insert s S) r' \<and> rb_max_size r' = rb_max_size r
    \<and> hm_len (rb_buffer r') \<le> Suc (hm_len (rb_buffer r)) \<and> rb_expected_seq r \<le> rb_expected_seq r'
    \<and> (case out of None \<Rightarrow> [] | Some l \<Rightarrow> l) = payloads f (unat (rb_expected_seq r)) (unat (rb_expected_seq r'))"
proof -
  let ?e = "rb_expected_seq r" and ?b = "rb_buffer r"
  have inv: "hm_ok ?b" "?e \<notin> S" "\<forall>j < ?e. j \<in> S" "\<forall>s \<in> S. s \<noteq> - 1"
    "\<forall>k. hm_get ?b k = (if k \<in> S \<and> ?e < k then Some (f k) else None)"
    using assms(1) by (simp_all add: rb_inv_def Let_def)
  consider "s < ?e" | "s = ?e" | "?e < s" by (metis linorder_cases)
  then show ?thesis
  proof cases
    case 1
    with inv assms show ?thesis by (auto simp: rb_insert_def insert_absorb payloads_def)
  next
    case 3
    then have "\<not> s < ?e" "s \<noteq> ?e" by auto
    with assms have r': "r' = r\<lparr>rb_buffer := hm_insert s (f s) ?b\<rparr>" "out = None"
      by (simp_all add: rb_insert_def)
    have "rb_inv f (insert s S) r'"
      using inv 3 assms(2) by (auto simp: r' rb_inv_def Let_def hm_simps)
    then show ?thesis using hm.len_insert_le [of s "f s" ?b] by (simp add: r' payloads_def)
  next
    case 2
    obtain b' e' ds where d: "drain ?b (?e + 1) = (b', e', ds)" by (metis prod_cases3)
    have spec: "hm_ok b' \<and> hm_get b' e' = None \<and> ?e + 1 \<le> e' \<and> ds = payloads f (unat (?e + 1)) (unat e')
      \<and> (\<forall>k. hm_get b' k = (if ?e + 1 \<le> k \<and> k < e' then None else hm_get ?b k))
      \<and> (\<forall>k. ?e + 1 \<le> k \<and> k < e' \<longrightarrow> hm_get ?b k \<noteq> None) \<and> hm_len b' \<le> hm_len ?b"
      by (rule drain_spec [OF d inv(1)]) (use inv(4,5) in \<open>auto split: if_splits\<close>)
    have s: "unat (?e + 1) = Suc (unat ?e)" using 2 assms(2) by (simp add: unat_inc)
    have k: "?e + 1 \<le> k \<longleftrightarrow> ?e < k" for k using s by (simp add: word_le_nat_alt word_less_nat_alt Suc_le_eq)
    have r': "r' = r\<lparr>rb_buffer := b', rb_expected_seq := e'\<rparr>" "out = Some (f s # ds)"
      using 2 assms(4) d by (auto simp: rb_insert_def)
    have lt: "?e < e'" using spec k by blast
    have between: "j \<in> S" if "?e < j" "j < e'" for j
      using spec inv(5) that k by (metis option.distinct(1))
    have "e' \<notin> insert s S" using spec inv(5) lt 2 k by (auto split: if_splits)
    moreover have "\<forall>j < e'. j \<in> insert s S"
    proof (intro allI impI)
      fix j assume "j < e'"
      then show "j \<in> insert s S" using inv(3) between 2 by (cases "j < ?e") (auto simp: not_less order_le_less)
    qed
    moreover have "hm_get b' k = (if k \<in> insert s S \<and> e' < k then Some (f k) else None)" for k
    proof (cases "e' < k")
      case True
      then have "?e < k" "k \<noteq> s" "\<not> k < e'" using lt 2 by auto
      then show ?thesis using spec inv(5) True by simp
    next
      case False
      then consider "k = e'" | "?e < k" "k < e'" | "\<not> ?e < k" by fastforce
      then show ?thesis
      proof cases
        case 1
        moreover have "hm_get b' e' = None" using spec by blast
        ultimately show ?thesis by simp
      qed (use spec inv(5) False k [of k] in simp_all)
    qed
    ultimately have "rb_inv f (insert s S) r'"
      using spec inv(4) assms(2) by (simp add: r' rb_inv_def Let_def)
    moreover have "f s # ds = payloads f (unat ?e) (unat e')"
      using spec lt 2 s by (simp add: payloads_Cons word_less_nat_alt)
    ultimately show ?thesis using spec lt by (simp add: r')
  qed
qed

lemma feed_spec:
  assumes "rb_inv f S r" and "\<And>s d. (s, d) \<in> set xs \<Longrightarrow> d = f s \<and> s \<noteq> - 1"
    and "hm_len (rb_buffer r) + length xs \<le> rb_max_size r" and "feed xs r = (r', outs)"
  shows "rb_inv f (S \<union> fst ` set xs) r' \<and> rb_expected_seq r \<le> rb_expected_seq r'
    \<and> outs = payloads f (unat (rb_expected_seq r)) (unat (rb_expected_seq r'))"
  using assms
proof (induction xs arbitrary: r S outs)
  case Nil
  then show ?case by (simp add: payloads_def)
next
  case (Cons p xs)
  obtain s d where p: "p = (s, d)" by force
  have sd: "d = f s" "s \<noteq> - 1" using Cons.prems(2) p by auto
  obtain r1 out where 1: "rb_insert s (f s) r = (r1, out)" by force
  obtain outs2 where 2: "feed xs r1 = (r', outs2)"
      and outs: "outs = (case out of None \<Rightarrow> [] | Some l \<Rightarrow> l) @ outs2"
    using Cons.prems(4) 1 sd(1) by (auto simp: p split: prod.splits)
  have room: "hm_len (rb_buffer r) < rb_max_size r" using Cons.prems(3) by simp
  note step = rb_insert_spec [OF Cons.prems(1) sd(2) room 1]
  have "rb_inv f (insert s S \<union> fst ` set xs) r' \<and> rb_expected_seq r1 \<le> rb_expected_seq r'
    \<and> outs2 = payloads f (unat (rb_expected_seq r1)) (unat (rb_expected_seq r'))"
    by (rule Cons.IH [OF _ _ _ 2]) (use step Cons.prems(2,3) in auto)
  with step show ?case
    by (auto simp: p outs payloads_append word_le_nat_alt)
qed

lemma rb_new_inv: "rb_inv f {} (rb_new n)"
  by (simp add: rb_inv_def rb_new_def hm_simps Let_def)

lemma feed_new_spec:
  assumes "\<And>s d. (s, d) \<in> set xs \<Longrightarrow> d = f s \<and> s \<noteq> - 1"
    and "length xs \<le> n" and "feed xs (rb_new n) = (r, outs)"
  shows "outs = payloads f 0 (unat (rb_expected_seq r))
    \<and> (\<forall>j < rb_expected_seq r. j \<in> fst ` set xs) \<and> rb_expected_seq r \<notin> fst ` set xs"
proof -
  have "hm_len (rb_buffer (rb_new n)) + length xs \<le> rb_max_size (rb_new n)"
    using assms(2) by (simp add: rb_new_def hm_simps)
  from feed_spec [OF rb_new_inv assms(1) this assms(3)] show ?thesis
    by (simp add: rb_inv_def Let_def rb_new_def)
qed

text \<open>Whatever order consistent fragments arrive in, a reorder buffer that is large enough
  has handed out exactly the payloads before the first missing sequence number, in
  order.\<close>

theorem reorder_delivers_in_order:
  assumes "\<And>s d. (s, d) \<in> set xs \<Longrightarrow> d = f s \<and> s \<noteq> - 1"
    and "length xs \<le> n" and "feed xs (rb_new n) = (r, outs)"
  shows "outs = payloads f 0 (unat (rb_expected_seq r))
    \<and> (\<forall>j < rb_expected_seq r. j \<in> fst ` set xs) \<and> rb_expected_seq r \<notin> fst ` set xs"
  using assms by (rule feed_new_spec)

theorem reorder_delivers_in_order_witness:
  "\<exists>r. feed [(1, [1]), (2, [2]), (0, [0]), (4, [4])] (rb_new 4) = (r, [[0], [1], [2]])"
proof -
  obtain r outs where f: "feed [(1, [1]), (2, [2]), (0, [0]), (4, [4])] (rb_new 4) = (r, outs)" by force
  have o: "outs = payloads (\<lambda>s. [ucast s]) 0 (unat (rb_expected_seq r))
    \<and> (\<forall>j < rb_expected_seq r. j \<in> fst ` set [(1, [1]), (2, [2]), (0, [0]), (4, [4 :: byte])])
    \<and> rb_expected_seq r \<notin> fst ` set [(1, [1]), (2, [2]), (0, [0]), (4, [4 :: byte])]"
    by (rule reorder_delivers_in_order [OF _ _ f]) auto
  have "rb_expected_seq r = 3"
    using f by (auto simp: rb_insert_def rb_new_def drain.simps hm_empty_def hm_get_def hm_insert_def
        hm_remove_def hm_len_def)
  with o have "outs = [[0], [1], [2]]" by (simp add: payloads_def upt_conv_Cons)
  with f show ?thesis by blast
qed

section \<open>Skipping lost fragments\<close>

text \<open>
  After a skip the fragment that the stream is to resume with is still in the buffer, but
  only an insert of its own number takes a fragment out.
\<close>

datatype rb_op = RbInsert u64 bytes | RbSkip

fun rb_step :: "rb_op \<Rightarrow> reorder_buffer \<times> bytes list \<Rightarrow> reorder_buffer \<times> bytes list" where
  "rb_step (RbInsert s d) (r, outs) =
     (case rb_insert s d r of (r', out) \<Rightarrow> (r', outs @ (case out of None \<Rightarrow> [] | Some l \<Rightarrow> l)))"
| "rb_step RbSkip (r, outs) = (fst (skip_lost r), outs)"

definition stuck :: "u64 \<Rightarrow> reorder_buffer \<times> bytes list \<Rightarrow> bool" where
  "stuck m s \<longleftrightarrow> (case s of (r, outs) \<Rightarrow>
     outs = [] \<and> rb_expected_seq r = m \<and> m \<in> fst ` set (rb_buffer r) \<and> (\<forall>k \<in> fst ` set (rb_buffer r). m \<le> k))"

lemma stuck_step:
  assumes "stuck m s" and "\<And>d. op \<noteq> RbInsert m d"
  shows "stuck m (rb_step op s)"
proof (cases op)
  case (RbInsert q d)
  obtain r where s: "s = (r, [])" "rb_expected_seq r = m" using assms(1) by (auto simp: stuck_def)
  have "q \<noteq> m" using assms(2) RbInsert by blast
  with s have "rb_insert q d r = (r, None)
      \<or> m < q \<and> rb_insert q d r = (r\<lparr>rb_buffer := hm_insert q d (rb_buffer r)\<rparr>, None)"
    by (auto simp: rb_insert_def)
  then show ?thesis
  proof (elim disjE conjE)
    assume "rb_insert q d r = (r, None)"
    with assms(1) show ?thesis by (simp add: RbInsert s(1))
  next
    assume "m < q" "rb_insert q d r = (r\<lparr>rb_buffer := hm_insert q d (rb_buffer r)\<rparr>, None)"
    moreover have "\<forall>k \<in> insert q (fst ` set (rb_buffer r)). m \<le> k" "m \<in> fst ` set (rb_buffer r)"
      using assms(1) \<open>m < q\<close> by (auto simp: stuck_def s(1))
    ultimately show ?thesis using s(2) by (simp add: RbInsert s(1) stuck_def keys_insert del: ball_simps)
  qed
next
  case RbSkip
  obtain r outs where s: "s = (r, outs)" by force
  have "\<not> rb_expected_seq r < k" if "min_by_key id (hm_keys (rb_buffer r)) = Some k" for k
    using min_by_key_Some [OF that] assms(1) by (auto simp: stuck_def s hm_keys_def)
  with assms(1) show ?thesis
    by (auto simp: RbSkip s stuck_def skip_lost_def split: option.split)
qed

lemma stuck_run:
  "stuck m s \<Longrightarrow> (\<forall>d. RbInsert m d \<notin> set ops) \<Longrightarrow> stuck m (fold rb_step ops s)"
proof (induction ops arbitrary: s)
  case (Cons op ops)
  have "stuck m (rb_step op s)" by (rule stuck_step) (use Cons.prems in auto)
  then show ?case using Cons.IH Cons.prems(2) by simp
qed simp

text \<open>After a skip over lost fragments the buffered fragment that comes next is never
  handed out: unless it is sent again, no later fragment and no further skip produces
  any output.\<close>

theorem skip_strands_fragment:
  assumes "rb_buffer r \<noteq> []" and "\<And>k. k \<in> set (hm_keys (rb_buffer r)) \<Longrightarrow> rb_expected_seq r < k"
    and "m = rb_expected_seq (fst (skip_lost r))" and "\<And>d. RbInsert m d \<notin> set ops"
  shows "m \<in> set (hm_keys (rb_buffer r)) \<and> snd (fold rb_step ops (fst (skip_lost r), [])) = []
    \<and> snd (skip_lost (fst (fold rb_step ops (fst (skip_lost r), [])))) = 0"
proof -
  obtain k where k: "min_by_key id (hm_keys (rb_buffer r)) = Some k"
    using assms(1) by (cases "min_by_key id (hm_keys (rb_buffer r))") (auto simp: hm_keys_def)
  note least = min_by_key_Some [OF k]
  with assms(2) have s: "fst (skip_lost r) = r\<lparr>rb_expected_seq := k\<rparr>" by (simp add: skip_lost_def k)
  with assms(3) have m: "m = k" by simp
  have "stuck m (fst (skip_lost r), [])" using least by (auto simp: stuck_def s m hm_keys_def)
  then have st: "stuck m (fold rb_step ops (fst (skip_lost r), []))" using assms(4) by (simp add: stuck_run)
  obtain r' outs where e: "fold rb_step ops (fst (skip_lost r), []) = (r', outs)" by force
  have "snd (skip_lost r') = 0"
  proof (cases "min_by_key id (hm_keys (rb_buffer r'))")
    case (Some q)
    have "\<not> rb_expected_seq r' < q" using min_by_key_Some [OF Some] st by (auto simp: stuck_def e hm_keys_def)
    then show ?thesis by (simp add: skip_lost_def Some)
  qed (simp add: skip_lost_def)
  then show ?thesis using st least by (simp add: stuck_def e m)
qed

theorem skip_strands_fragment_witness:
  "let r = fst (rb_insert 2 [2] (rb_new 4)) in
   rb_expected_seq (fst (skip_lost r)) = 2 \<and> 2 \<in> set (hm_keys (rb_buffer r))
   \<and> snd (fold rb_step [RbInsert 3 [3], RbInsert 1 [1]] (fst (skip_lost r), [])) = []"
proof -
  let ?r = "fst (rb_insert 2 [2] (rb_new 4))"
  have r: "rb_buffer ?r = [(2, [2])]" "rb_expected_seq ?r = 0"
    by (simp_all add: rb_insert_def rb_new_def hm_empty_def hm_insert_def hm_len_def)
  then have m: "rb_expected_seq (fst (skip_lost ?r)) = 2" by (simp add: skip_lost_def hm_keys_def)
  have "2 \<in> set (hm_keys (rb_buffer ?r))
    \<and> snd (fold rb_step [RbInsert 3 [3], RbInsert 1 [1]] (fst (skip_lost ?r), [])) = []
    \<and> snd (skip_lost (fst (fold rb_step [RbInsert 3 [3], RbInsert 1 [1]] (fst (skip_lost ?r), [])))) = 0"
    by (rule skip_strands_fragment) (use r m in \<open>auto simp: hm_keys_def\<close>)
  with m show ?thesis by (simp only: Let_def simp_thms)
qed

section \<open>The sender\<close>

lemma frag_loop_done: "length data \<le> offset \<Longrightarrow> frag_loop k data offset seq = []"
  by (subst frag_loop.simps) simp

lemma frag_loop_step:
  "offset < length data \<Longrightarrow> 0 < k \<Longrightarrow> frag_loop k data offset seq
    = (seq, take k (drop offset data)) # frag_loop k data (min (offset + k) (length data)) (seq + 1)"
  by (subst frag_loop.simps) (simp add: sub_slice_def Let_def min_def)

lemma frag_loop_spec:
  assumes "0 < k" "offset \<le> length data"
  shows "concat (map snd (frag_loop k data offset seq)) = drop offset data
    \<and> map fst (frag_loop k data offset seq) = map (\<lambda>i. seq + of_nat i) [0..<length (frag_loop k data offset seq)]
    \<and> length (frag_loop k data offset seq) = div_ceil (length data - offset) k
    \<and> (\<forall>(s, d) \<in> set (frag_loop k data offset seq). 0 < length d \<and> length d \<le> k)"
  using assms
proof (induction k data offset seq rule: frag_loop.induct)
  case (1 k data offset seq)
  show ?case
  proof (cases "offset < length data")
    case False
    with 1 show ?thesis by (simp add: frag_loop_done)
  next
    case True
    let ?e = "min (offset + k) (length data)"
    let ?rest = "frag_loop k data ?e (seq + 1)"
    have IH: "concat (map snd ?rest) = drop ?e data"
      "map fst ?rest = map (\<lambda>i. seq + 1 + of_nat i) [0..<length ?rest]"
      "length ?rest = div_ceil (length data - ?e) k"
      "\<forall>(s, d) \<in> set ?rest. 0 < length d \<and> length d \<le> k"
      using "1.IH" True "1.prems" by simp_all
    have "take k (drop offset data) @ drop ?e data = drop offset data"
      using True by (simp add: min_def flip: drop_drop) (metis add.commute append_take_drop_id drop_drop)
    moreover have "map (\<lambda>i. seq + 1 + of_nat i) [0..<length ?rest]
        = map (\<lambda>i. seq + of_nat i) [1..<Suc (length ?rest)]"
      by (simp add: map_Suc_upt [symmetric] o_def add.assoc del: upt_Suc map_Suc_upt)
    moreover have "div_ceil (length data - offset) k = Suc (div_ceil (length data - ?e) k)"
      using True "1.prems"(1) div_ceil_step [of k "length data - offset"]
        div_ceil_last [of "length data - offset" k]
      by (cases "offset + k \<le> length data") (simp_all add: min_def)
    ultimately show ?thesis
      using IH True "1.prems"(1) by (simp add: frag_loop_step upt_conv_Cons del: upt_Suc)
  qed
qed

lemma assign_paths_data:
  "map (\<lambda>(p, f). (fr_seq f, fr_data f)) (assign_paths rnd ps stream n idx accum fs) = fs"
  by (induction rnd ps stream n idx accum fs rule: assign_paths.induct) (auto simp: Let_def split: prod.split)

lemma assign_paths_ids:
  "ps \<noteq> [] \<Longrightarrow> (p, f) \<in> set (assign_paths rnd ps stream n idx accum fs) \<Longrightarrow> p \<in> pi_id ` set ps"
  by (induction rnd ps stream n idx accum fs rule: assign_paths.induct)
     (auto simp: Let_def split: prod.splits)

lemma send_via_paths_eq:
  assumes "active_paths m \<noteq> []" and "send_via_paths rnd data stream m = Some (m', out)"
  defines "fs \<equiv> frag_loop (mp_fragment_size m) data 0 (mp_next_seq m)"
  shows "0 < mp_fragment_size m
    \<and> out = assign_paths rnd (active_paths m) stream (of_nat (length fs)) 0 (pi_weight (active_paths m ! 0)) fs
    \<and> m' = m\<lparr>mp_next_seq := mp_next_seq m + of_nat (div_ceil (length data) (mp_fragment_size m))\<rparr>"
  using assms by (auto simp: send_via_paths_def fragment_data_def Let_def split: if_splits)

lemma send_covers_data_raw:
  assumes "active_paths m \<noteq> []" and "send_via_paths rnd data stream m = Some (m', out)"
  shows "concat (map (\<lambda>(p, f). fr_data f) out) = data
    \<and> map (\<lambda>(p, f). fr_seq f) out = map (\<lambda>i. mp_next_seq m + of_nat i) [0..<length out]
    \<and> mp_next_seq m' = mp_next_seq m + of_nat (length out)
    \<and> (\<forall>(p, f) \<in> set out. p \<in> pi_id ` set (active_paths m) \<and> 0 < length (fr_data f)
         \<and> length (fr_data f) \<le> mp_fragment_size m)"
proof -
  let ?fs = "frag_loop (mp_fragment_size m) data 0 (mp_next_seq m)"
  note eq = send_via_paths_eq [OF assms]
  then have spec: "concat (map snd ?fs) = data"
    "map fst ?fs = map (\<lambda>i. mp_next_seq m + of_nat i) [0..<length ?fs]"
    "length ?fs = div_ceil (length data) (mp_fragment_size m)"
    "\<forall>(s, d) \<in> set ?fs. 0 < length d \<and> length d \<le> mp_fragment_size m"
    using frag_loop_spec [of "mp_fragment_size m" 0 data "mp_next_seq m"] by simp_all
  have out: "?fs = map (\<lambda>(p, f). (fr_seq f, fr_data f)) out"
    using eq assign_paths_data by simp
  have m: "map snd ?fs = map (\<lambda>(p, f). fr_data f) out" "map fst ?fs = map (\<lambda>(p, f). fr_seq f) out"
    "length ?fs = length out"
    unfolding out by auto
  have "p \<in> pi_id ` set (active_paths m) \<and> 0 < length (fr_data f) \<and> length (fr_data f) \<le> mp_fragment_size m"
    if "(p, f) \<in> set out" for p f
  proof -
    have "(fr_seq f, fr_data f) \<in> set ?fs" using that unfolding out by force
    then show ?thesis using eq that assign_paths_ids assms(1) spec(4) by blast
  qed
  then have each: "\<forall>(p, f) \<in> set out. p \<in> pi_id ` set (active_paths m) \<and> 0 < length (fr_data f)
         \<and> length (fr_data f) \<le> mp_fragment_size m"
    by blast
  have "mp_next_seq m' = mp_next_seq m + of_nat (length out)"
    using eq spec(3) m(3) by simp
  then show ?thesis using spec(1,2) m each by (simp only: simp_thms)
qed

text \<open>The fragments of a send concatenate to the data, carry consecutive sequence numbers
  from the counter, are non-empty and at most the fragment size, and each goes to a
  path that is not dead.\<close>

theorem send_covers_data:
  assumes "active_paths m \<noteq> []" and "send_via_paths rnd data stream m = Some (m', out)"
  shows "concat (map (\<lambda>(p, f). fr_data f) out) = data
    \<and> map (\<lambda>(p, f). fr_seq f) out = map (\<lambda>i. mp_next_seq m + of_nat i) [0..<length out]
    \<and> mp_next_seq m' = mp_next_seq m + of_nat (length out)
    \<and> (\<forall>(p, f) \<in> set out. p \<in> pi_id ` set (active_paths m) \<and> 0 < length (fr_data f)
         \<and> length (fr_data f) \<le> mp_fragment_size m)"
  using assms by (rule send_covers_data_raw)

text \<open>Two paths, the identity as rounding.\<close>

definition sample_sender :: multipath_manager where
  "sample_sender = fst (add_path id 0 (fill32 2) ''b'' 2 (fst (add_path id 0 (fill32 1) ''a'' 1
     (multipath_new (fill32 0)))))"

lemma sample_sender_facts:
  "map pi_id (active_paths sample_sender) = [1, 2]" "map pi_weight (active_paths sample_sender) = [1, 1]"
  "mp_next_seq sample_sender = 0" "mp_fragment_size sample_sender = 1400"
  by (simp_all add: sample_sender_def add_path_def multipath_new_def active_paths_def hm_values_def hm_insert_def
      hm_empty_def Let_def default_fragment_size_def)

lemma sample_sender_active: "active_paths sample_sender \<noteq> []"
  using sample_sender_facts(1) by auto

lemma sample_sender_sends: "\<exists>m' out. send_via_paths id data 7 sample_sender = Some (m', out)"
  using sample_sender_active sample_sender_facts(4) by (simp add: send_via_paths_def fragment_data_def Let_def)

theorem send_covers_data_witness:
  "\<exists>m' out. send_via_paths id [1, 2, 3] 7 sample_sender = Some (m', out)
     \<and> concat (map (\<lambda>(p, f). fr_data f) out) = [1, 2, 3]"
  using sample_sender_sends [of "[1, 2, 3]"] send_covers_data [OF sample_sender_active] by blast

text \<open>
  Sender and receiver together: fragments that arrive in any order, any of them more than
  once, reassemble to the data.
\<close>

lemma arrivals_mem:
  assumes "map (\<lambda>(p, f). fr_seq f) out = map of_nat [0..<length out]"
  shows "(s, d) \<in> (\<lambda>(p, f). (fr_seq f, fr_data f)) ` set out \<longleftrightarrow>
    (\<exists>j < length out. s = of_nat j \<and> d = map (\<lambda>(p, f). fr_data f) out ! j)"
proof -
  have nth: "fr_seq (snd (out ! j)) = of_nat j" if "j < length out" for j
    using arg_cong [OF assms, of "\<lambda>l. l ! j"] that by (simp add: split_beta)
  show ?thesis
  proof
    assume "(s, d) \<in> (\<lambda>(p, f). (fr_seq f, fr_data f)) ` set out"
    then obtain p where p: "p \<in> set out" "s = fr_seq (snd p)" "d = fr_data (snd p)"
      by (auto simp: split_beta)
    then obtain j where "j < length out" "out ! j = p" by (auto simp: in_set_conv_nth)
    with p nth show "\<exists>j < length out. s = of_nat j \<and> d = map (\<lambda>(p, f). fr_data f) out ! j"
      by (auto simp: split_beta)
  next
    assume "\<exists>j < length out. s = of_nat j \<and> d = map (\<lambda>(p, f). fr_data f) out ! j"
    then obtain j where "j < length out" "s = of_nat j" "d = map (\<lambda>(p, f). fr_data f) out ! j" by blast
    then have "out ! j \<in> set out" "(s, d) = (\<lambda>(p, f). (fr_seq f, fr_data f)) (out ! j)"
      using nth by (simp_all add: split_beta)
    then show "(s, d) \<in> (\<lambda>(p, f). (fr_seq f, fr_data f)) ` set out" by (rule rev_image_eqI)
  qed
qed

text \<open>A buffer that sees all of a short stream, in any order, hands all of it out.\<close>

lemma feed_all:
  assumes mem: "\<And>s d. (s, d) \<in> set xs \<longleftrightarrow> (\<exists>j < length ds. s = of_nat j \<and> d = ds ! j)"
    and feed: "length ds \<le> 1024" "length xs \<le> n" "feed xs (rb_new n) = (r, outs)"
  shows "outs = ds"
proof -
  have small: "unat (of_nat j :: u64) = j" if "j \<le> 1024" for j
    using that by (simp add: unat_of_nat take_bit_nat_eq_self)
  have seqs: "s \<in> fst ` set xs \<longleftrightarrow> (\<exists>j < length ds. s = of_nat j)" for s
  proof -
    have "s \<in> fst ` set xs \<longleftrightarrow> (\<exists>d. (s, d) \<in> set xs)" by force
    with mem [of s] show ?thesis by auto
  qed
  have f: "d = ds ! unat s \<and> s \<noteq> - 1" if "(s, d) \<in> set xs" for s d
  proof -
    obtain j where j: "j < length ds" "s = of_nat j" "d = ds ! j"
      using \<open>(s, d) \<in> set xs\<close> mem [of s d] by blast
    have "unat s \<noteq> unat (- 1 :: u64)"
      using small [of j] j feed(1) by (simp add: unsigned_minus_1_eq_mask mask_eq_exp_minus_1)
    with j small [of j] feed(1) show ?thesis by auto
  qed
  have out: "outs = payloads (\<lambda>s. ds ! unat s) 0 (unat (rb_expected_seq r))"
    "\<forall>j < rb_expected_seq r. j \<in> fst ` set xs" "rb_expected_seq r \<notin> fst ` set xs"
    using feed_new_spec [OF f feed(2,3)] by simp_all
  have "unat (rb_expected_seq r) = length ds"
  proof (rule linorder_cases)
    assume "unat (rb_expected_seq r) < length ds"
    moreover have "rb_expected_seq r = of_nat (unat (rb_expected_seq r))" by simp
    ultimately show ?thesis using out(3) seqs [of "rb_expected_seq r"] by metis
  next
    assume "length ds < unat (rb_expected_seq r)"
    then have "of_nat (length ds) < rb_expected_seq r"
      using small [of "length ds"] feed(1) by (simp add: word_less_nat_alt)
    then obtain j where "j < length ds" "of_nat (length ds) = (of_nat j :: u64)"
      using out(2) seqs [of "of_nat (length ds)"] by blast
    then show ?thesis using small [of "length ds"] small [of j] feed(1) by auto
  qed
  then have "outs = map (\<lambda>j. ds ! unat (of_nat j :: u64)) [0..<length ds]" by (simp add: out(1) payloads_def)
  also have "\<dots> = map (\<lambda>j. ds ! j) [0..<length ds]" using small feed(1) by simp
  finally show ?thesis by (simp add: map_nth)
qed

text \<open>
  What a manager does between and during its sends: the fragments it has sent and, for the
  statement, the data of the sends that found a path that is not dead. A send with the
  fragment size zero panics; the run is then None.
\<close>

datatype mp_op =
    MpSend bytes u64
  | MpAddPath instant node_id string byte
  | MpRemovePath path_id
  | MpLatency instant path_id f64
  | MpAck instant path_id u64
  | MpLoss path_id
  | MpFragmentSize nat

fun mp_do ::
  "rounding \<Rightarrow> mp_op \<Rightarrow> multipath_manager \<times> (path_id \<times> fragment) list \<times> bytes
   \<Rightarrow> (multipath_manager \<times> (path_id \<times> fragment) list \<times> bytes) option" where
  "mp_do rnd (MpSend d stream) (m, sent, handed) =
     (case send_via_paths rnd d stream m of
        None \<Rightarrow> None
      | Some (m', out) \<Rightarrow> Some (m', sent @ out, if active_paths m = [] then handed else handed @ d))"
| "mp_do rnd (MpAddPath now t addr hops) (m, st) = Some (fst (add_path rnd now t addr hops m), st)"
| "mp_do rnd (MpRemovePath i) (m, st) = Some (fst (remove_path i m), st)"
| "mp_do rnd (MpLatency now i l) (m, st) = Some (update_path_latency rnd now i l m, st)"
| "mp_do rnd (MpAck now i n) (m, st) = Some (record_ack now i n m, st)"
| "mp_do rnd (MpLoss i) (m, st) = Some (mp_record_loss i m, st)"
| "mp_do rnd (MpFragmentSize n) (m, st) = Some (set_fragment_size n m, st)"

fun mp_run ::
  "rounding \<Rightarrow> mp_op list \<Rightarrow> multipath_manager \<times> (path_id \<times> fragment) list \<times> bytes
   \<Rightarrow> (multipath_manager \<times> (path_id \<times> fragment) list \<times> bytes) option" where
  "mp_run rnd [] st = Some st"
| "mp_run rnd (op # ops) st = (case mp_do rnd op st of None \<Rightarrow> None | Some st' \<Rightarrow> mp_run rnd ops st')"

definition sent_so_far :: "multipath_manager \<times> (path_id \<times> fragment) list \<times> bytes \<Rightarrow> bool" where
  "sent_so_far = (\<lambda>(m, sent, handed). concat (map (\<lambda>(p, f). fr_data f) sent) = handed
     \<and> map (\<lambda>(p, f). fr_seq f) sent = map of_nat [0..<length sent] \<and> mp_next_seq m = of_nat (length sent))"

lemma sent_so_far_step:
  assumes "sent_so_far st" and "mp_do rnd op st = Some st'"
  shows "sent_so_far st'"
proof -
  obtain m sent handed where st: "st = (m, sent, handed)" by (metis surj_pair)
  note inv = assms(1) [unfolded st sent_so_far_def, simplified]
  show ?thesis
  proof (cases op)
    case (MpSend d stream)
    obtain m' out where s: "send_via_paths rnd d stream m = Some (m', out)"
      "st' = (m', sent @ out, if active_paths m = [] then handed else handed @ d)"
      using assms(2) by (auto simp: st MpSend split: option.splits prod.splits)
    show ?thesis
    proof (cases "active_paths m = []")
      case True
      with s inv show ?thesis by (simp add: sent_so_far_def send_via_paths_def)
    next
      case False
      note c = send_covers_data_raw [OF False s(1)]
      have "map (\<lambda>i. of_nat (length sent) + of_nat i) [0..<length out]
          = (map of_nat [length sent..<length sent + length out] :: u64 list)"
        by (rule nth_equalityI) simp_all
      moreover have "[0..<length sent + length out] = [0..<length sent] @ [length sent..<length sent + length out]"
        by (rule upt_add_eq_append) simp
      ultimately show ?thesis using c inv False by (simp add: sent_so_far_def s(2))
    qed
  qed (use assms(2) inv in \<open>auto simp: st sent_so_far_def add_path_def remove_path_def update_path_latency_def
      record_ack_def mp_record_loss_def set_fragment_size_def Let_def\<close>)
qed

lemma sent_so_far_run: "sent_so_far st \<Longrightarrow> mp_run rnd ops st = Some st' \<Longrightarrow> sent_so_far st'"
  by (induction ops arbitrary: st) (auto dest: sent_so_far_step split: option.splits)


text \<open>Two sends with two bytes to a fragment, the second after a path was lost.\<close>

definition sample_ops :: "mp_op list" where
  "sample_ops = [MpSend [7] 1, MpAddPath 0 (fill32 1) ''a'' 1, MpAddPath 0 (fill32 2) ''b'' 2, MpFragmentSize 2,
     MpSend [1, 2, 3] 7, MpRemovePath 1, MpSend [4] 7]"


section \<open>How the weights distribute\<close>

text \<open>With weights of at most one, the walk reaches the last path before the sequence numbers do.\<close>

lemma advance_to_last:
  assumes "mono rnd" and "\<And>k. k \<le> 2 ^ 53 \<Longrightarrow> rnd (rat_of_nat k) = rat_of_nat k"
    and "\<And>w. w \<in> set ws \<Longrightarrow> w \<le> 1" and "length ws \<le> unat seq" and "unat seq \<le> 2 ^ 53"
    and "idx < length ws" and "accum \<le> rat_of_nat (Suc idx) \<or> idx = length ws - 1"
  shows "fst (advance_path rnd ws seq idx accum) = length ws - 1"
  using assms
proof (induction rnd ws seq idx accum rule: advance_path.induct)
  case (1 rnd ws seq idx accum)
  show ?case
  proof (cases "idx < length ws - 1")
    case False
    with "1.prems"(6) show ?thesis by (subst advance_path.simps) simp
  next
    case True
    then have acc: "accum \<le> rat_of_nat (Suc idx)" using "1.prems"(7) by simp
    also have "Suc idx < unat seq" using True "1.prems"(4) by simp
    then have "rat_of_nat (Suc idx) < rat_of_nat (unat seq)" by (simp only: of_nat_less_iff)
    finally have lt: "accum < rnd (rat_of_nat (unat seq))" by (simp only: "1.prems"(2) [OF "1.prems"(5)])
    have "accum + ws ! (idx + 1) \<le> rat_of_nat (Suc (Suc idx))"
      using acc "1.prems"(3) [of "ws ! (idx + 1)"] True by simp
    then have "rnd (accum + ws ! (idx + 1)) \<le> rnd (rat_of_nat (Suc (Suc idx)))"
      by (rule monoD [OF "1.prems"(1)])
    also have "\<dots> = rat_of_nat (Suc (Suc idx))"
      by (rule "1.prems"(2)) (use True "1.prems"(4,5) in simp)
    finally have "rnd (accum + ws ! (idx + 1)) \<le> rat_of_nat (Suc (Suc idx))" .
    then have "fst (advance_path rnd ws seq (idx + 1) (rnd (accum + ws ! (idx + 1)))) = length ws - 1"
      by (intro "1.IH") (use True lt "1.prems" in auto)
    then show ?thesis using True lt by (subst advance_path.simps) simp
  qed
qed

lemma assign_last:
  assumes "mono rnd" and "\<And>k. k \<le> 2 ^ 53 \<Longrightarrow> rnd (rat_of_nat k) = rat_of_nat k"
    and "\<And>p. p \<in> set ps \<Longrightarrow> pi_weight p \<le> 1"
    and "\<And>s d. (s, d) \<in> set fs \<Longrightarrow> length ps \<le> unat s \<and> unat s \<le> 2 ^ 53"
    and "idx < length ps" and "accum \<le> rat_of_nat (Suc idx) \<or> idx = length ps - 1"
    and "(q, f) \<in> set (assign_paths rnd ps stream n idx accum fs)"
  shows "q = pi_id (last ps)"
  using assms
proof (induction rnd ps stream n idx accum fs rule: assign_paths.induct)
  case (2 rnd ps stream n idx accum seq d fs)
  obtain idx' accum' where a: "advance_path rnd (map pi_weight ps) seq idx accum = (idx', accum')" by force
  have "fst (advance_path rnd (map pi_weight ps) seq idx accum) = length (map pi_weight ps) - 1"
    by (rule advance_to_last) (use "2.prems" in auto)
  then have i: "idx' = length ps - 1" by (simp add: a)
  from "2.prems"(7) consider "q = pi_id (ps ! (idx' mod length ps))"
    | "(q, f) \<in> set (assign_paths rnd ps stream n idx' accum' fs)" by (auto simp: a Let_def)
  then show ?case
  proof cases
    case 1
    moreover have "ps \<noteq> []" using "2.prems"(5) by auto
    ultimately show ?thesis using i by (simp add: last_conv_nth)
  next
    case second: 2
    show ?thesis
      by (rule "2.IH" [OF a [symmetric] refl]) (use "2.prems" second i in auto)
  qed
qed simp

text \<open>Once the sequence counter has reached the number of active paths, every fragment of
  every send goes to the last path, when no weight exceeds one (weights are clamped to
  that).\<close>

theorem later_fragments_use_last_path:
  assumes "mono rnd" and "\<And>k. k \<le> 2 ^ 53 \<Longrightarrow> rnd (rat_of_nat k) = rat_of_nat k"
    and "\<And>p. p \<in> set (active_paths m) \<Longrightarrow> pi_weight p \<le> 1"
    and "active_path_count m \<le> unat (mp_next_seq m)" and "unat (mp_next_seq m) + length out \<le> 2 ^ 53"
    and "send_via_paths rnd data stream m = Some (m', out)" and "(q, f) \<in> set out"
  shows "q = pi_id (last (active_paths m))"
proof -
  let ?ps = "active_paths m" and ?fs = "frag_loop (mp_fragment_size m) data 0 (mp_next_seq m)"
  have ne: "?ps \<noteq> []" using assms(6,7) by (auto simp: send_via_paths_def Let_def)
  note eq = send_via_paths_eq [OF ne assms(6)]
  have len: "length ?fs = length out" using eq assign_paths_data [THEN arg_cong [where f = length]] by simp
  have fs: "length ?ps \<le> unat s \<and> unat s \<le> 2 ^ 53" if "(s, d) \<in> set ?fs" for s d
  proof -
    have "s \<in> set (map fst ?fs)" using that by force
    also have "map fst ?fs = map (\<lambda>i. mp_next_seq m + of_nat i) [0..<length ?fs]"
      using frag_loop_spec [of "mp_fragment_size m" 0 data "mp_next_seq m"] eq by simp
    finally obtain i where i: "i < length out" "s = mp_next_seq m + of_nat i" using len by auto
    have "unat (mp_next_seq m) + i < 2 ^ 64" using assms(5) i(1) by simp
    moreover have "s = of_nat (unat (mp_next_seq m) + i)" using i(2) by simp
    ultimately have "unat s = unat (mp_next_seq m) + i"
      by (simp only: unat_of_nat) (simp add: take_bit_nat_eq_self)
    then show ?thesis using assms(4,5) i(1) by (simp add: active_path_count_def)
  qed
  have "pi_weight (?ps ! 0) \<le> rat_of_nat (Suc 0)" using assms(3) ne by simp
  moreover have "(q, f) \<in> set (assign_paths rnd ?ps stream (of_nat (length ?fs)) 0 (pi_weight (?ps ! 0)) ?fs)"
    using eq assms(7) by simp
  ultimately show ?thesis
    using assign_last [of rnd ?ps ?fs 0 "pi_weight (?ps ! 0)" q f stream] assms(1,2,3) fs ne by blast
qed

theorem later_fragments_use_last_path_witness:
  "\<exists>m' out q f. send_via_paths id [1, 2, 3] 7 (sample_sender\<lparr>mp_next_seq := 5\<rparr>) = Some (m', out)
     \<and> (q, f) \<in> set out \<and> q = 2 \<and> active_path_count (sample_sender\<lparr>mp_next_seq := 5\<rparr>) = 2"
proof -
  let ?m = "sample_sender\<lparr>mp_next_seq := 5\<rparr>"
  have ps: "active_paths ?m = active_paths sample_sender" by (simp add: active_paths_def)
  have len: "length (active_paths sample_sender) = 2"
    using sample_sender_facts(1) by (metis length_map length_Cons list.size(3) One_nat_def numeral_2_eq_2)
  have last: "pi_id (last (active_paths sample_sender)) = 2"
    using sample_sender_facts(1) sample_sender_active by (metis last_map last.simps list.distinct(1))
  have w: "pi_weight p \<le> 1" if "p \<in> set (active_paths sample_sender)" for p
    using that sample_sender_facts(2) by (metis (no_types) imageI list.set_map empty_iff insert_iff list.set order_refl)
  obtain m' out where s: "send_via_paths id [1, 2, 3] 7 ?m = Some (m', out)"
    using sample_sender_active sample_sender_facts(4)
    by (simp add: send_via_paths_def fragment_data_def Let_def ps)
  then have l: "length out = 1"
    using sample_sender_active sample_sender_facts(4)
    by (auto simp: send_via_paths_def fragment_data_def Let_def frag_loop_step frag_loop_done ps split: prod.splits)
  then obtain q f where qf: "(q, f) \<in> set out" by (cases out) auto
  have "q = pi_id (last (active_paths ?m))"
    by (rule later_fragments_use_last_path [OF _ _ _ _ _ s qf])
       (use w l len in \<open>simp_all add: ps active_path_count_def mono_def\<close>)
  then show ?thesis using s qf last len by (auto simp: ps active_path_count_def)
qed

end
