(* ===== verification/Chunk.thy ===== *)
theory Chunk
  imports Prelude
begin

text \<open>
  File chunking (\<open>src/storage/chunk.rs\<close>): cutting a file into blocks of a fixed size with
  a manifest of hashes, reassembly and verification. SHA-256 is library code and the
  parameter \<open>sha256\<close> of every operation that hashes.
\<close>

section \<open>Manifests\<close>

type_synonym hash = b32

definition default_chunk_size :: nat where
  "default_chunk_size = 4 * 1024 * 1024"

record chunk_meta =
  cm_hash :: hash
  cm_index :: u32
  cm_offset :: u64
  cm_size :: u64

record file_manifest =
  fm_file_hash :: hash
  fm_file_size :: u64
  fm_chunks :: "chunk_meta list"
  fm_chunk_size :: u64

record chunker =
  ck_chunk_size :: nat

definition chunker_new :: chunker where
  "chunker_new = \<lparr>ck_chunk_size = default_chunk_size\<rparr>"

definition with_chunk_size :: "nat \<Rightarrow> chunker" where
  "with_chunk_size n = \<lparr>ck_chunk_size = (if n = 0 then default_chunk_size else n)\<rparr>"

section \<open>Cutting and reassembly\<close>

text \<open>The block of index \<open>i\<close>: \<open>&data[start..end]\<close>.\<close>

definition block_at :: "nat \<Rightarrow> bytes \<Rightarrow> nat \<Rightarrow> bytes" where
  "block_at n data i = sub_slice data (i * n) (min (i * n + n) (length data))"

definition block_count :: "nat \<Rightarrow> bytes \<Rightarrow> nat" where
  "block_count n data = (if data = [] then 0 else div_ceil (length data) n)"

definition chunk_data :: "(bytes \<Rightarrow> hash) \<Rightarrow> chunker \<Rightarrow> bytes \<Rightarrow> file_manifest \<times> bytes list" where
  "chunk_data sha256 ck data =
     (let size = ck_chunk_size ck;
          num_chunks = block_count size data;
          metas = map (\<lambda>i. \<lparr>cm_hash = sha256 (block_at size data i), cm_index = of_nat i,
                            cm_offset = of_nat (i * size), cm_size = of_nat (length (block_at size data i))\<rparr>)
                    [0..<num_chunks]
      in (\<lparr>fm_file_hash = sha256 data, fm_file_size = of_nat (length data), fm_chunks = metas,
           fm_chunk_size = of_nat size\<rparr>,
          map (block_at size data) [0..<num_chunks]))"

text \<open>The size check of \<open>reassemble\<close>: the first mismatch is the error.\<close>

fun check_sizes :: "(chunk_meta \<times> bytes) list \<Rightarrow> string option" where
  "check_sizes [] = None"
| "check_sizes ((meta, d) # rest) =
     (if of_nat (length d) \<noteq> cm_size meta then
        Some (''chunk '' @ show_nat (unat (cm_index meta)) @ '' size mismatch: expected ''
              @ show_nat (unat (cm_size meta)) @ '', got '' @ show_nat (length d))
      else check_sizes rest)"

definition reassemble :: "(bytes \<Rightarrow> hash) \<Rightarrow> file_manifest \<Rightarrow> bytes list \<Rightarrow> string + bytes" where
  "reassemble sha256 manifest chunks =
     (if length chunks \<noteq> length (fm_chunks manifest) then
        Inl (''chunk count mismatch: expected '' @ show_nat (length (fm_chunks manifest))
             @ '' chunks, got '' @ show_nat (length chunks))
      else case check_sizes (zip (fm_chunks manifest) chunks) of
             Some e \<Rightarrow> Inl e
           | None \<Rightarrow>
               let result = concat chunks in
               if sha256 result \<noteq> fm_file_hash manifest
               then Inl ''file hash mismatch: data integrity check failed''
               else Inr result)"

definition verify_chunk :: "(bytes \<Rightarrow> hash) \<Rightarrow> chunk_meta \<Rightarrow> bytes \<Rightarrow> bool" where
  "verify_chunk sha256 meta d \<longleftrightarrow> sha256 d = cm_hash meta"

definition verify_file :: "(bytes \<Rightarrow> hash) \<Rightarrow> file_manifest \<Rightarrow> bytes \<Rightarrow> bool" where
  "verify_file sha256 manifest d \<longleftrightarrow> sha256 d = fm_file_hash manifest"

section \<open>Blocks\<close>

lemma block_count_eq: "0 < n \<Longrightarrow> block_count n data = div_ceil (length data) n"
  by (simp add: block_count_def)

lemma block_count_iff: "0 < n \<Longrightarrow> i < block_count n data \<longleftrightarrow> i * n < length data"
  by (simp add: block_count_eq div_ceil_iff)

lemma block_at_take: "block_at n data i = take n (drop (i * n) data)"
  by (simp add: block_at_def sub_slice_def min_def)

lemma block_at_length: "0 < n \<Longrightarrow> i < block_count n data \<Longrightarrow> 0 < length (block_at n data i) \<and> length (block_at n data i) \<le> n"
  by (simp add: block_at_take block_count_iff)

lemma concat_blocks_take: "concat (map (block_at n data) [0..<k]) = take (k * n) data"
  by (induction k) (simp_all add: block_at_take take_add [symmetric] add.commute)

lemma concat_blocks: "0 < n \<Longrightarrow> concat (map (block_at n data) [0..<block_count n data]) = data"
  using div_ceil_upper [of n "length data"] by (simp add: concat_blocks_take block_count_eq)

lemma with_chunk_size_pos: "0 < ck_chunk_size (with_chunk_size n)"
  by (simp add: with_chunk_size_def default_chunk_size_def)

lemma chunk_data_facts:
  "fm_file_hash (fst (chunk_data h ck data)) = h data"
  "fm_chunks (fst (chunk_data h ck data)) =
     map (\<lambda>i. \<lparr>cm_hash = h (block_at (ck_chunk_size ck) data i), cm_index = of_nat i,
               cm_offset = of_nat (i * ck_chunk_size ck), cm_size = of_nat (length (block_at (ck_chunk_size ck) data i))\<rparr>)
       [0..<block_count (ck_chunk_size ck) data]"
  "fm_chunk_size (fst (chunk_data h ck data)) = of_nat (ck_chunk_size ck)"
  "fm_file_size (fst (chunk_data h ck data)) = of_nat (length data)"
  "snd (chunk_data h ck data) = map (block_at (ck_chunk_size ck) data) [0..<block_count (ck_chunk_size ck) data]"
  by (simp_all add: chunk_data_def Let_def)

section \<open>Round trip and integrity\<close>

lemma check_sizes_None:
  "check_sizes ps = None \<longleftrightarrow> (\<forall>(meta, d) \<in> set ps. of_nat (length d) = cm_size meta)"
  by (induction ps rule: check_sizes.induct) auto

lemma reassemble_chunks:
  assumes "0 < ck_chunk_size ck"
  shows "reassemble h (fst (chunk_data h ck data)) (snd (chunk_data h ck data)) = Inr data"
proof -
  have "check_sizes (zip (fm_chunks (fst (chunk_data h ck data))) (snd (chunk_data h ck data))) = None"
    by (auto simp: check_sizes_None chunk_data_facts zip_map_map zip_same_conv_map)
  then show ?thesis
    using concat_blocks [OF assms, of data]
    by (simp add: reassemble_def chunk_data_facts(1,5) Let_def) (simp add: chunk_data_facts)
qed

text \<open>Reassembling the chunks of any data with its manifest gives the data back.\<close>

theorem chunk_roundtrip:
  "reassemble h (fst (chunk_data h (with_chunk_size n) data)) (snd (chunk_data h (with_chunk_size n) data)) = Inr data"
  by (rule reassemble_chunks [OF with_chunk_size_pos])

text \<open>Chunks that reassemble under the manifest of a file concatenate to that file, unless
  they are a SHA-256 collision with it.\<close>

theorem reassemble_only_original:
  assumes "reassemble h (fst (chunk_data h ck data)) chunks = Inr result" and "inj_on h {data, result}"
  shows "result = data \<and> concat chunks = data
    \<and> length chunks = length (fm_chunks (fst (chunk_data h ck data)))"
proof -
  from assms(1) have "h result = h data" "concat chunks = result"
      "length chunks = length (fm_chunks (fst (chunk_data h ck data)))"
    by (auto simp: reassemble_def chunk_data_facts(1) Let_def split: if_splits option.splits)
  with assms(2) show ?thesis by (auto dest: inj_onD)
qed

theorem reassemble_only_original_witness:
  "let h = (\<lambda>bs. if bs = [1, 2, 3] then fill32 1 else fill32 0); ck = with_chunk_size 2 in
   reassemble h (fst (chunk_data h ck [1, 2, 3])) [[1, 2], [3]] = Inr [1, 2, 3]
   \<and> concat [[1, 2], [3]] = ([1, 2, 3] :: bytes)"
proof -
  let ?h = "\<lambda>bs. if bs = [1, 2, 3] then fill32 1 else fill32 0" and ?ck = "with_chunk_size 2"
  have "snd (chunk_data ?h ?ck [1, 2, 3]) = [[1, 2], [3]]"
    by (simp add: chunk_data_facts with_chunk_size_def block_count_def div_ceil_def block_at_take upt_conv_Cons)
  with reassemble_chunks [OF with_chunk_size_pos, of ?h 2 "[1, 2, 3]"]
  have r: "reassemble ?h (fst (chunk_data ?h ?ck [1, 2, 3])) [[1, 2], [3]] = Inr [1, 2, 3]" by simp
  then show ?thesis using reassemble_only_original [OF r] by (simp only: Let_def) simp
qed

end
