(* ===== verification/Diff.thy ===== *)
theory Diff
  imports Chunk
begin

text \<open>
  Block differences (\<open>src/storage/diff.rs\<close>): the comparison of local data with a remote
  manifest, the transfer report and its text. SHA-256 is the parameter \<open>sha256\<close>; what
  \<open>std::fs::read\<close> returns for the local file is an argument of \<open>diff_file\<close>.
\<close>

section \<open>Records\<close>

definition min_diff_chunk_size :: nat where
  "min_diff_chunk_size = 4096"

datatype block_diff_status = Unchanged | Modified | Added | Deleted

record block_diff =
  bd_index :: u32
  bd_offset :: u64
  bd_size :: u64
  bd_status :: block_diff_status
  bd_new_hash :: hash
  bd_old_hash :: hash

record file_diff =
  fd_file_name :: string
  fd_old_size :: u64
  fd_new_size :: u64
  fd_changed_blocks :: "block_diff list"
  fd_unchanged_count :: u32
  fd_files_match :: bool

record diff_report =
  dr_diff :: file_diff
  dr_blocks_to_transfer :: u32
  dr_bytes_to_transfer :: u64
  dr_estimated_secs :: u64

record block_diff_engine =
  de_chunk_size :: nat

definition diff_engine_new :: "nat \<Rightarrow> block_diff_engine" where
  "diff_engine_new n = \<lparr>de_chunk_size = max n min_diff_chunk_size\<rparr>"

definition diff_engine_default :: block_diff_engine where
  "diff_engine_default = \<lparr>de_chunk_size = default_chunk_size\<rparr>"

section \<open>Comparison\<close>

text \<open>One iteration of the loop of \<open>diff_files\<close>, over the blocks found so far.\<close>

definition diff_step ::
  "(bytes \<Rightarrow> hash) \<Rightarrow> nat \<Rightarrow> chunk_meta list \<Rightarrow> bytes \<Rightarrow> nat \<Rightarrow> block_diff list \<times> u32 \<Rightarrow> block_diff list \<times> u32" where
  "diff_step sha256 n remote data i = (\<lambda>(changed, unchanged).
     let has_remote = i < length remote;
         has_local = i < block_count n data;
         local_slice = block_at n data i
     in if has_remote \<and> has_local then
          (if sha256 local_slice = cm_hash (remote ! i) then (changed, unchanged + 1)
           else (changed @ [\<lparr>bd_index = of_nat i, bd_offset = cm_offset (remote ! i),
                             bd_size = of_nat (length local_slice), bd_status = Modified,
                             bd_new_hash = sha256 local_slice, bd_old_hash = cm_hash (remote ! i)\<rparr>], unchanged))
        else if has_remote then
          (changed @ [\<lparr>bd_index = of_nat i, bd_offset = cm_offset (remote ! i), bd_size = 0,
                       bd_status = Deleted, bd_new_hash = fill32 0, bd_old_hash = cm_hash (remote ! i)\<rparr>], unchanged)
        else
          (changed @ [\<lparr>bd_index = of_nat i, bd_offset = of_nat (i * n),
                       bd_size = of_nat (length local_slice), bd_status = Added,
                       bd_new_hash = sha256 local_slice, bd_old_hash = fill32 0\<rparr>], unchanged))"

definition diff_files ::
  "(bytes \<Rightarrow> hash) \<Rightarrow> block_diff_engine \<Rightarrow> file_manifest \<Rightarrow> bytes \<Rightarrow> string + file_diff" where
  "diff_files sha256 engine manifest data =
     (if unat (fm_chunk_size manifest) \<noteq> de_chunk_size engine then
        Inl (''chunk size mismatch: manifest has '' @ show_nat (unat (fm_chunk_size manifest))
             @ '' bytes, engine has '' @ show_nat (de_chunk_size engine) @ '' bytes'')
      else if sha256 data = fm_file_hash manifest then
        Inr \<lparr>fd_file_name = [], fd_old_size = fm_file_size manifest, fd_new_size = of_nat (length data),
             fd_changed_blocks = [], fd_unchanged_count = of_nat (length (fm_chunks manifest)),
             fd_files_match = True\<rparr>
      else
        let n = de_chunk_size engine;
            remote = fm_chunks manifest;
            max_index = max (of_nat (length remote) :: u32) (of_nat (block_count n data));
            (changed, unchanged) = fold (diff_step sha256 n remote data) [0..<unat max_index] ([], 0)
        in Inr \<lparr>fd_file_name = [], fd_old_size = fm_file_size manifest, fd_new_size = of_nat (length data),
                fd_changed_blocks = changed, fd_unchanged_count = unchanged, fd_files_match = False\<rparr>)"

definition diff_file ::
  "(bytes \<Rightarrow> hash) \<Rightarrow> (string \<Rightarrow> string + bytes) \<Rightarrow> block_diff_engine \<Rightarrow> file_manifest \<Rightarrow> string \<Rightarrow> string + file_diff" where
  "diff_file sha256 read_bytes engine manifest local_path =
     (case read_bytes local_path of
        Inl e \<Rightarrow> Inl (''failed to read '' @ [CHR 0x27] @ local_path @ [CHR 0x27] @ '': '' @ e)
      | Inr data \<Rightarrow> diff_files sha256 engine manifest data)"

section \<open>Reports\<close>

fun count_transfer :: "block_diff \<Rightarrow> u32 \<times> u64 \<Rightarrow> u32 \<times> u64" where
  "count_transfer b (blocks, sum_bytes) =
     (if bd_status b = Added \<or> bd_status b = Modified then (blocks + 1, sum_bytes + bd_size b)
      else (blocks, sum_bytes))"

definition generate_report :: "file_diff \<Rightarrow> string \<Rightarrow> diff_report" where
  "generate_report d name =
     (let (blocks, sum_bytes) = fold count_transfer (fd_changed_blocks d) (0, 0);
          secs = (if 0 < sum_bytes then (if sum_bytes div 1000000 < 1 then 1 else sum_bytes div 1000000) else 0)
      in \<lparr>dr_diff = d\<lparr>fd_file_name := name\<rparr>, dr_blocks_to_transfer = blocks,
          dr_bytes_to_transfer = sum_bytes, dr_estimated_secs = secs\<rparr>)"

text \<open>\<open>{:<n}\<close>: padded with spaces on the right. A \<open>word\<close> is printed in decimal.\<close>

definition pad_right :: "nat \<Rightarrow> string \<Rightarrow> string" where
  "pad_right n s = s @ replicate (n - length s) CHR '' ''"

definition show_word :: "'a::len word \<Rightarrow> string" where
  "show_word w = show_nat (unat w)"

definition newline :: string where
  "newline = [CHR 0x0A]"

fun status_str :: "block_diff_status \<Rightarrow> string" where
  "status_str Unchanged = ''=''"
| "status_str Modified = ''M''"
| "status_str Added = ''+''"
| "status_str Deleted = ''-''"

definition block_line :: "block_diff \<Rightarrow> string" where
  "block_line b =
     ''  '' @ pad_right 6 (show_word (bd_index b)) @ '' '' @ pad_right 10 (show_word (bd_offset b)) @ '' ''
     @ pad_right 8 (show_word (bd_size b)) @ '' '' @ status_str (bd_status b) @ newline"

definition format_report :: "diff_report \<Rightarrow> string" where
  "format_report r =
     (let d = dr_diff r;
          old = fd_old_size d;
          new = fd_new_size d;
          head = ''File: '' @ fd_file_name d @ newline
                 @ ''Size: '' @ show_word old @ '' '' @ [CHR 0xE2, CHR 0x86, CHR 0x92] @ '' '' @ show_word new
                 @ '' ('' @ show_word (if old < new then new - old else old - new) @ '' ''
                 @ (if old \<le> new then ''added'' else ''removed'') @ '')'' @ newline
      in if fd_files_match d then head @ ''Status: UNCHANGED (files are identical)'' @ newline
         else head
              @ ''Blocks: '' @ show_word (fd_unchanged_count d) @ '' unchanged, ''
              @ show_nat (length (fd_changed_blocks d)) @ '' changed'' @ newline
              @ ''To transfer: '' @ show_word (dr_blocks_to_transfer r) @ '' blocks, ''
              @ show_word (dr_bytes_to_transfer r) @ '' bytes (~'' @ show_word (dr_estimated_secs r)
              @ ''s at 1 MB/s)'' @ newline
              @ newline @ ''Block details:'' @ newline
              @ ''  '' @ pad_right 6 ''Index'' @ '' '' @ pad_right 10 ''Offset'' @ '' ''
              @ pad_right 8 ''Size'' @ '' Status'' @ newline
              @ concat (map block_line (fd_changed_blocks d)))"

section \<open>What a difference tells\<close>

text \<open>The loop in one expression: the changed blocks of each index in turn.\<close>

definition block_change :: "(bytes \<Rightarrow> hash) \<Rightarrow> nat \<Rightarrow> chunk_meta list \<Rightarrow> bytes \<Rightarrow> nat \<Rightarrow> block_diff list" where
  "block_change h n remote data i = fst (diff_step h n remote data i ([], 0))"

lemma diff_step_fst:
  "fst (diff_step h n remote data i s) = fst s @ block_change h n remote data i"
  by (cases s) (simp add: block_change_def diff_step_def Let_def)

lemma diff_loop_fst:
  "fst (fold (diff_step h n remote data) is s) = fst s @ concat (map (block_change h n remote data) is)"
  by (induction "is" arbitrary: s) (simp_all add: diff_step_fst)

lemma block_change_index: "b \<in> set (block_change h n remote data i) \<Longrightarrow> bd_index b = of_nat i"
  by (auto simp: block_change_def diff_step_def Let_def split: if_splits)

text \<open>The blocks to send: those a report counts.\<close>

definition transferred :: "file_diff \<Rightarrow> nat \<Rightarrow> bool" where
  "transferred d i \<longleftrightarrow>
     (\<exists>b \<in> set (fd_changed_blocks d). bd_index b = of_nat i \<and> bd_status b \<in> {Added, Modified})"

text \<open>What the holder of the old data makes of it with the transferred blocks of the new data.\<close>

definition patch :: "nat \<Rightarrow> file_diff \<Rightarrow> bytes \<Rightarrow> bytes \<Rightarrow> bytes" where
  "patch n d old new =
     concat (map (\<lambda>i. if transferred d i then block_at n new i else block_at n old i)
       [0..<block_count n new])"

lemma transferred_eq:
  assumes "diff_files h engine (fst (chunk_data h \<lparr>ck_chunk_size = n\<rparr> old)) new = Inr d"
    and "0 < n" and "block_count n old < 2 ^ 32" "block_count n new < 2 ^ 32" "i < block_count n new"
    and "h new \<noteq> h old" "de_chunk_size engine = n"
  shows "transferred d i \<longleftrightarrow> \<not> (i < block_count n old \<and> h (block_at n new i) = h (block_at n old i))"
proof -
  let ?m = "fst (chunk_data h \<lparr>ck_chunk_size = n\<rparr> old)"
  let ?c = "block_change h n (fm_chunks ?m) new"
  have small: "unat (of_nat k :: u32) = k" if "k < 2 ^ 32" for k
    using that by (simp add: unat_of_nat take_bit_nat_eq_self)
  define top where "top = unat (max (of_nat (block_count n old) :: u32) (of_nat (block_count n new)))"
  have top: "i < top" "top < 2 ^ 32"
    using assms(3-5) by (auto simp: top_def max_def word_le_nat_alt small)
  have changed: "fd_changed_blocks d = concat (map ?c [0..<top])"
    using assms(1,6,7) diff_loop_fst [of h n "fm_chunks ?m" new "[0..<top]" "([], 0)"]
    by (auto simp: diff_files_def chunk_data_facts top_def Let_def split: if_splits prod.splits)
  have "transferred d i \<longleftrightarrow> (\<exists>b \<in> set (?c i). bd_status b \<in> {Added, Modified})"
  proof
    assume "transferred d i"
    then obtain j b where j: "j < top" "b \<in> set (?c j)" "bd_index b = of_nat i" "bd_status b \<in> {Added, Modified}"
      by (auto simp: transferred_def changed)
    then have "(of_nat j :: u32) = of_nat i" using block_change_index by metis
    then have "j = i" using small [of j] small [of i] j(1) top by (metis order_less_trans)
    with j show "\<exists>b \<in> set (?c i). bd_status b \<in> {Added, Modified}" by blast
  next
    assume "\<exists>b \<in> set (?c i). bd_status b \<in> {Added, Modified}"
    then show "transferred d i" using top(1) block_change_index by (fastforce simp: transferred_def changed)
  qed
  also have "\<dots> \<longleftrightarrow> \<not> (i < block_count n old \<and> h (block_at n new i) = h (block_at n old i))"
    using assms(5) by (simp add: block_change_def diff_step_def Let_def chunk_data_facts)
  finally show ?thesis .
qed



text \<open>A manifest cut with a chunk size below 4096 is never comparable: an engine made for
  the same size clamps it and rejects the manifest.\<close>

theorem small_manifest_mismatch:
  assumes "0 < n" and "n < min_diff_chunk_size"
  shows "\<exists>e. diff_files h (diff_engine_new n) (fst (chunk_data h (with_chunk_size n) old)) new = Inl e"
proof -
  have "unat (of_nat n :: u64) = n"
    using assms(2) by (simp add: min_diff_chunk_size_def unat_of_nat take_bit_nat_eq_self)
  then show ?thesis
    using assms by (simp add: diff_files_def diff_engine_new_def chunk_data_facts with_chunk_size_def max_def)
qed

theorem small_manifest_mismatch_witness:
  "\<exists>e. diff_files (\<lambda>_. fill32 0) (diff_engine_new 1024)
         (fst (chunk_data (\<lambda>_. fill32 0) (with_chunk_size 1024) [1, 2])) [1, 2] = Inl e"
  by (rule small_manifest_mismatch) (simp_all add: min_diff_chunk_size_def)

end
