(* ===== verification/Disk.thy ===== *)
theory Disk
  imports Prelude
begin

text \<open>
  How the stores of the program write themselves to a JSON file and read it back. The disk
  is a map from paths to contents. The JSON codec (\<open>serde_json\<close>), \<open>Path::parent\<close> and the
  answers of \<open>std::fs\<close> are library code: the record \<open>json_env\<close>, for the type \<open>'d\<close> of the
  data.
\<close>

type_synonym disk = "string \<Rightarrow> string option"

text \<open>
  The answer of \<open>fs::write\<close> for a path. A write that fails may have created, cut or partly
  written the file: with the error comes what becomes of its old content.
\<close>

type_synonym 'c write_answer = "(string \<times> ('c option \<Rightarrow> 'c option)) + unit"

definition fs_write ::
  "(string \<Rightarrow> 'c write_answer) \<Rightarrow> string \<Rightarrow> 'c \<Rightarrow> (string \<Rightarrow> 'c option)
   \<Rightarrow> (string \<Rightarrow> 'c option) \<times> (string + unit)" where
  "fs_write answer path content files =
     (case answer path of
        Inl (e, left) \<Rightarrow> (files(path := left (files path)), Inl e)
      | Inr _ \<Rightarrow> (files(path \<mapsto> content), Inr ()))"

lemma fs_write_Inr: "fs_write answer path content files = (files', Inr u) \<Longrightarrow> files' = files(path \<mapsto> content)"
  by (auto simp: fs_write_def split: sum.splits)

lemma fs_write_other: "fs_write answer path content files = (files', r) \<Longrightarrow> p \<noteq> path \<Longrightarrow> files' p = files p"
  by (auto simp: fs_write_def split: sum.splits)

record 'd json_env =
  en_encode :: "'d \<Rightarrow> string + string"
  en_decode :: "string \<Rightarrow> string + 'd"
  en_parent :: "string \<Rightarrow> string option"
  en_create_dir :: "string \<Rightarrow> string + unit"
  en_write :: "string \<Rightarrow> string write_answer"
  en_read :: "string \<Rightarrow> string + unit"

datatype json_error = CodecError string | CreateDirError string | WriteError string | ReadError string

text \<open>
  \<open>to_string_pretty\<close>, then \<open>create_dir_all\<close> of the parent if there is one, then
  \<open>fs::write\<close>.
\<close>

definition write_json :: "'d json_env \<Rightarrow> string \<Rightarrow> 'd \<Rightarrow> disk \<Rightarrow> disk \<times> (json_error + unit)" where
  "write_json env path d disk =
     (case en_encode env d of
        Inl e \<Rightarrow> (disk, Inl (CodecError e))
      | Inr json \<Rightarrow>
          (case (case en_parent env path of None \<Rightarrow> Inr () | Some p \<Rightarrow> en_create_dir env p) of
             Inl e \<Rightarrow> (disk, Inl (CreateDirError e))
           | Inr _ \<Rightarrow>
               (case fs_write (en_write env) path json disk of
                  (disk, Inl e) \<Rightarrow> (disk, Inl (WriteError e))
                | (disk, Inr _) \<Rightarrow> (disk, Inr ()))))"

text \<open>
  \<open>read_to_string\<close> and \<open>from_str\<close> of a file that exists and is not blank; otherwise None.
\<close>

definition read_json :: "'d json_env \<Rightarrow> string \<Rightarrow> disk \<Rightarrow> json_error + 'd option" where
  "read_json env path disk =
     (case disk path of
        None \<Rightarrow> Inr None
      | Some text \<Rightarrow>
          (case en_read env path of
             Inl e \<Rightarrow> Inl (ReadError e)
           | Inr _ \<Rightarrow>
               if is_blank text then Inr None
               else case en_decode env text of
                      Inl e \<Rightarrow> Inl (CodecError e)
                    | Inr d \<Rightarrow> Inr (Some d)))"

text \<open>
  The file operations succeed and the encoder accepts all data, which \<open>serde_json\<close>
  documents for maps with string keys.
\<close>

definition io_works :: "'d json_env \<Rightarrow> bool" where
  "io_works env \<longleftrightarrow> (\<forall>d. \<exists>j. en_encode env d = Inr j) \<and> (\<forall>p. en_create_dir env p = Inr ())
     \<and> (\<forall>p. en_write env p = Inr ()) \<and> (\<forall>p. en_read env p = Inr ())"

text \<open>\<open>d\<close> can be read back after it was written, up to the relation \<open>same\<close>.\<close>

definition reads_back :: "('d \<Rightarrow> 'd \<Rightarrow> bool) \<Rightarrow> 'd json_env \<Rightarrow> 'd \<Rightarrow> bool" where
  "reads_back same env d \<longleftrightarrow>
     (\<forall>j. en_encode env d = Inr j \<longrightarrow> \<not> is_blank j \<and> (\<exists>d'. en_decode env j = Inr d' \<and> same d' d))"

lemma write_json_works:
  "io_works env \<Longrightarrow> \<exists>j. en_encode env d = Inr j \<and> write_json env path d disk = (disk(path \<mapsto> j), Inr ())"
  by (auto simp: write_json_def io_works_def fs_write_def split: option.split sum.split)
     (metis Inr_Inl_False)+

lemma write_json_Inr:
  "write_json env path d disk = (disk', Inr u) \<Longrightarrow> \<exists>j. en_encode env d = Inr j \<and> disk' = disk(path \<mapsto> j)"
  by (auto simp: write_json_def dest: fs_write_Inr split: sum.splits prod.splits)

lemma read_after_write:
  assumes "io_works env" and "reads_back same env d" and "en_encode env d = Inr j" and "disk path = Some j"
  shows "\<exists>d'. read_json env path disk = Inr (Some d') \<and> same d' d"
proof -
  from assms(2,3) obtain d' where "\<not> is_blank j" "en_decode env j = Inr d'" "same d' d"
    unfolding reads_back_def by blast
  with assms(1,4) show ?thesis by (auto simp: read_json_def io_works_def)
qed

section \<open>Files without directories and blank checks\<close>

text \<open>\<open>to_string_pretty\<close> and \<open>fs::write\<close>; \<open>read_to_string\<close> and \<open>from_str\<close>.\<close>

definition put_json :: "'d json_env \<Rightarrow> string \<Rightarrow> 'd \<Rightarrow> disk \<Rightarrow> disk \<times> (json_error + unit)" where
  "put_json env path d disk =
     (case en_encode env d of
        Inl e \<Rightarrow> (disk, Inl (CodecError e))
      | Inr json \<Rightarrow> (case fs_write (en_write env) path json disk of
                        (disk, Inl e) \<Rightarrow> (disk, Inl (WriteError e))
                      | (disk, Inr _) \<Rightarrow> (disk, Inr ())))"

definition get_json :: "'d json_env \<Rightarrow> string \<Rightarrow> string \<Rightarrow> json_error + 'd" where
  "get_json env path text =
     (case en_read env path of
        Inl e \<Rightarrow> Inl (ReadError e)
      | Inr _ \<Rightarrow> (case en_decode env text of Inl e \<Rightarrow> Inl (CodecError e) | Inr d \<Rightarrow> Inr d))"

lemma get_after_put:
  assumes "put_json env path d disk = (disk', Inr ())" and "en_read env path = Inr ()" and "reads_back same env d"
  obtains j d' where "disk' = disk(path \<mapsto> j)" and "get_json env path j = Inr d'" and "same d' d"
proof -
  from assms(1) obtain j where j: "en_encode env d = Inr j" "disk' = disk(path \<mapsto> j)"
    by (auto simp: put_json_def dest: fs_write_Inr split: sum.splits prod.splits)
  moreover from assms(3) j(1) obtain d' where "en_decode env j = Inr d'" "same d' d"
    unfolding reads_back_def by blast
  ultimately show thesis using that assms(2) by (simp add: get_json_def)
qed

end
