(* ===== verification/Text.thy ===== *)
theory Text
  imports Prelude
begin

text \<open>
  Operations of the standard library on text that several components use: prefixes,
  splitting, file names of Unix paths, trimming of white space. A string is its UTF-8
  bytes.
\<close>

section \<open>Prefixes and paths\<close>

definition starts_with :: "string \<Rightarrow> string \<Rightarrow> bool" where
  "starts_with s p \<longleftrightarrow> take (length p) s = p"

lemma starts_with_shorter: "p \<noteq> [] \<Longrightarrow> starts_with s p \<Longrightarrow> length s - length p < length s"
  by (cases s; cases p) (auto simp: starts_with_def)

text \<open>\<open>trim_start_matches\<close> removes the prefix as often as it is there.\<close>

function trim_start_matches :: "string \<Rightarrow> string \<Rightarrow> string" where
  "trim_start_matches s p =
     (if p \<noteq> [] \<and> starts_with s p then trim_start_matches (drop (length p) s) p else s)"
  by pat_completeness auto
termination
  by (relation "measure (\<lambda>(s, p). length s)") (simp_all add: starts_with_shorter)

declare trim_start_matches.simps [simp del]

text \<open>\<open>Path::file_name\<close> of a Unix path, or the path itself.\<close>

fun split_on :: "char \<Rightarrow> string \<Rightarrow> string list" where
  "split_on c [] = [[]]"
| "split_on c (x # xs) =
     (if x = c then [] # split_on c xs
      else case split_on c xs of [] \<Rightarrow> [[x]] | w # ws \<Rightarrow> (x # w) # ws)"

definition file_name_of :: "string \<Rightarrow> string" where
  "file_name_of p =
     (let parts = filter (\<lambda>c. c \<noteq> [] \<and> c \<noteq> ''.'') (split_on (CHR ''/'') p)
      in if parts = [] \<or> last parts = ''..'' then p else last parts)"

text \<open>\<open>s.trim_end()\<close> on the reversed bytes, and \<open>s.trim()\<close>, over Unicode white space.\<close>

definition ascii_white :: "nat \<Rightarrow> bool" where
  "ascii_white a \<longleftrightarrow> 9 \<le> a \<and> a \<le> 13 \<or> a = 32"

fun drop_white_rev :: "nat list \<Rightarrow> nat list" where
  "drop_white_rev (c # b # a # rest) =
     (if ascii_white c then drop_white_rev (b # a # rest)
      else if b = 0xC2 \<and> (c = 0x85 \<or> c = 0xA0) then drop_white_rev (a # rest)
      else if white3 a b c then drop_white_rev rest
      else c # b # a # rest)"
| "drop_white_rev [c, b] =
     (if ascii_white c then drop_white_rev [b]
      else if b = 0xC2 \<and> (c = 0x85 \<or> c = 0xA0) then [] else [c, b])"
| "drop_white_rev [c] = (if ascii_white c then [] else [c])"
| "drop_white_rev [] = []"

fun drop_white :: "nat list \<Rightarrow> nat list" where
  "drop_white (a # b # c # rest) =
     (if ascii_white a then drop_white (b # c # rest)
      else if a = 0xC2 \<and> (b = 0x85 \<or> b = 0xA0) then drop_white (c # rest)
      else if white3 a b c then drop_white rest
      else a # b # c # rest)"
| "drop_white [a, b] =
     (if ascii_white a then drop_white [b]
      else if a = 0xC2 \<and> (b = 0x85 \<or> b = 0xA0) then [] else [a, b])"
| "drop_white [a] = (if ascii_white a then [] else [a])"
| "drop_white [] = []"

definition trim_end :: "string \<Rightarrow> string" where
  "trim_end s = map char_of (rev (drop_white_rev (rev (map of_char s))))"

definition trim_text :: "string \<Rightarrow> string" where
  "trim_text s = map char_of (drop_white (rev (drop_white_rev (rev (map of_char s)))))"

text \<open>\<open>s.trim_matches(c)\<close> of a character of one byte.\<close>

definition trim_matches :: "char \<Rightarrow> string \<Rightarrow> string" where
  "trim_matches c s = rev (dropWhile (\<lambda>x. x = c) (rev (dropWhile (\<lambda>x. x = c) s)))"

text \<open>\<open>s.lines()\<close>: the pieces between line feeds, without a final empty piece and without a
  carriage return at the end of a piece that a line feed ended.\<close>

fun strip_cr :: "string list \<Rightarrow> string list" where
  "strip_cr [] = []"
| "strip_cr [l] = (if l = [] then [] else [l])"
| "strip_cr (l # ls) = (if l \<noteq> [] \<and> last l = CHR 0x0D then butlast l else l) # strip_cr ls"

definition text_lines :: "string \<Rightarrow> string list" where
  "text_lines s = strip_cr (split_on (CHR 0x0A) s)"

definition join_with :: "string \<Rightarrow> string list \<Rightarrow> string" where
  "join_with sep ws = (case ws of [] \<Rightarrow> [] | w # ws \<Rightarrow> w @ concat (map (\<lambda>x. sep @ x) ws))"

section \<open>ASCII\<close>

definition ascii :: "string \<Rightarrow> bool" where
  "ascii s \<longleftrightarrow> (\<forall>c \<in> set s. of_char c < (128 :: nat))"

lemma ascii_simps [simp]:
  "ascii []" "ascii (c # s) \<longleftrightarrow> of_char c < (128 :: nat) \<and> ascii s" "ascii (s @ t) \<longleftrightarrow> ascii s \<and> ascii t"
  by (auto simp: ascii_def)

lemma ascii_show_nat [simp]: "ascii (show_nat n)"
proof (induction n rule: show_nat.induct)
  case (1 n)
  have d: "of_char (char_of (48 + k :: nat)) < (128 :: nat)" if "k < 10" for k
    using that by (simp only: of_char_of)
  show ?case using 1 d [of n] d [of "n mod 10"] by (subst show_nat.simps) simp
qed

lemma utf8_ascii_append: "ascii s \<Longrightarrow> utf8_valid (str_bytes (s @ t)) = utf8_valid (str_bytes t)"
proof (induction s)
  case (Cons c s)
  have "(of_nat (of_char c) :: byte) < 0x80" using Cons.prems by (simp add: word_less_nat_alt unat_of_nat)
  moreover have "utf8_valid (str_bytes (s @ t)) = utf8_valid (str_bytes t)" using Cons by simp
  ultimately show ?case by (simp add: str_bytes_def)
qed simp

lemma starts_with_append [simp]: "starts_with (p @ s) p"
  by (simp add: starts_with_def)

lemma trim_once: "p \<noteq> [] \<Longrightarrow> \<not> starts_with s p \<Longrightarrow> trim_start_matches (p @ s) p = s"
  using trim_start_matches.simps [of "p @ s" p] trim_start_matches.simps [of s p] by simp

lemma starts_with_longer:
  assumes "starts_with s (p @ q)"
  shows "starts_with s p"
proof -
  have "take (length p) s = take (length p) (take (length (p @ q)) s)" by simp
  then show ?thesis using assms by (simp only: starts_with_def) simp
qed

lemma utf8_ascii: "ascii s \<Longrightarrow> utf8_valid (str_bytes s)"
  using utf8_ascii_append [of s "[]"] by (simp add: str_bytes_def)

end
