(* ===== verification/Incremental.thy ===== *)
theory Incremental
  imports Diff Disk Float64 HashMap Text
begin

text \<open>
  Incremental sync (\<open>src/storage/incremental.rs\<close>): upload and download of the blocks that
  differ, over requests and answers on the VPN, with the state of the last syncs. The
  network, the file system, JSON, hexadecimal text and SHA-256 are parameters: the record
  \<open>sync_env\<close>, where \<open>sv_replies\<close> gives what the listeners get, in order, from a request
  until its timeout. The random numbers of the request tags are arguments, and each
  operation reads the clock at its start and at its end.
\<close>

section \<open>Records\<close>

definition sync_chunk_size :: nat where
  "sync_chunk_size = 4 * 1024 * 1024"

definition manifest_timeout_secs :: nat where
  "manifest_timeout_secs = 30"

definition block_timeout_secs :: nat where
  "block_timeout_secs = 60"

record sync_result =
  sr_total_blocks :: u32
  sr_transferred_blocks :: u32
  sr_bytes_transferred :: u64
  sr_already_in_sync :: bool
  sr_elapsed_secs :: u64

definition sync_result_display :: "sync_result \<Rightarrow> string" where
  "sync_result_display r =
     (if sr_already_in_sync r then
        ''Already in sync ('' @ show_word (sr_total_blocks r) @ '' blocks, 0 transferred)''
      else ''Transferred '' @ show_word (sr_transferred_blocks r) @ '' of '' @ show_word (sr_total_blocks r)
           @ '' blocks ('' @ show_word (sr_bytes_transferred r) @ '' bytes) in ''
           @ show_word (sr_elapsed_secs r) @ ''s'')"

record sync_state_entry =
  ss_file_name :: string
  ss_last_synced_hash :: hash
  ss_last_synced_at :: u64
  ss_last_size :: u64

type_synonym sync_state_store = "(string, sync_state_entry) hashmap"

definition sync_state_get :: "sync_state_store \<Rightarrow> string \<Rightarrow> sync_state_entry option" where
  "sync_state_get s n = hm_get s n"

definition sync_state_upsert :: "u64 \<Rightarrow> string \<Rightarrow> hash \<Rightarrow> u64 \<Rightarrow> sync_state_store \<Rightarrow> sync_state_store" where
  "sync_state_upsert clock n h sz s =
     hm_insert n \<lparr>ss_file_name = n, ss_last_synced_hash = h, ss_last_synced_at = clock, ss_last_size = sz\<rparr> s"

definition sync_state_remove :: "string \<Rightarrow> sync_state_store \<Rightarrow> sync_state_store" where
  "sync_state_remove n s = hm_remove n s"

definition sync_state_len :: "sync_state_store \<Rightarrow> nat" where
  "sync_state_len s = hm_len s"

definition sync_state_is_empty :: "sync_state_store \<Rightarrow> bool" where
  "sync_state_is_empty s \<longleftrightarrow> hm_len s = 0"

definition sync_state_list_files :: "sync_state_store \<Rightarrow> string list" where
  "sync_state_list_files s = sort_by name_compare (hm_keys s)"

section \<open>The network\<close>

record sync_env =
  sv_send :: "string \<Rightarrow> bytes \<Rightarrow> string + unit"
  sv_replies :: "bytes \<Rightarrow> bytes list"
  sv_manifest_encode :: "file_manifest \<Rightarrow> string + string"
  sv_manifest_decode :: "string \<Rightarrow> string + file_manifest"
  sv_block_encode :: "string \<Rightarrow> u32 \<Rightarrow> string \<Rightarrow> string"
  sv_block_decode :: "string \<Rightarrow> string + string option"
  sv_hex_encode :: "bytes \<Rightarrow> string"
  sv_hex_decode :: "string \<Rightarrow> string + bytes"
  sv_read :: "string \<Rightarrow> string + unit"
  sv_write :: "string \<Rightarrow> bytes write_answer"
  sv_not_found :: string
  sv_sha256 :: "bytes \<Rightarrow> hash"

text \<open>The sync state, the local files and the messages handed to the VPN so far.\<close>

record sync_world =
  sw_chunker :: chunker
  sw_engine :: block_diff_engine
  sw_state :: sync_state_store
  sw_files :: "string \<Rightarrow> bytes option"
  sw_sent :: "(string \<times> bytes) list"

definition incremental_new :: "(string \<Rightarrow> bytes option) \<Rightarrow> sync_world" where
  "incremental_new files =
     \<lparr>sw_chunker = chunker_new, sw_engine = diff_engine_default, sw_state = hm_empty, sw_files = files, sw_sent = []\<rparr>"

definition incremental_with_chunk_size :: "nat \<Rightarrow> (string \<Rightarrow> bytes option) \<Rightarrow> sync_world" where
  "incremental_with_chunk_size n files =
     (let cs = max n 4096
      in \<lparr>sw_chunker = with_chunk_size cs, sw_engine = diff_engine_new cs, sw_state = hm_empty,
          sw_files = files, sw_sent = []\<rparr>)"

definition vpn_send :: "sync_env \<Rightarrow> string \<Rightarrow> string \<Rightarrow> sync_world \<Rightarrow> sync_world \<times> (string + unit)" where
  "vpn_send env target msg w =
     (case sv_send env target (str_bytes msg) of
        Inl e \<Rightarrow> (w, Inl e)
      | Inr _ \<Rightarrow> (w\<lparr>sw_sent := sw_sent w @ [(target, str_bytes msg)]\<rparr>, Inr ()))"

definition read_file :: "sync_env \<Rightarrow> string \<Rightarrow> sync_world \<Rightarrow> string + bytes" where
  "read_file env path w =
     (case sw_files w path of
        None \<Rightarrow> Inl (sv_not_found env)
      | Some d \<Rightarrow> (case sv_read env path of Inl e \<Rightarrow> Inl e | Inr _ \<Rightarrow> Inr d))"

text \<open>What a listener puts into the channel for a message it gets.\<close>

definition manifest_listener :: "string \<Rightarrow> string \<Rightarrow> bytes \<Rightarrow> string option" where
  "manifest_listener tag n data =
     (case from_utf8 data of
        None \<Rightarrow> None
      | Some msg \<Rightarrow>
          if starts_with msg (''INCR_MANIFEST_RESP:'' @ tag @ '':'')
          then Some (trim_start_matches msg (''INCR_MANIFEST_RESP:'' @ tag @ '':''))
          else if starts_with msg ''INCR_MANIFEST_NONE:'' then
            (if trim_start_matches msg ''INCR_MANIFEST_NONE:'' = n then Some [] else None)
          else None)"

definition block_listener :: "string \<Rightarrow> bytes \<Rightarrow> string option" where
  "block_listener tag data =
     (case from_utf8 data of
        None \<Rightarrow> None
      | Some msg \<Rightarrow>
          if starts_with msg (''INCR_BLOCK_RESP:'' @ tag @ '':'')
          then Some (trim_start_matches msg (''INCR_BLOCK_RESP:'' @ tag @ '':'')) else None)"

text \<open>\<open>recv_timeout\<close>: the first answer, if one comes.\<close>

definition first_answer :: "(bytes \<Rightarrow> string option) \<Rightarrow> bytes list \<Rightarrow> string option" where
  "first_answer listener datas = (case List.map_filter listener datas of [] \<Rightarrow> None | a # _ \<Rightarrow> Some a)"

definition manifest_tag :: "u64 \<Rightarrow> string" where
  "manifest_tag r = ''incr-manifest-'' @ show_word r"

definition block_tag :: "u32 \<Rightarrow> u64 \<Rightarrow> string" where
  "block_tag i r = ''incr-block-'' @ show_word i @ ''-'' @ show_word r"

definition manifest_request :: "u64 \<Rightarrow> string \<Rightarrow> string" where
  "manifest_request r n = ''INCR_GET_MANIFEST:'' @ manifest_tag r @ '':'' @ n"

definition block_request_text :: "u32 \<Rightarrow> u64 \<Rightarrow> string \<Rightarrow> string" where
  "block_request_text i r n = ''INCR_GET_BLOCK:'' @ block_tag i r @ '':'' @ n @ '':'' @ show_word i"

definition request_remote_manifest ::
  "sync_env \<Rightarrow> u64 \<Rightarrow> string \<Rightarrow> string \<Rightarrow> sync_world \<Rightarrow> sync_world \<times> (string + file_manifest)" where
  "request_remote_manifest env r n target w =
     (let tag = manifest_tag r; req = manifest_request r n
      in case vpn_send env target req w of
           (w, Inl e) \<Rightarrow> (w, Inl (''failed to request manifest: '' @ e))
         | (w, Inr _) \<Rightarrow>
             (w, case first_answer (manifest_listener tag n) (sv_replies env (str_bytes req)) of
                   None \<Rightarrow> Inl (''timeout waiting for manifest of '' @ [CHR 0x27] @ n @ [CHR 0x27])
                 | Some resp \<Rightarrow>
                     if resp = [] then
                       Inr \<lparr>fm_file_hash = fill32 0, fm_file_size = 0, fm_chunks = [],
                            fm_chunk_size = of_nat (ck_chunk_size (sw_chunker w))\<rparr>
                     else (case sv_manifest_decode env resp of
                             Inl e \<Rightarrow> Inl (''failed to parse manifest: '' @ e)
                           | Inr m \<Rightarrow> Inr m)))"

definition send_block ::
  "sync_env \<Rightarrow> string \<Rightarrow> string \<Rightarrow> u32 \<Rightarrow> bytes \<Rightarrow> sync_world \<Rightarrow> sync_world \<times> (string + unit)" where
  "send_block env target n i d w =
     (case vpn_send env target (''INCR_BLOCK:'' @ sv_block_encode env n i (sv_hex_encode env d)) w of
        (w, Inl e) \<Rightarrow> (w, Inl (''failed to send block '' @ show_word i @ '': '' @ e))
      | (w, Inr _) \<Rightarrow> (w, Inr ()))"

definition request_block ::
  "sync_env \<Rightarrow> u64 \<Rightarrow> string \<Rightarrow> string \<Rightarrow> u32 \<Rightarrow> sync_world \<Rightarrow> sync_world \<times> (string + bytes)" where
  "request_block env r target n i w =
     (let tag = block_tag i r; req = block_request_text i r n
      in case vpn_send env target req w of
           (w, Inl e) \<Rightarrow> (w, Inl (''failed to request block '' @ show_word i @ '': '' @ e))
         | (w, Inr _) \<Rightarrow>
             (w, case first_answer (block_listener tag) (sv_replies env (str_bytes req)) of
                   None \<Rightarrow> Inl (''timeout waiting for block '' @ show_word i @ '' of '' @ [CHR 0x27] @ n @ [CHR 0x27])
                 | Some resp \<Rightarrow>
                     (case sv_block_decode env resp of
                        Inl e \<Rightarrow> Inl (''invalid block response: '' @ e)
                      | Inr None \<Rightarrow> Inl ''missing data_hex in block response''
                      | Inr (Some hex) \<Rightarrow>
                          (case sv_hex_decode env hex of
                             Inl e \<Rightarrow> Inl (''invalid hex data in block response: '' @ e)
                           | Inr d \<Rightarrow> Inr d))))"

definition send_manifest ::
  "sync_env \<Rightarrow> string \<Rightarrow> string \<Rightarrow> file_manifest \<Rightarrow> sync_world \<Rightarrow> sync_world \<times> (string + unit)" where
  "send_manifest env target n manifest w =
     (case sv_manifest_encode env manifest of
        Inl e \<Rightarrow> (w, Inl (''failed to serialize manifest: '' @ e))
      | Inr json \<Rightarrow>
          (case vpn_send env target (''INCR_MANIFEST:'' @ n @ '':'' @ json) w of
             (w, Inl e) \<Rightarrow> (w, Inl (''failed to send manifest: '' @ e))
           | (w, Inr _) \<Rightarrow> (w, Inr ())))"

section \<open>Upload\<close>

text \<open>
  One changed block of the loop, over the counts so far. The index of an added or modified
  block is in range (lemma \<open>sent_index_in_range\<close>), so the slice access does not panic.
\<close>

definition send_changed ::
  "sync_env \<Rightarrow> string \<Rightarrow> string \<Rightarrow> bytes list \<Rightarrow> block_diff \<Rightarrow> sync_world \<times> (string + u32 \<times> u64)
   \<Rightarrow> sync_world \<times> (string + u32 \<times> u64)" where
  "send_changed env target n chunks b = (\<lambda>(w, acc).
     case acc of
       Inl e \<Rightarrow> (w, Inl e)
     | Inr (sent, bytes) \<Rightarrow>
         (case bd_status b of
            Added \<Rightarrow>
              (case send_block env target n (bd_index b) (chunks ! unat (bd_index b)) w of
                 (w, Inl e) \<Rightarrow> (w, Inl e)
               | (w, Inr _) \<Rightarrow> (w, Inr (sent + 1, bytes + of_nat (length (chunks ! unat (bd_index b))))))
          | Modified \<Rightarrow>
              (case send_block env target n (bd_index b) (chunks ! unat (bd_index b)) w of
                 (w, Inl e) \<Rightarrow> (w, Inl e)
               | (w, Inr _) \<Rightarrow> (w, Inr (sent + 1, bytes + of_nat (length (chunks ! unat (bd_index b))))))
          | _ \<Rightarrow> (w, Inr (sent, bytes))))"

definition upload_changes ::
  "sync_env \<Rightarrow> u64 \<Rightarrow> u64 \<Rightarrow> string \<Rightarrow> string \<Rightarrow> file_manifest \<Rightarrow> bytes list \<Rightarrow> file_diff \<Rightarrow> sync_world
   \<Rightarrow> sync_world \<times> (string + sync_result)" where
  "upload_changes env start finish n target manifest chunks d w =
     (case fold (send_changed env target n chunks) (fd_changed_blocks d) (w, Inr (0, 0)) of
        (w, Inl e) \<Rightarrow> (w, Inl e)
      | (w, Inr (sent, bytes)) \<Rightarrow>
          (case send_manifest env target n manifest w of
             (w, Inl e) \<Rightarrow> (w, Inl e)
           | (w, Inr _) \<Rightarrow>
               (w\<lparr>sw_state := sync_state_upsert finish n (fm_file_hash manifest) (fm_file_size manifest) (sw_state w)\<rparr>,
                Inr \<lparr>sr_total_blocks = of_nat (length (fm_chunks manifest)), sr_transferred_blocks = sent,
                     sr_bytes_transferred = bytes, sr_already_in_sync = False,
                     sr_elapsed_secs = sat_sub finish start\<rparr>)))"

definition sync_file ::
  "sync_env \<Rightarrow> u64 \<Rightarrow> u64 \<Rightarrow> u64 \<Rightarrow> string \<Rightarrow> string \<Rightarrow> sync_world \<Rightarrow> sync_world \<times> (string + sync_result)" where
  "sync_file env start finish r path target w =
     (let n = file_name_of path
      in case read_file env path w of
           Inl e \<Rightarrow> (w, Inl (''failed to read '' @ [CHR 0x27] @ path @ [CHR 0x27] @ '': '' @ e))
         | Inr data \<Rightarrow>
             let (manifest, chunks) = chunk_data (sv_sha256 env) (sw_chunker w) data
             in if (case sync_state_get (sw_state w) n of
                      None \<Rightarrow> False | Some s \<Rightarrow> ss_last_synced_hash s = fm_file_hash manifest)
                then (w, Inr \<lparr>sr_total_blocks = of_nat (length (fm_chunks manifest)), sr_transferred_blocks = 0,
                              sr_bytes_transferred = 0, sr_already_in_sync = True,
                              sr_elapsed_secs = sat_sub finish start\<rparr>)
                else
                  (case request_remote_manifest env r n target w of
                     (w, Inl e) \<Rightarrow> (w, Inl e)
                   | (w, Inr remote) \<Rightarrow>
                       (case diff_files (sv_sha256 env) (sw_engine w) remote data of
                          Inl e \<Rightarrow> (w, Inl (''diff computation failed: '' @ e))
                        | Inr d \<Rightarrow> upload_changes env start finish n target manifest chunks d w)))"

section \<open>Download\<close>

text \<open>The local blocks whose hash is that of the remote block of the same index.\<close>

definition matching_blocks :: "(bytes \<Rightarrow> hash) \<Rightarrow> file_manifest \<Rightarrow> bytes list \<Rightarrow> (u32, bytes) hashmap" where
  "matching_blocks sha256 remote chunks =
     fold (\<lambda>(i, c) m. if i < length (fm_chunks remote) \<and> cm_hash (fm_chunks remote ! i) = sha256 c
                      then hm_insert (of_nat i) c m else m)
       (List.enumerate 0 chunks) hm_empty"

definition indices :: "u32 \<Rightarrow> u32 list" where
  "indices tot = map of_nat [0..<unat tot]"

fun fetch_blocks ::
  "sync_env \<Rightarrow> (u32 \<Rightarrow> u64) \<Rightarrow> string \<Rightarrow> string \<Rightarrow> u32 list \<Rightarrow> sync_world \<Rightarrow> (u32, bytes) hashmap \<Rightarrow> u64
   \<Rightarrow> sync_world \<times> (string + (u32, bytes) hashmap \<times> u64)" where
  "fetch_blocks env rand target path [] w blocks bytes = (w, Inr (blocks, bytes))"
| "fetch_blocks env rand target path (i # js) w blocks bytes =
     (case request_block env (rand i) target path i w of
        (w, Inl e) \<Rightarrow> (w, Inl e)
      | (w, Inr d) \<Rightarrow> fetch_blocks env rand target path js w (hm_insert i d blocks) (bytes + of_nat (length d)))"

fun ordered_chunks :: "u32 list \<Rightarrow> (u32, bytes) hashmap \<Rightarrow> string + bytes list" where
  "ordered_chunks [] blocks = Inr []"
| "ordered_chunks (i # js) blocks =
     (case hm_get blocks i of
        None \<Rightarrow> Inl (''missing block '' @ show_word i @ '' after download '' @ [CHR 0xE2, CHR 0x80, CHR 0x94]
                     @ '' this should not happen'')
      | Some d \<Rightarrow> (case ordered_chunks js (hm_remove i blocks) of Inl e \<Rightarrow> Inl e | Inr ds \<Rightarrow> Inr (d # ds)))"

text \<open>Which blocks are there and which are needed.\<close>

definition local_blocks ::
  "sync_env \<Rightarrow> string \<Rightarrow> file_manifest \<Rightarrow> sync_world \<Rightarrow> string + (u32, bytes) hashmap \<times> u32 list" where
  "local_blocks env path remote w =
     (let tot = of_nat (length (fm_chunks remote))
      in if sw_files w path = None then Inr (hm_empty, indices tot)
         else case read_file env path w of
                Inl e \<Rightarrow> Inl (''failed to read local '' @ [CHR 0x27] @ path @ [CHR 0x27] @ '': '' @ e)
              | Inr data \<Rightarrow>
                  (case diff_files (sv_sha256 env) (sw_engine w) remote data of
                     Inl e \<Rightarrow> Inl (''diff computation failed: '' @ e)
                   | Inr _ \<Rightarrow>
                       let have = matching_blocks (sv_sha256 env) remote
                                    (snd (chunk_data (sv_sha256 env) (sw_chunker w) data))
                       in Inr (have, filter (\<lambda>i. \<not> hm_contains have i) (indices tot))))"

definition assemble_file ::
  "sync_env \<Rightarrow> string \<Rightarrow> file_manifest \<Rightarrow> (u32, bytes) hashmap \<Rightarrow> sync_world \<Rightarrow> sync_world \<times> (string + unit)" where
  "assemble_file env path remote blocks w =
     (case ordered_chunks (indices (of_nat (length (fm_chunks remote)))) blocks of
        Inl e \<Rightarrow> (w, Inl e)
      | Inr ds \<Rightarrow>
          (case reassemble (sv_sha256 env) remote ds of
             Inl e \<Rightarrow> (w, Inl (''reassembly failed: '' @ e))
           | Inr restored \<Rightarrow>
               (case fs_write (sv_write env) path restored (sw_files w) of
                  (files, Inl e) \<Rightarrow>
                    (w\<lparr>sw_files := files\<rparr>, Inl (''failed to write '' @ [CHR 0x27] @ path @ [CHR 0x27] @ '': '' @ e))
                | (files, Inr _) \<Rightarrow> (w\<lparr>sw_files := files\<rparr>, Inr ()))))"

definition download_file ::
  "sync_env \<Rightarrow> u64 \<Rightarrow> u64 \<Rightarrow> u64 \<Rightarrow> (u32 \<Rightarrow> u64) \<Rightarrow> string \<Rightarrow> string \<Rightarrow> string \<Rightarrow> sync_world
   \<Rightarrow> sync_world \<times> (string + sync_result)" where
  "download_file env start finish r rand target remote_path path w =
     (case request_remote_manifest env r remote_path target w of
        (w, Inl e) \<Rightarrow> (w, Inl e)
      | (w, Inr remote) \<Rightarrow>
          (case local_blocks env path remote w of
             Inl e \<Rightarrow> (w, Inl e)
           | Inr (have, need) \<Rightarrow>
               (case fetch_blocks env rand target remote_path need w have 0 of
                  (w, Inl e) \<Rightarrow> (w, Inl e)
                | (w, Inr (blocks, bytes)) \<Rightarrow>
                    (case assemble_file env path remote blocks w of
                       (w, Inl e) \<Rightarrow> (w, Inl e)
                     | (w, Inr _) \<Rightarrow>
                         (w\<lparr>sw_state := sync_state_upsert finish (file_name_of remote_path) (fm_file_hash remote)
                                          (fm_file_size remote) (sw_state w)\<rparr>,
                          Inr \<lparr>sr_total_blocks = of_nat (length (fm_chunks remote)),
                               sr_transferred_blocks = of_nat (length need), sr_bytes_transferred = bytes,
                               sr_already_in_sync = (need = []), sr_elapsed_secs = sat_sub finish start\<rparr>)))))"

definition needs_sync :: "sync_env \<Rightarrow> string \<Rightarrow> sync_world \<Rightarrow> string + bool" where
  "needs_sync env path w =
     (case read_file env path w of
        Inl e \<Rightarrow> Inl (''failed to read '' @ [CHR 0x27] @ path @ [CHR 0x27] @ '': '' @ e)
      | Inr data \<Rightarrow>
          (case sync_state_get (sw_state w) (file_name_of path) of
             None \<Rightarrow> Inr True
           | Some s \<Rightarrow> Inr (ss_last_synced_hash s \<noteq> sv_sha256 env data)))"

definition set_sync_state :: "sync_state_store \<Rightarrow> sync_world \<Rightarrow> sync_world" where
  "set_sync_state s w = w\<lparr>sw_state := s\<rparr>"

section \<open>What a download leaves on disk\<close>

lemma vpn_send_world: "\<exists>s. fst (vpn_send env target msg w) = w\<lparr>sw_sent := s\<rparr>"
  by (cases "sv_send env target (str_bytes msg)") (auto simp: vpn_send_def intro: exI [of _ "sw_sent w"])

lemma request_manifest_world: "\<exists>s. fst (request_remote_manifest env r n target w) = w\<lparr>sw_sent := s\<rparr>"
  using vpn_send_world [of env target _ w]
  by (auto simp: request_remote_manifest_def Let_def split_beta split: sum.split)

lemma request_block_world: "\<exists>s. fst (request_block env r target n i w) = w\<lparr>sw_sent := s\<rparr>"
  using vpn_send_world [of env target _ w]
  by (auto simp: request_block_def Let_def split_beta split: sum.split)

lemma fetch_blocks_world: "\<exists>s. fst (fetch_blocks env rand target n js w blocks bytes) = w\<lparr>sw_sent := s\<rparr>"
proof (induction js arbitrary: w blocks bytes)
  case Nil
  show ?case by (auto intro: exI [of _ "sw_sent w"])
next
  case (Cons i js)
  obtain s where s: "fst (request_block env (rand i) target n i w) = w\<lparr>sw_sent := s\<rparr>"
    using request_block_world by blast
  show ?case
  proof (cases "snd (request_block env (rand i) target n i w)")
    case (Inl e)
    with s show ?thesis by (auto simp: split_beta)
  next
    case (Inr d)
    obtain s' where "fst (fetch_blocks env rand target n js (w\<lparr>sw_sent := s\<rparr>) (hm_insert i d blocks) (bytes + of_nat (length d)))
        = w\<lparr>sw_sent := s, sw_sent := s'\<rparr>" using Cons.IH by blast
    with s Inr show ?thesis by (auto simp: split_beta)
  qed
qed

lemma reassemble_hash: "reassemble h m ds = Inr data \<Longrightarrow> h data = fm_file_hash m"
  by (auto simp: reassemble_def Let_def split: if_splits option.splits)

lemma assemble_file_world:
  "case assemble_file env path remote blocks w of
     (w', Inl e) \<Rightarrow> \<exists>c. w' = w\<lparr>sw_files := (sw_files w)(path := c)\<rparr> \<and> (sv_write env path = Inr () \<longrightarrow> w' = w)
   | (w', Inr _) \<Rightarrow> \<exists>data. w' = w\<lparr>sw_files := (sw_files w)(path \<mapsto> data)\<rparr> \<and> sv_sha256 env data = fm_file_hash remote"
proof -
  have keep: "\<exists>c. w = w\<lparr>sw_files := (sw_files w)(path := c)\<rparr>" by (rule exI [of _ "sw_files w path"]) simp
  show ?thesis
    by (auto simp: assemble_file_def fs_write_def dest: reassemble_hash intro: keep split: sum.split)
qed

lemma download_file_Inr:
  assumes "download_file env start finish r rand target remote_path path w = (w', Inr res)"
  obtains w1 remote hv need w2 blocks bytes w3 where
    "request_remote_manifest env r remote_path target w = (w1, Inr remote)"
    "local_blocks env path remote w1 = Inr (hv, need)"
    "fetch_blocks env rand target remote_path need w1 hv 0 = (w2, Inr (blocks, bytes))"
    "assemble_file env path remote blocks w2 = (w3, Inr ())"
    "w' = w3\<lparr>sw_state := sync_state_upsert finish (file_name_of remote_path) (fm_file_hash remote)
             (fm_file_size remote) (sw_state w3)\<rparr>"
    "res = \<lparr>sr_total_blocks = of_nat (length (fm_chunks remote)), sr_transferred_blocks = of_nat (length need),
            sr_bytes_transferred = bytes, sr_already_in_sync = (need = []), sr_elapsed_secs = sat_sub finish start\<rparr>"
  using assms unfolding download_file_def by (auto split: prod.splits sum.splits)

lemma download_file_Inl:
  assumes "download_file env start finish r rand target remote_path path w = (w', Inl e)"
  shows "\<exists>s c. w' = w\<lparr>sw_sent := s, sw_files := (sw_files w)(path := c)\<rparr>
    \<and> (sv_write env path = Inr () \<longrightarrow> w' = w\<lparr>sw_sent := s\<rparr>)"
proof -
  obtain w1 m where 1: "request_remote_manifest env r remote_path target w = (w1, m)" by force
  then obtain s1 where w1: "w1 = w\<lparr>sw_sent := s1\<rparr>" by (metis fst_conv request_manifest_world)
  have f: "\<exists>s. fst (fetch_blocks env rand target remote_path need w1 hv 0) = w\<lparr>sw_sent := s\<rparr>" for need hv
    using fetch_blocks_world [where env = env and rand = rand and target = target and n = remote_path and js = need and w = w1 and blocks = hv and bytes = 0] w1 by auto
  have a: "\<exists>c. w3 = w2\<lparr>sw_files := (sw_files w2)(path := c)\<rparr> \<and> (sv_write env path = Inr () \<longrightarrow> w3 = w2)"
    if "assemble_file env path remote blocks w2 = (w3, Inl e')" for remote blocks w2 w3 e'
    using assemble_file_world [where env = env and path = path and remote = remote and blocks = blocks and w = w2] that by simp
  have sent_only: ?thesis if "w' = w\<lparr>sw_sent := s\<rparr>" for s
    using that by (intro exI [of _ s] exI [of _ "sw_files w path"]) simp
  from assms consider s where "w' = w\<lparr>sw_sent := s\<rparr>"
    | remote hv need w2 blocks b e' where "fetch_blocks env rand target remote_path need w1 hv 0 = (w2, Inr (blocks, b))"
        "assemble_file env path remote blocks w2 = (w', Inl e')"
    unfolding download_file_def 1 using f w1
    by (auto split: sum.splits prod.splits) (metis fst_conv)+
  then show ?thesis
  proof cases
    case (2 remote hv need w2 blocks b e')
    obtain s where "w2 = w\<lparr>sw_sent := s\<rparr>" using f [of need hv] 2(1) by auto
    with a [OF 2(2)] show ?thesis by auto
  qed (rule sent_only)
qed

text \<open>A download that fails leaves the sync state and every other file, and the local file too
  unless its writing was what failed; one that succeeds changes the local file only, and its
  hash is that of the remote manifest.\<close>

theorem download_all_or_nothing:
  assumes "download_file env start finish r rand target remote_path path w = (w', res)"
  shows "case res of
           Inl e \<Rightarrow> sw_state w' = sw_state w \<and> (\<forall>p. p \<noteq> path \<or> sv_write env path = Inr () \<longrightarrow> sw_files w' p = sw_files w p)
         | Inr _ \<Rightarrow> \<exists>remote data. snd (request_remote_manifest env r remote_path target w) = Inr remote
                   \<and> sw_files w' = (sw_files w)(path \<mapsto> data) \<and> sv_sha256 env data = fm_file_hash remote"
proof (cases res)
  case (Inl e)
  with download_file_Inl assms show ?thesis by fastforce
next
  case (Inr r')
  with assms have "download_file env start finish r rand target remote_path path w = (w', Inr r')" by simp
  then obtain w1 remote hv need w2 blocks bytes w3 where d:
    "request_remote_manifest env r remote_path target w = (w1, Inr remote)"
    "fetch_blocks env rand target remote_path need w1 hv 0 = (w2, Inr (blocks, bytes))"
    "assemble_file env path remote blocks w2 = (w3, Inr ())"
    "w' = w3\<lparr>sw_state := sync_state_upsert finish (file_name_of remote_path) (fm_file_hash remote)
             (fm_file_size remote) (sw_state w3)\<rparr>" by (rule download_file_Inr)
  have "sw_files w2 = sw_files w"
    using request_manifest_world [of env r remote_path target w] fetch_blocks_world [where env = env and rand = rand and target = target and n = remote_path and js = need and w = w1 and blocks = hv and bytes = 0] d(1,2)
    by auto
  moreover obtain data where "w3 = w2\<lparr>sw_files := (sw_files w2)(path \<mapsto> data)\<rparr>" "sv_sha256 env data = fm_file_hash remote"
    using assemble_file_world [where env = env and path = path and remote = remote and blocks = blocks and w = w2] d(3) by auto
  ultimately show ?thesis using d(1,4) Inr by auto
qed

section \<open>Messages on the wire\<close>

lemma ascii_tags [simp]: "ascii (manifest_tag r)" "ascii (block_tag i r)"
  by (simp_all add: manifest_tag_def block_tag_def show_word_def)

lemma manifest_listener_resp:
  assumes "utf8_valid (str_bytes s)" and "\<not> starts_with s ''INCR_MANIFEST_RESP:''"
  shows "manifest_listener (manifest_tag r) n (str_bytes (''INCR_MANIFEST_RESP:'' @ manifest_tag r @ '':'' @ s)) = Some s"
proof -
  let ?p = "''INCR_MANIFEST_RESP:'' @ manifest_tag r @ '':''"
  have a: "ascii ?p" by simp
  have "utf8_valid (str_bytes (?p @ s))" by (simp only: utf8_ascii_append [OF a] assms(1))
  then have d: "from_utf8 (str_bytes (?p @ s)) = Some (?p @ s)" by (rule from_utf8_str_bytes)
  have "\<not> starts_with s ?p" using assms(2) starts_with_longer by metis
  then have t: "trim_start_matches (?p @ s) ?p = s" by (intro trim_once) simp_all
  have m: "''INCR_MANIFEST_RESP:'' @ manifest_tag r @ '':'' @ s = ?p @ s" by (simp only: append_assoc)
  show ?thesis unfolding manifest_listener_def m d option.case t starts_with_append by (rule if_P) (rule starts_with_append)
qed

lemma block_listener_resp:
  assumes "utf8_valid (str_bytes s)" and "\<not> starts_with s ''INCR_BLOCK_RESP:''"
  shows "block_listener (block_tag i r) (str_bytes (''INCR_BLOCK_RESP:'' @ block_tag i r @ '':'' @ s)) = Some s"
proof -
  let ?p = "''INCR_BLOCK_RESP:'' @ block_tag i r @ '':''"
  have a: "ascii ?p" by simp
  have "utf8_valid (str_bytes (?p @ s))" by (simp only: utf8_ascii_append [OF a] assms(1))
  then have d: "from_utf8 (str_bytes (?p @ s)) = Some (?p @ s)" by (rule from_utf8_str_bytes)
  have "\<not> starts_with s ?p" using assms(2) starts_with_longer by metis
  then have t: "trim_start_matches (?p @ s) ?p = s" by (intro trim_once) simp_all
  have m: "''INCR_BLOCK_RESP:'' @ block_tag i r @ '':'' @ s = ?p @ s" by (simp only: append_assoc)
  show ?thesis unfolding block_listener_def m d option.case t starts_with_append by (rule if_P) (rule starts_with_append)
qed

section \<open>A download restores the remote file\<close>

text \<open>
  A peer that serves the file \<open>n\<close> as the manifest \<open>remote\<close> and the blocks \<open>cs\<close>: it answers
  the requests with the tags \<open>r\<close> and \<open>rand i\<close> by texts that JSON and hexadecimal decode.
\<close>

definition serves :: "sync_env \<Rightarrow> u64 \<Rightarrow> (u32 \<Rightarrow> u64) \<Rightarrow> string \<Rightarrow> string \<Rightarrow> file_manifest \<Rightarrow> bytes list \<Rightarrow> bool" where
  "serves env r rand target n remote cs \<longleftrightarrow>
     (\<forall>msg. sv_send env target msg = Inr ())
     \<and> (\<exists>s. s \<noteq> [] \<and> utf8_valid (str_bytes s) \<and> \<not> starts_with s ''INCR_MANIFEST_RESP:''
          \<and> sv_replies env (str_bytes (manifest_request r n))
            = [str_bytes (''INCR_MANIFEST_RESP:'' @ manifest_tag r @ '':'' @ s)]
          \<and> sv_manifest_decode env s = Inr remote)
     \<and> (\<forall>i < length cs. let j = of_nat i in
          \<exists>s hex. utf8_valid (str_bytes s) \<and> \<not> starts_with s ''INCR_BLOCK_RESP:''
            \<and> sv_replies env (str_bytes (block_request_text j (rand j) n))
              = [str_bytes (''INCR_BLOCK_RESP:'' @ block_tag j (rand j) @ '':'' @ s)]
            \<and> sv_block_decode env s = Inr (Some hex) \<and> sv_hex_decode env hex = Inr (cs ! i))"

lemma first_answer_one: "f d = Some a \<Longrightarrow> first_answer f [d] = Some a"
  by (simp add: first_answer_def List.map_filter_def)

lemma serves_manifest:
  assumes "serves env r rand target n remote cs"
  shows "request_remote_manifest env r n target w
    = (w\<lparr>sw_sent := sw_sent w @ [(target, str_bytes (manifest_request r n))]\<rparr>, Inr remote)"
proof -
  from assms obtain s where s: "s \<noteq> []" "utf8_valid (str_bytes s)" "\<not> starts_with s ''INCR_MANIFEST_RESP:''"
      "sv_replies env (str_bytes (manifest_request r n)) = [str_bytes (''INCR_MANIFEST_RESP:'' @ manifest_tag r @ '':'' @ s)]"
      "sv_manifest_decode env s = Inr remote" and "\<And>msg. sv_send env target msg = Inr ()"
    unfolding serves_def by blast
  moreover note first_answer_one [of "manifest_listener (manifest_tag r) n", OF manifest_listener_resp [OF s(2,3)]]
  ultimately show ?thesis
    by (auto simp: request_remote_manifest_def Let_def vpn_send_def)
qed

lemma serves_block:
  assumes "serves env r rand target n remote cs" and "unat j < length cs"
  shows "request_block env (rand j) target n j w
    = (w\<lparr>sw_sent := sw_sent w @ [(target, str_bytes (block_request_text j (rand j) n))]\<rparr>, Inr (cs ! unat j))"
proof -
  have "of_nat (unat j) = j" by simp
  with assms obtain s hex where s: "utf8_valid (str_bytes s)" "\<not> starts_with s ''INCR_BLOCK_RESP:''"
      "sv_replies env (str_bytes (block_request_text j (rand j) n)) = [str_bytes (''INCR_BLOCK_RESP:'' @ block_tag j (rand j) @ '':'' @ s)]"
      "sv_block_decode env s = Inr (Some hex)" "sv_hex_decode env hex = Inr (cs ! unat j)"
      and "\<And>msg. sv_send env target msg = Inr ()"
    unfolding serves_def Let_def by metis
  moreover note first_answer_one [of "block_listener (block_tag j (rand j))", OF block_listener_resp [OF s(1,2)]]
  ultimately show ?thesis
    by (auto simp: request_block_def Let_def vpn_send_def)
qed

lemma fetch_blocks_served:
  assumes "serves env r rand target n remote cs" and "\<forall>j \<in> set js. unat j < length cs"
  shows "\<exists>m b. fetch_blocks env rand target n js w hv bytes
        = (w\<lparr>sw_sent := sw_sent w @ map (\<lambda>j. (target, str_bytes (block_request_text j (rand j) n))) js\<rparr>, Inr (m, b))
    \<and> (\<forall>j. hm_get m j = (if j \<in> set js then Some (cs ! unat j) else hm_get hv j))"
  using assms(2)
proof (induction js arbitrary: w hv bytes)
  case Nil
  show ?case by (auto intro: exI [of _ "sw_sent w"])
next
  case (Cons j js)
  let ?s = "sw_sent w @ [(target, str_bytes (block_request_text j (rand j) n))]"
  have s: "request_block env (rand j) target n j w = (w\<lparr>sw_sent := ?s\<rparr>, Inr (cs ! unat j))"
    using Cons.prems by (intro serves_block [OF assms(1)]) simp
  obtain m b where m: "fetch_blocks env rand target n js (w\<lparr>sw_sent := ?s\<rparr>) (hm_insert j (cs ! unat j) hv)
        (bytes + of_nat (length (cs ! unat j)))
      = (w\<lparr>sw_sent := ?s, sw_sent := ?s @ map (\<lambda>j. (target, str_bytes (block_request_text j (rand j) n))) js\<rparr>, Inr (m, b))"
      "\<forall>i. hm_get m i = (if i \<in> set js then Some (cs ! unat i) else hm_get (hm_insert j (cs ! unat j) hv) i)"
    using Cons.IH [of "w\<lparr>sw_sent := ?s\<rparr>"] Cons.prems by force
  then show ?case by (auto simp: s hm_simps)
qed

lemma ordered_chunks_all:
  assumes "distinct js" and "\<forall>j \<in> set js. hm_get m j = Some (f j)"
  shows "ordered_chunks js m = Inr (map f js)"
  using assms
proof (induction js arbitrary: m)
  case (Cons j js)
  have "ordered_chunks js (hm_remove j m) = Inr (map f js)"
    using Cons.prems by (intro Cons.IH) (auto simp: hm_simps)
  with Cons.prems show ?case by simp
qed simp

lemma unat_small: "k < 2 ^ 32 \<Longrightarrow> unat (of_nat k :: u32) = k"
  by (simp add: unat_of_nat take_bit_nat_eq_self)

lemma indices_eq: "k < 2 ^ 32 \<Longrightarrow> indices (of_nat k) = map of_nat [0..<k]"
  by (simp add: indices_def unat_small)

lemma matching_blocks_get:
  assumes "length chunks \<le> 2 ^ 32"
  shows "hm_get (matching_blocks h remote chunks) j =
    (if unat j < length chunks \<and> unat j < length (fm_chunks remote) \<and> cm_hash (fm_chunks remote ! unat j) = h (chunks ! unat j)
     then Some (chunks ! unat j) else None)"
  using assms
proof (induction chunks rule: rev_induct)
  case Nil
  show ?case by (simp add: matching_blocks_def hm_simps)
next
  case (snoc c chunks)
  let ?k = "length chunks"
  have k: "unat (of_nat ?k :: u32) = ?k" using snoc.prems by (intro unat_small) simp
  have step: "matching_blocks h remote (chunks @ [c]) =
      (if ?k < length (fm_chunks remote) \<and> cm_hash (fm_chunks remote ! ?k) = h c
       then hm_insert (of_nat ?k) c (matching_blocks h remote chunks) else matching_blocks h remote chunks)"
    by (simp add: matching_blocks_def enumerate_append_eq)
  have "of_nat (unat j) = j" by simp
  with k have "j = of_nat ?k \<longleftrightarrow> unat j = ?k" by metis
  with snoc step show ?case by (auto simp: hm_simps nth_append less_Suc_eq)
qed

text \<open>The chunker and the diff engine of an instance use the same block size.\<close>

definition sync_ok :: "sync_world \<Rightarrow> bool" where
  "sync_ok w \<longleftrightarrow> 0 < ck_chunk_size (sw_chunker w) \<and> ck_chunk_size (sw_chunker w) < 2 ^ 64
     \<and> de_chunk_size (sw_engine w) = ck_chunk_size (sw_chunker w)"

lemma sync_ok_new: "sync_ok (incremental_new files)" "k < 2 ^ 64 \<Longrightarrow> sync_ok (incremental_with_chunk_size k files)"
  by (simp_all add: sync_ok_def incremental_new_def chunker_new_def diff_engine_default_def default_chunk_size_def
      incremental_with_chunk_size_def with_chunk_size_def diff_engine_new_def min_diff_chunk_size_def Let_def)

lemma diff_same_size:
  assumes "sync_ok w"
  shows "\<exists>d. diff_files h (sw_engine w) (fst (chunk_data h (sw_chunker w) data)) local = Inr d"
proof -
  have "unat (of_nat (ck_chunk_size (sw_chunker w)) :: u64) = ck_chunk_size (sw_chunker w)"
    using assms by (simp add: sync_ok_def unat_of_nat take_bit_nat_eq_self)
  then show ?thesis using assms
    by (auto simp: sync_ok_def diff_files_def chunk_data_facts Let_def split: prod.split)
qed

text \<open>Whether the local file already holds the block of index \<open>i\<close> of \<open>data\<close>.\<close>

definition holds_block :: "nat \<Rightarrow> bytes option \<Rightarrow> bytes \<Rightarrow> nat \<Rightarrow> bool" where
  "holds_block k local data i \<longleftrightarrow>
     (case local of None \<Rightarrow> False | Some old \<Rightarrow> i < block_count k old \<and> block_at k old i = block_at k data i)"

lemma local_blocks_served:
  assumes w: "sync_ok w" "sv_read env path = Inr ()"
    and k: "k = ck_chunk_size (sw_chunker w)" and n: "n = block_count k data"
    and small: "n < 2 ^ 32" "\<And>old. sw_files w path = Some old \<Longrightarrow> block_count k old < 2 ^ 32"
    and inj: "\<And>old i. sw_files w path = Some old \<Longrightarrow> sv_sha256 env (block_at k old i) = sv_sha256 env (block_at k data i)
                \<Longrightarrow> block_at k old i = block_at k data i"
  shows "\<exists>hv. local_blocks env path (fst (chunk_data (sv_sha256 env) (sw_chunker w) data)) w
      = Inr (hv, map of_nat (filter (\<lambda>i. \<not> holds_block k (sw_files w path) data i) [0..<n]))
    \<and> (\<forall>i < n. hm_get hv (of_nat i) = (if holds_block k (sw_files w path) data i then Some (block_at k data i) else None))"
proof (cases "sw_files w path")
  case None
  then show ?thesis
    using small(1) by (simp add: local_blocks_def Let_def chunk_data_facts k n indices_eq holds_block_def hm_simps)
next
  case (Some old)
  let ?r = "fst (chunk_data (sv_sha256 env) (sw_chunker w) data)"
  let ?hv = "matching_blocks (sv_sha256 env) ?r (snd (chunk_data (sv_sha256 env) (sw_chunker w) old))"
  have get: "hm_get ?hv (of_nat i) = (if holds_block k (sw_files w path) data i then Some (block_at k data i) else None)"
    if "i < n" for i
    using that small(1) small(2) [OF Some] inj [OF Some, of i] n
    by (subst matching_blocks_get) (auto simp: chunk_data_facts k [symmetric] unat_small holds_block_def Some)
  have "filter (\<lambda>i. \<not> hm_contains ?hv i) (indices (of_nat (length (fm_chunks ?r))))
      = map of_nat (filter (\<lambda>i. \<not> holds_block k (sw_files w path) data i) [0..<n])"
    using small(1) get
    by (auto simp: chunk_data_facts k [symmetric] n [symmetric] indices_eq filter_map hm_contains_def
        intro!: arg_cong [where f = "map of_nat"] filter_cong)
  moreover obtain d where "diff_files (sv_sha256 env) (sw_engine w) ?r old = Inr d"
    using diff_same_size [OF w(1)] by blast
  ultimately show ?thesis
    using get by (auto simp: local_blocks_def read_file_def Some w(2) Let_def)
qed


text \<open>A peer with the file \<open>[1, 2, 3]\<close> in blocks of two bytes, for the example.\<close>

definition demo_hash :: "bytes \<Rightarrow> hash" where
  "demo_hash bs = fill32 (sum_list bs + 20 * of_nat (length bs))"

definition demo_env :: sync_env where
  "demo_env =
     \<lparr>sv_send = \<lambda>_ _. Inr (),
      sv_replies = \<lambda>req.
        if req = str_bytes (manifest_request 7 ''f'')
        then [str_bytes (''INCR_MANIFEST_RESP:'' @ manifest_tag 7 @ '':'' @ ''M'')]
        else if req = str_bytes (block_request_text 0 5 ''f'')
        then [str_bytes (''INCR_BLOCK_RESP:'' @ block_tag 0 5 @ '':'' @ ''A'')]
        else [str_bytes (''INCR_BLOCK_RESP:'' @ block_tag 1 5 @ '':'' @ ''B'')],
      sv_manifest_encode = \<lambda>_. Inr ''M'',
      sv_manifest_decode = \<lambda>_. Inr (fst (chunk_data demo_hash \<lparr>ck_chunk_size = 2\<rparr> [1, 2, 3])),
      sv_block_encode = \<lambda>n i hex. hex, sv_block_decode = \<lambda>s. Inr (Some s),
      sv_hex_encode = \<lambda>bs. ''H'', sv_hex_decode = \<lambda>s. Inr (if s = ''A'' then [1, 2] else [3]),
      sv_read = \<lambda>_. Inr (), sv_write = \<lambda>_. Inr (), sv_not_found = ''not found'', sv_sha256 = demo_hash\<rparr>"

definition demo_world :: "bytes option \<Rightarrow> sync_world" where
  "demo_world local =
     \<lparr>sw_chunker = \<lparr>ck_chunk_size = 2\<rparr>, sw_engine = \<lparr>de_chunk_size = 2\<rparr>, sw_state = hm_empty,
      sw_files = [''p'' \<mapsto> [1, 2, 3]](''q'' := local), sw_sent = []\<rparr>"

lemma demo_requests:
  "str_bytes (block_request_text i r n) \<noteq> str_bytes (manifest_request r' n')"
  "str_bytes (block_request_text 1 5 ''f'') \<noteq> str_bytes (block_request_text 0 5 ''f'')"
  by (simp_all add: str_bytes_def manifest_request_def block_request_text_def block_tag_def show_word_def show_nat.simps)

lemma demo_chunks: "chunk_data demo_hash \<lparr>ck_chunk_size = 2\<rparr> [1, 2, 3]
    = (fst (chunk_data demo_hash \<lparr>ck_chunk_size = 2\<rparr> [1, 2, 3]), [[1, 2], [3]])"
  by (simp add: chunk_data_def Let_def block_count_def div_ceil_def block_at_take upt_conv_Cons)

lemma demo_serves:
  "serves demo_env 7 (\<lambda>_. 5) ''t'' ''f'' (fst (chunk_data demo_hash \<lparr>ck_chunk_size = 2\<rparr> [1, 2, 3])) [[1, 2], [3]]"
  unfolding serves_def Let_def
proof (intro conjI allI impI exI)
  show "sv_replies demo_env (str_bytes (manifest_request 7 ''f'')) = [str_bytes (''INCR_MANIFEST_RESP:'' @ manifest_tag 7 @ '':'' @ ''M'')]"
    by (simp add: demo_env_def)
  fix i :: nat
  assume "i < length [[1, 2], [3 :: byte]]"
  then have i: "i = 0 \<or> i = 1" by auto
  let ?s = "if i = 0 then ''A'' else ''B''"
  show "sv_replies demo_env (str_bytes (block_request_text (of_nat i) 5 ''f''))
      = [str_bytes (''INCR_BLOCK_RESP:'' @ block_tag (of_nat i) 5 @ '':'' @ ?s)]"
    using i demo_requests by (auto simp: demo_env_def)
  show "sv_block_decode demo_env ?s = Inr (Some ?s)" "sv_hex_decode demo_env ?s = Inr ([[1, 2], [3]] ! i)"
    using i by (auto simp: demo_env_def)
  show "utf8_valid (str_bytes ?s)" "\<not> starts_with ?s ''INCR_BLOCK_RESP:''"
    by (auto simp: starts_with_def intro!: utf8_ascii)
qed (auto simp: demo_env_def starts_with_def intro!: utf8_ascii)


theorem download_all_or_nothing_witness:
  "let w = demo_world (Some [9]); env = demo_env\<lparr>sv_replies := \<lambda>_. []\<rparr>;
       (w', res) = download_file env 10 12 7 (\<lambda>_. 5) ''t'' ''f'' ''q'' w
   in (\<exists>e. res = Inl e) \<and> sw_files w' ''q'' = Some [9]"
proof -
  let ?env = "demo_env\<lparr>sv_replies := \<lambda>_. []\<rparr>" and ?w = "demo_world (Some [9])"
  obtain w' e where d: "download_file ?env 10 12 7 (\<lambda>_. 5) ''t'' ''f'' ''q'' ?w = (w', Inl e)"
    by (simp add: download_file_def request_remote_manifest_def vpn_send_def demo_env_def first_answer_def Let_def
        List.map_filter_def)
  have "sv_write demo_env ''q'' = Inr ()" by (simp add: demo_env_def)
  with download_all_or_nothing [OF d] d show ?thesis by (simp add: demo_world_def)
qed

section \<open>What an upload sends\<close>

text \<open>The messages of the blocks to send.\<close>

definition needs_sending :: "block_diff \<Rightarrow> bool" where
  "needs_sending b \<longleftrightarrow> bd_status b = Added \<or> bd_status b = Modified"

definition expected_block_message :: "sync_env \<Rightarrow> string \<Rightarrow> string \<Rightarrow> u32 \<Rightarrow> bytes \<Rightarrow> string \<times> bytes" where
  "expected_block_message env target n i d =
     (target, str_bytes (''INCR_BLOCK:'' @ sv_block_encode env n i (sv_hex_encode env d)))"

lemma send_changed_error: "snd (fold (send_changed env target n chunks) bs (w, Inl e)) = Inl e"
  by (induction bs arbitrary: w) (simp_all add: send_changed_def)

lemma send_changed_Inr:
  assumes "fold (send_changed env target n chunks) bs (w, Inr (a, b)) = (w', Inr (a', b'))"
  shows "w' = w\<lparr>sw_sent := sw_sent w
           @ map (\<lambda>d. expected_block_message env target n (bd_index d) (chunks ! unat (bd_index d))) (filter needs_sending bs)\<rparr>
    \<and> a' = a + of_nat (length (filter needs_sending bs))"
  using assms
proof (induction bs arbitrary: w a b)
  case (Cons d bs)
  let ?c = "chunks ! unat (bd_index d)"
  show ?case
  proof (cases "needs_sending d")
    case False
    then have "send_changed env target n chunks d (w, Inr (a, b)) = (w, Inr (a, b))"
      by (cases "bd_status d") (simp_all add: send_changed_def needs_sending_def)
    with Cons False show ?thesis by simp
  next
    case True
    have step: "send_changed env target n chunks d (w, Inr (a, b)) =
        (case send_block env target n (bd_index d) ?c w of
           (w, Inl e) \<Rightarrow> (w, Inl e)
         | (w, Inr _) \<Rightarrow> (w, Inr (a + 1, b + of_nat (length ?c))))"
      using True by (auto simp: send_changed_def needs_sending_def)
    show ?thesis
    proof (cases "snd (send_block env target n (bd_index d) ?c w)")
      case (Inl e)
      then have "snd (fold (send_changed env target n chunks) (d # bs) (w, Inr (a, b))) = Inl e"
        by (simp add: step split_beta send_changed_error)
      with Cons.prems show ?thesis by simp
    next
      case (Inr u)
      then have "send_block env target n (bd_index d) ?c w
          = (w\<lparr>sw_sent := sw_sent w @ [expected_block_message env target n (bd_index d) ?c]\<rparr>, Inr ())"
        by (auto simp: send_block_def vpn_send_def expected_block_message_def split: sum.splits)
      with Cons.IH [of "w\<lparr>sw_sent := sw_sent w @ [expected_block_message env target n (bd_index d) ?c]\<rparr>" "a + 1" "b + of_nat (length ?c)"]
      show ?thesis using Cons.prems True by (simp add: step)
    qed
  qed
qed simp

text \<open>The changed blocks of a difference that have to be sent, by their indices.\<close>

lemma needed_block:
  assumes "i < length remote \<or> i < block_count n data"
  shows "map bd_index (filter needs_sending (block_change h n remote data i))
    = (if i < block_count n data \<and> \<not> (i < length remote \<and> h (block_at n data i) = cm_hash (remote ! i)) then [of_nat i] else [])"
  using assms by (auto simp: block_change_def diff_step_def Let_def needs_sending_def)

lemma needed_blocks:
  assumes "\<forall>i \<in> set is. i < length remote \<or> i < block_count n data"
  shows "map bd_index (filter needs_sending (concat (map (block_change h n remote data) is)))
   = map of_nat (filter (\<lambda>i. i < block_count n data \<and> \<not> (i < length remote \<and> h (block_at n data i) = cm_hash (remote ! i))) is)"
  using assms by (induction "is") (simp_all add: needed_block)

lemma diff_files_changed:
  assumes "diff_files h engine remote data = Inr d" and "h data \<noteq> fm_file_hash remote"
  shows "fd_changed_blocks d
    = concat (map (block_change h (de_chunk_size engine) (fm_chunks remote) data)
        [0..<unat (max (of_nat (length (fm_chunks remote)) :: u32) (of_nat (block_count (de_chunk_size engine) data)))])"
  using assms diff_loop_fst [of h "de_chunk_size engine" "fm_chunks remote" data _ "([], 0)"]
  by (auto simp: diff_files_def Let_def split: if_splits prod.splits) (metis fst_conv)

lemma filter_upt_below: "filter (\<lambda>i. i < m \<and> P i) [0..<max k m] = filter P [0..<m]"
proof -
  have "[0..<max k m] = [0..<m] @ [m..<max k m]" by (metis le0 max.cobounded2 upt_add_eq_append le_add_diff_inverse)
  then show ?thesis by (auto simp: filter_empty_conv intro!: filter_cong)
qed

text \<open>The indices that are sent; all of them are blocks of the local file, so the slice
  access does not panic.\<close>

lemma sent_indices:
  assumes d: "diff_files h engine remote data = Inr d" "h data \<noteq> fm_file_hash remote"
    and n: "n = de_chunk_size engine"
    and small: "length (fm_chunks remote) < 2 ^ 32" "block_count n data < 2 ^ 32"
  shows "map bd_index (filter needs_sending (fd_changed_blocks d))
    = map of_nat (filter (\<lambda>i. \<not> (i < length (fm_chunks remote) \<and> h (block_at n data i) = cm_hash (fm_chunks remote ! i)))
        [0..<block_count n data])"
proof -
  let ?top = "max (length (fm_chunks remote)) (block_count n data)"
  have "unat (max (of_nat (length (fm_chunks remote)) :: u32) (of_nat (block_count n data))) = ?top"
    using small by (auto simp: max_def word_le_nat_alt unat_small)
  then have "fd_changed_blocks d = concat (map (block_change h n (fm_chunks remote) data) [0..<?top])"
    using diff_files_changed [OF d] by (simp only: n)
  moreover have "\<forall>i \<in> set [0..<?top]. i < length (fm_chunks remote) \<or> i < block_count n data" by auto
  from needed_blocks [OF this, of h]
  have "map bd_index (filter needs_sending (concat (map (block_change h n (fm_chunks remote) data) [0..<?top])))
    = map of_nat (filter (\<lambda>i. \<not> (i < length (fm_chunks remote) \<and> h (block_at n data i) = cm_hash (fm_chunks remote ! i)))
        [0..<block_count n data])"
    by (simp only: filter_upt_below)
  ultimately show ?thesis by (simp only:)
qed

lemma sent_index_in_range:
  assumes "diff_files h engine remote data = Inr d" and "b \<in> set (fd_changed_blocks d)" and "needs_sending b"
    and small: "length (fm_chunks remote) < 2 ^ 32" "block_count (de_chunk_size engine) data < 2 ^ 32"
  shows "unat (bd_index b) < block_count (de_chunk_size engine) data"
proof (cases "h data = fm_file_hash remote")
  case True
  with assms(1,2) show ?thesis by (auto simp: diff_files_def split: if_splits)
next
  case False
  have "bd_index b \<in> set (map bd_index (filter needs_sending (fd_changed_blocks d)))" using assms(2,3) by auto
  then show ?thesis
    unfolding sent_indices [OF assms(1) False refl small] using small(2) by (auto simp: unat_small)
qed

text \<open>A successful upload that is not skipped, in its parts.\<close>

lemma sync_file_Inr:
  assumes "sync_file env start finish r path target w = (w', Inr res)"
  obtains (skipped) data entry where "sw_files w path = Some data" "w' = w"
      "hm_get (sw_state w) (file_name_of path) = Some entry" "ss_last_synced_hash entry = sv_sha256 env data"
      "sr_already_in_sync res"
  | (sent) data w1 remote d w2 s b json where "sw_files w path = Some data" "\<not> sr_already_in_sync res"
      "request_remote_manifest env r (file_name_of path) target w = (w1, Inr remote)"
      "diff_files (sv_sha256 env) (sw_engine w1) remote data = Inr d"
      "fold (send_changed env target (file_name_of path) (snd (chunk_data (sv_sha256 env) (sw_chunker w) data)))
         (fd_changed_blocks d) (w1, Inr (0, 0)) = (w2, Inr (s, b))"
      "sv_manifest_encode env (fst (chunk_data (sv_sha256 env) (sw_chunker w) data)) = Inr json"
      "w' = w2\<lparr>sw_sent := sw_sent w2 @ [(target, str_bytes (''INCR_MANIFEST:'' @ file_name_of path @ '':'' @ json))],
                sw_state := sync_state_upsert finish (file_name_of path) (sv_sha256 env data)
                  (of_nat (length data)) (sw_state w2)\<rparr>"
      "sr_transferred_blocks res = s"
proof -
  obtain data where data: "sw_files w path = Some data" "read_file env path w = Inr data"
    using assms by (cases "read_file env path w") (auto simp: sync_file_def Let_def read_file_def split: option.splits sum.splits)
  obtain m cs where mc: "chunk_data (sv_sha256 env) (sw_chunker w) data = (m, cs)" by force
  then have m: "fm_file_hash m = sv_sha256 env data" "fm_file_size m = of_nat (length data)"
    using chunk_data_facts(1,4) [of "sv_sha256 env" "sw_chunker w" data] by simp_all
  show thesis
  proof (cases "case sync_state_get (sw_state w) (file_name_of path) of None \<Rightarrow> False
      | Some s \<Rightarrow> ss_last_synced_hash s = fm_file_hash m")
    case True
    with assms data mc m skipped show thesis
      by (auto simp: sync_file_def Let_def sync_state_get_def split: option.splits)
  next
    case False
    with assms data mc have s: "(case request_remote_manifest env r (file_name_of path) target w of
          (w, Inl e) \<Rightarrow> (w, Inl e)
        | (w, Inr remote) \<Rightarrow>
            (case diff_files (sv_sha256 env) (sw_engine w) remote data of
               Inl e \<Rightarrow> (w, Inl (''diff computation failed: '' @ e))
             | Inr d \<Rightarrow> upload_changes env start finish (file_name_of path) target m cs d w)) = (w', Inr res)"
      by (simp add: sync_file_def Let_def)
    obtain w1 remote d where 1: "request_remote_manifest env r (file_name_of path) target w = (w1, Inr remote)"
        "diff_files (sv_sha256 env) (sw_engine w1) remote data = Inr d"
        "upload_changes env start finish (file_name_of path) target m cs d w1 = (w', Inr res)"
      using s by (auto split: prod.splits sum.splits)
    obtain w2 s b where 2: "fold (send_changed env target (file_name_of path) cs) (fd_changed_blocks d) (w1, Inr (0, 0)) = (w2, Inr (s, b))"
      using 1(3) by (auto simp: upload_changes_def split: prod.splits sum.splits)
    obtain w3 where "send_manifest env target (file_name_of path) m w2 = (w3, Inr ())"
        "w' = w3\<lparr>sw_state := sync_state_upsert finish (file_name_of path) (fm_file_hash m) (fm_file_size m) (sw_state w3)\<rparr>"
        "sr_transferred_blocks res = s" "\<not> sr_already_in_sync res"
      using 1(3) 2 by (auto simp: upload_changes_def split: prod.splits sum.splits)
    with sent [OF data(1) _ 1(1,2)] 2 mc m show thesis
      by (auto simp: send_manifest_def vpn_send_def split: sum.splits)
  qed
qed

lemma request_manifest_sent:
  assumes "request_remote_manifest env r n target w = (w1, Inr remote)"
  shows "w1 = w\<lparr>sw_sent := sw_sent w @ [(target, str_bytes (manifest_request r n))]\<rparr>"
  using assms by (auto simp: request_remote_manifest_def Let_def vpn_send_def split: sum.splits)


lemma sync_file_keeps:
  assumes "sync_file env start finish r path target w = (w', Inr res)" and "sw_files w path = Some data"
  shows "sw_files w' = sw_files w \<and> sw_chunker w' = sw_chunker w
    \<and> (\<exists>s. hm_get (sw_state w') (file_name_of path) = Some s \<and> ss_last_synced_hash s = sv_sha256 env data)"
  using assms(1)
proof (cases rule: sync_file_Inr)
  case skipped
  with assms(2) show ?thesis by auto
next
  case (sent data' w1 remote' d w2 s b json)
  from send_changed_Inr [OF sent(5)] request_manifest_sent [OF sent(3)] sent(1,7) assms(2)
  show ?thesis by (auto simp: sync_state_upsert_def hm_simps)
qed

text \<open>The sync state is kept under the file name alone: once a file has been uploaded to
  one node, an upload of the same file to any other node reports that it is already in
  sync and sends nothing to it.\<close>

theorem second_target_gets_nothing:
  assumes "sync_file env start finish r path target w = (w', Inr res)"
  shows "\<exists>res'. sync_file env start' finish' r' path other w' = (w', Inr res')
    \<and> sr_already_in_sync res' \<and> sr_transferred_blocks res' = 0 \<and> needs_sync env path w' = Inr False"
proof -
  obtain data where data: "read_file env path w = Inr data" "sw_files w path = Some data"
    using assms by (cases "read_file env path w") (auto simp: sync_file_def Let_def read_file_def split: option.splits sum.splits)
  note k = sync_file_keeps [OF assms data(2)]
  then have "read_file env path w' = Inr data" using data by (simp add: read_file_def)
  moreover obtain m cs where m: "chunk_data (sv_sha256 env) (sw_chunker w') data = (m, cs)" by force
  then have "fm_file_hash m = sv_sha256 env data" using chunk_data_facts(1) by (metis fst_conv)
  ultimately show ?thesis using k m by (auto simp: sync_file_def needs_sync_def Let_def sync_state_get_def)
qed

definition demo_local :: sync_world where
  "demo_local = (demo_world None)\<lparr>sw_files := [''d/f'' \<mapsto> [1, 2, 9]]\<rparr>"

lemma demo_manifest_request:
  "snd (request_remote_manifest demo_env 7 ''f'' ''t'' w) = Inr (fst (chunk_data demo_hash \<lparr>ck_chunk_size = 2\<rparr> [1, 2, 3]))"
  using serves_manifest [OF demo_serves, of w] by auto

lemma demo_upload:
  "case sync_file demo_env 10 12 7 ''d/f'' ''t'' demo_local of (w', Inr res) \<Rightarrow> \<not> sr_already_in_sync res | _ \<Rightarrow> False"
  by code_simp

lemma demo_uploaded:
  obtains w' res where "sync_file demo_env 10 12 7 ''d/f'' ''t'' demo_local = (w', Inr res)" "\<not> sr_already_in_sync res"
  using demo_upload by (auto split: prod.splits sum.splits)


theorem second_target_gets_nothing_witness:
  "\<exists>w' res res'. sync_file demo_env 10 12 7 ''d/f'' ''t'' demo_local = (w', Inr res)
    \<and> sync_file demo_env 20 22 8 ''d/f'' ''u'' w' = (w', Inr res') \<and> sr_already_in_sync res'"
proof -
  obtain w' res where s: "sync_file demo_env 10 12 7 ''d/f'' ''t'' demo_local = (w', Inr res)" by (rule demo_uploaded)
  from second_target_gets_nothing [OF s, of 20 22 8 "''u''"] s show ?thesis by blast
qed

end
