(* ===== verification/Heartbeat.thy ===== *)
theory Heartbeat
  imports NodeId HashMap Wire
begin

text \<open>
  Heartbeats (\<open>src/vpn/heartbeat.rs\<close>): the message codec, the state per node, one round of
  the sender thread, and the handler. The send function of the owner is a parameter, the
  callbacks show as events. A round reads the clock once.
  The thread uses the interval and threshold of the moment it was started; the setters
  take the manager exclusively and come before that.
\<close>

section \<open>Messages\<close>

definition default_heartbeat_interval_secs :: nat where
  "default_heartbeat_interval_secs = 5"

definition default_offline_threshold :: u32 where
  "default_offline_threshold = 3"

datatype heartbeat_error = HbSendFailed string | HbNodeNotFound string | HbTimeout string

fun heartbeat_error_display :: "heartbeat_error \<Rightarrow> string" where
  "heartbeat_error_display (HbSendFailed m) = ''heartbeat send failed: '' @ m"
| "heartbeat_error_display (HbNodeNotFound m) = ''node not found: '' @ m"
| "heartbeat_error_display (HbTimeout m) = ''heartbeat timeout: '' @ m"

datatype heartbeat_msg_type = HbRequest | HbResponse

definition heartbeat_type_from_u8 :: "byte \<Rightarrow> heartbeat_msg_type option" where
  "heartbeat_type_from_u8 b = (if b = 0x01 then Some HbRequest else if b = 0x02 then Some HbResponse else None)"

fun heartbeat_type_to_u8 :: "heartbeat_msg_type \<Rightarrow> byte" where
  "heartbeat_type_to_u8 HbRequest = 0x01"
| "heartbeat_type_to_u8 HbResponse = 0x02"

interpretation hbt: wire_tag heartbeat_type_to_u8 heartbeat_type_from_u8
proof unfold_locales
  fix t b
  show "heartbeat_type_from_u8 (heartbeat_type_to_u8 t) = Some t"
    by (cases t) (simp_all add: heartbeat_type_from_u8_def)
  show "heartbeat_type_from_u8 b = Some t \<Longrightarrow> heartbeat_type_to_u8 t = b"
    by (auto simp: heartbeat_type_from_u8_def split: if_splits)
qed

record heartbeat_message =
  hb_msg_type :: heartbeat_msg_type
  hb_sender_id :: node_id
  hb_timestamp :: u64
  hb_sequence :: u64

definition heartbeat_to_bytes :: "heartbeat_message \<Rightarrow> bytes" where
  "heartbeat_to_bytes m =
     [heartbeat_type_to_u8 (hb_msg_type m)] @ as_bytes (hb_sender_id m)
     @ to_be 8 (unat (hb_timestamp m)) @ to_be 8 (unat (hb_sequence m))"

definition heartbeat_from_bytes :: "bytes \<Rightarrow> heartbeat_message option" where
  "heartbeat_from_bytes d =
     (if length d < 49 then None
      else case heartbeat_type_from_u8 (d ! 0) of
             None \<Rightarrow> None
           | Some t \<Rightarrow>
               Some \<lparr>hb_msg_type = t, hb_sender_id = B32 (sub_slice d 1 33),
                     hb_timestamp = of_nat (of_be (sub_slice d 33 41)),
                     hb_sequence = of_nat (of_be (sub_slice d 41 49))\<rparr>)"

section \<open>The manager\<close>

record node_heartbeat_state =
  hs_node_id :: node_id
  hs_last_heartbeat :: instant
  hs_missed_count :: u32
  hs_is_online :: bool
  hs_send_sequence :: u64
  hs_recv_sequence :: u64

definition heartbeat_state_new :: "instant \<Rightarrow> node_id \<Rightarrow> node_heartbeat_state" where
  "heartbeat_state_new now i =
     \<lparr>hs_node_id = i, hs_last_heartbeat = now, hs_missed_count = 0, hs_is_online = True,
      hs_send_sequence = 0, hs_recv_sequence = 0\<rparr>"

definition should_be_offline :: "u32 \<Rightarrow> node_heartbeat_state \<Rightarrow> bool" where
  "should_be_offline threshold s \<longleftrightarrow> threshold \<le> hs_missed_count s"

datatype heartbeat_event =
  OnNodeOnline node_id | OnNodeOffline node_id | OnSent node_id u64 | OnReceived node_id u64

record heartbeat_manager =
  hm_local_id :: node_id
  hm_interval :: duration
  hm_offline_threshold :: u32
  hm_nodes :: "(node_id, node_heartbeat_state) hashmap"
  hm_running :: bool

definition heartbeat_new :: "node_id \<Rightarrow> heartbeat_manager" where
  "heartbeat_new i =
     \<lparr>hm_local_id = i, hm_interval = from_secs default_heartbeat_interval_secs,
      hm_offline_threshold = default_offline_threshold, hm_nodes = hm_empty, hm_running = False\<rparr>"

definition heartbeat_with_interval :: "node_id \<Rightarrow> duration \<Rightarrow> heartbeat_manager" where
  "heartbeat_with_interval i d = (heartbeat_new i)\<lparr>hm_interval := d\<rparr>"

definition set_offline_threshold :: "u32 \<Rightarrow> heartbeat_manager \<Rightarrow> heartbeat_manager" where
  "set_offline_threshold t m = m\<lparr>hm_offline_threshold := t\<rparr>"

definition hb_add_node :: "instant \<Rightarrow> node_id \<Rightarrow> heartbeat_manager \<Rightarrow> heartbeat_manager" where
  "hb_add_node now i m =
     (if hm_contains (hm_nodes m) i then m
      else m\<lparr>hm_nodes := hm_insert i (heartbeat_state_new now i) (hm_nodes m)\<rparr>)"

definition hb_remove_node :: "node_id \<Rightarrow> heartbeat_manager \<Rightarrow> heartbeat_manager" where
  "hb_remove_node i m = m\<lparr>hm_nodes := hm_remove i (hm_nodes m)\<rparr>"

definition get_node_state :: "heartbeat_manager \<Rightarrow> node_id \<Rightarrow> node_heartbeat_state option" where
  "get_node_state m i = hm_get (hm_nodes m) i"

definition get_all_states :: "heartbeat_manager \<Rightarrow> node_heartbeat_state list" where
  "get_all_states m = hm_values (hm_nodes m)"

definition online_nodes :: "heartbeat_manager \<Rightarrow> node_id list" where
  "online_nodes m = map hs_node_id (filter hs_is_online (hm_values (hm_nodes m)))"

definition offline_nodes :: "heartbeat_manager \<Rightarrow> node_id list" where
  "offline_nodes m = map hs_node_id (filter (\<lambda>s. \<not> hs_is_online s) (hm_values (hm_nodes m)))"

text \<open>The sends of a round, to the nodes in turn; \<open>clock\<close> is the Unix time in seconds.\<close>

definition send_one ::
  "(node_id \<Rightarrow> heartbeat_message \<Rightarrow> heartbeat_error + unit) \<Rightarrow> node_id \<Rightarrow> u64 \<Rightarrow> u64 \<Rightarrow> node_id
   \<Rightarrow> (node_id, node_heartbeat_state) hashmap \<times> heartbeat_event list
   \<Rightarrow> (node_id, node_heartbeat_state) hashmap \<times> heartbeat_event list" where
  "send_one send local clock seq i = (\<lambda>(nodes, evs).
     case send i \<lparr>hb_msg_type = HbRequest, hb_sender_id = local, hb_timestamp = clock, hb_sequence = seq\<rparr> of
       Inl _ \<Rightarrow> (nodes, evs)
     | Inr _ \<Rightarrow> (hm_modify i (\<lambda>s. s\<lparr>hs_send_sequence := seq\<rparr>) nodes, evs @ [OnSent i seq]))"

text \<open>The check of one state for a missed heartbeat.\<close>

definition check_state :: "instant \<Rightarrow> duration \<Rightarrow> u32 \<Rightarrow> node_heartbeat_state \<Rightarrow> node_heartbeat_state \<times> heartbeat_event list" where
  "check_state now interval threshold s =
     (if hs_is_online s \<and> interval * 2 < elapsed now (hs_last_heartbeat s) then
        let s1 = s\<lparr>hs_missed_count := hs_missed_count s + 1\<rparr>
        in if should_be_offline threshold s1 then (s1\<lparr>hs_is_online := False\<rparr>, [OnNodeOffline (hs_node_id s1)])
           else (s1, [])
      else (s, []))"

text \<open>One round of the thread, with its running sequence number.\<close>

definition heartbeat_round ::
  "(node_id \<Rightarrow> heartbeat_message \<Rightarrow> heartbeat_error + unit) \<Rightarrow> instant \<Rightarrow> u64
   \<Rightarrow> u64 \<times> heartbeat_manager \<Rightarrow> (u64 \<times> heartbeat_manager) \<times> heartbeat_event list" where
  "heartbeat_round send now clock = (\<lambda>(seq, m).
     let (nodes, evs) = fold (send_one send (hm_local_id m) clock seq) (hm_keys (hm_nodes m)) (hm_nodes m, []);
         checked = map (\<lambda>(i, s). (i, check_state now (hm_interval m) (hm_offline_threshold m) s)) nodes
     in ((seq + 1, m\<lparr>hm_nodes := map (\<lambda>(i, s, _). (i, s)) checked\<rparr>),
         evs @ concat (map (\<lambda>(_, _, es). es) checked)))"

definition heartbeat_start :: "heartbeat_manager \<Rightarrow> u64 \<times> heartbeat_manager" where
  "heartbeat_start m = (0, m\<lparr>hm_running := True\<rparr>)"

definition heartbeat_stop :: "heartbeat_manager \<Rightarrow> heartbeat_manager" where
  "heartbeat_stop m = m\<lparr>hm_running := False\<rparr>"

definition handle_heartbeat ::
  "instant \<Rightarrow> heartbeat_message \<Rightarrow> heartbeat_manager \<Rightarrow> heartbeat_manager \<times> heartbeat_event list" where
  "handle_heartbeat now msg m =
     (let i = hb_sender_id msg;
          s = (case hm_get (hm_nodes m) i of Some s \<Rightarrow> s | None \<Rightarrow> heartbeat_state_new now i);
          s' = s\<lparr>hs_last_heartbeat := now, hs_missed_count := 0, hs_is_online := True,
                 hs_recv_sequence := hb_sequence msg\<rparr>
      in (m\<lparr>hm_nodes := hm_insert i s' (hm_nodes m)\<rparr>,
          (if \<not> hs_is_online s then [OnNodeOnline i] else []) @ [OnReceived i (hb_sequence msg)]))"

definition send_response ::
  "(node_id \<Rightarrow> heartbeat_message \<Rightarrow> heartbeat_error + unit) \<Rightarrow> u64 \<Rightarrow> node_id \<Rightarrow> u64 \<Rightarrow> heartbeat_manager
   \<Rightarrow> heartbeat_error + unit" where
  "send_response send clock target seq m =
     send target \<lparr>hb_msg_type = HbResponse, hb_sender_id = hm_local_id m, hb_timestamp = clock, hb_sequence = seq\<rparr>"

section \<open>The codec\<close>

text \<open>Parsing the bytes of a heartbeat gives it back, whatever follows them.\<close>

lemma heartbeat_roundtrip: "heartbeat_from_bytes (heartbeat_to_bytes m @ rest) = Some m"
proof -
  let ?t = "[heartbeat_type_to_u8 (hb_msg_type m)]" and ?i = "as_bytes (hb_sender_id m)"
  let ?a = "to_be 8 (unat (hb_timestamp m))" and ?b = "to_be 8 (unat (hb_sequence m))"
  let ?d = "heartbeat_to_bytes m @ rest"
  have d: "?d = ?t @ ?i @ ?a @ ?b @ rest" by (simp add: heartbeat_to_bytes_def)
  have "sub_slice ?d 1 33 = ?i" unfolding d by (simp add: sub_slice_def)
  moreover have "sub_slice ?d 33 41 = ?a" unfolding d by (simp add: sub_slice_def)
  moreover have "sub_slice ?d 41 49 = ?b" unfolding d by (simp add: sub_slice_def)
  moreover have "?d ! 0 = heartbeat_type_to_u8 (hb_msg_type m)" "49 \<le> length ?d" unfolding d by simp_all
  moreover have "unat w < 256 ^ 8" for w :: u64 using unsigned_less [of w] by simp
  ultimately show ?thesis
    by (simp add: heartbeat_from_bytes_def hbt.from_to of_be_to_be_id)
qed

section \<open>How long a silent node counts as online\<close>

text \<open>A round touches the liveness of a node only through \<open>check_state\<close>.\<close>

lemma send_fold_get:
  "hm_get nodes i = Some s \<Longrightarrow> \<exists>q. hm_get (fst (fold (send_one send l c seq) is (nodes, evs))) i = Some (s\<lparr>hs_send_sequence := q\<rparr>)"
proof (induction "is" arbitrary: nodes evs s)
  case Nil
  then show ?case by (auto intro: exI [of _ "hs_send_sequence s"])
next
  case (Cons j js)
  obtain nodes' evs' where st: "send_one send l c seq j (nodes, evs) = (nodes', evs')" by force
  then have "hm_get nodes' i = Some s \<or> hm_get nodes' i = Some (s\<lparr>hs_send_sequence := seq\<rparr>)"
    using Cons.prems by (auto simp: send_one_def hm_get_modify split: sum.splits if_splits)
  then show ?case
  proof
    assume "hm_get nodes' i = Some s"
    from Cons.IH [OF this, of evs'] show ?thesis by (simp add: st)
  next
    assume "hm_get nodes' i = Some (s\<lparr>hs_send_sequence := seq\<rparr>)"
    from Cons.IH [OF this, of evs'] show ?thesis by (simp add: st)
  qed
qed

lemma round_get:
  assumes "hm_get (hm_nodes m) i = Some s"
  shows "\<exists>q. hm_get (hm_nodes (snd (fst (heartbeat_round send now clock (seq, m))))) i
      = Some (fst (check_state now (hm_interval m) (hm_offline_threshold m) (s\<lparr>hs_send_sequence := q\<rparr>)))"
    and "hm_interval (snd (fst (heartbeat_round send now clock (seq, m)))) = hm_interval m"
    and "hm_offline_threshold (snd (fst (heartbeat_round send now clock (seq, m)))) = hm_offline_threshold m"
proof -
  obtain nodes evs where f: "fold (send_one send (hm_local_id m) clock seq) (hm_keys (hm_nodes m)) (hm_nodes m, []) = (nodes, evs)"
    by force
  obtain q where q: "hm_get nodes i = Some (s\<lparr>hs_send_sequence := q\<rparr>)"
    using send_fold_get [OF assms, of send "hm_local_id m" clock seq "hm_keys (hm_nodes m)" "[]"] f by auto
  let ?f = "\<lambda>s. fst (check_state now (hm_interval m) (hm_offline_threshold m) s)"
  have nodes: "hm_nodes (snd (fst (heartbeat_round send now clock (seq, m)))) = map (\<lambda>(i, s). (i, ?f s)) nodes"
    by (simp add: heartbeat_round_def f Let_def split_beta)
  have "hm_get (map (\<lambda>(i, s). (i, ?f s)) nodes) i = map_option ?f (hm_get nodes i)"
    by (simp add: hm_get_def map_of_map)
  with nodes q show "\<exists>q. hm_get (hm_nodes (snd (fst (heartbeat_round send now clock (seq, m))))) i
      = Some (?f (s\<lparr>hs_send_sequence := q\<rparr>))" by auto
  show "hm_interval (snd (fst (heartbeat_round send now clock (seq, m)))) = hm_interval m"
    "hm_offline_threshold (snd (fst (heartbeat_round send now clock (seq, m)))) = hm_offline_threshold m"
    by (simp_all add: heartbeat_round_def f Let_def)
qed

text \<open>Rounds at the given times; the heartbeats carry what the clock shows then.\<close>

definition rounds ::
  "(node_id \<Rightarrow> heartbeat_message \<Rightarrow> heartbeat_error + unit) \<Rightarrow> (instant \<Rightarrow> u64) \<Rightarrow> instant list \<Rightarrow> u64 \<times> heartbeat_manager
   \<Rightarrow> u64 \<times> heartbeat_manager" where
  "rounds send clock ts st = fold (\<lambda>now st. fst (heartbeat_round send now (clock now) st)) ts st"

text \<open>The rounds in which a heartbeat from the time \<open>t0\<close> counts as missed.\<close>

definition late_rounds :: "instant \<Rightarrow> duration \<Rightarrow> instant list \<Rightarrow> nat" where
  "late_rounds t0 interval ts = length (filter (\<lambda>t. t0 + 2 * int interval < t) ts)"

definition silent_state :: "instant \<Rightarrow> nat \<Rightarrow> nat \<Rightarrow> node_heartbeat_state \<Rightarrow> bool" where
  "silent_state t0 threshold n s \<longleftrightarrow>
     hs_last_heartbeat s = t0 \<and> unat (hs_missed_count s) = min n threshold \<and> (hs_is_online s \<longleftrightarrow> n < threshold)"

lemma silent_step:
  assumes "silent_state t0 (unat threshold) n s" and "0 < threshold"
  shows "silent_state t0 (unat threshold) (if t0 + 2 * int interval < t then Suc n else n)
    (fst (check_state t interval threshold (s\<lparr>hs_send_sequence := q\<rparr>)))"
proof -
  have s: "hs_last_heartbeat s = t0" "unat (hs_missed_count s) = min n (unat threshold)"
    "hs_is_online s \<longleftrightarrow> n < unat threshold"
    using assms(1) by (simp_all add: silent_state_def)
  have late: "interval * 2 < elapsed t t0 \<longleftrightarrow> t0 + 2 * int interval < t"
    by (auto simp: elapsed_def)
  show ?thesis
  proof (cases "n < unat threshold \<and> t0 + 2 * int interval < t")
    case False
    with s late show ?thesis by (auto simp: silent_state_def check_state_def min_def)
  next
    case True
    then have n: "n < unat threshold" by blast
    have "unat threshold < 2 ^ LENGTH(32)" by (rule unsigned_less)
    then have "hs_missed_count s \<noteq> - 1"
      using s(2) n by (auto simp: min_def unsigned_minus_1_eq_mask mask_eq_exp_minus_1)
    then have inc: "unat (hs_missed_count s + 1) = Suc n" using s(2) n by (simp add: unat_inc)
    then have "threshold \<le> hs_missed_count s + 1 \<longleftrightarrow> unat threshold \<le> Suc n" by (simp add: word_le_nat_alt)
    with True s late inc show ?thesis
      by (auto simp: silent_state_def check_state_def should_be_offline_def Let_def min_def)
  qed
qed

text \<open>C31. A node that never answers is online until the round that is, of those more than
  two intervals after its last heartbeat, the one with the number of the threshold,
  and is offline from that round on: whenever the rounds are and whatever the sends
  return, for every threshold above 0.\<close>

theorem silent_node_goes_offline:
  assumes "hm_get (hm_nodes m) i = Some s" and "hs_last_heartbeat s = t0" "hs_missed_count s = 0" "hs_is_online s"
    and "0 < hm_offline_threshold m"
  shows "\<exists>s'. get_node_state (snd (rounds send clock ts (seq, m))) i = Some s'
    \<and> (hs_is_online s' \<longleftrightarrow> late_rounds t0 (hm_interval m) ts < unat (hm_offline_threshold m))"
proof -
  let ?thr = "unat (hm_offline_threshold m)"
  have thr: "0 < ?thr" using assms(5) by (simp add: word_less_nat_alt)
  have "\<exists>s'. hm_get (hm_nodes (snd (rounds send clock ts (seq, m)))) i = Some s'
      \<and> silent_state t0 ?thr (late_rounds t0 (hm_interval m) ts) s'
      \<and> hm_interval (snd (rounds send clock ts (seq, m))) = hm_interval m
      \<and> hm_offline_threshold (snd (rounds send clock ts (seq, m))) = hm_offline_threshold m"
  proof (induction ts rule: rev_induct)
    case Nil
    show ?case using assms(1-4) thr by (simp add: rounds_def late_rounds_def silent_state_def)
  next
    case (snoc t ts)
    obtain sq m1 where m1: "rounds send clock ts (seq, m) = (sq, m1)" by force
    from snoc obtain s' where s': "hm_get (hm_nodes m1) i = Some s'"
      "silent_state t0 ?thr (late_rounds t0 (hm_interval m) ts) s'"
      "hm_interval m1 = hm_interval m" "hm_offline_threshold m1 = hm_offline_threshold m" by (auto simp: m1)
    have step: "rounds send clock (ts @ [t]) (seq, m) = fst (heartbeat_round send t (clock t) (sq, m1))"
      using m1 by (simp add: rounds_def)
    have late: "late_rounds t0 (hm_interval m) (ts @ [t])
        = (if t0 + 2 * int (hm_interval m) < t then Suc (late_rounds t0 (hm_interval m) ts) else late_rounds t0 (hm_interval m) ts)"
      by (simp add: late_rounds_def)
    note get = round_get [OF s'(1), of send t "clock t" sq]
    from get(1) obtain q where q: "hm_get (hm_nodes (snd (rounds send clock (ts @ [t]) (seq, m)))) i
        = Some (fst (check_state t (hm_interval m) (hm_offline_threshold m) (s'\<lparr>hs_send_sequence := q\<rparr>)))"
      unfolding step s'(3,4) by blast
    with silent_step [OF s'(2) assms(5)] get(2,3) s'(3,4) show ?case unfolding late step by auto
  qed
  then show ?thesis unfolding get_node_state_def silent_state_def by blast
qed

text \<open>Rounds every five seconds from the time the node was added, with the threshold 3: the
  node is offline from the sixth round on.\<close>

theorem silent_node_goes_offline_witness:
  "let m = hb_add_node 0 (fill32 2) (heartbeat_new (fill32 1));
       at = (\<lambda>n. rounds (\<lambda>_ _. Inr ()) (\<lambda>_. 0) (map (\<lambda>k. int (from_secs (5 * k))) [0..<n]) (0, m))
   in (\<exists>s. get_node_state (snd (at 5)) (fill32 2) = Some s \<and> hs_is_online s)
      \<and> (\<exists>s. get_node_state (snd (at 6)) (fill32 2) = Some s \<and> \<not> hs_is_online s)"
proof -
  let ?m = "hb_add_node 0 (fill32 2) (heartbeat_new (fill32 1))"
  let ?s = "heartbeat_state_new 0 (fill32 2)"
  have m: "hm_get (hm_nodes ?m) (fill32 2) = Some ?s" "hm_interval ?m = from_secs 5" "hm_offline_threshold ?m = 3"
    by (simp_all add: hb_add_node_def heartbeat_new_def hm_contains_def hm_simps
        default_heartbeat_interval_secs_def default_offline_threshold_def)
  have "\<exists>s'. get_node_state (snd (rounds (\<lambda>_ _. Inr ()) (\<lambda>_. 0) (map (\<lambda>k. int (from_secs (5 * k))) [0..<n]) (0, ?m))) (fill32 2)
        = Some s' \<and> (hs_is_online s' \<longleftrightarrow> late_rounds 0 (hm_interval ?m) (map (\<lambda>k. int (from_secs (5 * k))) [0..<n]) < unat (hm_offline_threshold ?m))"
    for n
    by (rule silent_node_goes_offline [OF m(1)]) (simp_all add: heartbeat_state_new_def m)
  note at = this
  have late: "late_rounds 0 (from_secs 5) (map (\<lambda>k. int (from_secs (5 * k))) [0..<5]) = 2"
    "late_rounds 0 (from_secs 5) (map (\<lambda>k. int (from_secs (5 * k))) [0..<6]) = 3"
    by (simp_all add: late_rounds_def from_secs_def upt_rec)
  show ?thesis using at [of 5] at [of 6] unfolding m(2,3) late Let_def by simp
qed

end
