(* ===== verification/HolePunch.thy ===== *)
theory HolePunch
  imports NodeId HashMap
begin

text \<open>
  UDP hole punching (\<open>src/vpn/hole_punch.rs\<close>): the NAT types, the punch packets and the
  attempts of a punch. The socket is a record of what its calls return, attempt by attempt;
  a socket address is its text.
\<close>

section \<open>Types\<close>

definition punch_timeout_secs :: nat where
  "punch_timeout_secs = 5"

definition punch_retry_count :: nat where
  "punch_retry_count = 3"

definition punch_packet_size :: nat where
  "punch_packet_size = 64"

datatype nat_type = Cone | Restricted | Symmetric | UnknownNat

definition is_punchable :: "nat_type \<Rightarrow> bool" where
  "is_punchable t \<longleftrightarrow> t = Cone \<or> t = Restricted"

fun nat_type_str :: "nat_type \<Rightarrow> string" where
  "nat_type_str Cone = ''cone''"
| "nat_type_str Restricted = ''restricted''"
| "nat_type_str Symmetric = ''symmetric''"
| "nat_type_str UnknownNat = ''unknown''"

datatype punch_result = PunchSuccess | PunchFailed string | DegradedToRelay string

record hole_punch_conn =
  hc_target :: node_id
  hc_public_addr :: string
  hc_started :: instant
  hc_retries :: u32
  hc_established :: bool

text \<open>\<open>hp_socket\<close> tells whether a socket is bound.\<close>

record hole_punch_manager =
  hp_local_id :: node_id
  hp_nat_type :: nat_type
  hp_active_punches :: "(node_id, hole_punch_conn) hashmap"
  hp_punched_peers :: "(node_id, string) hashmap"
  hp_running :: bool
  hp_socket :: bool

datatype recv_result = Received bytes string | WouldBlock | RecvFailed string

record punch_env =
  pe_bind :: "string option"
  pe_set_timeout :: "string option"
  pe_set_nonblocking :: "string option"
  pe_send :: "nat \<Rightarrow> string option"
  pe_recv :: "nat \<Rightarrow> recv_result"

section \<open>Operations\<close>

definition hole_punch_new :: "node_id \<Rightarrow> hole_punch_manager" where
  "hole_punch_new i =
     \<lparr>hp_local_id = i, hp_nat_type = UnknownNat, hp_active_punches = hm_empty,
      hp_punched_peers = hm_empty, hp_running = False, hp_socket = False\<rparr>"

definition bind_socket :: "hole_punch_manager \<Rightarrow> hole_punch_manager" where
  "bind_socket m = m\<lparr>hp_socket := True\<rparr>"

definition set_nat_type :: "nat_type \<Rightarrow> hole_punch_manager \<Rightarrow> hole_punch_manager" where
  "set_nat_type t m = m\<lparr>hp_nat_type := t\<rparr>"

definition active_punches :: "hole_punch_manager \<Rightarrow> nat" where
  "active_punches m = hm_len (hp_active_punches m)"

definition punched_peer_count :: "hole_punch_manager \<Rightarrow> nat" where
  "punched_peer_count m = hm_len (hp_punched_peers m)"

definition detect_nat_type :: "hole_punch_manager \<Rightarrow> hole_punch_manager \<times> nat_type" where
  "detect_nat_type m = (m\<lparr>hp_nat_type := Cone\<rparr>, Cone)"

definition is_symmetric_nat :: "hole_punch_manager \<Rightarrow> bool" where
  "is_symmetric_nat m \<longleftrightarrow> hp_nat_type m = Symmetric"

definition resize_to :: "nat \<Rightarrow> bytes \<Rightarrow> bytes" where
  "resize_to n bs = take n bs @ replicate (n - length bs) 0"

definition build_punch_packet :: "hole_punch_manager \<Rightarrow> node_id \<Rightarrow> bytes" where
  "build_punch_packet m target =
     resize_to punch_packet_size
       (str_bytes ''LLHP'' @ take 28 (as_bytes (hp_local_id m)) @ take 28 (as_bytes target))"

definition is_valid_punch_response :: "bytes \<Rightarrow> node_id \<Rightarrow> bool" where
  "is_valid_punch_response buf peer \<longleftrightarrow>
     (if length buf < 4 + 28 then False
      else if sub_slice buf 0 4 \<noteq> str_bytes ''LLHP'' then False
      else sub_slice buf 4 32 = take 28 (as_bytes peer))"

text \<open>The attempts. A datagram fills the zeroed buffer of 64 bytes; a longer one is cut.\<close>

fun punch_attempts ::
  "punch_env \<Rightarrow> node_id \<Rightarrow> nat list \<Rightarrow> string \<Rightarrow> hole_punch_manager \<Rightarrow> hole_punch_manager \<times> punch_result" where
  "punch_attempts env rid [] last_error m =
     (m\<lparr>hp_active_punches := hm_remove rid (hp_active_punches m)\<rparr>,
      DegradedToRelay (''all '' @ show_nat punch_retry_count @ '' attempts failed: ''
        @ (if last_error = [] then ''no response'' else last_error)))"
| "punch_attempts env rid (k # ks) last_error m =
     (let err = (case pe_send env k of None \<Rightarrow> last_error | Some e \<Rightarrow> ''send error: '' @ e)
      in case pe_recv env k of
           Received d src \<Rightarrow>
             if is_valid_punch_response (resize_to punch_packet_size d) rid then
               (m\<lparr>hp_punched_peers := hm_insert rid src (hp_punched_peers m),
                  hp_active_punches := hm_remove rid (hp_active_punches m)\<rparr>, PunchSuccess)
             else punch_attempts env rid ks err m
         | WouldBlock \<Rightarrow> punch_attempts env rid ks err m
         | RecvFailed e \<Rightarrow> punch_attempts env rid ks (''recv error: '' @ e) m)"

definition open_socket :: "punch_env \<Rightarrow> hole_punch_manager \<Rightarrow> string option" where
  "open_socket env m =
     (if hp_socket m then None
      else case pe_bind env of
             Some e \<Rightarrow> Some (''failed to bind UDP socket: '' @ e)
           | None \<Rightarrow>
               (case pe_set_timeout env of
                  Some e \<Rightarrow> Some (''failed to set timeout: '' @ e)
                | None \<Rightarrow> map_option (\<lambda>e. ''failed to set nonblocking: '' @ e) (pe_set_nonblocking env)))"

definition punch_hole ::
  "punch_env \<Rightarrow> instant \<Rightarrow> node_id \<Rightarrow> string \<Rightarrow> hole_punch_manager
   \<Rightarrow> hole_punch_manager \<times> (string + punch_result)" where
  "punch_hole env now rid addr m =
     (if is_symmetric_nat m then (m, Inr (DegradedToRelay ''symmetric NAT cannot punch''))
      else if hm_contains (hp_punched_peers m) rid then (m, Inr PunchSuccess)
      else case open_socket env m of
             Some e \<Rightarrow> (m, Inl e)
           | None \<Rightarrow>
               let conn = \<lparr>hc_target = rid, hc_public_addr = addr, hc_started = now, hc_retries = 0,
                           hc_established = False\<rparr>;
                   m1 = m\<lparr>hp_active_punches := hm_insert rid conn (hp_active_punches m)\<rparr>;
                   (m2, res) = punch_attempts env rid [0..<punch_retry_count] [] m1
               in (m2, Inr res))"

definition send_keepalive ::
  "(bytes \<Rightarrow> string \<Rightarrow> string option) \<Rightarrow> node_id \<Rightarrow> hole_punch_manager \<Rightarrow> string + unit" where
  "send_keepalive send_to i m =
     (case hm_get (hp_punched_peers m) i of
        None \<Rightarrow> Inl ''peer not punched''
      | Some addr \<Rightarrow>
          if \<not> hp_socket m then Inl ''no UDP socket''
          else (case send_to (str_bytes ''LLKA'') addr of
                  Some e \<Rightarrow> Inl (''keepalive send failed: '' @ e)
                | None \<Rightarrow> Inr ()))"

definition get_punched_addr :: "hole_punch_manager \<Rightarrow> node_id \<Rightarrow> string option" where
  "get_punched_addr m i = hm_get (hp_punched_peers m) i"

definition remove_peer :: "node_id \<Rightarrow> hole_punch_manager \<Rightarrow> hole_punch_manager" where
  "remove_peer i m =
     m\<lparr>hp_punched_peers := hm_remove i (hp_punched_peers m),
       hp_active_punches := hm_remove i (hp_active_punches m)\<rparr>"

definition punch_clear :: "hole_punch_manager \<Rightarrow> hole_punch_manager" where
  "punch_clear m = m\<lparr>hp_punched_peers := hm_empty, hp_active_punches := hm_empty\<rparr>"

definition punched_peers :: "hole_punch_manager \<Rightarrow> (node_id \<times> string) list" where
  "punched_peers m = hp_punched_peers m"

section \<open>What a punch does\<close>

lemma packet_length:
  "length (str_bytes ''LLHP'' @ take 28 (as_bytes a) @ take 28 (as_bytes b)) = 60"
  by (simp add: str_bytes_def)

text \<open>The packet of a peer is valid for that peer, whomever it was built for.\<close>

lemma packet_valid:
  "is_valid_punch_response (resize_to punch_packet_size (build_punch_packet m target)) (hp_local_id m)"
proof -
  let ?p = "str_bytes ''LLHP'' @ take 28 (as_bytes (hp_local_id m)) @ take 28 (as_bytes target)"
  have "resize_to punch_packet_size (build_punch_packet m target) = ?p @ replicate 4 0"
    using packet_length [of "hp_local_id m" target]
    by (simp add: build_punch_packet_def resize_to_def punch_packet_size_def)
  then show ?thesis
    by (simp add: is_valid_punch_response_def sub_slice_def str_bytes_def)
qed

definition answers :: "punch_env \<Rightarrow> node_id \<Rightarrow> nat \<Rightarrow> string \<Rightarrow> bool" where
  "answers env rid k src \<longleftrightarrow>
     (\<exists>d. pe_recv env k = Received d src \<and> is_valid_punch_response (resize_to punch_packet_size d) rid)"

lemma attempts_outcome:
  assumes "punch_attempts env rid ks err m = (m', res)"
  shows "hm_get (hp_active_punches m') rid = None
    \<and> (res = PunchSuccess \<longleftrightarrow> (\<exists>k \<in> set ks. \<exists>src. answers env rid k src))
    \<and> (if res = PunchSuccess then \<exists>k \<in> set ks. \<exists>src. answers env rid k src \<and> hm_get (hp_punched_peers m') rid = Some src
       else hp_punched_peers m' = hp_punched_peers m)
    \<and> (\<forall>j. j \<noteq> rid \<longrightarrow> hm_get (hp_punched_peers m') j = hm_get (hp_punched_peers m) j)"
  using assms
proof (induction env rid ks err m rule: punch_attempts.induct)
  case (1 env rid err m)
  then show ?case by (auto simp: hm_simps)
next
  case (2 env rid k ks err m)
  show ?case
  proof (cases "pe_recv env k")
    case (Received d src)
    show ?thesis
    proof (cases "is_valid_punch_response (resize_to punch_packet_size d) rid")
      case True
      with Received 2 have a: "answers env rid k src" by (auto simp: answers_def)
      from True Received "2.prems"
      have "m' = m\<lparr>hp_punched_peers := hm_insert rid src (hp_punched_peers m),
              hp_active_punches := hm_remove rid (hp_active_punches m)\<rparr>" "res = PunchSuccess"
        by (auto simp: Let_def)
      with a show ?thesis by (auto simp: hm_simps)
    next
      case False
      then have "\<not> answers env rid k s" for s using Received by (auto simp: answers_def)
      with "2.IH"(1) [OF refl Received False] "2.prems" Received False show ?thesis by (auto simp: Let_def)
    qed
  next
    case WouldBlock
    then have "\<not> answers env rid k s" for s by (simp add: answers_def)
    with "2.IH"(2) [OF refl WouldBlock] "2.prems" WouldBlock show ?thesis by (auto simp: Let_def)
  next
    case (RecvFailed e)
    then have "\<not> answers env rid k s" for s by (simp add: answers_def)
    with "2.IH"(3) [OF refl RecvFailed] "2.prems" RecvFailed show ?thesis by (auto simp: Let_def)
  qed
qed

text \<open>A punch to a new peer behind a punchable NAT succeeds exactly when one of the three
  attempts receives a valid packet of the peer, then records the address of such a
  packet, leaves no active punch behind and no other peer changed.\<close>

theorem punch_outcome:
  assumes "punch_hole env now rid addr m = (m', Inr res)" and "\<not> is_symmetric_nat m"
    and "get_punched_addr m rid = None"
  shows "hm_get (hp_active_punches m') rid = None
    \<and> (res = PunchSuccess \<longleftrightarrow> (\<exists>k < 3. \<exists>src. answers env rid k src))
    \<and> (res = PunchSuccess \<longrightarrow> (\<exists>k < 3. \<exists>src. answers env rid k src \<and> get_punched_addr m' rid = Some src))
    \<and> (res \<noteq> PunchSuccess \<longrightarrow> punched_peers m' = punched_peers m)
    \<and> (\<forall>j. j \<noteq> rid \<longrightarrow> get_punched_addr m' j = get_punched_addr m j)"
proof -
  let ?m1 = "m\<lparr>hp_active_punches := hm_insert rid \<lparr>hc_target = rid, hc_public_addr = addr, hc_started = now,
    hc_retries = 0, hc_established = False\<rparr> (hp_active_punches m)\<rparr>"
  have "punch_attempts env rid [0..<punch_retry_count] [] ?m1 = (m', res)"
    using assms by (auto simp: punch_hole_def hm_contains_def get_punched_addr_def Let_def
        split: option.splits prod.splits if_splits)
  from attempts_outcome [OF this] show ?thesis
    by (auto simp: punch_retry_count_def get_punched_addr_def punched_peers_def split: if_splits)
qed

definition sample_punch_env :: "bytes \<Rightarrow> punch_env" where
  "sample_punch_env d =
     \<lparr>pe_bind = None, pe_set_timeout = None, pe_set_nonblocking = None, pe_send = (\<lambda>_. None),
      pe_recv = (\<lambda>k. if k = 1 then Received d ''10.0.0.2:34780'' else WouldBlock)\<rparr>"

theorem punch_outcome_witness:
  "let peer = hole_punch_new (fill32 2);
       env = sample_punch_env (build_punch_packet peer (fill32 1));
       (m', r) = punch_hole env 0 (fill32 2) ''10.0.0.2:34780'' (hole_punch_new (fill32 1))
   in r = Inr PunchSuccess \<and> (\<exists>k < 3. \<exists>src. answers env (fill32 2) k src \<and> get_punched_addr m' (fill32 2) = Some src)"
proof -
  let ?peer = "hole_punch_new (fill32 2)" and ?m = "hole_punch_new (fill32 1)"
  let ?env = "sample_punch_env (build_punch_packet ?peer (fill32 1))"
  have l: "hp_local_id ?peer = fill32 2" by (simp add: hole_punch_new_def)
  have a: "answers ?env (fill32 2) 1 ''10.0.0.2:34780''"
    using packet_valid [of ?peer "fill32 1"] by (simp add: answers_def sample_punch_env_def l)
  obtain m' r where p: "punch_hole ?env 0 (fill32 2) ''10.0.0.2:34780'' ?m = (m', r)" by force
  obtain res where res: "r = Inr res"
    using p by (cases r) (auto simp: punch_hole_def open_socket_def sample_punch_env_def hole_punch_new_def
        is_symmetric_nat_def hm_contains_def hm_simps Let_def split: prod.splits)
  have "(res = PunchSuccess \<longleftrightarrow> (\<exists>k < 3. \<exists>src. answers ?env (fill32 2) k src))
    \<and> (res = PunchSuccess \<longrightarrow> (\<exists>k < 3. \<exists>src. answers ?env (fill32 2) k src \<and> get_punched_addr m' (fill32 2) = Some src))"
    using punch_outcome [of ?env 0 "fill32 2" "''10.0.0.2:34780''" ?m m' res] p res
    by (simp add: hole_punch_new_def is_symmetric_nat_def get_punched_addr_def hm_simps)
  moreover have "\<exists>k < 3. \<exists>src. answers ?env (fill32 2) k src"
    using a by (intro exI [of _ 1] conjI exI) simp_all
  ultimately show ?thesis by (simp only: Let_def p res prod.case) simp
qed

text \<open>
  The receiver does not check that the packet was meant for it, nor where it came from: a
  packet of the peer for someone else opens the hole, to whatever address sent it.
\<close>

lemma foreign_packet_opens_hole:
  assumes "\<not> is_symmetric_nat m" and "get_punched_addr m (hp_local_id peer) = None" and "hp_socket m"
    and "pe_recv env 0 = Received (build_punch_packet peer someone_else) src"
  shows "\<exists>m'. punch_hole env now (hp_local_id peer) addr m = (m', Inr PunchSuccess)
    \<and> get_punched_addr m' (hp_local_id peer) = Some src"
  using assms packet_valid [of peer someone_else]
  by (simp add: punch_hole_def open_socket_def hm_contains_def get_punched_addr_def punch_retry_count_def
      upt_conv_Cons Let_def hm_simps)

end
