(* ===== verification/Session.thy ===== *)
theory Session
  imports NodeId HashMap
begin

text \<open>
  Encrypted sessions (\<open>src/vpn/session.rs\<close>): the state machine of one session, its keys,
  the counters that guard against replays and number the nonces, and the manager that keeps
  one session per remote node. A session that the manager hands out is a copy. The random
  bytes that overwrite an erased key are a parameter \<open>fill\<close>; the lifetime of an allocation
  and \<open>SessionGuard\<close>, which no code constructs, are not modelled.
\<close>

section \<open>One session\<close>

definition default_session_timeout_secs :: nat where
  "default_session_timeout_secs = 1800"

definition default_key_rotation_secs :: nat where
  "default_key_rotation_secs = 86400"

datatype session_error =
  SessNotFound string | SessInvalidState string | SessExpired string | SessCreationFailed string

fun session_error_display :: "session_error \<Rightarrow> string" where
  "session_error_display (SessNotFound m) = ''session not found: '' @ m"
| "session_error_display (SessInvalidState m) = ''invalid session state: '' @ m"
| "session_error_display (SessExpired m) = ''session expired: '' @ m"
| "session_error_display (SessCreationFailed m) = ''session creation failed: '' @ m"

datatype session_state = StInit | StHandshake | StEstablished | StClosing | StClosed

fun session_state_display :: "session_state \<Rightarrow> string" where
  "session_state_display StInit = ''INIT''"
| "session_state_display StHandshake = ''HANDSHAKE''"
| "session_state_display StEstablished = ''ESTABLISHED''"
| "session_state_display StClosing = ''CLOSING''"
| "session_state_display StClosed = ''CLOSED''"

record session_keys =
  sk_send_key :: bytes
  sk_recv_key :: bytes
  sk_created_at :: instant

definition session_keys_new :: "instant \<Rightarrow> bytes \<Rightarrow> bytes \<Rightarrow> session_keys" where
  "session_keys_new now sk rk = \<lparr>sk_send_key = sk, sk_recv_key = rk, sk_created_at = now\<rparr>"

definition keys_needs_rotation :: "instant \<Rightarrow> session_keys \<Rightarrow> bool" where
  "keys_needs_rotation now k \<longleftrightarrow> elapsed now (sk_created_at k) > from_secs default_key_rotation_secs"

text \<open>\<open>Vec::clear\<close> after the overwriting with random bytes.\<close>

definition vec_secure_erase :: "(bytes \<Rightarrow> bytes) \<Rightarrow> bytes \<Rightarrow> bytes" where
  "vec_secure_erase fill v = take 0 (fill v)"

definition keys_secure_erase :: "(bytes \<Rightarrow> bytes) \<Rightarrow> session_keys \<Rightarrow> session_keys" where
  "keys_secure_erase fill k =
     k\<lparr>sk_send_key := vec_secure_erase fill (sk_send_key k),
       sk_recv_key := vec_secure_erase fill (sk_recv_key k)\<rparr>"

record session =
  se_id :: string
  se_local_id :: node_id
  se_remote_id :: node_id
  se_state :: session_state
  se_keys :: "session_keys option"
  se_created_at :: instant
  se_last_active :: instant
  se_timeout :: duration
  se_send_counter :: u64
  se_recv_counter :: u64

definition session_new :: "(bytes \<Rightarrow> string) \<Rightarrow> instant \<Rightarrow> node_id \<Rightarrow> node_id \<Rightarrow> session" where
  "session_new hex now l r =
     (let local_hex = id_to_hex hex l; remote_hex = id_to_hex hex r
      in \<lparr>se_id = take (min 8 (length local_hex)) local_hex @ ''-''
                  @ take (min 8 (length remote_hex)) remote_hex,
          se_local_id = l, se_remote_id = r, se_state = StInit, se_keys = None,
          se_created_at = now, se_last_active = now,
          se_timeout = from_secs default_session_timeout_secs,
          se_send_counter = 0, se_recv_counter = 0\<rparr>)"

definition session_with_timeout ::
  "(bytes \<Rightarrow> string) \<Rightarrow> instant \<Rightarrow> node_id \<Rightarrow> node_id \<Rightarrow> duration \<Rightarrow> session" where
  "session_with_timeout hex now l r d = (session_new hex now l r)\<lparr>se_timeout := d\<rparr>"

definition session_is_expired :: "instant \<Rightarrow> session \<Rightarrow> bool" where
  "session_is_expired now s \<longleftrightarrow> elapsed now (se_last_active s) > se_timeout s"

definition session_is_active :: "instant \<Rightarrow> session \<Rightarrow> bool" where
  "session_is_active now s \<longleftrightarrow> se_state s = StEstablished \<and> \<not> session_is_expired now s"

definition session_touch :: "instant \<Rightarrow> session \<Rightarrow> session" where
  "session_touch now s = s\<lparr>se_last_active := now\<rparr>"

fun valid_transitions :: "session_state \<Rightarrow> session_state list" where
  "valid_transitions StInit = [StHandshake, StClosed]"
| "valid_transitions StHandshake = [StEstablished, StClosed]"
| "valid_transitions StEstablished = [StClosing]"
| "valid_transitions StClosing = [StClosed]"
| "valid_transitions StClosed = []"

definition session_transition ::
  "instant \<Rightarrow> session_state \<Rightarrow> session \<Rightarrow> session \<times> (session_error + unit)" where
  "session_transition now new s =
     (if new \<in> set (valid_transitions (se_state s))
      then (session_touch now (s\<lparr>se_state := new\<rparr>), Inr ())
      else (s, Inl (SessInvalidState (''cannot transition from '' @ session_state_display (se_state s)
                      @ '' to '' @ session_state_display new))))"

definition session_set_keys :: "instant \<Rightarrow> bytes \<Rightarrow> bytes \<Rightarrow> session \<Rightarrow> session" where
  "session_set_keys now sk rk s = session_touch now (s\<lparr>se_keys := Some (session_keys_new now sk rk)\<rparr>)"

definition needs_key_rotation :: "instant \<Rightarrow> session \<Rightarrow> bool" where
  "needs_key_rotation now s =
     (case se_keys s of None \<Rightarrow> False | Some k \<Rightarrow> keys_needs_rotation now k)"

text \<open>The second component is the erased key, which the code drops.\<close>

definition secure_close :: "(bytes \<Rightarrow> bytes) \<Rightarrow> session \<Rightarrow> session \<times> session_keys option" where
  "secure_close fill s =
     (s\<lparr>se_keys := None, se_state := StClosed\<rparr>, map_option (keys_secure_erase fill) (se_keys s))"

definition next_send_counter :: "instant \<Rightarrow> session \<Rightarrow> session \<times> u64" where
  "next_send_counter now s =
     (session_touch now (s\<lparr>se_send_counter := se_send_counter s + 1\<rparr>), se_send_counter s)"

definition verify_recv_counter :: "instant \<Rightarrow> u64 \<Rightarrow> session \<Rightarrow> session \<times> (session_error + unit)" where
  "verify_recv_counter now c s =
     (if c < se_recv_counter s
      then (s, Inl (SessInvalidState (''counter '' @ show_nat (unat c) @ '' < expected ''
                      @ show_nat (unat (se_recv_counter s)))))
      else (session_touch now (s\<lparr>se_recv_counter := c + 1\<rparr>), Inr ()))"

lemmas session_defs = session_touch_def session_transition_def session_set_keys_def
  secure_close_def next_send_counter_def verify_recv_counter_def

section \<open>The manager\<close>

record session_manager =
  sm_sessions :: "(node_id, session) hashmap"
  sm_local_id :: node_id
  sm_default_timeout :: duration

definition session_manager_with_timeout :: "node_id \<Rightarrow> duration \<Rightarrow> session_manager" where
  "session_manager_with_timeout l d =
     \<lparr>sm_sessions = hm_empty, sm_local_id = l, sm_default_timeout = d\<rparr>"

definition session_manager_new :: "node_id \<Rightarrow> session_manager" where
  "session_manager_new l =
     \<lparr>sm_sessions = hm_empty, sm_local_id = l,
      sm_default_timeout = from_secs default_session_timeout_secs\<rparr>"

definition get_or_create ::
  "(bytes \<Rightarrow> string) \<Rightarrow> instant \<Rightarrow> node_id \<Rightarrow> session_manager \<Rightarrow> session_manager \<times> session" where
  "get_or_create hex now r m =
     (let fresh = session_with_timeout hex now (sm_local_id m) r (sm_default_timeout m);
          created = (m\<lparr>sm_sessions := hm_insert r fresh (sm_sessions m)\<rparr>, fresh)
      in case hm_get (sm_sessions m) r of
           Some s \<Rightarrow> if \<not> session_is_expired now s then (m, s) else created
         | None \<Rightarrow> created)"

definition session_get :: "session_manager \<Rightarrow> node_id \<Rightarrow> session option" where
  "session_get m r = hm_get (sm_sessions m) r"

definition session_get_mut :: "session_manager \<Rightarrow> node_id \<Rightarrow> session option" where
  "session_get_mut m r = None"

definition update_state ::
  "(bytes \<Rightarrow> string) \<Rightarrow> instant \<Rightarrow> node_id \<Rightarrow> session_state \<Rightarrow> session_manager
   \<Rightarrow> session_manager \<times> (session_error + unit)" where
  "update_state hex now r new m =
     (case hm_get (sm_sessions m) r of
        None \<Rightarrow> (m, Inl (SessNotFound (id_to_hex hex r)))
      | Some s \<Rightarrow>
          (let (s', res) = session_transition now new s
           in (m\<lparr>sm_sessions := hm_insert r s' (sm_sessions m)\<rparr>, res)))"

definition manager_set_keys ::
  "(bytes \<Rightarrow> string) \<Rightarrow> instant \<Rightarrow> node_id \<Rightarrow> bytes \<Rightarrow> bytes \<Rightarrow> session_manager
   \<Rightarrow> session_manager \<times> (session_error + unit)" where
  "manager_set_keys hex now r sk rk m =
     (case hm_get (sm_sessions m) r of
        None \<Rightarrow> (m, Inl (SessNotFound (id_to_hex hex r)))
      | Some s \<Rightarrow>
          (m\<lparr>sm_sessions := hm_insert r (session_set_keys now sk rk s) (sm_sessions m)\<rparr>, Inr ()))"

definition session_remove :: "node_id \<Rightarrow> session_manager \<Rightarrow> session_manager \<times> session option" where
  "session_remove r m =
     (m\<lparr>sm_sessions := hm_remove r (sm_sessions m)\<rparr>, hm_get (sm_sessions m) r)"

text \<open>The second component is the closed session that the code drops.\<close>

definition secure_remove ::
  "(bytes \<Rightarrow> bytes) \<Rightarrow> node_id \<Rightarrow> session_manager \<Rightarrow> session_manager \<times> session option" where
  "secure_remove fill r m =
     (m\<lparr>sm_sessions := hm_remove r (sm_sessions m)\<rparr>,
      map_option (\<lambda>s. fst (secure_close fill s)) (hm_get (sm_sessions m) r))"

definition sess_cleanup_expired ::
  "(bytes \<Rightarrow> bytes) \<Rightarrow> instant \<Rightarrow> session_manager \<Rightarrow> session_manager \<times> node_id list" where
  "sess_cleanup_expired fill now m =
     (let expired = map fst (filter (\<lambda>(_, s). session_is_expired now s) (sm_sessions m))
      in (fold (\<lambda>i m. fst (secure_remove fill i m)) expired m, expired))"

definition active_sessions :: "instant \<Rightarrow> session_manager \<Rightarrow> session list" where
  "active_sessions now m = filter (session_is_active now) (hm_values (sm_sessions m))"

definition session_count :: "session_manager \<Rightarrow> nat" where
  "session_count m = hm_len (sm_sessions m)"

definition has_active_session :: "instant \<Rightarrow> session_manager \<Rightarrow> node_id \<Rightarrow> bool" where
  "has_active_session now m r =
     (case hm_get (sm_sessions m) r of None \<Rightarrow> False | Some s \<Rightarrow> session_is_active now s)"

definition manager_touch ::
  "(bytes \<Rightarrow> string) \<Rightarrow> instant \<Rightarrow> node_id \<Rightarrow> session_manager \<Rightarrow> session_manager \<times> (session_error + unit)" where
  "manager_touch hex now r m =
     (case hm_get (sm_sessions m) r of
        None \<Rightarrow> (m, Inl (SessNotFound (id_to_hex hex r)))
      | Some s \<Rightarrow> (m\<lparr>sm_sessions := hm_insert r (session_touch now s) (sm_sessions m)\<rparr>, Inr ()))"

section \<open>Every history of a session\<close>

text \<open>
  One call of a method that changes a session, and the states a session has gone through:
  \<open>session_run fill s h s'\<close> when calls lead from \<open>s\<close> to \<open>s'\<close> and \<open>h\<close> lists the states on
  the way, a state that a call keeps once.
\<close>

datatype session_op =
    OpTouch instant | OpTransition instant session_state | OpSetKeys instant bytes bytes
  | OpClose | OpSend instant | OpRecv instant u64

fun session_do :: "(bytes \<Rightarrow> bytes) \<Rightarrow> session_op \<Rightarrow> session \<Rightarrow> session" where
  "session_do fill (OpTouch now) s = session_touch now s"
| "session_do fill (OpTransition now new) s = fst (session_transition now new s)"
| "session_do fill (OpSetKeys now sk rk) s = session_set_keys now sk rk s"
| "session_do fill OpClose s = fst (secure_close fill s)"
| "session_do fill (OpSend now) s = fst (next_send_counter now s)"
| "session_do fill (OpRecv now c) s = fst (verify_recv_counter now c s)"

inductive session_run :: "(bytes \<Rightarrow> bytes) \<Rightarrow> session \<Rightarrow> session_state list \<Rightarrow> session \<Rightarrow> bool" for fill s where
  start: "session_run fill s [se_state s] s"
| stay: "session_run fill s h u \<Longrightarrow> v = session_do fill op u \<Longrightarrow> se_state v = se_state u
    \<Longrightarrow> session_run fill s h v"
| move: "session_run fill s h u \<Longrightarrow> v = session_do fill op u \<Longrightarrow> se_state v \<noteq> se_state u
    \<Longrightarrow> session_run fill s (h @ [se_state v]) v"

lemma session_do_state:
  "se_state (session_do fill op u) = se_state u \<or> se_state (session_do fill op u) = StClosed
   \<or> se_state (session_do fill op u) \<in> set (valid_transitions (se_state u))"
  by (cases op) (simp_all add: session_defs)

text \<open>The states of an orderly session, in their order.\<close>

definition lifecycle :: "session_state list" where
  "lifecycle = [StInit, StHandshake, StEstablished, StClosing]"

definition orderly :: "session_state list \<Rightarrow> bool" where
  "orderly h \<longleftrightarrow> (\<exists>n. 0 < n \<and> n \<le> 4 \<and> (h = take n lifecycle \<or> h = take n lifecycle @ [StClosed]))"

lemma ex_1_4: "(\<exists>n. 0 < n \<and> n \<le> 4 \<and> P n) \<longleftrightarrow> P 1 \<or> P 2 \<or> P 3 \<or> P (4 :: nat)"
proof -
  have "0 < n \<and> n \<le> 4 \<longleftrightarrow> n = 1 \<or> n = 2 \<or> n = 3 \<or> n = 4" for n :: nat by linarith
  then show ?thesis by metis
qed

lemma orderly_iff:
  "orderly h \<longleftrightarrow>
     (h = [StInit] \<or> h = [StInit, StClosed])
   \<or> (h = [StInit, StHandshake] \<or> h = [StInit, StHandshake, StClosed])
   \<or> (h = [StInit, StHandshake, StEstablished] \<or> h = [StInit, StHandshake, StEstablished, StClosed])
   \<or> (h = [StInit, StHandshake, StEstablished, StClosing]
      \<or> h = [StInit, StHandshake, StEstablished, StClosing, StClosed])"
  unfolding orderly_def ex_1_4 lifecycle_def by (simp add: numeral_eq_Suc)

lemma orderly_extend:
  assumes "orderly h" and "last h = x" and "y \<noteq> x" and "y = StClosed \<or> y \<in> set (valid_transitions x)"
  shows "orderly (h @ [y])"
  using assms(1) [unfolded orderly_iff] assms(2-4)
  by (elim disjE) (simp_all add: orderly_iff, auto)

lemma session_run_orderly:
  "session_run fill s h s' \<Longrightarrow> se_state s = StInit \<Longrightarrow> orderly h \<and> last h = se_state s'"
proof (induction rule: session_run.induct)
  case start
  then show ?case by (simp add: orderly_iff)
next
  case (move h u v op)
  then show ?case
    using session_do_state [of fill op u] orderly_extend [of h "se_state u" "se_state v"] by auto
qed simp

text \<open>C26. The states a session goes through, whatever operations it gets, are a prefix of
  Init, Handshake, Established, Closing, Closed, possibly cut short by Closed, so
  every recorded state is reached in this order and Closed is final.\<close>

theorem session_lifecycle:
  assumes "session_run fill (session_new hex now l r) h s"
  shows "(\<exists>n. 0 < n \<and> n \<le> 4 \<and> (h = take n lifecycle \<or> h = take n lifecycle @ [StClosed]))
     \<and> last h = se_state s"
  using session_run_orderly [OF assms] by (simp add: orderly_def session_new_def Let_def)

theorem session_lifecycle_witness:
  "\<exists>h s. session_run id (session_new (\<lambda>_. []) 0 (fill32 1) (fill32 2)) h s \<and> se_state s = StClosed
     \<and> last h = se_state s"
proof -
  let ?a = "session_new (\<lambda>_. []) 0 (fill32 1) (fill32 2)"
  let ?b = "fst (session_transition 1 StHandshake ?a)"
  let ?c = "fst (secure_close id ?b)"
  have s: "se_state ?a = StInit" "se_state ?b = StHandshake" "se_state ?c = StClosed"
    by (simp_all add: session_defs session_new_def Let_def)
  have "session_run id ?a [StInit] ?a" using session_run.start [of id ?a] s by simp
  then have "session_run id ?a ([StInit] @ [se_state ?b]) ?b"
    by (rule session_run.move [where op = "OpTransition 1 StHandshake"]) (simp_all add: s)
  then have "session_run id ?a (([StInit] @ [se_state ?b]) @ [se_state ?c]) ?c"
    by (rule session_run.move [where op = OpClose]) (simp_all add: s)
  with session_lifecycle [OF this] s(3) show ?thesis by blast
qed

section \<open>Counters\<close>

text \<open>The counters that a run of calls accepts, and those it numbers messages with.\<close>

fun accepted :: "(bytes \<Rightarrow> bytes) \<Rightarrow> session_op list \<Rightarrow> session \<Rightarrow> u64 list" where
  "accepted fill [] s = []"
| "accepted fill (op # ops) s =
     (case op of
        OpRecv now c \<Rightarrow> (if snd (verify_recv_counter now c s) = Inr () then [c] else [])
      | _ \<Rightarrow> []) @ accepted fill ops (session_do fill op s)"

fun numbered :: "(bytes \<Rightarrow> bytes) \<Rightarrow> session_op list \<Rightarrow> session \<Rightarrow> u64 list" where
  "numbered fill [] s = []"
| "numbered fill (op # ops) s =
     (case op of OpSend now \<Rightarrow> [snd (next_send_counter now s)] | _ \<Rightarrow> [])
     @ numbered fill ops (session_do fill op s)"

lemma recv_counter_other:
  "(\<And>now c. op \<noteq> OpRecv now c) \<Longrightarrow> se_recv_counter (session_do fill op s) = se_recv_counter s"
  by (cases op) (auto simp: session_defs)

lemma send_counter_other:
  "(\<And>now. op \<noteq> OpSend now) \<Longrightarrow> se_send_counter (session_do fill op s) = se_send_counter s"
  by (cases op) (auto simp: session_defs)

lemma accepted_increase:
  "- 1 \<notin> set (accepted fill ops s) \<Longrightarrow>
   sorted_wrt (<) (accepted fill ops s) \<and> (\<forall>c \<in> set (accepted fill ops s). se_recv_counter s \<le> c)"
proof (induction ops arbitrary: s)
  case (Cons op ops)
  let ?s = "session_do fill op s"
  show ?case
  proof (cases "\<exists>now c. op = OpRecv now c \<and> snd (verify_recv_counter now c s) = Inr ()")
    case True
    then obtain now c where op: "op = OpRecv now c" and c: "se_recv_counter s \<le> c"
      by (auto simp: verify_recv_counter_def split: if_splits)
    then have eq: "accepted fill (op # ops) s = c # accepted fill ops ?s"
      and r: "se_recv_counter ?s = c + 1"
      by (simp_all add: verify_recv_counter_def session_touch_def leD)
    from eq Cons.prems have "c \<noteq> - 1" and "- 1 \<notin> set (accepted fill ops ?s)" by auto
    with Cons.IH [of ?s] r word_less_inc [of c]
    have "sorted_wrt (<) (accepted fill ops ?s)" "\<forall>d \<in> set (accepted fill ops ?s). c < d"
      by (auto dest: less_le_trans)
    with eq c show ?thesis by (auto intro: order_trans less_imp_le)
  next
    case False
    then have "accepted fill (op # ops) s = accepted fill ops ?s"
      by (cases op) auto
    moreover have "se_recv_counter ?s = se_recv_counter s"
      using False by (cases op) (auto simp: session_defs)
    ultimately show ?thesis using Cons by metis
  qed
qed simp

lemma numbered_eq:
  "numbered fill ops s = map (\<lambda>i. se_send_counter s + of_nat i) [0..<length (numbered fill ops s)]"
proof (induction ops arbitrary: s)
  case (Cons op ops)
  let ?s = "session_do fill op s"
  show ?case
  proof (cases "\<exists>now. op = OpSend now")
    case True
    then have eq: "numbered fill (op # ops) s = se_send_counter s # numbered fill ops ?s"
      and n: "se_send_counter ?s = se_send_counter s + 1"
      by (auto simp: next_send_counter_def session_touch_def)
    have "numbered fill ops ?s
        = map (\<lambda>i. se_send_counter s + of_nat (Suc i)) [0..<length (numbered fill ops ?s)]"
      using Cons.IH [of ?s] by (simp add: n add.assoc)
    also have "\<dots> = map (\<lambda>i. se_send_counter s + of_nat i) [Suc 0..<Suc (length (numbered fill ops ?s))]"
      by (simp only: map_Suc_upt [symmetric] map_map comp_def)
    finally show ?thesis unfolding eq by (simp add: upt_conv_Cons [of 0] del: upt_Suc)
  next
    case False
    then have "numbered fill (op # ops) s = numbered fill ops ?s" by (cases op) auto
    with False Cons.IH [of ?s] send_counter_other [of op fill s] show ?thesis by simp
  qed
qed simp

lemma of_nat_upt_distinct: "n \<le> 2 ^ 64 \<Longrightarrow> distinct (map (\<lambda>i. (w :: u64) + of_nat i) [0..<n])"
proof -
  assume n: "n \<le> 2 ^ 64"
  have "i = j" if "i < n" "j < n" "(of_nat i :: u64) = of_nat j" for i j
  proof -
    from that(3) have "unat (of_nat i :: u64) = unat (of_nat j :: u64)" by simp
    with that(1,2) n show ?thesis by (simp add: unat_of_nat)
  qed
  then show ?thesis by (auto simp: distinct_map inj_on_def)
qed

text \<open>C27. The counters a session accepts are strictly increasing, so none is accepted
  twice, in any sequence of its operations in which the largest counter 2^64 - 1 is
  not accepted.\<close>

theorem replay_rejected:
  assumes "- 1 \<notin> set (accepted fill ops s)"
  shows "sorted_wrt (<) (accepted fill ops s) \<and> distinct (accepted fill ops s)"
  using accepted_increase [OF assms] strict_sorted_iff by blast

theorem replay_rejected_witness:
  "sorted_wrt (<) (accepted id [OpRecv 1 4, OpRecv 2 4, OpSend 3, OpRecv 4 7, OpRecv 5 5]
     (session_new (\<lambda>_. []) 0 (fill32 1) (fill32 2)))"
proof -
  have "accepted id [OpRecv 1 4, OpRecv 2 4, OpSend 3, OpRecv 4 7, OpRecv 5 5]
     (session_new (\<lambda>_. []) 0 (fill32 1) (fill32 2)) = [4, 7]"
    by (simp add: session_defs session_new_def Let_def)
  then show ?thesis
    using replay_rejected [of id "[OpRecv 1 4, OpRecv 2 4, OpSend 3, OpRecv 4 7, OpRecv 5 5]"
        "session_new (\<lambda>_. []) 0 (fill32 1) (fill32 2)"] by simp
qed

text \<open>Accepting the counter 2^64 - 1 wraps the expected counter to 0, after which every
  counter is accepted again.\<close>

theorem last_counter_reopens_window:
  "snd (verify_recv_counter now (- 1) s) = Inr ()
   \<and> snd (verify_recv_counter now' c (fst (verify_recv_counter now (- 1) s))) = Inr ()"
  by (simp add: verify_recv_counter_def session_touch_def not_less)

text \<open>The counters handed out for sending are consecutive and do not repeat within 2^64
  sends.\<close>

theorem nonces_never_repeat:
  "numbered fill ops s = map (\<lambda>i. se_send_counter s + of_nat i) [0..<length (numbered fill ops s)]
   \<and> (length (numbered fill ops s) \<le> 2 ^ 64 \<longrightarrow> distinct (numbered fill ops s))"
  using numbered_eq [of fill ops s] of_nat_upt_distinct [of "length (numbered fill ops s)" "se_send_counter s"]
  by metis

theorem nonces_never_repeat_witness:
  "distinct (numbered id [OpSend 1, OpSetKeys 2 [1] [2], OpSend 3]
     (session_new (\<lambda>_. []) 0 (fill32 1) (fill32 2)))"
  using nonces_never_repeat [of id "[OpSend 1, OpSetKeys 2 [1] [2], OpSend 3]"
      "session_new (\<lambda>_. []) 0 (fill32 1) (fill32 2)"]
  by (simp add: session_defs session_new_def Let_def)

section \<open>Every history of the manager\<close>

datatype session_manager_op =
    MGetOrCreate instant node_id | MUpdateState instant node_id session_state
  | MSetKeys instant node_id bytes bytes | MRemove node_id | MSecureRemove node_id
  | MCleanup instant | MTouch instant node_id

fun session_manager_step ::
  "(bytes \<Rightarrow> string) \<Rightarrow> (bytes \<Rightarrow> bytes) \<Rightarrow> session_manager_op \<Rightarrow> session_manager \<Rightarrow> session_manager" where
  "session_manager_step hex fill (MGetOrCreate now r) m = fst (get_or_create hex now r m)"
| "session_manager_step hex fill (MUpdateState now r st) m = fst (update_state hex now r st m)"
| "session_manager_step hex fill (MSetKeys now r sk rk) m = fst (manager_set_keys hex now r sk rk m)"
| "session_manager_step hex fill (MRemove r) m = fst (session_remove r m)"
| "session_manager_step hex fill (MSecureRemove r) m = fst (secure_remove fill r m)"
| "session_manager_step hex fill (MCleanup now) m = fst (sess_cleanup_expired fill now m)"
| "session_manager_step hex fill (MTouch now r) m = fst (manager_touch hex now r m)"

text \<open>
  What every stored session satisfies: it belongs to its key and to the manager, and, since
  no operation of the manager counts, both its counters are still zero.
\<close>

definition stored_ok :: "session_manager \<Rightarrow> node_id \<Rightarrow> session \<Rightarrow> bool" where
  "stored_ok m r s \<longleftrightarrow> se_remote_id s = r \<and> se_local_id s = sm_local_id m
     \<and> se_timeout s = sm_default_timeout m \<and> se_send_counter s = 0 \<and> se_recv_counter s = 0"

definition session_manager_ok :: "node_id \<Rightarrow> session_manager \<Rightarrow> bool" where
  "session_manager_ok l m \<longleftrightarrow> sm_local_id m = l \<and> hm_ok (sm_sessions m)
     \<and> (\<forall>r s. hm_get (sm_sessions m) r = Some s \<longrightarrow> stored_ok m r s)"

lemma session_manager_okD:
  "session_manager_ok l m \<Longrightarrow> hm_get (sm_sessions m) r = Some s \<Longrightarrow> stored_ok m r s"
  by (simp add: session_manager_ok_def)

lemma session_manager_ok_insert:
  "session_manager_ok l m \<Longrightarrow> stored_ok m r s \<Longrightarrow>
   session_manager_ok l (m\<lparr>sm_sessions := hm_insert r s (sm_sessions m)\<rparr>)"
  by (auto simp: session_manager_ok_def stored_ok_def hm_simps)

lemma session_manager_ok_remove:
  "session_manager_ok l m \<Longrightarrow> session_manager_ok l (m\<lparr>sm_sessions := hm_remove r (sm_sessions m)\<rparr>)"
  by (auto simp: session_manager_ok_def stored_ok_def hm_simps hm.ok_remove split: if_splits)

lemma stored_ok_fresh: "stored_ok m r (session_with_timeout hex now (sm_local_id m) r (sm_default_timeout m))"
  by (simp add: stored_ok_def session_with_timeout_def session_new_def Let_def)

lemma stored_ok_change:
  "stored_ok m r s \<Longrightarrow> stored_ok m r (fst (session_transition now st s))"
  "stored_ok m r s \<Longrightarrow> stored_ok m r (session_set_keys now sk rk s)"
  "stored_ok m r s \<Longrightarrow> stored_ok m r (session_touch now s)"
  by (simp_all add: stored_ok_def session_defs)

lemma secure_remove_fold:
  "fold (\<lambda>i m. fst (secure_remove fill i m)) ids m
     = m\<lparr>sm_sessions := fold hm_remove ids (sm_sessions m)\<rparr>"
  by (induction ids arbitrary: m) (simp_all add: secure_remove_def)

lemma hm_get_fold_remove:
  "hm_get (fold hm_remove ids m) k = (if k \<in> set ids then None else hm_get m k)"
  by (induction ids arbitrary: m) (auto simp: hm_simps)

lemma hm_ok_fold_remove: "hm_ok m \<Longrightarrow> hm_ok (fold hm_remove ids m)"
  by (induction ids arbitrary: m) (simp_all add: hm.ok_remove)

lemma session_manager_ok_cleanup:
  "session_manager_ok l m \<Longrightarrow> session_manager_ok l (fst (sess_cleanup_expired fill now m))"
  by (auto simp: sess_cleanup_expired_def Let_def secure_remove_fold session_manager_ok_def
      stored_ok_def hm_get_fold_remove hm_ok_fold_remove split: if_splits)

interpretation sess: op_machine "session_manager_step hex fill" "session_manager_ok l"
proof
  fix op m assume m: "session_manager_ok l m"
  note ok = session_manager_ok_insert [OF m] session_manager_ok_remove [OF m] stored_ok_fresh
    stored_ok_change session_manager_okD [OF m]
  show "session_manager_ok l (session_manager_step hex fill op m)"
    by (cases op) (auto simp: get_or_create_def update_state_def manager_set_keys_def
        session_remove_def secure_remove_def manager_touch_def Let_def split_beta
        m ok session_manager_ok_cleanup split: option.split)
qed

lemma session_manager_ok_new: "session_manager_ok l (session_manager_with_timeout l d)"
  by (simp add: session_manager_ok_def session_manager_with_timeout_def hm_simps)

text \<open>Whatever a session manager was asked before, every copy of a session it hands out
  starts with send counter 0 and accepts every received counter: neither counter
  survives between two uses.\<close>

theorem copies_restart_counters:
  assumes "m = fold (session_manager_step hex fill) ops (session_manager_with_timeout l d)"
    and "session_get m r = Some s"
  shows "se_remote_id s = r \<and> se_local_id s = l
     \<and> snd (next_send_counter now s) = 0 \<and> snd (verify_recv_counter now c s) = Inr ()"
proof -
  have "session_manager_ok l m"
    using sess.run_inv [OF session_manager_ok_new] assms(1) by blast
  then show ?thesis
    using assms(2) by (auto simp: session_manager_ok_def session_get_def stored_ok_def
        next_send_counter_def verify_recv_counter_def)
qed

theorem copies_restart_counters_witness:
  "snd (next_send_counter 9 (snd (get_or_create (\<lambda>_. []) 5 (fill32 2)
     (session_manager_with_timeout (fill32 1) 100)))) = 0"
proof -
  let ?m = "fold (session_manager_step (\<lambda>_. []) id) [MGetOrCreate 5 (fill32 2)]
     (session_manager_with_timeout (fill32 1) 100)"
  let ?s = "snd (get_or_create (\<lambda>_. []) 5 (fill32 2) (session_manager_with_timeout (fill32 1) 100))"
  have "session_get ?m (fill32 2) = Some ?s"
    by (simp add: session_get_def get_or_create_def session_manager_with_timeout_def Let_def hm_simps)
  from copies_restart_counters [OF refl this] show ?thesis by blast
qed

text \<open>
  A call of \<open>get_or_create\<close>: an unexpired session is handed out as it is, otherwise a new one
  takes its place; the same session is handed out again until it expires.
\<close>

lemma fresh_not_expired: "\<not> session_is_expired now (session_with_timeout hex now l r d)"
  by (simp add: session_is_expired_def session_with_timeout_def session_new_def Let_def)

theorem session_reused:
  assumes "get_or_create hex now r m = (m', s)"
  shows "session_get m' r = Some s \<and> \<not> session_is_expired now s
     \<and> (\<forall>q. q \<noteq> r \<longrightarrow> session_get m' q = session_get m q)
     \<and> (\<not> session_is_expired now' s \<longrightarrow> get_or_create hex now' r m' = (m', s))
     \<and> (case session_get m r of
          Some old \<Rightarrow> if session_is_expired now old then se_state s = StInit \<and> se_keys s = None
                     else m' = m \<and> s = old
        | None \<Rightarrow> se_state s = StInit \<and> se_keys s = None)"
proof (cases "\<exists>old. session_get m r = Some old \<and> \<not> session_is_expired now old")
  case True
  with assms show ?thesis by (auto simp: get_or_create_def session_get_def Let_def)
next
  case False
  let ?f = "session_with_timeout hex now (sm_local_id m) r (sm_default_timeout m)"
  from False assms have "s = ?f" "m' = m\<lparr>sm_sessions := hm_insert r ?f (sm_sessions m)\<rparr>"
    by (auto simp: get_or_create_def session_get_def Let_def split: option.splits)
  moreover have "se_state ?f = StInit" "se_keys ?f = None"
    by (simp_all add: session_with_timeout_def session_new_def Let_def)
  ultimately show ?thesis
    using False fresh_not_expired [of now hex "sm_local_id m" r "sm_default_timeout m"]
    by (auto simp: get_or_create_def session_get_def Let_def hm_simps split: option.split)
qed

text \<open>\<open>cleanup_expired\<close> removes the expired sessions and nothing else.\<close>

lemma fold_remove_filter: "fold hm_remove ids m = filter (\<lambda>(k, _). k \<notin> set ids) m"
proof (induction ids arbitrary: m)
  case (Cons i ids)
  have "hm_remove i m = filter (\<lambda>(k, _). k \<noteq> i) m"
    by (simp add: hm_remove_def AList.delete_eq split_beta eq_commute)
  with Cons show ?case by (auto simp: split_beta intro: filter_cong)
qed (simp add: split_beta)

lemma fold_remove_selected:
  assumes "hm_ok m"
  shows "fold hm_remove (map fst (filter P m)) m = filter (\<lambda>e. \<not> P e) m"
proof -
  have "fst e \<in> set (map fst (filter P m)) \<longleftrightarrow> P e" if "e \<in> set m" for e
    using assms that by (auto simp: hm_ok_def) (metis eq_key_imp_eq_value prod.collapse)
  then show ?thesis unfolding fold_remove_filter by (intro filter_cong) (auto simp: split_beta)
qed

theorem session_cleanup_exact:
  assumes "session_manager_ok l m" and "sess_cleanup_expired fill now m = (m', ids)"
  shows "session_count m' + length ids = session_count m
     \<and> session_get m' r = (case session_get m r of
          Some s \<Rightarrow> if session_is_expired now s then None else Some s | None \<Rightarrow> None)
     \<and> has_active_session now m' r = has_active_session now m r"
proof -
  let ?P = "\<lambda>(_, s). session_is_expired now s"
  have ok: "hm_ok (sm_sessions m)" using assms(1) by (simp add: session_manager_ok_def)
  have m': "sm_sessions m' = hm_retain (\<lambda>_ s. \<not> session_is_expired now s) (sm_sessions m)"
    and ids: "ids = map fst (filter ?P (sm_sessions m))"
    using assms(2) fold_remove_selected [OF ok, of ?P]
    by (auto simp: sess_cleanup_expired_def Let_def secure_remove_fold hm_retain_def case_prod_beta')
  have "session_count m' + length ids = session_count m"
    using sum_length_filter_compl [of ?P "sm_sessions m"]
    by (simp add: session_count_def hm_len_def m' ids hm_retain_def case_prod_beta')
  then show ?thesis
    by (auto simp: session_get_def has_active_session_def m' hm_get_retain [OF ok]
        session_is_active_def split: option.split)
qed

end
