(* ===== verification/Center.thy ===== *)
theory Center
  imports Relay Disk
begin

text \<open>
  The registry centre (\<open>src/registry/center.rs\<close>): the server that binds names to node
  identities in both directions, its JSON file and its messages, and the client with its
  cache. The JSON codec of the payloads is the parameter \<open>registry_codec\<close>, of the file
  \<open>json_env\<close>; the hexadecimal codec is \<open>hex_encode\<close> and \<open>hex_decode\<close>. The thread that only
  logs at intervals is not modelled.
\<close>

section \<open>Messages and entries\<close>

definition default_cache_ttl :: u64 where
  "default_cache_ttl = 60"

datatype registry_message_type =
  RegRegister | RegRegisterAck | RegLookup | RegLookupResponse | RegReverseLookup
| RegReverseLookupResponse | RegListNodes | RegListNodesResponse

definition registry_type_from_u8 :: "byte \<Rightarrow> registry_message_type option" where
  "registry_type_from_u8 b =
     (if b = 0x01 then Some RegRegister else if b = 0x02 then Some RegRegisterAck
      else if b = 0x03 then Some RegLookup else if b = 0x04 then Some RegLookupResponse
      else if b = 0x05 then Some RegReverseLookup else if b = 0x06 then Some RegReverseLookupResponse
      else if b = 0x07 then Some RegListNodes else if b = 0x08 then Some RegListNodesResponse
      else None)"

fun registry_type_to_u8 :: "registry_message_type \<Rightarrow> byte" where
  "registry_type_to_u8 RegRegister = 0x01"
| "registry_type_to_u8 RegRegisterAck = 0x02"
| "registry_type_to_u8 RegLookup = 0x03"
| "registry_type_to_u8 RegLookupResponse = 0x04"
| "registry_type_to_u8 RegReverseLookup = 0x05"
| "registry_type_to_u8 RegReverseLookupResponse = 0x06"
| "registry_type_to_u8 RegListNodes = 0x07"
| "registry_type_to_u8 RegListNodesResponse = 0x08"

interpretation regt: wire_tag registry_type_to_u8 registry_type_from_u8
proof unfold_locales
  fix t b
  show "registry_type_from_u8 (registry_type_to_u8 t) = Some t"
    by (cases t) (simp_all add: registry_type_from_u8_def)
  show "registry_type_from_u8 b = Some t \<Longrightarrow> registry_type_to_u8 t = b"
    by (auto simp: registry_type_from_u8_def split: if_splits)
qed

datatype registry_error =
  RgAlreadyRegistered string | RgNotFound string | RgIoError string | RgSerializeError string | RgLockPoisoned

fun registry_error_display :: "registry_error \<Rightarrow> string" where
  "registry_error_display (RgAlreadyRegistered n) =
     ''name '' @ [CHR 0x27] @ n @ [CHR 0x27] @ '' is already registered''"
| "registry_error_display (RgNotFound n) = ''name '' @ [CHR 0x27] @ n @ [CHR 0x27] @ '' not found''"
| "registry_error_display (RgIoError e) = ''io error: '' @ e"
| "registry_error_display (RgSerializeError m) = ''serialize error: '' @ m"
| "registry_error_display RgLockPoisoned = ''lock poisoned''"

fun registry_of_json_error :: "json_error \<Rightarrow> registry_error" where
  "registry_of_json_error (CodecError e) = RgSerializeError e"
| "registry_of_json_error (CreateDirError e) = RgIoError e"
| "registry_of_json_error (WriteError e) = RgIoError e"
| "registry_of_json_error (ReadError e) = RgIoError e"

record registry_entry =
  re_name :: string
  re_node_id :: node_id
  re_registered_at :: u64
  re_last_seen :: u64
  re_ttl :: u64

definition registry_entry_new :: "u64 \<Rightarrow> string \<Rightarrow> node_id \<Rightarrow> registry_entry" where
  "registry_entry_new now n i =
     \<lparr>re_name = n, re_node_id = i, re_registered_at = now, re_last_seen = now, re_ttl = default_cache_ttl\<rparr>"

definition registry_entry_touch :: "u64 \<Rightarrow> registry_entry \<Rightarrow> registry_entry" where
  "registry_entry_touch now e = e\<lparr>re_last_seen := now\<rparr>"

record registry_data =
  rd_names :: "(string, registry_entry) hashmap"
  rd_reverse :: "(string, string) hashmap"

record node_info =
  ni_name :: string
  ni_node_id :: node_id
  ni_registered_at :: u64
  ni_last_seen :: u64

record register_payload =
  rp_name :: string
  rp_node_id :: node_id

record register_ack_payload =
  ra_success :: bool
  ra_message :: string

record lookup_payload =
  lp_name :: string

record lookup_response_payload =
  lr_found :: bool
  lr_node_id :: "node_id option"

record reverse_lookup_payload =
  rl_node_id :: node_id

record reverse_lookup_response_payload =
  rr_found :: bool
  rr_name :: "string option"

record list_nodes_response_payload =
  ln_nodes :: "node_info list"
  ln_count :: nat

text \<open>\<open>serde_json::to_vec\<close> and \<open>from_slice\<close> on each payload; the first may fail.\<close>

record registry_codec =
  cenc_register :: "register_payload \<Rightarrow> bytes option"
  cdec_register :: "bytes \<Rightarrow> register_payload option"
  cenc_ack :: "register_ack_payload \<Rightarrow> bytes option"
  cdec_ack :: "bytes \<Rightarrow> register_ack_payload option"
  cenc_lookup :: "lookup_payload \<Rightarrow> bytes option"
  cdec_lookup :: "bytes \<Rightarrow> lookup_payload option"
  cenc_lookup_response :: "lookup_response_payload \<Rightarrow> bytes option"
  cdec_lookup_response :: "bytes \<Rightarrow> lookup_response_payload option"
  cenc_reverse :: "reverse_lookup_payload \<Rightarrow> bytes option"
  cdec_reverse :: "bytes \<Rightarrow> reverse_lookup_payload option"
  cenc_reverse_response :: "reverse_lookup_response_payload \<Rightarrow> bytes option"
  cdec_reverse_response :: "bytes \<Rightarrow> reverse_lookup_response_payload option"
  cenc_list :: "list_nodes_response_payload \<Rightarrow> bytes option"
  cdec_list :: "bytes \<Rightarrow> list_nodes_response_payload option"

section \<open>The server\<close>

record registry_server =
  rs_names :: "(string, registry_entry) hashmap"
  rs_reverse :: "(node_id, string) hashmap"
  rs_db_path :: string
  rs_running :: bool
  rs_dirty :: bool

type_synonym registry_env = "registry_data json_env"
type_synonym registry_state = "registry_server \<times> disk"

definition registry_new :: "string \<Rightarrow> registry_server" where
  "registry_new path =
     \<lparr>rs_names = hm_empty, rs_reverse = hm_empty, rs_db_path = path, rs_running = False, rs_dirty = False\<rparr>"

definition node_id_to_hex :: "(bytes \<Rightarrow> string) \<Rightarrow> node_id \<Rightarrow> string" where
  "node_id_to_hex hex_encode i = id_to_hex hex_encode i"

definition node_id_from_hex :: "(string \<Rightarrow> hex_error + bytes) \<Rightarrow> string \<Rightarrow> hex_error + node_id" where
  "node_id_from_hex hex_decode s = id_from_hex hex_decode s"

definition registry_load ::
  "registry_env \<Rightarrow> (string \<Rightarrow> hex_error + bytes) \<Rightarrow> registry_state \<Rightarrow> registry_state \<times> (registry_error + unit)" where
  "registry_load env hex_decode = (\<lambda>(s, disk).
     case read_json env (rs_db_path s) disk of
       Inl e \<Rightarrow> ((s, disk), Inl (registry_of_json_error e))
     | Inr None \<Rightarrow> ((s, disk), Inr ())
     | Inr (Some d) \<Rightarrow>
         ((s\<lparr>rs_names := rd_names d,
             rs_reverse := fold (\<lambda>(k, n) m. case id_from_hex hex_decode k of
                               Inr i \<Rightarrow> hm_insert i n m | Inl _ \<Rightarrow> m) (rd_reverse d) (rs_reverse s)\<rparr>, disk),
          Inr ()))"

definition registry_snapshot :: "(bytes \<Rightarrow> string) \<Rightarrow> registry_server \<Rightarrow> registry_data" where
  "registry_snapshot hex_encode s =
     \<lparr>rd_names = rs_names s,
      rd_reverse = fold (\<lambda>(i, n) m. hm_insert (node_id_to_hex hex_encode i) n m) (rs_reverse s) hm_empty\<rparr>"

definition registry_save ::
  "registry_env \<Rightarrow> (bytes \<Rightarrow> string) \<Rightarrow> registry_state \<Rightarrow> registry_state \<times> (registry_error + unit)" where
  "registry_save env hex_encode = (\<lambda>(s, disk).
     case write_json env (rs_db_path s) (registry_snapshot hex_encode s) disk of
       (disk, Inl e) \<Rightarrow> ((s, disk), Inl (registry_of_json_error e))
     | (disk, Inr _) \<Rightarrow> ((s\<lparr>rs_dirty := False\<rparr>, disk), Inr ()))"

text \<open>The build that ships; the one for tests only clears the flag.\<close>

definition registry_save_if_dirty ::
  "registry_env \<Rightarrow> (bytes \<Rightarrow> string) \<Rightarrow> registry_state \<Rightarrow> registry_state" where
  "registry_save_if_dirty env hex_encode sd =
     (if rs_dirty (fst sd) then fst (registry_save env hex_encode sd) else sd)"

definition registry_commit ::
  "registry_env \<Rightarrow> (bytes \<Rightarrow> string) \<Rightarrow> registry_server \<Rightarrow> disk \<Rightarrow> registry_state" where
  "registry_commit env hex_encode s disk = registry_save_if_dirty env hex_encode (s\<lparr>rs_dirty := True\<rparr>, disk)"

definition registry_register ::
  "registry_env \<Rightarrow> (bytes \<Rightarrow> string) \<Rightarrow> u64 \<Rightarrow> string \<Rightarrow> node_id \<Rightarrow> registry_state
   \<Rightarrow> registry_state \<times> (registry_error + unit)" where
  "registry_register env hex_encode now n i = (\<lambda>(s, disk).
     if hm_contains (rs_names s) n then ((s, disk), Inl (RgAlreadyRegistered n))
     else (registry_commit env hex_encode
             (s\<lparr>rs_names := hm_insert n (registry_entry_new now n i) (rs_names s),
                rs_reverse := hm_insert i n (rs_reverse s)\<rparr>) disk, Inr ()))"

definition registry_upsert ::
  "registry_env \<Rightarrow> (bytes \<Rightarrow> string) \<Rightarrow> u64 \<Rightarrow> string \<Rightarrow> node_id \<Rightarrow> registry_state
   \<Rightarrow> registry_state \<times> (registry_error + unit)" where
  "registry_upsert env hex_encode now n i = (\<lambda>(s, disk).
     let old = map_option re_node_id (hm_get (rs_names s) n);
         reverse = (case old of None \<Rightarrow> rs_reverse s | Some j \<Rightarrow> hm_remove j (rs_reverse s))
     in (registry_commit env hex_encode
           (s\<lparr>rs_names := hm_insert n (registry_entry_new now n i) (rs_names s),
              rs_reverse := hm_insert i n reverse\<rparr>) disk, Inr ()))"

definition registry_lookup :: "registry_server \<Rightarrow> string \<Rightarrow> node_id option" where
  "registry_lookup s n = map_option re_node_id (hm_get (rs_names s) n)"

definition registry_reverse_lookup :: "registry_server \<Rightarrow> node_id \<Rightarrow> string option" where
  "registry_reverse_lookup s i = hm_get (rs_reverse s) i"

definition registry_list_nodes :: "registry_server \<Rightarrow> registry_entry list" where
  "registry_list_nodes s = hm_values (rs_names s)"

definition registry_len :: "registry_server \<Rightarrow> nat" where
  "registry_len s = hm_len (rs_names s)"

definition registry_is_empty :: "registry_server \<Rightarrow> bool" where
  "registry_is_empty s \<longleftrightarrow> registry_len s = 0"

definition update_heartbeat ::
  "registry_env \<Rightarrow> (bytes \<Rightarrow> string) \<Rightarrow> u64 \<Rightarrow> string \<Rightarrow> registry_state \<Rightarrow> registry_state \<times> (registry_error + unit)" where
  "update_heartbeat env hex_encode now n = (\<lambda>(s, disk).
     case hm_get (rs_names s) n of
       None \<Rightarrow> ((s, disk), Inl (RgNotFound n))
     | Some e \<Rightarrow>
         (registry_commit env hex_encode
            (s\<lparr>rs_names := hm_insert n (registry_entry_touch now e) (rs_names s)\<rparr>) disk, Inr ()))"

text \<open>A response is its tag and its JSON; when encoding fails there is no response.\<close>

definition tagged :: "registry_message_type \<Rightarrow> bytes option \<Rightarrow> bytes option" where
  "tagged t json = map_option (\<lambda>j. [registry_type_to_u8 t] @ j) json"

definition node_info_of :: "registry_entry \<Rightarrow> node_info" where
  "node_info_of e =
     \<lparr>ni_name = re_name e, ni_node_id = re_node_id e, ni_registered_at = re_registered_at e,
      ni_last_seen = re_last_seen e\<rparr>"

definition handle_register ::
  "registry_env \<Rightarrow> (bytes \<Rightarrow> string) \<Rightarrow> registry_codec \<Rightarrow> u64 \<Rightarrow> bytes \<Rightarrow> registry_state
   \<Rightarrow> registry_state \<times> bytes option" where
  "handle_register env hex_encode cdc now d sd =
     (case cdec_register cdc d of
        None \<Rightarrow> (sd, None)
      | Some req \<Rightarrow>
          (case registry_register env hex_encode now (rp_name req) (rp_node_id req) sd of
             (sd', Inr _) \<Rightarrow>
               (sd', tagged RegRegisterAck (cenc_ack cdc
                  \<lparr>ra_success = True, ra_message = ''registered '' @ [CHR 0x27] @ rp_name req @ [CHR 0x27]\<rparr>))
           | (sd', Inl e) \<Rightarrow>
               (sd', tagged RegRegisterAck (cenc_ack cdc
                  \<lparr>ra_success = False, ra_message = registry_error_display e\<rparr>))))"

definition registry_process_message ::
  "registry_env \<Rightarrow> (bytes \<Rightarrow> string) \<Rightarrow> registry_codec \<Rightarrow> u64 \<Rightarrow> bytes \<Rightarrow> registry_state
   \<Rightarrow> registry_state \<times> bytes option" where
  "registry_process_message env hex_encode cdc now p sd =
     (case p of
        [] \<Rightarrow> (sd, None)
      | b # d \<Rightarrow>
          (case registry_type_from_u8 b of
             None \<Rightarrow> (sd, None)
           | Some RegRegister \<Rightarrow> handle_register env hex_encode cdc now d sd
           | Some RegLookup \<Rightarrow>
               (sd, (case cdec_lookup cdc d of
                       None \<Rightarrow> None
                     | Some req \<Rightarrow>
                         (let i = registry_lookup (fst sd) (lp_name req)
                          in tagged RegLookupResponse (cenc_lookup_response cdc
                               \<lparr>lr_found = (i \<noteq> None), lr_node_id = i\<rparr>))))
           | Some RegReverseLookup \<Rightarrow>
               (sd, (case cdec_reverse cdc d of
                       None \<Rightarrow> None
                     | Some req \<Rightarrow>
                         (let n = registry_reverse_lookup (fst sd) (rl_node_id req)
                          in tagged RegReverseLookupResponse (cenc_reverse_response cdc
                               \<lparr>rr_found = (n \<noteq> None), rr_name = n\<rparr>))))
           | Some RegListNodes \<Rightarrow>
               (sd, (let nodes = map node_info_of (registry_list_nodes (fst sd))
                     in tagged RegListNodesResponse (cenc_list cdc
                          \<lparr>ln_nodes = nodes, ln_count = length nodes\<rparr>)))
           | Some _ \<Rightarrow> (sd, None)))"

section \<open>The client and its cache\<close>

record registry_cache =
  rc_cache :: "(string, node_id \<times> instant) hashmap"
  rc_ttl :: u64

definition cache_new :: "u64 \<Rightarrow> registry_cache" where
  "cache_new ttl = \<lparr>rc_cache = hm_empty, rc_ttl = ttl\<rparr>"

definition cache_get :: "instant \<Rightarrow> string \<Rightarrow> registry_cache \<Rightarrow> node_id option" where
  "cache_get now n c =
     (case hm_get (rc_cache c) n of
        None \<Rightarrow> None
      | Some (i, since) \<Rightarrow> if elapsed now since < from_secs (unat (rc_ttl c)) then Some i else None)"

definition cache_insert :: "instant \<Rightarrow> string \<Rightarrow> node_id \<Rightarrow> registry_cache \<Rightarrow> registry_cache" where
  "cache_insert now n i c = c\<lparr>rc_cache := hm_insert n (i, now) (rc_cache c)\<rparr>"

definition cache_remove :: "string \<Rightarrow> registry_cache \<Rightarrow> registry_cache" where
  "cache_remove n c = c\<lparr>rc_cache := hm_remove n (rc_cache c)\<rparr>"

definition cache_clear :: "registry_cache \<Rightarrow> registry_cache" where
  "cache_clear c = c\<lparr>rc_cache := hm_empty\<rparr>"

definition cache_len :: "registry_cache \<Rightarrow> nat" where
  "cache_len c = hm_len (rc_cache c)"

definition cache_is_empty :: "registry_cache \<Rightarrow> bool" where
  "cache_is_empty c \<longleftrightarrow> rc_cache c = []"

definition cache_cleanup :: "instant \<Rightarrow> registry_cache \<Rightarrow> registry_cache" where
  "cache_cleanup now c =
     c\<lparr>rc_cache := hm_retain (\<lambda>_ (_, since). elapsed now since < from_secs (unat (rc_ttl c))) (rc_cache c)\<rparr>"

text \<open>
  The client with the pool of its relay manager. A payload is encoded with \<open>unwrap\<close>, so a
  failing encoder is a panic: None.
\<close>

record registry_client =
  rcl_server_addr :: string
  rcl_pool :: connection_pool
  rcl_cache :: registry_cache

definition registry_client_new :: "string \<Rightarrow> connection_pool \<Rightarrow> registry_client" where
  "registry_client_new addr cp =
     \<lparr>rcl_server_addr = addr, rcl_pool = cp, rcl_cache = cache_new default_cache_ttl\<rparr>"

definition client_send ::
  "net_env \<Rightarrow> instant \<Rightarrow> registry_message_type \<Rightarrow> bytes \<Rightarrow> registry_client
   \<Rightarrow> registry_client \<times> (stream \<times> bytes) list \<times> (relay_error + unit)" where
  "client_send env now t json c =
     (case send_message env now (rcl_server_addr c)
             (message_new MtRegistry ([registry_type_to_u8 t] @ json)) (rcl_pool c) of
        (cp, w, r) \<Rightarrow> (c\<lparr>rcl_pool := cp\<rparr>, w, r))"

definition client_register ::
  "net_env \<Rightarrow> registry_codec \<Rightarrow> instant \<Rightarrow> string \<Rightarrow> node_id \<Rightarrow> registry_client
   \<Rightarrow> (registry_client \<times> (stream \<times> bytes) list \<times> (relay_error + register_ack_payload)) option" where
  "client_register env cdc now n i c =
     (case cenc_register cdc \<lparr>rp_name = n, rp_node_id = i\<rparr> of
        None \<Rightarrow> None
      | Some json \<Rightarrow>
          (case client_send env now RegRegister json c of
             (c', w, Inl e) \<Rightarrow> Some (c', w, Inl e)
           | (c', w, Inr _) \<Rightarrow>
               Some (c', w, Inr \<lparr>ra_success = True, ra_message = ''register request sent''\<rparr>)))"

definition client_lookup ::
  "net_env \<Rightarrow> registry_codec \<Rightarrow> instant \<Rightarrow> string \<Rightarrow> registry_client
   \<Rightarrow> (registry_client \<times> (stream \<times> bytes) list \<times> node_id option) option" where
  "client_lookup env cdc now n c =
     (case cache_get now n (rcl_cache c) of
        Some i \<Rightarrow> Some (c, [], Some i)
      | None \<Rightarrow>
          (case cenc_lookup cdc \<lparr>lp_name = n\<rparr> of
             None \<Rightarrow> None
           | Some json \<Rightarrow>
               (case client_send env now RegLookup json c of (c', w, _) \<Rightarrow> Some (c', w, None))))"

definition client_reverse_lookup ::
  "net_env \<Rightarrow> registry_codec \<Rightarrow> instant \<Rightarrow> node_id \<Rightarrow> registry_client
   \<Rightarrow> (registry_client \<times> (stream \<times> bytes) list \<times> string option) option" where
  "client_reverse_lookup env cdc now i c =
     (case cenc_reverse cdc \<lparr>rl_node_id = i\<rparr> of
        None \<Rightarrow> None
      | Some json \<Rightarrow>
          (case client_send env now RegReverseLookup json c of (c', w, _) \<Rightarrow> Some (c', w, None)))"

definition parse_tagged :: "registry_message_type \<Rightarrow> (bytes \<Rightarrow> 'a option) \<Rightarrow> bytes \<Rightarrow> 'a option" where
  "parse_tagged t dec d =
     (case d of [] \<Rightarrow> None | b # rest \<Rightarrow> if b \<noteq> registry_type_to_u8 t then None else dec rest)"

definition parse_register_ack :: "registry_codec \<Rightarrow> bytes \<Rightarrow> register_ack_payload option" where
  "parse_register_ack cdc = parse_tagged RegRegisterAck (cdec_ack cdc)"

definition parse_lookup_response :: "registry_codec \<Rightarrow> bytes \<Rightarrow> lookup_response_payload option" where
  "parse_lookup_response cdc = parse_tagged RegLookupResponse (cdec_lookup_response cdc)"

definition parse_reverse_lookup_response ::
  "registry_codec \<Rightarrow> bytes \<Rightarrow> reverse_lookup_response_payload option" where
  "parse_reverse_lookup_response cdc = parse_tagged RegReverseLookupResponse (cdec_reverse_response cdc)"

definition parse_list_nodes_response :: "registry_codec \<Rightarrow> bytes \<Rightarrow> list_nodes_response_payload option" where
  "parse_list_nodes_response cdc = parse_tagged RegListNodesResponse (cdec_list cdc)"

section \<open>Both directions agree\<close>

datatype registry_op =
  RgRegister u64 string node_id | RgUpsert u64 string node_id | RgHeartbeat u64 string | RgMessage u64 bytes

fun registry_do ::
  "registry_env \<Rightarrow> (bytes \<Rightarrow> string) \<Rightarrow> registry_codec \<Rightarrow> registry_op \<Rightarrow> registry_state \<Rightarrow> registry_state" where
  "registry_do env hex cdc (RgRegister now n i) sd = fst (registry_register env hex now n i sd)"
| "registry_do env hex cdc (RgUpsert now n i) sd = fst (registry_upsert env hex now n i sd)"
| "registry_do env hex cdc (RgHeartbeat now n) sd = fst (update_heartbeat env hex now n sd)"
| "registry_do env hex cdc (RgMessage now p) sd = fst (registry_process_message env hex cdc now p sd)"

lemma registry_save_keeps [simp]:
  "rs_names (fst (fst (registry_save env hex sd))) = rs_names (fst sd)"
  "rs_reverse (fst (fst (registry_save env hex sd))) = rs_reverse (fst sd)"
  "rs_db_path (fst (fst (registry_save env hex sd))) = rs_db_path (fst sd)"
  by (simp_all add: registry_save_def split_beta split: sum.split)

lemma registry_commit_keeps [simp]:
  "rs_names (fst (registry_commit env hex s disk)) = rs_names s"
  "rs_reverse (fst (registry_commit env hex s disk)) = rs_reverse s"
  "rs_db_path (fst (registry_commit env hex s disk)) = rs_db_path s"
  by (simp_all add: registry_commit_def registry_save_if_dirty_def)

text \<open>What a message does to the state is a registration or nothing.\<close>

lemma message_registers:
  "fst (registry_process_message env hex cdc now p sd) = sd
   \<or> (\<exists>n i. fst (registry_process_message env hex cdc now p sd) = fst (registry_register env hex now n i sd))"
proof (cases p)
  case (Cons b d)
  have reg: "fst (handle_register env hex cdc now d sd) = sd
      \<or> (\<exists>n i. fst (handle_register env hex cdc now d sd) = fst (registry_register env hex now n i sd))"
  proof (cases "cdec_register cdc d")
    case (Some req)
    then have "fst (handle_register env hex cdc now d sd)
        = fst (registry_register env hex now (rp_name req) (rp_node_id req) sd)"
      by (auto simp: handle_register_def split: prod.split sum.split)
    then show ?thesis by blast
  qed (simp add: handle_register_def)
  with Cons show ?thesis
    by (cases "registry_type_from_u8 b")
       (auto simp: registry_process_message_def split: registry_message_type.split)
qed (simp add: registry_process_message_def)

definition registry_ok :: "registry_server \<Rightarrow> bool" where
  "registry_ok s \<longleftrightarrow> hm_ok (rs_names s) \<and> hm_ok (rs_reverse s)
     \<and> (\<forall>n e. hm_get (rs_names s) n = Some e \<longrightarrow> re_name e = n)
     \<and> (\<forall>i n. hm_get (rs_reverse s) i = Some n \<longrightarrow> registry_lookup s n = Some i)"

lemma registry_okD:
  assumes "registry_ok s"
  shows "hm_ok (rs_names s)" and "hm_ok (rs_reverse s)"
    and "hm_get (rs_names s) n = Some e \<Longrightarrow> re_name e = n"
    and "hm_get (rs_reverse s) i = Some n \<Longrightarrow> registry_lookup s n = Some i"
  using assms by (simp_all add: registry_ok_def)

text \<open>Binding a name keeps the two directions in step when its old reverse entry goes.\<close>

lemma registry_ok_bind:
  assumes s: "registry_ok s"
    and names: "rs_names t = hm_insert n (registry_entry_new now n i) (rs_names s)"
    and reverse: "rs_reverse t = hm_insert i n R" and "hm_ok R"
    and R: "\<And>j m. hm_get R j = Some m \<Longrightarrow> hm_get (rs_reverse s) j = Some m \<and> registry_lookup s n \<noteq> Some j"
  shows "registry_ok t"
proof -
  have "registry_lookup t m = Some j" if g: "hm_get (rs_reverse t) j = Some m" for j m
  proof (cases "j = i")
    case True
    with g show ?thesis by (simp add: reverse names registry_lookup_def registry_entry_new_def hm_simps)
  next
    case False
    with g have "hm_get R j = Some m" by (simp add: reverse hm_simps)
    with R registry_okD(4) [OF s] have "registry_lookup s m = Some j" "registry_lookup s n \<noteq> Some j" by blast+
    then show ?thesis by (auto simp: names registry_lookup_def hm_simps)
  qed
  then show ?thesis
    using registry_okD [OF s] assms(4)
    by (auto simp: registry_ok_def names reverse hm_simps registry_entry_new_def split: if_splits)
qed

lemma registry_ok_register:
  assumes "registry_ok (fst sd)"
  shows "registry_ok (fst (fst (registry_register env hex now n i sd)))"
proof (cases "hm_contains (rs_names (fst sd)) n")
  case True
  with assms show ?thesis by (simp add: registry_register_def split_beta)
next
  case False
  then have "registry_lookup (fst sd) n = None" by (simp add: hm_contains_def registry_lookup_def)
  then show ?thesis
    using False registry_okD(2) [OF assms]
    by (intro registry_ok_bind [OF assms, of _ n now i "rs_reverse (fst sd)"])
       (simp_all add: registry_register_def split_beta)
qed

lemma registry_ok_upsert:
  assumes "registry_ok (fst sd)"
  shows "registry_ok (fst (fst (registry_upsert env hex now n i sd)))"
proof -
  let ?R = "case map_option re_node_id (hm_get (rs_names (fst sd)) n) of
      None \<Rightarrow> rs_reverse (fst sd) | Some j \<Rightarrow> hm_remove j (rs_reverse (fst sd))"
  have "hm_ok ?R" using registry_okD(2) [OF assms] by (simp add: hm.ok_remove split: option.split)
  moreover have "hm_get (rs_reverse (fst sd)) j = Some m \<and> registry_lookup (fst sd) n \<noteq> Some j"
    if "hm_get ?R j = Some m" for j m
    using that by (auto simp: registry_lookup_def hm_simps split: option.splits if_splits)
  ultimately show ?thesis
    by (intro registry_ok_bind [OF assms, of _ n now i ?R]) (simp_all add: registry_upsert_def Let_def split_beta)
qed

lemma lookup_heartbeat:
  "registry_lookup (fst (fst (update_heartbeat env hex now n sd))) m = registry_lookup (fst sd) m"
  by (auto simp: update_heartbeat_def registry_lookup_def registry_entry_touch_def hm_simps split_beta
      split: option.split)

lemma registry_ok_heartbeat:
  assumes "registry_ok (fst sd)"
  shows "registry_ok (fst (fst (update_heartbeat env hex now n sd)))"
proof (cases "hm_get (rs_names (fst sd)) n")
  case None
  with assms show ?thesis by (simp add: update_heartbeat_def split_beta)
next
  case (Some e)
  let ?t = "fst (fst (update_heartbeat env hex now n sd))"
  have t: "rs_names ?t = hm_insert n (registry_entry_touch now e) (rs_names (fst sd))"
    "rs_reverse ?t = rs_reverse (fst sd)"
    using Some by (simp_all add: update_heartbeat_def split_beta)
  have "re_name e = n" using registry_okD(3) [OF assms Some] .
  then show ?thesis
    unfolding registry_ok_def lookup_heartbeat
    using registry_okD [OF assms] by (auto simp: t hm_simps registry_entry_touch_def split: if_splits)
qed

interpretation reg: op_machine "registry_do env hex cdc" "\<lambda>sd. registry_ok (fst sd)"
proof
  fix op :: registry_op and sd :: registry_state
  assume sd: "registry_ok (fst sd)"
  then show "registry_ok (fst (registry_do env hex cdc op sd))"
  proof (cases op)
    case (RgMessage now p)
    then show ?thesis
      using message_registers [of env hex cdc now p sd] sd registry_ok_register [OF sd] by auto
  qed (simp_all add: registry_ok_register registry_ok_upsert registry_ok_heartbeat)
qed

lemma registry_ok_new: "registry_ok (registry_new path)"
  by (simp add: registry_ok_def registry_new_def hm_simps)

text \<open>After any operations on a new registry, messages included, a reverse lookup names
  only names that look up to that identity.\<close>

theorem reverse_lookup_sound:
  assumes "registry_reverse_lookup (fst (fold (registry_do env hex cdc) ops (registry_new path, disk))) i = Some n"
  shows "registry_lookup (fst (fold (registry_do env hex cdc) ops (registry_new path, disk))) n = Some i"
  using registry_okD(4) [OF reg.run_inv [of "(registry_new path, disk)" env hex cdc ops]] registry_ok_new
    assms by (simp add: registry_reverse_lookup_def)

text \<open>An upsert that moves a name away from an identity removes the reverse entry of that
  identity, also when it belongs to another name that still looks up to it.\<close>

theorem upsert_loses_reverse:
  assumes "registry_lookup (fst sd) a = Some i" and "registry_lookup (fst sd) b = Some i"
    and "a \<noteq> b" and "i \<noteq> j"
    and "registry_upsert env hex now a j sd = (sd', res)"
  shows "res = Inr () \<and> registry_lookup (fst sd') a = Some j \<and> registry_lookup (fst sd') b = Some i
     \<and> registry_reverse_lookup (fst sd') i = None"
proof -
  from assms(1) obtain e where e: "hm_get (rs_names (fst sd)) a = Some e" "re_node_id e = i"
    by (auto simp: registry_lookup_def)
  have "rs_names (fst sd') = hm_insert a (registry_entry_new now a j) (rs_names (fst sd))"
    and "rs_reverse (fst sd') = hm_insert j a (hm_remove i (rs_reverse (fst sd)))" and "res = Inr ()"
    using assms(5) e by (auto simp: registry_upsert_def Let_def split_beta)
  with assms(2-4) show ?thesis
    by (simp add: registry_lookup_def registry_reverse_lookup_def hm_simps registry_entry_new_def)
qed

text \<open>A registered name keeps its identity under every sequence of registrations,
  heartbeats and messages: only an upsert changes it.\<close>

theorem registered_name_is_stable:
  assumes "registry_lookup (fst sd) n = Some i"
    and "\<forall>op \<in> set ops. \<forall>now m j. op \<noteq> RgUpsert now m j"
  shows "registry_lookup (fst (fold (registry_do env hex cdc) ops sd)) n = Some i"
  using assms
proof (induction ops arbitrary: sd)
  case (Cons op ops)
  have reg: "registry_lookup (fst (fst (registry_register env hex now m j sd))) n = Some i" for now m j
    using Cons.prems(1)
    by (auto simp: registry_register_def registry_lookup_def hm_contains_def hm_simps split_beta)
  have "registry_lookup (fst (registry_do env hex cdc op sd)) n = Some i"
  proof (cases op)
    case (RgHeartbeat now m)
    with Cons.prems(1) show ?thesis by (simp add: lookup_heartbeat)
  next
    case (RgMessage now p)
    then show ?thesis
      using message_registers [of env hex cdc now p sd] Cons.prems(1) reg by auto
  qed (use Cons.prems reg in auto)
  with Cons show ?case by simp
qed simp

section \<open>Queries over messages\<close>

text \<open>The codec reads back what it writes, as \<open>serde_json\<close> documents for these types.\<close>

definition codec_ok :: "registry_codec \<Rightarrow> bool" where
  "codec_ok cdc \<longleftrightarrow>
     (\<forall>x. \<exists>j. cenc_register cdc x = Some j \<and> cdec_register cdc j = Some x)
   \<and> (\<forall>x. \<exists>j. cenc_ack cdc x = Some j \<and> cdec_ack cdc j = Some x)
   \<and> (\<forall>x. \<exists>j. cenc_lookup cdc x = Some j \<and> cdec_lookup cdc j = Some x)
   \<and> (\<forall>x. \<exists>j. cenc_lookup_response cdc x = Some j \<and> cdec_lookup_response cdc j = Some x)"

lemma process_tag:
  "registry_process_message env hex cdc now (registry_type_to_u8 RegRegister # d) sd
     = handle_register env hex cdc now d sd"
  "registry_process_message env hex cdc now (registry_type_to_u8 RegLookup # d) sd
     = (sd, (case cdec_lookup cdc d of
               None \<Rightarrow> None
             | Some req \<Rightarrow>
                 (let i = registry_lookup (fst sd) (lp_name req)
                  in tagged RegLookupResponse (cenc_lookup_response cdc \<lparr>lr_found = (i \<noteq> None), lr_node_id = i\<rparr>))))"
  by (simp_all only: registry_process_message_def regt.from_to list.case option.case registry_message_type.case)

lemma lookup_message:
  assumes "codec_ok cdc"
  obtains q resp where "cenc_lookup cdc \<lparr>lp_name = n\<rparr> = Some q"
    and "registry_process_message env hex cdc now (registry_type_to_u8 RegLookup # q) sd = (sd, Some resp)"
    and "parse_lookup_response cdc resp
       = Some \<lparr>lr_found = (registry_lookup (fst sd) n \<noteq> None), lr_node_id = registry_lookup (fst sd) n\<rparr>"
proof -
  let ?r = "\<lparr>lr_found = (registry_lookup (fst sd) n \<noteq> None), lr_node_id = registry_lookup (fst sd) n\<rparr>"
  obtain q where q: "cenc_lookup cdc \<lparr>lp_name = n\<rparr> = Some q" "cdec_lookup cdc q = Some \<lparr>lp_name = n\<rparr>"
    using assms unfolding codec_ok_def by blast
  obtain j where j: "cenc_lookup_response cdc ?r = Some j" "cdec_lookup_response cdc j = Some ?r"
    using assms unfolding codec_ok_def by blast
  show thesis
  proof (rule that [OF q(1), of "registry_type_to_u8 RegLookupResponse # j"])
    show "registry_process_message env hex cdc now (registry_type_to_u8 RegLookup # q) sd
        = (sd, Some (registry_type_to_u8 RegLookupResponse # j))"
      unfolding process_tag(2) using q(2) j(1) by (simp add: tagged_def Let_def)
    show "parse_lookup_response cdc (registry_type_to_u8 RegLookupResponse # j) = Some ?r"
      using j(2) by (simp add: parse_lookup_response_def parse_tagged_def)
  qed
qed

text \<open>C29. A REGISTER message is acknowledged with success exactly when the name was free,
  and a LOOKUP message after it is answered with the new identity then and with the
  old one otherwise.\<close>

theorem register_then_lookup_over_messages:
  assumes "codec_ok cdc"
    and "cenc_register cdc \<lparr>rp_name = n, rp_node_id = i\<rparr> = Some p"
    and "cdec_register cdc p = Some \<lparr>rp_name = n, rp_node_id = i\<rparr>"
    and "registry_process_message env hex cdc now (registry_type_to_u8 RegRegister # p) sd = (sd', ack)"
  shows "\<exists>a q resp. parse_register_ack cdc (the ack) = Some a
     \<and> (ra_success a \<longleftrightarrow> registry_lookup (fst sd) n = None)
     \<and> cenc_lookup cdc \<lparr>lp_name = n\<rparr> = Some q
     \<and> registry_process_message env hex cdc now' (registry_type_to_u8 RegLookup # q) sd' = (sd', Some resp)
     \<and> parse_lookup_response cdc resp = Some \<lparr>lr_found = True, lr_node_id =
          (if ra_success a then Some i else registry_lookup (fst sd) n)\<rparr>"
proof -
  have h: "handle_register env hex cdc now p sd = (sd', ack)" using assms(4) by (simp only: process_tag)
  obtain a where a: "parse_register_ack cdc (the ack) = Some a" "ra_success a \<longleftrightarrow> registry_lookup (fst sd) n = None"
    and l: "registry_lookup (fst sd') n = (if registry_lookup (fst sd) n = None then Some i else registry_lookup (fst sd) n)"
  proof (cases "registry_lookup (fst sd) n")
    case None
    let ?a = "\<lparr>ra_success = True, ra_message = ''registered '' @ [CHR 0x27] @ n @ [CHR 0x27]\<rparr>"
    obtain j where j: "cenc_ack cdc ?a = Some j" "cdec_ack cdc j = Some ?a"
      using assms(1) unfolding codec_ok_def by blast
    from None have "\<not> hm_contains (rs_names (fst sd)) n" by (simp add: registry_lookup_def hm_contains_def)
    then have "ack = Some (registry_type_to_u8 RegRegisterAck # j)" and "registry_lookup (fst sd') n = Some i"
      using h j(1) assms(3) by (auto simp: handle_register_def registry_register_def tagged_def split_beta
          registry_lookup_def hm_simps registry_entry_new_def)
    with None j(2) that [of ?a] show thesis by (simp add: parse_register_ack_def parse_tagged_def)
  next
    case (Some k)
    let ?a = "\<lparr>ra_success = False, ra_message = registry_error_display (RgAlreadyRegistered n)\<rparr>"
    obtain j where j: "cenc_ack cdc ?a = Some j" "cdec_ack cdc j = Some ?a"
      using assms(1) unfolding codec_ok_def by blast
    from Some have "hm_contains (rs_names (fst sd)) n" by (auto simp: registry_lookup_def hm_contains_def)
    then have "ack = Some (registry_type_to_u8 RegRegisterAck # j)" and "sd' = sd"
      using h j(1) assms(3) by (auto simp: handle_register_def registry_register_def tagged_def split_beta)
    with Some j(2) that [of ?a] show thesis by (simp add: parse_register_ack_def parse_tagged_def)
  qed
  from lookup_message [OF assms(1)] obtain q resp where "cenc_lookup cdc \<lparr>lp_name = n\<rparr> = Some q"
    "registry_process_message env hex cdc now' (registry_type_to_u8 RegLookup # q) sd' = (sd', Some resp)"
    "parse_lookup_response cdc resp
       = Some \<lparr>lr_found = (registry_lookup (fst sd') n \<noteq> None), lr_node_id = registry_lookup (fst sd') n\<rparr>"
    by blast
  with a l show ?thesis by (intro exI [of _ a] exI [of _ q] exI [of _ resp]) auto
qed

section \<open>The file\<close>

lemma id_from_to_hex: "hex_ok enc dec \<Longrightarrow> id_from_hex dec (node_id_to_hex enc i) = Inr i"
  by (simp add: hex_ok_def id_from_hex_def node_id_to_hex_def id_to_hex_def)

lemma node_id_to_hex_inject: "hex_ok enc dec \<Longrightarrow> node_id_to_hex enc i = node_id_to_hex enc j \<longleftrightarrow> i = j"
  by (metis id_from_to_hex sum.inject(2))

lemma load_reverse:
  assumes "hex_ok enc dec" and "hm_ok D" and "\<And>k n. (k, n) \<in> set D \<Longrightarrow> \<exists>i. k = node_id_to_hex enc i"
  shows "hm_get (fold (\<lambda>(k, n) m. case id_from_hex dec k of Inr i \<Rightarrow> hm_insert i n m | Inl _ \<Rightarrow> m) D m) i
    = (case hm_get D (node_id_to_hex enc i) of Some n \<Rightarrow> Some n | None \<Rightarrow> hm_get m i)"
  using assms(2,3)
proof (induction D arbitrary: m)
  case (Cons kn D)
  obtain k n where kn: "kn = (k, n)" by force
  with Cons.prems obtain a where k: "k = node_id_to_hex enc a" by auto
  have D: "hm_ok D" "hm_get D k = None" using Cons.prems(1) kn by (auto simp: hm_ok_def hm_get_None)
  have "hm_get (fold (\<lambda>(k, n) m. case id_from_hex dec k of Inr i \<Rightarrow> hm_insert i n m | Inl _ \<Rightarrow> m) D (hm_insert a n m)) i
    = (case hm_get D (node_id_to_hex enc i) of Some n \<Rightarrow> Some n | None \<Rightarrow> hm_get (hm_insert a n m) i)"
    by (rule Cons.IH [OF D(1)]) (use Cons.prems(2) in auto)
  then show ?case
    using D(2) node_id_to_hex_inject [OF assms(1), of a i]
    by (auto simp: kn k id_from_to_hex [OF assms(1)] hm_simps hm_get_Cons split: option.split)
qed (simp add: hm_get_def)

lemma snapshot_reverse:
  assumes "hex_ok enc dec" and "hm_ok (rs_reverse s)"
  shows "hm_get (rd_reverse (registry_snapshot enc s)) (node_id_to_hex enc i) = hm_get (rs_reverse s) i"
    and "hm_get (rd_reverse (registry_snapshot enc s)) k \<noteq> None \<Longrightarrow> \<exists>i. k = node_id_to_hex enc i"
proof -
  have "inj (node_id_to_hex enc)" using node_id_to_hex_inject [OF assms(1)] by (auto simp: inj_def)
  note r = hm_rekey [OF assms(2) this]
  show "hm_get (rd_reverse (registry_snapshot enc s)) (node_id_to_hex enc i) = hm_get (rs_reverse s) i"
    using r(1) by (simp add: registry_snapshot_def)
  show "\<exists>i. k = node_id_to_hex enc i" if "hm_get (rd_reverse (registry_snapshot enc s)) k \<noteq> None"
    using r(2) that by (auto simp: registry_snapshot_def)
qed

text \<open>A state whose contents are on the disk, or that is still empty with no file.\<close>

definition registry_saved :: "registry_env \<Rightarrow> (bytes \<Rightarrow> string) \<Rightarrow> string \<Rightarrow> registry_state \<Rightarrow> bool" where
  "registry_saved env enc path = (\<lambda>(s, disk). io_works env \<and> rs_db_path s = path \<and> \<not> rs_dirty s
     \<and> (rs_names s = hm_empty \<and> rs_reverse s = hm_empty \<and> disk path = None
        \<or> (\<exists>j. en_encode env (registry_snapshot enc s) = Inr j \<and> disk path = Some j)))"

lemma registry_saved_commit:
  assumes "io_works env" and "rs_db_path s = path"
  shows "registry_saved env enc path (registry_commit env enc s disk)"
proof -
  have snap: "registry_snapshot enc (s\<lparr>rs_dirty := b\<rparr>) = registry_snapshot enc s" for b
    by (simp add: registry_snapshot_def)
  obtain j where "en_encode env (registry_snapshot enc s) = Inr j"
    "write_json env path (registry_snapshot enc s) disk = (disk(path \<mapsto> j), Inr ())"
    using write_json_works [OF assms(1)] by blast
  then show ?thesis
    using assms by (simp add: registry_commit_def registry_save_if_dirty_def registry_save_def
        registry_saved_def snap)
qed

lemma registry_saved_io:
  "registry_saved env enc path sd \<Longrightarrow> io_works env \<and> rs_db_path (fst sd) = path"
  by (simp add: registry_saved_def split_beta)

lemma registry_saved_register:
  assumes "registry_saved env enc path sd"
  shows "registry_saved env enc path (fst (registry_register env enc now n i sd))"
proof (cases "hm_contains (rs_names (fst sd)) n")
  case True
  with assms show ?thesis by (simp add: registry_register_def split_beta)
next
  case False
  with registry_saved_io [OF assms] show ?thesis
    by (simp add: registry_register_def split_beta registry_saved_commit)
qed

interpretation regfile: op_machine "registry_do env enc cdc" "registry_saved env enc path"
proof
  fix op sd assume sd: "registry_saved env enc path sd"
  then have io: "io_works env" "rs_db_path (fst sd) = path" using registry_saved_io by blast+
  show "registry_saved env enc path (registry_do env enc cdc op sd)"
  proof (cases op)
    case (RgRegister now n i)
    then show ?thesis using registry_saved_register [OF sd] by simp
  next
    case (RgUpsert now n i)
    then show ?thesis using io by (simp add: registry_upsert_def Let_def split_beta registry_saved_commit)
  next
    case (RgHeartbeat now n)
    then show ?thesis
      using io sd by (simp add: update_heartbeat_def split_beta registry_saved_commit split: option.split)
  next
    case (RgMessage now p)
    then show ?thesis
      using message_registers [of env enc cdc now p sd] sd registry_saved_register [OF sd] by auto
  qed
qed

definition same_registry :: "registry_data \<Rightarrow> registry_data \<Rightarrow> bool" where
  "same_registry d' d \<longleftrightarrow> hm_get (rd_names d') = hm_get (rd_names d)
     \<and> hm_get (rd_reverse d') = hm_get (rd_reverse d) \<and> hm_ok (rd_reverse d')"

text \<open>C20. After any operations on a new registry whose file system works, loading its
  file gives a registry that answers every lookup and reverse lookup the same, when
  the encoder reads back what it wrote.\<close>

theorem registry_survives_restart:
  assumes "io_works env" and "hex_ok enc dec" and "disk path = None"
    and "fold (registry_do env enc cdc) ops (registry_new path, disk) = (s', disk')"
    and "reads_back same_registry env (registry_snapshot enc s')"
  shows "\<exists>t. registry_load env dec (registry_new path, disk') = ((t, disk'), Inr ())
     \<and> registry_lookup t = registry_lookup s' \<and> registry_reverse_lookup t = registry_reverse_lookup s'"
proof -
  have "registry_saved env enc path (registry_new path, disk)"
    using assms(1,3) by (simp add: registry_saved_def registry_new_def)
  then have saved: "registry_saved env enc path (s', disk')" using regfile.run_inv assms(4) by metis
  have ok: "hm_ok (rs_reverse s')"
  proof -
    have "registry_ok (fst (fold (registry_do env enc cdc) ops (registry_new path, disk)))"
      by (rule reg.run_inv) (simp add: registry_ok_new)
    then show ?thesis unfolding assms(4) by (simp add: registry_okD(2))
  qed
  have path: "rs_db_path (registry_new path) = path" by (simp add: registry_new_def)
  from saved consider "rs_names s' = hm_empty" "rs_reverse s' = hm_empty" "disk' path = None"
    | j where "en_encode env (registry_snapshot enc s') = Inr j" "disk' path = Some j"
    by (auto simp: registry_saved_def)
  then show ?thesis
  proof cases
    case 1
    then show ?thesis
      by (auto simp: registry_load_def path read_json_def registry_new_def registry_lookup_def
          registry_reverse_lookup_def fun_eq_iff)
  next
    case 2
    from read_after_write [OF assms(1,5), of j disk' path, OF 2] obtain d where
      d: "read_json env path disk' = Inr (Some d)" "same_registry d (registry_snapshot enc s')" by blast
    let ?t = "(registry_new path)\<lparr>rs_names := rd_names d,
        rs_reverse := fold (\<lambda>(k, n) m. case id_from_hex dec k of Inr i \<Rightarrow> hm_insert i n m | Inl _ \<Rightarrow> m)
          (rd_reverse d) hm_empty\<rparr>"
    have D: "hm_ok (rd_reverse d)" "hm_get (rd_reverse d) = hm_get (rd_reverse (registry_snapshot enc s'))"
      using d(2) by (simp_all add: same_registry_def)
    have keys: "\<exists>i. k = node_id_to_hex enc i" if "(k, n) \<in> set (rd_reverse d)" for k n
    proof (rule snapshot_reverse(2) [OF assms(2) ok])
      have "hm_get (rd_reverse d) k = Some n" using that by (simp only: hm_get_iff [OF D(1)])
      then show "hm_get (rd_reverse (registry_snapshot enc s')) k \<noteq> None" using D(2) by simp
    qed
    have "hm_get (rs_reverse ?t) i = hm_get (rs_reverse s') i" for i
    proof -
      have "hm_get (rs_reverse ?t) i
          = (case hm_get (rd_reverse d) (node_id_to_hex enc i) of Some n \<Rightarrow> Some n | None \<Rightarrow> hm_get hm_empty i)"
        using load_reverse [OF assms(2) D(1) keys, where m = hm_empty and i = i] by simp
      then show ?thesis
        unfolding D(2) snapshot_reverse(1) [OF assms(2) ok] by (simp add: hm_simps split: option.splits)
    qed
    moreover have "hm_get (rs_names ?t) = hm_get (rs_names s')"
      using d(2) by (simp add: same_registry_def registry_snapshot_def)
    moreover have "registry_load env dec (registry_new path, disk') = ((?t, disk'), Inr ())"
      using d(1) by (simp add: registry_load_def path) (simp add: registry_new_def)
    ultimately show ?thesis
      by (intro exI [of _ ?t]) (simp add: registry_lookup_def registry_reverse_lookup_def fun_eq_iff)
  qed
qed

section \<open>Instances\<close>

definition string_bytes :: "string \<Rightarrow> bytes" where
  "string_bytes s = map (\<lambda>c. of_nat (of_char c)) s"

definition bytes_string :: "bytes \<Rightarrow> string" where
  "bytes_string bs = map (\<lambda>b. char_of (unat b)) bs"

lemma bytes_string_bytes [simp]: "bytes_string (string_bytes s) = s"
proof -
  have "char_of (unat (of_nat (of_char c) :: byte)) = c" for c :: char
    by (simp add: unat_of_nat)
  then show ?thesis by (simp add: bytes_string_def string_bytes_def comp_def)
qed

lemma string_bytes_string [simp]: "string_bytes (bytes_string bs) = bs"
proof -
  have "(of_nat (of_char (char_of (unat b) :: char)) :: byte) = b" for b
    using unat_byte_less [of b] by simp
  then show ?thesis by (simp add: bytes_string_def string_bytes_def comp_def)
qed

text \<open>A plain codec: identities are 32 bytes, names are the rest, flags are one byte.\<close>

definition sample_registry_codec :: registry_codec where
  "sample_registry_codec =
     \<lparr>cenc_register = (\<lambda>x. Some (as_bytes (rp_node_id x) @ string_bytes (rp_name x))),
      cdec_register = (\<lambda>b. Some \<lparr>rp_name = bytes_string (drop 32 b), rp_node_id = B32 (take 32 b)\<rparr>),
      cenc_ack = (\<lambda>x. Some ((if ra_success x then 1 else 0) # string_bytes (ra_message x))),
      cdec_ack = (\<lambda>b. Some \<lparr>ra_success = hd b = 1, ra_message = bytes_string (tl b)\<rparr>),
      cenc_lookup = (\<lambda>x. Some (string_bytes (lp_name x))),
      cdec_lookup = (\<lambda>b. Some \<lparr>lp_name = bytes_string b\<rparr>),
      cenc_lookup_response = (\<lambda>x. Some ((if lr_found x then 1 else 0)
         # (case lr_node_id x of None \<Rightarrow> [] | Some i \<Rightarrow> as_bytes i))),
      cdec_lookup_response = (\<lambda>b. Some \<lparr>lr_found = hd b = 1,
         lr_node_id = (if tl b = [] then None else Some (B32 (tl b)))\<rparr>),
      cenc_reverse = (\<lambda>x. Some (as_bytes (rl_node_id x))),
      cdec_reverse = (\<lambda>b. Some \<lparr>rl_node_id = B32 b\<rparr>),
      cenc_reverse_response = (\<lambda>_. None), cdec_reverse_response = (\<lambda>_. None),
      cenc_list = (\<lambda>_. None), cdec_list = (\<lambda>_. None)\<rparr>"

lemma sample_codec_ok: "codec_ok sample_registry_codec"
proof -
  have "as_bytes i \<noteq> []" for i using length_as_bytes [of i] by (metis length_0_conv zero_neq_numeral)
  then show ?thesis by (simp add: codec_ok_def sample_registry_codec_def split: option.split)
qed

definition sample_registry_env :: registry_env where
  "sample_registry_env =
     \<lparr>en_encode = (\<lambda>d. Inr (if rd_names d = hm_empty then ''{}'' else ''{a}'')),
      en_decode = (\<lambda>_. Inr \<lparr>rd_names = [(''a'', registry_entry_new 5 ''a'' (fill32 1))],
                    rd_reverse = [(bytes_string (replicate 32 1), ''a'')]\<rparr>),
      en_parent = (\<lambda>_. None), en_create_dir = (\<lambda>_. Inr ()), en_write = (\<lambda>_. Inr ()),
      en_read = (\<lambda>_. Inr ())\<rparr>"

abbreviation sample_server :: registry_state where
  "sample_server \<equiv> (registry_new ''db'', \<lambda>_. None)"

lemma sample_register:
  "registry_do sample_registry_env bytes_string cdc (RgRegister 5 ''a'' (fill32 1)) sample_server
     = (\<lparr>rs_names = [(''a'', registry_entry_new 5 ''a'' (fill32 1))], rs_reverse = [(fill32 1, ''a'')],
         rs_db_path = ''db'', rs_running = False, rs_dirty = False\<rparr>, (\<lambda>_. None)(''db'' \<mapsto> ''{a}''))"
  by (simp add: registry_register_def registry_new_def hm_contains_def hm_get_def hm_insert_def hm_empty_def
      registry_commit_def registry_save_if_dirty_def registry_save_def write_json_def fs_write_def registry_snapshot_def
      sample_registry_env_def)

theorem reverse_lookup_sound_witness:
  "registry_lookup (fst (fold (registry_do sample_registry_env bytes_string sample_registry_codec)
     [RgRegister 5 ''a'' (fill32 1)] sample_server)) ''a'' = Some (fill32 1)"
  by (rule reverse_lookup_sound) (simp add: sample_register registry_reverse_lookup_def hm_get_def del: registry_do.simps)

theorem registered_name_is_stable_witness:
  "registry_lookup (fst (fold (registry_do sample_registry_env bytes_string sample_registry_codec)
     [RgRegister 7 ''a'' (fill32 2), RgHeartbeat 8 ''a'']
     (registry_do sample_registry_env bytes_string sample_registry_codec
        (RgRegister 5 ''a'' (fill32 1)) sample_server))) ''a'' = Some (fill32 1)"
  by (rule registered_name_is_stable)
     (simp_all add: sample_register registry_lookup_def hm_get_def registry_entry_new_def del: registry_do.simps)

theorem upsert_loses_reverse_witness:
  "\<exists>sd'. registry_upsert sample_registry_env bytes_string 9 ''a'' (fill32 2)
       (fst (registry_register sample_registry_env bytes_string 6 ''b'' (fill32 1)
          (registry_do sample_registry_env bytes_string sample_registry_codec
             (RgRegister 5 ''a'' (fill32 1)) sample_server))) = (sd', Inr ())
     \<and> registry_lookup (fst sd') ''b'' = Some (fill32 1) \<and> registry_reverse_lookup (fst sd') (fill32 1) = None"
proof -
  let ?s = "fst (registry_register sample_registry_env bytes_string 6 ''b'' (fill32 1)
      (registry_do sample_registry_env bytes_string sample_registry_codec
         (RgRegister 5 ''a'' (fill32 1)) sample_server))"
  have l: "registry_lookup (fst ?s) ''a'' = Some (fill32 1)" "registry_lookup (fst ?s) ''b'' = Some (fill32 1)"
    by (simp_all add: sample_register registry_register_def registry_lookup_def hm_contains_def hm_get_def
        hm_insert_def registry_entry_new_def del: registry_do.simps)
  obtain sd' res where u: "registry_upsert sample_registry_env bytes_string 9 ''a'' (fill32 2) ?s = (sd', res)"
    by (meson surj_pair)
  have "fill32 1 \<noteq> fill32 2" by (simp add: fill32_def)
  from upsert_loses_reverse [OF l _ this u] u show ?thesis by auto
qed

theorem register_then_lookup_over_messages_witness:
  "\<exists>resp. registry_process_message sample_registry_env bytes_string sample_registry_codec 8
       (registry_type_to_u8 RegLookup # string_bytes ''a'')
       (fst (registry_process_message sample_registry_env bytes_string sample_registry_codec 5
          (registry_type_to_u8 RegRegister # as_bytes (fill32 1) @ string_bytes ''a'') sample_server))
     = (fst (registry_process_message sample_registry_env bytes_string sample_registry_codec 5
          (registry_type_to_u8 RegRegister # as_bytes (fill32 1) @ string_bytes ''a'') sample_server), Some resp)
     \<and> parse_lookup_response sample_registry_codec resp = Some \<lparr>lr_found = True, lr_node_id = Some (fill32 1)\<rparr>"
proof -
  let ?p = "as_bytes (fill32 1) @ string_bytes ''a''"
  obtain sd' ack where reg: "registry_process_message sample_registry_env bytes_string sample_registry_codec 5
      (registry_type_to_u8 RegRegister # ?p) sample_server = (sd', ack)" by (meson surj_pair)
  have enc: "cenc_register sample_registry_codec \<lparr>rp_name = ''a'', rp_node_id = fill32 1\<rparr> = Some ?p"
    "cdec_register sample_registry_codec ?p = Some \<lparr>rp_name = ''a'', rp_node_id = fill32 1\<rparr>"
    by (simp_all add: sample_registry_codec_def fill32_def)
  have "cenc_lookup sample_registry_codec \<lparr>lp_name = ''a''\<rparr> = Some (string_bytes ''a'')"
    by (simp add: sample_registry_codec_def)
  moreover have "registry_lookup (fst sample_server) ''a'' = None"
    by (simp add: registry_lookup_def registry_new_def hm_simps)
  ultimately show ?thesis
    using register_then_lookup_over_messages [OF sample_codec_ok enc reg, of 8] unfolding reg by auto
qed

theorem registry_survives_restart_witness:
  "\<exists>t disk'. registry_load sample_registry_env (\<lambda>s. Inr (string_bytes s)) (registry_new ''db'', disk') = ((t, disk'), Inr ())
     \<and> registry_lookup t ''a'' = Some (fill32 1) \<and> registry_reverse_lookup t (fill32 1) = Some ''a''"
proof -
  let ?s = "\<lparr>rs_names = [(''a'', registry_entry_new 5 ''a'' (fill32 1))], rs_reverse = [(fill32 1, ''a'')],
      rs_db_path = ''db'', rs_running = False, rs_dirty = False\<rparr>"
  let ?d = "(\<lambda>_. None)(''db'' \<mapsto> ''{a}'')"
  have run: "fold (registry_do sample_registry_env bytes_string sample_registry_codec)
      [RgRegister 5 ''a'' (fill32 1)] (registry_new ''db'', \<lambda>_. None) = (?s, ?d)"
    by (simp add: sample_register del: registry_do.simps)
  have io: "io_works sample_registry_env" by (simp add: io_works_def sample_registry_env_def)
  have hex: "hex_ok bytes_string (\<lambda>s. Inr (string_bytes s))" by (simp add: hex_ok_def)
  have rb: "reads_back same_registry sample_registry_env (registry_snapshot bytes_string ?s)"
    by (simp add: reads_back_def same_registry_def sample_registry_env_def registry_snapshot_def
        hm_empty_def hm_insert_def hm_ok_def node_id_to_hex_def id_to_hex_def is_blank_def white3_def)
  obtain t where "registry_load sample_registry_env (\<lambda>s. Inr (string_bytes s)) (registry_new ''db'', ?d) = ((t, ?d), Inr ())"
    "registry_lookup t = registry_lookup ?s" "registry_reverse_lookup t = registry_reverse_lookup ?s"
    using registry_survives_restart [OF io hex refl run rb] by blast
  then show ?thesis
    by (intro exI [of _ t] exI [of _ ?d])
       (simp add: registry_lookup_def registry_reverse_lookup_def hm_get_def registry_entry_new_def)
qed

end
