(* ===== verification/Selfheal.thy ===== *)
theory Selfheal
  imports Multihop Disk
begin

text \<open>
  Self-healing (\<open>src/vpn/selfheal.rs\<close>): the message codec, the states of the tracked
  nodes, what happens when a node goes offline or comes back, one iteration of the healing
  loop, and the state file. The callbacks show as the events they get. The multi-hop
  manager is shared with its owner; its state is a field here. Every operation reads each
  of its two clocks once, the monotonic \<open>now\<close> and the Unix time \<open>clock\<close> in seconds. The loop
  uses the settings of the moment it was started; the setters take the manager exclusively
  and come before that.
\<close>

section \<open>Messages\<close>

definition default_heal_interval_secs :: nat where
  "default_heal_interval_secs = 10"

definition default_max_failed_attempts :: u32 where
  "default_max_failed_attempts = 5"

definition default_recovery_check_secs :: nat where
  "default_recovery_check_secs = 30"

definition persist_interval_secs :: nat where
  "persist_interval_secs = 30"

definition heal_header_len :: nat where
  "heal_header_len = 1 + 32 + 8"

datatype heal_msg_type = HealPing | HealPong | PartitionSync

definition heal_type_from_u8 :: "byte \<Rightarrow> heal_msg_type option" where
  "heal_type_from_u8 b =
     (if b = 0x01 then Some HealPing
      else if b = 0x02 then Some HealPong
      else if b = 0x03 then Some PartitionSync
      else None)"

fun heal_type_to_u8 :: "heal_msg_type \<Rightarrow> byte" where
  "heal_type_to_u8 HealPing = 0x01"
| "heal_type_to_u8 HealPong = 0x02"
| "heal_type_to_u8 PartitionSync = 0x03"

interpretation healt: wire_tag heal_type_to_u8 heal_type_from_u8
proof unfold_locales
  fix t b
  show "heal_type_from_u8 (heal_type_to_u8 t) = Some t"
    by (cases t) (simp_all add: heal_type_from_u8_def)
  show "heal_type_from_u8 b = Some t \<Longrightarrow> heal_type_to_u8 t = b"
    by (auto simp: heal_type_from_u8_def split: if_splits)
qed

record heal_message =
  hl_msg_type :: heal_msg_type
  hl_sender_id :: node_id
  hl_timestamp :: u64
  hl_payload :: bytes

definition heal_message_new :: "u64 \<Rightarrow> heal_msg_type \<Rightarrow> node_id \<Rightarrow> heal_message" where
  "heal_message_new clock t sender =
     \<lparr>hl_msg_type = t, hl_sender_id = sender, hl_timestamp = clock, hl_payload = []\<rparr>"

definition heal_message_with_payload :: "u64 \<Rightarrow> heal_msg_type \<Rightarrow> node_id \<Rightarrow> bytes \<Rightarrow> heal_message" where
  "heal_message_with_payload clock t sender p = (heal_message_new clock t sender)\<lparr>hl_payload := p\<rparr>"

definition heal_to_bytes :: "heal_message \<Rightarrow> bytes" where
  "heal_to_bytes m =
     [heal_type_to_u8 (hl_msg_type m)] @ as_bytes (hl_sender_id m) @ to_be 8 (unat (hl_timestamp m))
     @ hl_payload m"

definition heal_from_bytes :: "bytes \<Rightarrow> heal_message option" where
  "heal_from_bytes d =
     (if length d < heal_header_len then None
      else case heal_type_from_u8 (d ! 0) of
             None \<Rightarrow> None
           | Some t \<Rightarrow>
               Some \<lparr>hl_msg_type = t, hl_sender_id = B32 (sub_slice d 1 (1 + 32)),
                     hl_timestamp = of_nat (of_be (sub_slice d (1 + 32) (1 + 32 + 8))),
                     hl_payload = drop heal_header_len d\<rparr>)"

section \<open>Tracked nodes and events\<close>

record heal_node_state =
  hn_node_id :: node_id
  hn_last_seen :: u64
  hn_failed_attempts :: u32
  hn_is_offline :: bool
  hn_last_recovery_attempt :: u64

definition heal_node_new :: "u64 \<Rightarrow> node_id \<Rightarrow> heal_node_state" where
  "heal_node_new clock i =
     \<lparr>hn_node_id = i, hn_last_seen = clock, hn_failed_attempts = 0, hn_is_offline = False,
      hn_last_recovery_attempt = 0\<rparr>"

definition mark_offline :: "heal_node_state \<Rightarrow> heal_node_state" where
  "mark_offline s = s\<lparr>hn_is_offline := True, hn_failed_attempts := 0\<rparr>"

definition mark_online :: "u64 \<Rightarrow> heal_node_state \<Rightarrow> heal_node_state" where
  "mark_online clock s = s\<lparr>hn_is_offline := False, hn_last_seen := clock, hn_failed_attempts := 0\<rparr>"

definition record_failed_attempt :: "u64 \<Rightarrow> heal_node_state \<Rightarrow> heal_node_state" where
  "record_failed_attempt clock s =
     s\<lparr>hn_failed_attempts := hn_failed_attempts s + 1, hn_last_recovery_attempt := clock\<rparr>"

definition has_exceeded_max_attempts :: "u32 \<Rightarrow> heal_node_state \<Rightarrow> bool" where
  "has_exceeded_max_attempts max_attempts s \<longleftrightarrow> max_attempts \<le> hn_failed_attempts s"

datatype heal_event =
  NodeOffline node_id u64 | NodeRecovered node_id u64 | PathFailed node_id node_id
| PathRestored node_id node_id | PartitionDetected "node_id list" | PartitionMerged | StateRestored nat

text \<open>\<open>show_id\<close> is the \<open>Display\<close> form of an identity.\<close>

fun heal_event_display :: "(node_id \<Rightarrow> string) \<Rightarrow> heal_event \<Rightarrow> string" where
  "heal_event_display show_id (NodeOffline i t) =
     ''NodeOffline[node='' @ show_id i @ '', time='' @ show_nat (unat t) @ '']''"
| "heal_event_display show_id (NodeRecovered i t) =
     ''NodeRecovered[node='' @ show_id i @ '', time='' @ show_nat (unat t) @ '']''"
| "heal_event_display show_id (PathFailed t h) =
     ''PathFailed[target='' @ show_id t @ '', next_hop='' @ show_id h @ '']''"
| "heal_event_display show_id (PathRestored t h) =
     ''PathRestored[target='' @ show_id t @ '', next_hop='' @ show_id h @ '']''"
| "heal_event_display show_id (PartitionDetected ns) =
     ''PartitionDetected[nodes_count='' @ show_nat (length ns) @ '']''"
| "heal_event_display show_id PartitionMerged = ''PartitionMerged''"
| "heal_event_display show_id (StateRestored n) = ''StateRestored[node_count='' @ show_nat n @ '']''"

section \<open>The manager\<close>

record persisted_heal_state =
  ps_states :: "(string, heal_node_state) hashmap"
  ps_last_saved :: u64

record heal_manager =
  sm_local_id :: node_id
  sm_states :: "(node_id, heal_node_state) hashmap"
  sm_multihop :: "multihop_manager option"
  sm_dht :: "dht_manager option"
  sm_persist_path :: "string option"
  sm_running :: bool
  sm_heal_interval :: duration
  sm_max_failed_attempts :: u32
  sm_recovery_check_interval :: duration
  sm_heal_pongs :: "node_id list"

definition heal_new :: "node_id \<Rightarrow> heal_manager" where
  "heal_new i =
     \<lparr>sm_local_id = i, sm_states = hm_empty, sm_multihop = None, sm_dht = None, sm_persist_path = None,
      sm_running = False, sm_heal_interval = from_secs default_heal_interval_secs,
      sm_max_failed_attempts = default_max_failed_attempts,
      sm_recovery_check_interval = from_secs default_recovery_check_secs, sm_heal_pongs = []\<rparr>"

definition set_heal_interval :: "nat \<Rightarrow> heal_manager \<Rightarrow> heal_manager" where
  "set_heal_interval secs m = m\<lparr>sm_heal_interval := from_secs secs\<rparr>"

definition set_max_failed_attempts :: "u32 \<Rightarrow> heal_manager \<Rightarrow> heal_manager" where
  "set_max_failed_attempts k m = m\<lparr>sm_max_failed_attempts := k\<rparr>"

definition heal_set_multihop :: "multihop_manager \<Rightarrow> heal_manager \<Rightarrow> heal_manager" where
  "heal_set_multihop mh m = m\<lparr>sm_multihop := Some mh\<rparr>"

definition heal_set_dht :: "dht_manager \<Rightarrow> heal_manager \<Rightarrow> heal_manager" where
  "heal_set_dht d m = m\<lparr>sm_dht := Some d\<rparr>"

definition set_persist_path :: "string \<Rightarrow> heal_manager \<Rightarrow> heal_manager" where
  "set_persist_path path m = m\<lparr>sm_persist_path := Some path\<rparr>"

definition heal_state_count :: "heal_manager \<Rightarrow> nat" where
  "heal_state_count m = hm_len (sm_states m)"

definition heal_get_state :: "heal_manager \<Rightarrow> node_id \<Rightarrow> heal_node_state option" where
  "heal_get_state m i = hm_get (sm_states m) i"

definition heal_all_states :: "heal_manager \<Rightarrow> heal_node_state list" where
  "heal_all_states m = hm_values (sm_states m)"

definition heal_offline_nodes :: "heal_manager \<Rightarrow> node_id list" where
  "heal_offline_nodes m = map hn_node_id (filter hn_is_offline (hm_values (sm_states m)))"

definition heal_online_nodes :: "heal_manager \<Rightarrow> node_id list" where
  "heal_online_nodes m = map hn_node_id (filter (\<lambda>s. \<not> hn_is_offline s) (hm_values (sm_states m)))"

definition heal_add_node :: "u64 \<Rightarrow> node_id \<Rightarrow> heal_manager \<Rightarrow> heal_manager" where
  "heal_add_node clock i m =
     (if hm_contains (sm_states m) i then m
      else m\<lparr>sm_states := hm_insert i (heal_node_new clock i) (sm_states m)\<rparr>)"

definition heal_remove_node :: "node_id \<Rightarrow> heal_manager \<Rightarrow> heal_manager" where
  "heal_remove_node i m = m\<lparr>sm_states := hm_remove i (sm_states m)\<rparr>"

text \<open>\<open>states.entry(i).or_insert_with(...)\<close>, then the change \<open>f\<close> of the entry.\<close>

definition update_heal_state :: "u64 \<Rightarrow> node_id \<Rightarrow> (heal_node_state \<Rightarrow> heal_node_state) \<Rightarrow> heal_manager \<Rightarrow> heal_manager" where
  "update_heal_state clock i f m =
     m\<lparr>sm_states := hm_insert i
        (f (case hm_get (sm_states m) i of Some s \<Rightarrow> s | None \<Rightarrow> heal_node_new clock i)) (sm_states m)\<rparr>"

section \<open>A node goes offline or comes back\<close>

type_synonym heal_run = "heal_manager \<times> heal_event list"

text \<open>One affected target of \<open>on_node_offline\<close>: its route used the node \<open>hop\<close>.\<close>

definition reroute ::
  "instant \<Rightarrow> bool \<Rightarrow> node_id \<Rightarrow> node_id \<Rightarrow> multihop_manager \<times> heal_event list
   \<Rightarrow> multihop_manager \<times> heal_event list" where
  "reroute now dht_bound hop target = (\<lambda>(mh, evs).
     let evs = evs @ [PathFailed target hop]; mh = mark_invalid now target mh
     in case find_alternative now target mh of
          (mh, Inr _) \<Rightarrow>
            (mh, evs @ (case mh_find_route now target mh of
                          None \<Rightarrow> [] | Some e \<Rightarrow> [PathRestored target (mh_next_hop e)]))
        | (mh, Inl _) \<Rightarrow> (if dht_bound then fst (discover_route now target mh) else mh, evs))"

definition on_node_offline :: "instant \<Rightarrow> u64 \<Rightarrow> node_id \<Rightarrow> heal_run \<Rightarrow> heal_run" where
  "on_node_offline now clock i = (\<lambda>(m, evs).
     let m = update_heal_state clock i mark_offline m;
         (m, evs) =
           (case sm_multihop m of
              None \<Rightarrow> (m, evs)
            | Some mh \<Rightarrow>
                let mh = fst (mh_remove_route i mh);
                    (mh, evs) = fold (reroute now (sm_dht m \<noteq> None) i) (find_routes_by_next_hop i mh) (mh, evs)
                in (m\<lparr>sm_multihop := Some mh\<rparr>, evs))
     in (m, evs @ [NodeOffline i clock]))"

text \<open>The route to a node that is back, when there is none.\<close>

definition rebuild_route :: "instant \<Rightarrow> node_id \<Rightarrow> heal_manager \<Rightarrow> heal_manager" where
  "rebuild_route now i m =
     (case sm_multihop m of
        None \<Rightarrow> m
      | Some mh \<Rightarrow>
          if mh_find_route now i mh = None \<and> sm_dht m \<noteq> None
          then m\<lparr>sm_multihop := Some (fst (discover_route now i mh))\<rparr> else m)"

definition on_node_recovered :: "instant \<Rightarrow> u64 \<Rightarrow> node_id \<Rightarrow> heal_run \<Rightarrow> heal_run" where
  "on_node_recovered now clock i = (\<lambda>(m, evs).
     (rebuild_route now i (update_heal_state clock i (mark_online clock) m), evs @ [NodeRecovered i clock]))"

definition handle_path_failure :: "instant \<Rightarrow> node_id \<Rightarrow> heal_run \<Rightarrow> heal_run" where
  "handle_path_failure now target = (\<lambda>(m, evs).
     case sm_multihop m of
       None \<Rightarrow> (m, evs)
     | Some mh \<Rightarrow>
         let mh = mark_invalid now target mh;
             restored = (\<lambda>mh. case mh_find_route now target mh of
                                None \<Rightarrow> [] | Some e \<Rightarrow> [PathRestored target (mh_next_hop e)])
         in case find_alternative now target mh of
              (mh, Inr _) \<Rightarrow> (m\<lparr>sm_multihop := Some mh\<rparr>, evs @ restored mh)
            | (mh, Inl _) \<Rightarrow>
                if sm_dht m = None then (m\<lparr>sm_multihop := Some mh\<rparr>, evs)
                else (case discover_route now target mh of
                        (mh, Inr _) \<Rightarrow> (m\<lparr>sm_multihop := Some mh\<rparr>, evs @ restored mh)
                      | (mh, Inl _) \<Rightarrow> (m\<lparr>sm_multihop := Some mh\<rparr>, evs)))"

definition handle_heal_pong :: "node_id \<Rightarrow> heal_manager \<Rightarrow> heal_manager" where
  "handle_heal_pong sender m = m\<lparr>sm_heal_pongs := sm_heal_pongs m @ [sender]\<rparr>"

definition process_heal_message ::
  "instant \<Rightarrow> u64 \<Rightarrow> heal_message \<Rightarrow> heal_run \<Rightarrow> heal_run \<times> heal_message option" where
  "process_heal_message now clock msg = (\<lambda>(m, evs).
     case hl_msg_type msg of
       HealPing \<Rightarrow>
         ((m, evs), Some ((heal_message_new clock HealPong (sm_local_id m))
                            \<lparr>hl_payload := as_bytes (hl_sender_id msg)\<rparr>))
     | HealPong \<Rightarrow> ((handle_heal_pong (hl_sender_id msg) m, evs), None)
     | PartitionSync \<Rightarrow>
         let m = heal_add_node clock (hl_sender_id msg) m
         in (case heal_get_state m (hl_sender_id msg) of
               None \<Rightarrow> (m, evs)
             | Some s \<Rightarrow> if hn_is_offline s then on_node_recovered now clock (hl_sender_id msg) (m, evs)
                         else (m, evs), None))"

text \<open>The callbacks of the heartbeat module. \<open>on_heartbeat_sent\<close> has an empty body.\<close>

definition heal_on_node_online :: "instant \<Rightarrow> u64 \<Rightarrow> node_id \<Rightarrow> heal_run \<Rightarrow> heal_run" where
  "heal_on_node_online now clock i = (\<lambda>(m, evs).
     let was_offline = (case heal_get_state m i of None \<Rightarrow> False | Some s \<Rightarrow> hn_is_offline s);
         m = heal_add_node clock i m
     in if was_offline then on_node_recovered now clock i (m, evs) else (m, evs))"

definition heal_on_heartbeat_received :: "instant \<Rightarrow> u64 \<Rightarrow> node_id \<Rightarrow> heal_run \<Rightarrow> heal_run" where
  "heal_on_heartbeat_received now clock i = (\<lambda>(m, evs).
     let m = heal_add_node clock i m
     in case hm_get (sm_states m) i of
          None \<Rightarrow> (m, evs)
        | Some s \<Rightarrow>
            if hn_is_offline s then
              on_node_recovered now clock i
                (m\<lparr>sm_states := hm_insert i (mark_online clock s) (sm_states m)\<rparr>, evs)
            else (m\<lparr>sm_states := hm_insert i (s\<lparr>hn_last_seen := clock\<rparr>) (sm_states m)\<rparr>, evs))"

section \<open>The healing loop\<close>

record heal_timers =
  ht_last_recovery_check :: instant
  ht_last_persist :: instant

definition heal_start :: "instant \<Rightarrow> heal_manager \<Rightarrow> heal_manager \<times> heal_timers option" where
  "heal_start now m =
     (if sm_running m then (m, None)
      else (m\<lparr>sm_running := True\<rparr>, Some \<lparr>ht_last_recovery_check = now, ht_last_persist = now\<rparr>))"

definition heal_stop :: "heal_manager \<Rightarrow> heal_manager" where
  "heal_stop m = m\<lparr>sm_running := False\<rparr>"

text \<open>
  The first part of an iteration takes the pongs; for a sender that is offline it repeats
  the statements of \<open>on_node_recovered\<close>.
\<close>

definition heal_take_pong :: "instant \<Rightarrow> u64 \<Rightarrow> node_id \<Rightarrow> heal_run \<Rightarrow> heal_run" where
  "heal_take_pong now clock sender = (\<lambda>(m, evs).
     if (case hm_get (sm_states m) sender of None \<Rightarrow> False | Some s \<Rightarrow> hn_is_offline s)
     then on_node_recovered now clock sender (m, evs) else (m, evs))"

definition heal_pongs_phase :: "instant \<Rightarrow> u64 \<Rightarrow> heal_run \<Rightarrow> heal_run" where
  "heal_pongs_phase now clock = (\<lambda>(m, evs).
     fold (heal_take_pong now clock) (sm_heal_pongs m) (m\<lparr>sm_heal_pongs := []\<rparr>, evs))"

definition probe_due :: "u64 \<Rightarrow> heal_manager \<Rightarrow> heal_node_state \<Rightarrow> bool" where
  "probe_due clock m s \<longleftrightarrow> hn_is_offline s \<and> \<not> has_exceeded_max_attempts (sm_max_failed_attempts m) s
     \<and> (hn_last_recovery_attempt s = 0
        \<or> sm_recovery_check_interval m div from_secs 1 \<le> unat (clock - hn_last_recovery_attempt s))"

definition probe_node :: "instant \<Rightarrow> u64 \<Rightarrow> node_id \<Rightarrow> heal_run \<Rightarrow> heal_run" where
  "probe_node now clock i = (\<lambda>(m, evs).
     let m = m\<lparr>sm_states := hm_modify i (record_failed_attempt clock) (sm_states m)\<rparr>
     in case (sm_dht m, sm_multihop m) of
          (Some _, Some mh) \<Rightarrow>
            (case discover_route now i mh of
               (mh, Inr _) \<Rightarrow>
                 (m\<lparr>sm_multihop := Some mh, sm_states := hm_modify i (mark_online clock) (sm_states m)\<rparr>,
                  evs @ [NodeRecovered i clock])
             | (mh, Inl _) \<Rightarrow> (m\<lparr>sm_multihop := Some mh\<rparr>, evs))
        | _ \<Rightarrow> (m, evs))"

definition heal_probe_phase :: "instant \<Rightarrow> u64 \<Rightarrow> heal_run \<Rightarrow> heal_run" where
  "heal_probe_phase now clock = (\<lambda>(m, evs).
     fold (probe_node now clock)
       (map hn_node_id (filter (probe_due clock m) (hm_values (sm_states m)))) (m, evs))"

definition heal_snapshot :: "(bytes \<Rightarrow> string) \<Rightarrow> u64 \<Rightarrow> heal_manager \<Rightarrow> persisted_heal_state" where
  "heal_snapshot hex_encode clock m =
     \<lparr>ps_states = fold (\<lambda>(i, s). hm_insert (id_to_hex hex_encode i) s) (sm_states m) hm_empty,
      ps_last_saved = clock\<rparr>"

definition heal_persist ::
  "persisted_heal_state json_env \<Rightarrow> (bytes \<Rightarrow> string) \<Rightarrow> u64 \<Rightarrow> heal_manager \<Rightarrow> disk \<Rightarrow> disk" where
  "heal_persist env hex_encode clock m disk =
     (case sm_persist_path m of
        None \<Rightarrow> disk
      | Some path \<Rightarrow>
          fst (put_json env path (heal_snapshot hex_encode clock m) disk))"

definition heal_iteration ::
  "persisted_heal_state json_env \<Rightarrow> (bytes \<Rightarrow> string) \<Rightarrow> instant \<Rightarrow> u64
   \<Rightarrow> heal_timers \<times> heal_run \<times> disk \<Rightarrow> heal_timers \<times> heal_run \<times> disk" where
  "heal_iteration env hex_encode now clock = (\<lambda>(t, run, disk).
     let run = heal_pongs_phase now clock run;
         (t, run) =
           (if sm_recovery_check_interval (fst run) \<le> elapsed now (ht_last_recovery_check t)
            then (t\<lparr>ht_last_recovery_check := now\<rparr>, heal_probe_phase now clock run) else (t, run))
     in if from_secs persist_interval_secs \<le> elapsed now (ht_last_persist t)
        then (t\<lparr>ht_last_persist := now\<rparr>, run, heal_persist env hex_encode clock (fst run) disk)
        else (t, run, disk))"

section \<open>The state file\<close>

fun heal_save_error :: "json_error \<Rightarrow> string" where
  "heal_save_error (CodecError e) = ''serialize error: '' @ e"
| "heal_save_error (CreateDirError e) = e"
| "heal_save_error (WriteError e) = ''write error: '' @ e"
| "heal_save_error (ReadError e) = e"

fun heal_load_error :: "json_error \<Rightarrow> string" where
  "heal_load_error (CodecError e) = ''deserialize error: '' @ e"
| "heal_load_error (CreateDirError e) = e"
| "heal_load_error (WriteError e) = e"
| "heal_load_error (ReadError e) = ''read error: '' @ e"

definition heal_save_state ::
  "persisted_heal_state json_env \<Rightarrow> (bytes \<Rightarrow> string) \<Rightarrow> u64 \<Rightarrow> string \<Rightarrow> heal_manager \<Rightarrow> disk
   \<Rightarrow> disk \<times> (string + unit)" where
  "heal_save_state env hex_encode clock path m disk =
     (case put_json env path (heal_snapshot hex_encode clock m) disk of
        (disk, Inl e) \<Rightarrow> (disk, Inl (heal_save_error e))
      | (disk, Inr _) \<Rightarrow> (disk, Inr ()))"

text \<open>
  The event goes out while the lock on the states is held, so a callback that asks the
  manager for a state never returns; the model has no such callback.
\<close>

definition heal_load_state ::
  "persisted_heal_state json_env \<Rightarrow> string \<Rightarrow> disk \<Rightarrow> heal_run \<Rightarrow> heal_run \<times> (string + nat)" where
  "heal_load_state env path disk = (\<lambda>(m, evs).
     case disk path of
       None \<Rightarrow> ((m, evs), Inl (''file not found: '' @ path))
     | Some text \<Rightarrow>
         (case get_json env path text of
            Inl e \<Rightarrow> ((m, evs), Inl (heal_load_error e))
          | Inr d \<Rightarrow>
              ((m\<lparr>sm_states := fold (\<lambda>(_, s). hm_insert (hn_node_id s) s) (ps_states d) (sm_states m)\<rparr>,
                evs @ [StateRestored (hm_len (ps_states d))]), Inr (hm_len (ps_states d)))))"

definition heal_try_restore ::
  "persisted_heal_state json_env \<Rightarrow> disk \<Rightarrow> heal_run \<Rightarrow> heal_run \<times> (string + nat)" where
  "heal_try_restore env disk run =
     (case sm_persist_path (fst run) of
        None \<Rightarrow> (run, Inr 0)
      | Some path \<Rightarrow> if disk path = None then (run, Inr 0) else heal_load_state env path disk run)"

section \<open>The codec\<close>

text \<open>The parser accepts exactly the bytes of a message.\<close>

theorem heal_message_wire_format: "heal_from_bytes d = Some m \<longleftrightarrow> d = heal_to_bytes m"
proof
  assume m: "heal_from_bytes d = Some m"
  then have len: "41 \<le> length d" by (simp add: heal_from_bytes_def heal_header_len_def split: if_splits)
  from m obtain t where t: "heal_type_from_u8 (d ! 0) = Some t"
    by (auto simp: heal_from_bytes_def split: if_splits option.splits)
  with m len have fields: "hl_msg_type m = t" "hl_sender_id m = B32 (sub_slice d 1 33)"
    "hl_timestamp m = of_nat (of_be (sub_slice d 33 41))" "hl_payload m = drop 41 d"
    by (auto simp: heal_from_bytes_def heal_header_len_def)
  have slen: "length (sub_slice d 33 41) = 8" using len by simp
  have "of_be (sub_slice d 33 41) < 2 ^ 64"
    using of_be_less [of "sub_slice d 33 41"] slen by simp
  then have "to_be 8 (unat (hl_timestamp m)) = sub_slice d 33 41"
    using to_be_of_be [of "sub_slice d 33 41"] slen fields(3) by (simp add: unat_of_nat)
  moreover have "as_bytes (hl_sender_id m) = sub_slice d 1 33" using fields(2) len by simp
  moreover have "[heal_type_to_u8 (hl_msg_type m)] = sub_slice d 0 1"
    using healt.to_from [OF t] fields(1) len by (cases d) (simp_all add: sub_slice_def)
  ultimately have "heal_to_bytes m = sub_slice d 0 1 @ sub_slice d 1 33 @ sub_slice d 33 41 @ drop 41 d"
    using fields(4) by (simp add: heal_to_bytes_def)
  also have "\<dots> = sub_slice d 0 41 @ drop 41 d"
    by (simp add: append_assoc [symmetric] slice_glue del: append_assoc)
  also have "\<dots> = d" by (simp add: sub_slice_def)
  finally show "d = heal_to_bytes m" ..
next
  assume d: "d = heal_to_bytes m"
  have "unat w < 256 ^ 8" for w :: u64 using unsigned_less [of w] by simp
  with d show "heal_from_bytes d = Some m"
    by (simp add: heal_from_bytes_def heal_to_bytes_def heal_header_len_def sub_slice_def healt.from_to
        of_be_to_be_id)
qed

section \<open>Nodes that are offline are not used\<close>

lemma route_timeout_pos: "0 < route_timeout"
  by (simp add: route_timeout_def from_secs_def default_route_timeout_secs_def)

definition avoids :: "instant \<Rightarrow> node_id \<Rightarrow> multihop_entry \<Rightarrow> bool" where
  "avoids now hop e \<longleftrightarrow> mh_next_hop e \<noteq> hop \<or> mh_expires_at e < now"

lemma reroute_get_other:
  "t \<noteq> target \<Longrightarrow> hm_get (mm_routes (fst (reroute now False hop target (mh, evs)))) t = hm_get (mm_routes mh) t"
  by (simp add: reroute_def mark_invalid_def find_alternative_def hm_get_modify hm_simps Let_def
      split: option.split prod.split)

lemma reroute_avoids:
  assumes "hm_get (mm_routes mh) target = Some e" and "mh_next_hop e = hop"
    and "hm_get (mm_routes (fst (reroute now False hop target (mh, evs)))) target = Some e'"
  shows "avoids now hop e'"
  using assms
  by (auto simp: reroute_def mark_invalid_def find_alternative_def hm_get_modify hm_simps Let_def avoids_def
      from_secs_def find_Some_iff split: option.splits prod.splits)

lemma reroute_fold_avoids:
  assumes "distinct ts" and "\<And>t. t \<in> set ts \<Longrightarrow> \<exists>e. hm_get (mm_routes mh) t = Some e \<and> mh_next_hop e = hop"
    and "\<And>t e. t \<notin> set ts \<Longrightarrow> hm_get (mm_routes mh) t = Some e \<Longrightarrow> avoids now hop e"
    and "hm_get (mm_routes (fst (fold (reroute now False hop) ts (mh, evs)))) t = Some e"
  shows "avoids now hop e"
  using assms
proof (induction ts arbitrary: mh evs)
  case (Cons a ts)
  obtain mh1 evs1 where s: "reroute now False hop a (mh, evs) = (mh1, evs1)" by force
  have o: "u \<noteq> a \<Longrightarrow> hm_get (mm_routes mh1) u = hm_get (mm_routes mh) u" for u
    using reroute_get_other [of u a now hop mh evs] s by simp
  have a: "avoids now hop e'" if "hm_get (mm_routes mh1) a = Some e'" for e'
  proof -
    from Cons.prems(2) [of a] obtain e0 where "hm_get (mm_routes mh) a = Some e0" "mh_next_hop e0 = hop" by auto
    from reroute_avoids [OF this, of now evs e'] that s show ?thesis by simp
  qed
  show ?case
  proof (rule Cons.IH)
    show "distinct ts" using Cons.prems(1) by simp
    show "\<exists>e. hm_get (mm_routes mh1) u = Some e \<and> mh_next_hop e = hop" if "u \<in> set ts" for u
      using Cons.prems(1) Cons.prems(2) [of u] o [of u] that by (cases "u = a") auto
    show "avoids now hop e'" if "u \<notin> set ts" "hm_get (mm_routes mh1) u = Some e'" for u e'
      using a o [of u] Cons.prems(3) [of u e'] that by (cases "u = a") auto
    show "hm_get (mm_routes (fst (fold (reroute now False hop) ts (mh1, evs1)))) t = Some e"
      using Cons.prems(4) s by simp
  qed
qed auto

lemma routes_by_next_hop:
  assumes "hm_ok (mm_routes m)"
  shows "t \<in> set (find_routes_by_next_hop hop m) \<longleftrightarrow> (\<exists>e. hm_get (mm_routes m) t = Some e \<and> mh_next_hop e = hop)"
    and "distinct (find_routes_by_next_hop hop m)"
proof -
  show "t \<in> set (find_routes_by_next_hop hop m) \<longleftrightarrow> (\<exists>e. hm_get (mm_routes m) t = Some e \<and> mh_next_hop e = hop)"
    using assms by (force simp: find_routes_by_next_hop_def hm_get_iff)
  show "distinct (find_routes_by_next_hop hop m)"
    using assms by (simp add: find_routes_by_next_hop_def hm_ok_def distinct_map_filter)
qed

lemma reroute_keeps: "multihop_ok (fst s) \<Longrightarrow> multihop_ok (fst (reroute now b hop t s))"
  using find_alternative_ok [of "mark_invalid now t (fst s)" now t]
  by (auto simp: reroute_def split_beta Let_def mark_invalid_def multihop_ok_modify discover_route_ok
      split: prod.split sum.split)

text \<open>C21. After a node was reported offline to a self-healing manager without a DHT, a
  route found in its multi-hop table neither leads to that node nor goes through it.\<close>

theorem offline_node_not_used:
  assumes "sm_multihop m = Some mh" and "mh = fold multihop_step ops (multihop_new t0 l)"
    and "sm_dht m = None" and "now \<le> later"
    and "on_node_offline now clock i (m, evs) = (m', evs')" and "sm_multihop m' = Some mh'"
    and "mh_find_route later t mh' = Some e"
  shows "t \<noteq> i \<and> mh_next_hop e \<noteq> i"
proof -
  have "multihop_ok (multihop_new t0 l)" by (simp add: multihop_ok_def multihop_new_def hm_simps)
  then have ok: "multihop_ok mh" unfolding assms(2) by (rule mh.run_inv)
  let ?m1 = "fst (mh_remove_route i mh)"
  have get1: "hm_get (mm_routes ?m1) u = (if u = i then None else hm_get (mm_routes mh) u)" for u
    by (simp add: mh_remove_route_def hm_simps)
  have ok1: "hm_ok (mm_routes ?m1)" using ok by (simp add: multihop_ok_def mh_remove_route_def hm_simps)
  let ?ts = "find_routes_by_next_hop i ?m1"
  have i: "i \<notin> set ?ts" using routes_by_next_hop(1) [OF ok1] get1 [of i] by simp
  obtain evs2 where mh': "fold (reroute now False i) ?ts (?m1, evs) = (mh', evs2)"
    using assms(1,3,5,6) by (auto simp: on_node_offline_def update_heal_state_def Let_def split: prod.splits)
  from assms(7) have e: "hm_get (mm_routes mh') t = Some e" "later < mh_expires_at e"
    by (auto simp: mh_find_route_def mh_is_expired_def split: option.splits if_splits)
  have "avoids now i e"
  proof (rule reroute_fold_avoids)
    show "hm_get (mm_routes (fst (fold (reroute now False i) ?ts (?m1, evs)))) t = Some e"
      using mh' e(1) by simp
    show "avoids now i e'" if "u \<notin> set ?ts" "hm_get (mm_routes ?m1) u = Some e'" for u e'
      using that routes_by_next_hop(1) [OF ok1] by (auto simp: avoids_def)
  qed (use routes_by_next_hop [OF ok1] in auto)
  moreover have "hm_get (mm_routes (fst (fold (reroute now False i) us (n, vs)))) i = hm_get (mm_routes n) i"
    if "i \<notin> set us" for us n vs
    using that
  proof (induction us arbitrary: n vs)
    case (Cons u us)
    obtain n1 vs1 where "reroute now False i u (n, vs) = (n1, vs1)" by force
    with Cons reroute_get_other [of i u now i n vs] show ?case by auto
  qed simp
  from this [OF i, of ?m1 evs] have "hm_get (mm_routes mh') i = None" using mh' get1 [of i] by simp
  ultimately show ?thesis using e assms(4) by (auto simp: avoids_def)
qed

definition sample_route :: "node_id \<Rightarrow> (node_id \<times> string) list \<Rightarrow> multihop_op" where
  "sample_route hop cs = InsertRoute (multihop_entry_new 0 (fill32 3) hop 2 RelayConn cs)"

lemma sample_route_run: "mm_routes (fold multihop_step [sample_route hop cs] (multihop_new 0 l))
    = [(fill32 3, multihop_entry_new 0 (fill32 3) hop 2 RelayConn cs)]"
  by (simp add: sample_route_def insert_route_def insert_or_evict_def multihop_new_def hm_contains_def hm_simps
      max_route_entries_def multihop_entry_new_def) (simp add: hm_defs)

theorem offline_node_not_used_witness:
  "\<exists>m' evs' mh' e. on_node_offline 0 7 (fill32 2)
      ((heal_new (fill32 1))\<lparr>sm_multihop :=
         Some (fold multihop_step [sample_route (fill32 2) [(fill32 4, ''a'')]] (multihop_new 0 (fill32 1)))\<rparr>, [])
      = (m', evs') \<and> sm_multihop m' = Some mh' \<and> mh_find_route 1 (fill32 3) mh' = Some e
    \<and> mh_next_hop e \<noteq> fill32 2"
proof -
  let ?mh = "fold multihop_step [sample_route (fill32 2) [(fill32 4, ''a'')]] (multihop_new 0 (fill32 1))"
  let ?m = "(heal_new (fill32 1))\<lparr>sm_multihop := Some ?mh\<rparr>"
  obtain m' evs' where r: "on_node_offline 0 7 (fill32 2) (?m, []) = (m', evs')" by force
  have local: "mm_local_id ?mh = fill32 1"
    by (simp add: sample_route_def insert_route_def insert_or_evict_def multihop_new_def Let_def split: option.split)
  let ?e = "(multihop_entry_new 0 (fill32 3) (fill32 4) 2 RelayConn [(fill32 4, ''a'')])"
  have "sm_multihop m' = Some (?mh\<lparr>mm_routes := [(fill32 3, ?e)]\<rparr>)"
    using r sample_route_run [of "fill32 2" "[(fill32 4, ''a'')]" "fill32 1"] local
    by (auto simp: on_node_offline_def update_heal_state_def heal_new_def mh_remove_route_def
        find_routes_by_next_hop_def reroute_def mark_invalid_def find_alternative_def mh_find_route_def
        multihop_entry_new_def hm_get_def hm_modify_def hm_insert_def hm_remove_def Let_def)
  moreover have "mh_find_route 1 (fill32 3) (?mh\<lparr>mm_routes := [(fill32 3, ?e)]\<rparr>) = Some ?e"
    by (simp add: mh_find_route_def hm_get_def mh_is_expired_def multihop_entry_new_def route_timeout_def
        from_secs_def default_route_timeout_secs_def)
  ultimately obtain mh' e where "sm_multihop m' = Some mh'" "mh_find_route 1 (fill32 3) mh' = Some e" by blast
  then show ?thesis
    using offline_node_not_used [of ?m ?mh "[sample_route (fill32 2) [(fill32 4, ''a'')]]" 0 "fill32 1" 0 1 7
        "fill32 2" "[]" m' evs' mh' "fill32 3" e] r by (auto simp: heal_new_def)
qed

text \<open>
  Discovery succeeds exactly when the DHT knows some node and the target is another one.
\<close>

lemma discover_route_succeeds:
  "(\<exists>u. snd (discover_route now t mh) = Inr u)
     \<longleftrightarrow> t \<noteq> mm_local_id mh \<and> (\<exists>d. mm_dht mh = Some d \<and> find_node d t \<noteq> [])"
  by (auto simp: discover_route_def Let_def split: option.split prod.split)

lemma insert_or_evict_fields [simp]:
  "mm_dht (insert_or_evict e mh) = mm_dht mh" "mm_local_id (insert_or_evict e mh) = mm_local_id mh"
  by (auto simp: insert_or_evict_def Let_def split: option.split)

lemma discover_route_fields [simp]:
  "mm_dht (fst (discover_route now t mh)) = mm_dht mh"
  "mm_local_id (fst (discover_route now t mh)) = mm_local_id mh"
  by (simp_all add: discover_route_def Let_def split: option.split prod.split)

lemma discover_route_only_hop:
  assumes "mm_dht mh = Some d" and "t \<noteq> mm_local_id mh" and "fst ` set (find_node d t) = {hop}"
  shows "\<exists>e. mh_find_route now t (fst (discover_route now t mh)) = Some e \<and> mh_next_hop e = hop"
proof -
  let ?s = "sort_by (\<lambda>a b. compare (xor_distance_u128 (fst a) t) (xor_distance_u128 (fst b) t)) (find_node d t)"
  have s: "?s = sort_key (\<lambda>p. xor_distance_u128 (fst p) t) (find_node d t)" by (rule sort_by_key) simp
  have ne: "find_node d t \<noteq> []" using assms(3) by auto
  then have "?s ! 0 \<in> set ?s" unfolding s by (metis length_greater_0_conv nth_mem set_empty set_sort)
  then have hop: "fst (?s ! 0) = hop" using assms(3) unfolding s by auto
  let ?fb = "take k_candidates_max (filter (\<lambda>p. fst p \<noteq> fst (?s ! 0)) (drop 1 ?s))"
  let ?e = "\<lambda>h c. multihop_entry_new now t (fst (?s ! 0)) h c ?fb"
  obtain h c where d: "fst (discover_route now t mh) = insert_or_evict (?e h c) mh"
    using assms(1,2) ne unfolding discover_route_def Let_def by (cases "fst (?s ! 0) = t") auto
  have "hm_get (mm_routes (insert_or_evict (?e h c) mh)) t = Some (?e h c)"
    using insert_or_evict_get [of "?e h c" mh] by (simp add: multihop_entry_new_def)
  then have "mh_find_route now t (fst (discover_route now t mh)) = Some (?e h c)"
    using route_timeout_pos unfolding d by (simp add: mh_find_route_def mh_is_expired_def multihop_entry_new_def)
  then show ?thesis using hop by (simp add: multihop_entry_new_def)
qed

text \<open>With a DHT, the rediscovery may route through the node that has just gone offline.\<close>

theorem rediscovery_uses_dead_node:
  assumes "sm_multihop m = Some mh" and "sm_dht m \<noteq> None" and "mm_dht mh = Some d"
    and "mm_routes mh = [(t, e)]" and "mh_next_hop e = i" and "t \<noteq> i" and "t \<noteq> mm_local_id mh"
    and "\<forall>c \<in> fst ` set (mh_candidates e). c = i \<or> c = mm_local_id mh"
    and "fst ` set (find_node d t) = {i}"
    and "on_node_offline now clock i (m, evs) = (m', evs')"
  shows "\<exists>mh' e'. sm_multihop m' = Some mh' \<and> mh_find_route now t mh' = Some e' \<and> mh_next_hop e' = i"
proof -
  let ?mh = "mh\<lparr>mm_routes := [(t, e)]\<rparr>"
  let ?inv = "mark_invalid now t ?mh"
  have "List.find (\<lambda>p. fst p \<noteq> mh_next_hop e \<and> fst p \<noteq> mm_local_id mh) (mh_candidates e) = None"
    using assms(5,8) by (auto simp: find_None_iff)
  then have "find_alternative now t ?inv = (?inv, Inl (NoRoute t))"
    by (simp add: find_alternative_def mark_invalid_def hm_get_def hm_modify_def hm_insert_def)
  moreover have "fst (mh_remove_route i mh) = ?mh" "find_routes_by_next_hop i ?mh = [t]"
    using assms(4-6) by (simp_all add: mh_remove_route_def hm_remove_def find_routes_by_next_hop_def)
  ultimately have "sm_multihop m' = Some (fst (discover_route now t ?inv))"
    using assms(1,2,10) by (auto simp: on_node_offline_def update_heal_state_def reroute_def Let_def)
  moreover have "mm_dht ?inv = Some d" "t \<noteq> mm_local_id ?inv" using assms(3,7) by (simp_all add: mark_invalid_def)
  ultimately show ?thesis using discover_route_only_hop [OF _ _ assms(9)] by blast
qed

definition one_node_dht :: "node_id \<Rightarrow> dht_manager" where
  "one_node_dht i = (dht_new (fill32 0))\<lparr>dht_buckets :=
     [\<lparr>kb_entries = [\<lparr>be_node_id = i, be_addr = ''a'', be_last_seen = 0\<rparr>], kb_capacity = 20\<rparr>]\<rparr>"

lemma find_node_one: "find_node (one_node_dht i) t = [(i, ''a'')]"
  by (simp add: find_node_def find_nearest_eq all_nodes_def one_node_dht_def k_bucket_size_def)

theorem rediscovery_uses_dead_node_witness:
  "\<exists>m' evs' mh' e'. on_node_offline 0 7 (fill32 2)
      ((heal_new (fill32 1))\<lparr>sm_dht := Some (one_node_dht (fill32 2)), sm_multihop :=
         Some (fold multihop_step [BindDht (one_node_dht (fill32 2)), sample_route (fill32 2) []]
                 (multihop_new 0 (fill32 1)))\<rparr>, []) = (m', evs')
    \<and> sm_multihop m' = Some mh' \<and> mh_find_route 0 (fill32 3) mh' = Some e' \<and> mh_next_hop e' = fill32 2"
proof -
  let ?mh = "fold multihop_step [BindDht (one_node_dht (fill32 2)), sample_route (fill32 2) []] (multihop_new 0 (fill32 1))"
  let ?m = "(heal_new (fill32 1))\<lparr>sm_dht := Some (one_node_dht (fill32 2)), sm_multihop := Some ?mh\<rparr>"
  let ?e = "multihop_entry_new 0 (fill32 3) (fill32 2) 2 RelayConn []"
  obtain m' evs' where r: "on_node_offline 0 7 (fill32 2) (?m, []) = (m', evs')" by force
  have mh: "mm_dht ?mh = Some (one_node_dht (fill32 2))" "mm_local_id ?mh = fill32 1" "mm_routes ?mh = [(fill32 3, ?e)]"
    by (simp_all add: sample_route_def insert_route_def insert_or_evict_def multihop_new_def multihop_set_dht_def
        hm_contains_def hm_simps max_route_entries_def multihop_entry_new_def) (simp add: hm_defs)
  show ?thesis
    using rediscovery_uses_dead_node [of ?m ?mh "one_node_dht (fill32 2)" "fill32 3" ?e "fill32 2" 0 7 "[]" m' evs'] r mh
    by (auto simp: find_node_one multihop_entry_new_def)
qed

section \<open>What a recovery probe does\<close>

definition heal_ok :: "heal_manager \<Rightarrow> bool" where
  "heal_ok m \<longleftrightarrow> hm_ok (sm_states m) \<and> (\<forall>i s. hm_get (sm_states m) i = Some s \<longrightarrow> hn_node_id s = i)"

definition discoverable :: "heal_manager \<Rightarrow> node_id \<Rightarrow> bool" where
  "discoverable m i \<longleftrightarrow> sm_dht m \<noteq> None \<and> (\<exists>mh. sm_multihop m = Some mh \<and> i \<noteq> mm_local_id mh
     \<and> (\<exists>d. mm_dht mh = Some d \<and> find_node d i \<noteq> []))"

definition probed :: "u64 \<Rightarrow> bool \<Rightarrow> heal_node_state \<Rightarrow> heal_node_state" where
  "probed clock found s =
     (if found then mark_online clock (record_failed_attempt clock s) else record_failed_attempt clock s)"

lemma probe_node_cases:
  assumes "probe_node now clock i (m, evs) = (m', evs')"
  shows "hm_get (sm_states m') j = (if j = i then map_option (probed clock (discoverable m i)) (hm_get (sm_states m) i)
           else hm_get (sm_states m) j)"
    and "hm_ok (sm_states m) \<Longrightarrow> hm_ok (sm_states m')"
    and "evs' = (if discoverable m i then evs @ [NodeRecovered i clock] else evs)"
    and "discoverable m' j \<longleftrightarrow> discoverable m j"
    and "sm_max_failed_attempts m' = sm_max_failed_attempts m"
proof -
  let ?m1 = "m\<lparr>sm_states := hm_modify i (record_failed_attempt clock) (sm_states m)\<rparr>"
  have "hm_get (sm_states m') j = (if j = i then map_option (probed clock (discoverable m i)) (hm_get (sm_states m) i)
           else hm_get (sm_states m) j)
      \<and> (hm_ok (sm_states m) \<longrightarrow> hm_ok (sm_states m'))
      \<and> evs' = (if discoverable m i then evs @ [NodeRecovered i clock] else evs)
      \<and> (discoverable m' j \<longleftrightarrow> discoverable m j) \<and> sm_max_failed_attempts m' = sm_max_failed_attempts m"
  proof (cases "sm_dht m \<noteq> None \<and> sm_multihop m \<noteq> None")
    case False
    then have p: "probe_node now clock i (m, evs) = (?m1, evs)"
      by (auto simp: probe_node_def Let_def split: option.split)
    have "\<not> discoverable m k" "\<not> discoverable ?m1 k" for k using False by (auto simp: discoverable_def)
    with p assms show ?thesis by (auto simp: probed_def [abs_def] hm_get_modify)
  next
    case True
    then obtain d0 mh where mh: "sm_dht m = Some d0" "sm_multihop m = Some mh" by auto
    obtain mh' r where d: "discover_route now i mh = (mh', r)" by force
    have f: "discoverable m i \<longleftrightarrow> (\<exists>u. r = Inr u)"
      using discover_route_succeeds [of now i mh] mh d by (simp add: discoverable_def)
    have k: "mm_dht mh' = mm_dht mh" "mm_local_id mh' = mm_local_id mh"
      using discover_route_fields [of now i mh] d by simp_all
    show ?thesis
    proof (cases r)
      case (Inl e)
      with assms mh d have m': "m' = ?m1\<lparr>sm_multihop := Some mh'\<rparr>" "evs' = evs" by (auto simp: probe_node_def)
      have "discoverable m' j \<longleftrightarrow> discoverable m j" using mh k by (simp add: m'(1) discoverable_def)
      moreover have "\<not> discoverable m i" using f Inl by simp
      ultimately show ?thesis using m' by (auto simp: probed_def [abs_def] hm_get_modify)
    next
      case (Inr u)
      with assms mh d have m': "m' = ?m1\<lparr>sm_multihop := Some mh', sm_states :=
            hm_modify i (mark_online clock) (sm_states ?m1)\<rparr>" "evs' = evs @ [NodeRecovered i clock]"
        by (auto simp: probe_node_def)
      have "discoverable m' j \<longleftrightarrow> discoverable m j" using mh k by (simp add: m'(1) discoverable_def)
      then show ?thesis using Inr f m'
        by (auto simp: probed_def [abs_def] hm_get_modify option.map_comp o_def)
    qed
  qed
  then show "hm_get (sm_states m') j = (if j = i then map_option (probed clock (discoverable m i)) (hm_get (sm_states m) i)
           else hm_get (sm_states m) j)"
    and "hm_ok (sm_states m) \<Longrightarrow> hm_ok (sm_states m')"
    and "evs' = (if discoverable m i then evs @ [NodeRecovered i clock] else evs)"
    and "discoverable m' j \<longleftrightarrow> discoverable m j"
    and "sm_max_failed_attempts m' = sm_max_failed_attempts m" by blast+
qed

lemma probe_fold:
  assumes "distinct is" and "fold (probe_node now clock) is (m, evs) = (m', evs')"
  shows "(\<forall>j. hm_get (sm_states m') j = (if j \<in> set is then map_option (probed clock (discoverable m j)) (hm_get (sm_states m) j)
           else hm_get (sm_states m) j))
    \<and> (hm_ok (sm_states m) \<longrightarrow> hm_ok (sm_states m'))
    \<and> evs' = evs @ map (\<lambda>i. NodeRecovered i clock) (filter (discoverable m) is)
    \<and> sm_max_failed_attempts m' = sm_max_failed_attempts m"
  using assms
proof (induction "is" arbitrary: m evs)
  case (Cons i "is")
  obtain m1 evs1 where s: "probe_node now clock i (m, evs) = (m1, evs1)" by force
  note p = probe_node_cases [OF s]
  from Cons.prems have d: "distinct is" "i \<notin> set is" "fold (probe_node now clock) is (m1, evs1) = (m', evs')"
    unfolding fold_simps s by simp_all
  have "discoverable m1 = discoverable m" using p(4) by auto
  then show ?case using Cons.IH [OF d(1,3)] d(2) p(1,2,3,5) by auto
qed auto

lemma due_nodes:
  assumes "heal_ok m"
  shows "distinct (map hn_node_id (filter P (hm_values (sm_states m))))"
    and "i \<in> set (map hn_node_id (filter P (hm_values (sm_states m))))
         \<longleftrightarrow> (\<exists>s. hm_get (sm_states m) i = Some s \<and> P s)"
proof -
  let ?l = "sm_states m"
  have ok: "hm_ok ?l" and id: "\<And>i s. (i, s) \<in> set ?l \<Longrightarrow> hn_node_id s = i"
    using assms by (auto simp: heal_ok_def hm_get_iff)
  have "map hn_node_id (filter P (hm_values ?l)) = map (\<lambda>p. hn_node_id (snd p)) (filter (\<lambda>p. P (snd p)) ?l)"
    by (simp add: hm_values_def filter_map o_def)
  also have "\<dots> = map fst (filter (\<lambda>p. P (snd p)) ?l)"
    using id by (intro map_cong) auto
  finally have e: "map hn_node_id (filter P (hm_values ?l)) = map fst (filter (\<lambda>p. P (snd p)) ?l)" .
  show "distinct (map hn_node_id (filter P (hm_values ?l)))"
    unfolding e using ok by (simp add: hm_ok_def distinct_map_filter)
  show "i \<in> set (map hn_node_id (filter P (hm_values ?l))) \<longleftrightarrow> (\<exists>s. hm_get ?l i = Some s \<and> P s)"
    unfolding e using ok by (force simp: hm_get_iff)
qed

lemma probe_phase:
  assumes "heal_ok m" and "heal_probe_phase now clock (m, evs) = (m', evs')"
  shows "hm_get (sm_states m') i = map_option (\<lambda>s. if probe_due clock m s then probed clock (discoverable m i) s else s)
           (hm_get (sm_states m) i)"
    and "hm_ok (sm_states m')"
    and "sm_max_failed_attempts m' = sm_max_failed_attempts m"
    and "hm_get (sm_states m) i = Some s \<Longrightarrow> probe_due clock m s \<Longrightarrow> discoverable m i
           \<Longrightarrow> NodeRecovered i clock \<in> set evs'"
proof -
  let ?is = "map hn_node_id (filter (probe_due clock m) (hm_values (sm_states m)))"
  have f: "fold (probe_node now clock) ?is (m, evs) = (m', evs')"
    using assms(2) by (simp add: heal_probe_phase_def)
  note d = due_nodes [OF assms(1), where P = "probe_due clock m"]
  note p = probe_fold [OF d(1) f]
  show "hm_get (sm_states m') i = map_option (\<lambda>s. if probe_due clock m s then probed clock (discoverable m i) s else s)
           (hm_get (sm_states m) i)"
    using p [THEN conjunct1, rule_format, of i] d(2) [of i] by (cases "hm_get (sm_states m) i") auto
  show "hm_ok (sm_states m')" using p assms(1) by (simp add: heal_ok_def)
  show "sm_max_failed_attempts m' = sm_max_failed_attempts m" using p by blast
  show "NodeRecovered i clock \<in> set evs'"
    if "hm_get (sm_states m) i = Some s" "probe_due clock m s" "discoverable m i"
  proof -
    have "i \<in> set ?is" using d(2) [of i] that by blast
    with that(3) have "i \<in> set (filter (discoverable m) ?is)" unfolding set_filter by blast
    then have "NodeRecovered i clock \<in> set (map (\<lambda>i. NodeRecovered i clock) (filter (discoverable m) ?is))"
      by (subst set_map) (rule imageI)
    then show ?thesis using p by (metis UnI2 set_append)
  qed
qed

section \<open>Laws that every operation keeps\<close>

text \<open>The operations, on the timers of the loop, the manager with its events, and the disk.\<close>

datatype heal_op =
  HealAdd u64 node_id | HealRemove node_id | HealOffline instant u64 node_id
| HealRecovered instant u64 node_id | HealPathFailure instant node_id | HealMessage instant u64 heal_message
| HealOnline instant u64 node_id | HealHeartbeat instant u64 node_id | HealIterate instant u64
| HealSave u64 string | HealLoad string

type_synonym heal_world = "heal_timers \<times> heal_run \<times> disk"

fun heal_do :: "persisted_heal_state json_env \<Rightarrow> (bytes \<Rightarrow> string) \<Rightarrow> heal_op \<Rightarrow> heal_world \<Rightarrow> heal_world" where
  "heal_do env hex (HealAdd clock i) (t, (m, evs), disk) = (t, (heal_add_node clock i m, evs), disk)"
| "heal_do env hex (HealRemove i) (t, (m, evs), disk) = (t, (heal_remove_node i m, evs), disk)"
| "heal_do env hex (HealOffline now clock i) (t, run, disk) = (t, on_node_offline now clock i run, disk)"
| "heal_do env hex (HealRecovered now clock i) (t, run, disk) = (t, on_node_recovered now clock i run, disk)"
| "heal_do env hex (HealPathFailure now i) (t, run, disk) = (t, handle_path_failure now i run, disk)"
| "heal_do env hex (HealMessage now clock msg) (t, run, disk) = (t, fst (process_heal_message now clock msg run), disk)"
| "heal_do env hex (HealOnline now clock i) (t, run, disk) = (t, heal_on_node_online now clock i run, disk)"
| "heal_do env hex (HealHeartbeat now clock i) (t, run, disk) = (t, heal_on_heartbeat_received now clock i run, disk)"
| "heal_do env hex (HealIterate now clock) w = heal_iteration env hex now clock w"
| "heal_do env hex (HealSave clock path) (t, run, disk) = (t, run, fst (heal_save_state env hex clock path (fst run) disk))"
| "heal_do env hex (HealLoad path) (t, run, disk) = (t, fst (heal_load_state env path disk run), disk)"

lemma node_id_changes [simp]:
  "hn_node_id (heal_node_new clock i) = i" "hn_node_id (mark_offline s) = hn_node_id s"
  "hn_node_id (mark_online clock s) = hn_node_id s" "hn_node_id (record_failed_attempt clock s) = hn_node_id s"
  "hn_node_id (probed clock b s) = hn_node_id s"
  by (simp_all add: heal_node_new_def mark_offline_def mark_online_def record_failed_attempt_def probed_def)

text \<open>A law of tracked nodes that the changes of the code respect.\<close>

locale node_law =
  fixes P :: "heal_node_state \<Rightarrow> bool" and max_attempts :: u32
  assumes law_new: "P (heal_node_new clock i)" and law_offline: "P (mark_offline s)"
    and law_online: "P (mark_online clock s)" and law_seen: "P s \<Longrightarrow> P (s\<lparr>hn_last_seen := clock\<rparr>)"
    and law_attempt: "P s \<Longrightarrow> hn_failed_attempts s < max_attempts \<Longrightarrow> P (record_failed_attempt clock s)"
begin

definition lawful :: "heal_manager \<Rightarrow> bool" where
  "lawful m \<longleftrightarrow> heal_ok m \<and> sm_max_failed_attempts m = max_attempts
     \<and> (\<forall>i s. hm_get (sm_states m) i = Some s \<longrightarrow> P s)"

lemma lawful_multihop [simp]: "lawful (m\<lparr>sm_multihop := x\<rparr>) = lawful m"
  "lawful (m\<lparr>sm_heal_pongs := ps\<rparr>) = lawful m"
  by (simp_all add: lawful_def heal_ok_def)

lemma lawful_insert:
  "lawful m \<Longrightarrow> P s \<Longrightarrow> hn_node_id s = i \<Longrightarrow> lawful (m\<lparr>sm_states := hm_insert i s (sm_states m)\<rparr>)"
  by (auto simp: lawful_def heal_ok_def hm_simps)

lemma lawful_update:
  assumes "lawful m" and "\<And>s. P (f s)" and "\<And>s. hn_node_id (f s) = hn_node_id s"
  shows "lawful (update_heal_state clock i f m)"
  using assms(1) unfolding update_heal_state_def
  by (intro lawful_insert assms(2))
     (auto simp: assms(3) lawful_def heal_ok_def split: option.split)

lemma lawful_add: "lawful m \<Longrightarrow> lawful (heal_add_node clock i m)"
  by (simp add: heal_add_node_def lawful_insert law_new)

lemma lawful_remove: "lawful m \<Longrightarrow> lawful (heal_remove_node i m)"
  by (auto simp: heal_remove_node_def lawful_def heal_ok_def hm_simps)

lemma lawful_went_offline: "lawful (fst run) \<Longrightarrow> lawful (fst (on_node_offline now clock i run))"
  using lawful_update [of "fst run" mark_offline clock i] law_offline
  by (auto simp: on_node_offline_def split_beta Let_def split: option.split)

lemma lawful_recovered: "lawful (fst run) \<Longrightarrow> lawful (fst (on_node_recovered now clock i run))"
  using lawful_update [of "fst run" "mark_online clock" clock i] law_online
  by (auto simp: on_node_recovered_def split_beta Let_def rebuild_route_def split: option.split)

lemma lawful_path: "lawful (fst run) \<Longrightarrow> lawful (fst (handle_path_failure now i run))"
  by (auto simp: handle_path_failure_def split_beta Let_def split: option.split sum.split)

lemma lawful_message: "lawful (fst run) \<Longrightarrow> lawful (fst (fst (process_heal_message now clock msg run)))"
  using lawful_recovered [of "(heal_add_node clock (hl_sender_id msg) (fst run), snd run)"]
  by (auto simp: process_heal_message_def handle_heal_pong_def split_beta Let_def lawful_add
      split: heal_msg_type.split option.split)

lemma lawful_node_online: "lawful (fst run) \<Longrightarrow> lawful (fst (heal_on_node_online now clock i run))"
  using lawful_recovered [of "(heal_add_node clock i (fst run), snd run)"]
  by (auto simp: heal_on_node_online_def split_beta Let_def lawful_add)

lemma lawful_heartbeat:
  assumes "lawful (fst run)"
  shows "lawful (fst (heal_on_heartbeat_received now clock i run))"
proof -
  let ?m = "heal_add_node clock i (fst run)"
  have m: "lawful ?m" using assms by (rule lawful_add)
  show ?thesis
  proof (cases "hm_get (sm_states ?m) i")
    case (Some s)
    then have s: "P s" "hn_node_id s = i" using m by (auto simp: lawful_def heal_ok_def)
    have "lawful (?m\<lparr>sm_states := hm_insert i (mark_online clock s) (sm_states ?m)\<rparr>)"
      using m s by (intro lawful_insert law_online) simp_all
    moreover have "lawful (?m\<lparr>sm_states := hm_insert i (s\<lparr>hn_last_seen := clock\<rparr>) (sm_states ?m)\<rparr>)"
      using m s by (intro lawful_insert law_seen) simp_all
    ultimately show ?thesis using Some
      by (simp add: heal_on_heartbeat_received_def split_beta Let_def lawful_recovered)
  qed (use m in \<open>simp add: heal_on_heartbeat_received_def split_beta Let_def\<close>)
qed

lemma lawful_pongs: "lawful (fst run) \<Longrightarrow> lawful (fst (heal_pongs_phase now clock run))"
proof -
  have one: "lawful (fst r) \<Longrightarrow> lawful (fst (heal_take_pong now clock i r))" for i r
    by (auto simp: heal_take_pong_def split_beta lawful_recovered)
  have "lawful (fst r) \<Longrightarrow> lawful (fst (fold (heal_take_pong now clock) is r))" for "is" r
    by (induction "is" arbitrary: r) (simp_all add: one)
  then show "lawful (fst run) \<Longrightarrow> ?thesis" by (simp add: heal_pongs_phase_def split_beta)
qed

lemma lawful_probe:
  assumes "lawful (fst run)"
  shows "lawful (fst (heal_probe_phase now clock run))"
proof -
  obtain m evs where r: "run = (m, evs)" by force
  obtain m' evs' where f: "heal_probe_phase now clock (m, evs) = (m', evs')" by force
  have ok: "heal_ok m" using assms r by (simp add: lawful_def)
  note p = probe_phase [OF ok f]
  have "P s \<Longrightarrow> probe_due clock m s \<Longrightarrow> P (probed clock b s)" for s b
    using law_attempt [of s clock] law_online assms r
    by (auto simp: probed_def probe_due_def has_exceeded_max_attempts_def lawful_def not_le)
  then show ?thesis using assms p(1,2,3) unfolding r f
    by (auto simp: lawful_def heal_ok_def split: if_splits)
qed

lemma lawful_iteration:
  assumes "lawful (fst (fst (snd w)))"
  shows "lawful (fst (fst (snd (heal_iteration env hex now clock w))))"
  using assms lawful_pongs [of "fst (snd w)" now clock] lawful_probe
  by (auto simp: heal_iteration_def split_beta Let_def)

lemma lawful_do:
  assumes "lawful (fst (fst (snd w)))" and "\<nexists>path. op = HealLoad path"
  shows "lawful (fst (fst (snd (heal_do env hex op w))))"
proof -
  obtain t m evs disk where "w = (t, (m, evs), disk)" by (metis surj_pair)
  with assms show ?thesis
    by (cases op) (auto simp: lawful_add lawful_remove lawful_went_offline lawful_recovered lawful_path
        lawful_message lawful_node_online lawful_heartbeat lawful_iteration)
qed

lemma lawful_run:
  "lawful (fst (fst (snd w))) \<Longrightarrow> \<forall>op \<in> set ops. \<nexists>path. op = HealLoad path
     \<Longrightarrow> lawful (fst (fst (snd (fold (heal_do env hex) ops w))))"
  by (induction ops arbitrary: w) (simp_all add: lawful_do)

end

interpretation tracked: node_law "\<lambda>_. True" mx for mx
  by unfold_locales simp_all

interpretation attempts: node_law "\<lambda>s. hn_failed_attempts s \<le> mx" mx for mx
  by unfold_locales
     (simp_all add: heal_node_new_def mark_offline_def mark_online_def record_failed_attempt_def inc_le)

definition sample_heal_env :: "persisted_heal_state json_env" where
  "sample_heal_env = \<lparr>en_encode = (\<lambda>_. Inr ''x''), en_decode = (\<lambda>_. Inr \<lparr>ps_states = [], ps_last_saved = 0\<rparr>),
     en_parent = (\<lambda>_. None), en_create_dir = (\<lambda>_. Inr ()), en_write = (\<lambda>_. Inr ()), en_read = (\<lambda>_. Inr ())\<rparr>"

text \<open>The failed attempts of a node never exceed the limit.\<close>

theorem probe_attempts_bounded:
  assumes "sm_states m = hm_empty" and "\<forall>op \<in> set ops. \<nexists>path. op = HealLoad path"
    and "fold (heal_do env hex) ops (t, (m, evs), disk) = (t', (m', evs'), disk')"
    and "heal_get_state m' i = Some s"
  shows "hn_node_id s = i \<and> hn_failed_attempts s \<le> sm_max_failed_attempts m"
proof -
  have "attempts.lawful (sm_max_failed_attempts m) m"
    using assms(1) by (simp add: attempts.lawful_def heal_ok_def hm_simps)
  then have "attempts.lawful (sm_max_failed_attempts m) m'"
    using attempts.lawful_run [OF _ assms(2), of "sm_max_failed_attempts m" "(t, (m, evs), disk)" env hex] assms(3)
    by simp
  with assms(4) show ?thesis by (auto simp: attempts.lawful_def heal_ok_def heal_get_state_def)
qed

theorem probe_attempts_bounded_witness:
  "\<exists>s. heal_get_state (fst (fst (snd (fold (heal_do sample_heal_env (\<lambda>_. []))
      [HealOffline 0 7 (fill32 2), HealIterate (int (from_secs 30)) 40] (\<lparr>ht_last_recovery_check = 0, ht_last_persist = 0\<rparr>, (heal_new (fill32 1), []), \<lambda>_. None)))))
      (fill32 2) = Some s \<and> hn_failed_attempts s = 1 \<and> hn_failed_attempts s \<le> 5"
proof -
  let ?ops = "[HealOffline 0 7 (fill32 2), HealIterate (int (from_secs 30)) 40]"
  let ?t = "\<lparr>ht_last_recovery_check = 0, ht_last_persist = 0\<rparr>"
  obtain t' m' evs' disk' where r: "fold (heal_do sample_heal_env (\<lambda>_. [])) ?ops (?t, (heal_new (fill32 1), []), \<lambda>_. None)
      = (t', (m', evs'), disk')" by (metis surj_pair)
  have g: "heal_get_state m' (fill32 2) = Some \<lparr>hn_node_id = fill32 2, hn_last_seen = 7, hn_failed_attempts = 1,
      hn_is_offline = True, hn_last_recovery_attempt = 40\<rparr>"
    using arg_cong [OF r, of "\<lambda>w. heal_get_state (fst (fst (snd w))) (fill32 2)"]
    by (simp add: heal_iteration_def heal_pongs_phase_def heal_probe_phase_def on_node_offline_def update_heal_state_def
        heal_new_def hm_empty_def hm_get_def hm_insert_def hm_modify_def hm_values_def mark_offline_def heal_node_new_def
        probe_due_def has_exceeded_max_attempts_def probe_node_def record_failed_attempt_def from_secs_def elapsed_def
        default_max_failed_attempts_def default_recovery_check_secs_def persist_interval_secs_def heal_get_state_def Let_def)
  then show ?thesis
    using probe_attempts_bounded [OF _ _ r g] r
    by (simp add: heal_new_def default_max_failed_attempts_def)
qed

lemma load_ok:
  assumes "heal_ok m"
  shows "heal_ok (fst (fst (heal_load_state env path disk (m, evs))))"
proof -
  have "heal_ok (m\<lparr>sm_states := fold (\<lambda>(_, s). hm_insert (hn_node_id s) s) kvs (sm_states m)\<rparr>)"
    for kvs :: "(string \<times> heal_node_state) list"
    using assms
  proof (induction kvs arbitrary: m)
    case (Cons kv kvs)
    obtain k s where kv: "kv = (k, s)" by force
    have "heal_ok (m\<lparr>sm_states := hm_insert (hn_node_id s) s (sm_states m)\<rparr>)"
      using Cons.prems by (auto simp: heal_ok_def hm_simps)
    from Cons.IH [OF this] show ?case by (simp add: kv)
  qed simp
  then show ?thesis using assms by (simp add: heal_load_state_def split: option.split sum.split)
qed

lemma heal_do_ok:
  assumes "heal_ok (fst (fst (snd w)))"
  shows "heal_ok (fst (fst (snd (heal_do env hex op w))))"
proof (cases "\<exists>path. op = HealLoad path")
  case True
  moreover obtain t m evs disk where "w = (t, (m, evs), disk)" by (metis surj_pair)
  ultimately show ?thesis using assms load_ok [of m] by auto
next
  case False
  with assms tracked.lawful_do [of "sm_max_failed_attempts (fst (fst (snd w)))" w op env hex]
  show ?thesis by (simp add: tracked.lawful_def)
qed

interpretation heal: op_machine "heal_do env hex" "\<lambda>w. heal_ok (fst (fst (snd w)))" for env hex
  by unfold_locales (rule heal_do_ok)

lemma iteration_recovers:
  assumes ok: "heal_ok m" and "sm_heal_pongs m = []"
    and "sm_recovery_check_interval m \<le> elapsed now (ht_last_recovery_check t)"
    and "sm_dht m \<noteq> None" and "sm_multihop m = Some mh" and "mm_dht mh = Some d" and "all_nodes d \<noteq> []"
    and "heal_get_state m i = Some s" and "probe_due clock m s" and "i \<noteq> mm_local_id mh"
    and "heal_iteration env hex now clock (t, (m, evs), disk) = (t', (m', evs'), disk')"
  shows "heal_get_state m' i = Some (s\<lparr>hn_is_offline := False, hn_last_seen := clock, hn_failed_attempts := 0,
            hn_last_recovery_attempt := clock\<rparr>)
     \<and> NodeRecovered i clock \<in> set evs'"
proof -
  have "length (find_node d i) = min k_bucket_size (length (all_nodes d))" by (rule dht_find.find_length)
  then have "find_node d i \<noteq> []" using assms(7) by (auto simp: k_bucket_size_def min_def split: if_splits)
  then have dis: "discoverable m i" using assms(4-6,10) by (auto simp: discoverable_def)
  have "heal_pongs_phase now clock (m, evs) = (m, evs)"
    using assms(2) by (simp add: heal_pongs_phase_def)
  then have p: "heal_probe_phase now clock (m, evs) = (m', evs')"
    using assms(3,11) by (auto simp: heal_iteration_def Let_def split: if_splits)
  show ?thesis
    using probe_phase(1) [OF ok p, of i] probe_phase(4) [OF ok p, of i s] dis assms(8,9)
    by (simp add: heal_get_state_def probed_def mark_online_def record_failed_attempt_def)
qed

text \<open>When the DHT knows any node, one iteration of the healing loop marks an offline node
  that is due for a probe as online, and reports it recovered, although nothing was
  sent to it or heard from it.\<close>

theorem probe_recovers_without_contact:
  assumes "sm_states m0 = hm_empty" and "fold (heal_do env hex) ops (t0, (m0, evs0), disk0) = (t, (m, evs), disk)"
    and "sm_heal_pongs m = []" and "sm_recovery_check_interval m \<le> elapsed now (ht_last_recovery_check t)"
    and "sm_dht m \<noteq> None" and "sm_multihop m = Some mh" and "mm_dht mh = Some d" and "all_nodes d \<noteq> []"
    and "heal_get_state m i = Some s" and "probe_due clock m s" and "i \<noteq> mm_local_id mh"
    and "heal_iteration env hex now clock (t, (m, evs), disk) = (t', (m', evs'), disk')"
  shows "heal_get_state m' i = Some (s\<lparr>hn_is_offline := False, hn_last_seen := clock, hn_failed_attempts := 0,
            hn_last_recovery_attempt := clock\<rparr>)
     \<and> NodeRecovered i clock \<in> set evs'"
proof -
  have "heal_ok m"
    using heal.run_inv [of "(t0, (m0, evs0), disk0)" env hex ops] assms(1,2)
    by (simp add: heal_ok_def hm_simps)
  then show ?thesis by (rule iteration_recovers [OF _ assms(3-12)])
qed

theorem probe_recovers_without_contact_witness:
  "\<exists>t' m' evs' disk' s. heal_iteration sample_heal_env (\<lambda>_. []) (int (from_secs 30)) 40
      (fold (heal_do sample_heal_env (\<lambda>_. [])) [HealOffline 0 7 (fill32 2)]
        (\<lparr>ht_last_recovery_check = 0, ht_last_persist = 0\<rparr>,
         ((heal_new (fill32 1))\<lparr>sm_dht := Some (one_node_dht (fill32 5)),
            sm_multihop := Some (multihop_set_dht (one_node_dht (fill32 5)) (multihop_new 0 (fill32 1)))\<rparr>, []), \<lambda>_. None))
      = (t', (m', evs'), disk')
    \<and> heal_get_state m' (fill32 2) = Some s \<and> \<not> hn_is_offline s"
proof -
  let ?t = "\<lparr>ht_last_recovery_check = 0, ht_last_persist = 0\<rparr>"
  let ?mh = "multihop_set_dht (one_node_dht (fill32 5)) (multihop_new 0 (fill32 1))"
  let ?m0 = "(heal_new (fill32 1))\<lparr>sm_dht := Some (one_node_dht (fill32 5)), sm_multihop := Some ?mh\<rparr>"
  let ?s = "\<lparr>hn_node_id = fill32 2, hn_last_seen = 7, hn_failed_attempts = 0, hn_is_offline = True,
      hn_last_recovery_attempt = 0\<rparr>"
  let ?w = "fold (heal_do sample_heal_env (\<lambda>_. [])) [HealOffline 0 7 (fill32 2)] (?t, (?m0, []), \<lambda>_. None)"
  obtain t m evs disk where r: "?w = (t, (m, evs), disk)" by (metis surj_pair)
  obtain t' m' evs' disk' where r': "heal_iteration sample_heal_env (\<lambda>_. []) (int (from_secs 30)) 40 (t, (m, evs), disk)
      = (t', (m', evs'), disk')" by (metis surj_pair)
  have m: "t = ?t" "m = ?m0\<lparr>sm_states := [(fill32 2, ?s)]\<rparr>"
    using r by (auto simp: on_node_offline_def update_heal_state_def heal_new_def mark_offline_def heal_node_new_def
        mh_remove_route_def find_routes_by_next_hop_def multihop_new_def multihop_set_dht_def hm_simps Let_def)
      (simp_all add: hm_defs heal_node_new_def)
  have "all_nodes (one_node_dht (fill32 5)) \<noteq> []" by (simp add: all_nodes_def one_node_dht_def)
  then have "heal_get_state m' (fill32 2) = Some (?s\<lparr>hn_is_offline := False, hn_last_seen := 40,
      hn_failed_attempts := 0, hn_last_recovery_attempt := 40\<rparr>) \<and> NodeRecovered (fill32 2) 40 \<in> set evs'"
    by (intro probe_recovers_without_contact [OF _ r _ _ _ _ _ _ _ _ _ r', of ?mh])
       (simp_all add: m heal_new_def multihop_new_def multihop_set_dht_def hm_simps elapsed_def from_secs_def
         default_recovery_check_secs_def heal_get_state_def hm_get_def probe_due_def has_exceeded_max_attempts_def
         default_max_failed_attempts_def)
  then show ?thesis using r r' by auto
qed

section \<open>The state file\<close>

definition same_heal_state :: "persisted_heal_state \<Rightarrow> persisted_heal_state \<Rightarrow> bool" where
  "same_heal_state d' d \<longleftrightarrow> hm_ok (ps_states d') \<and> hm_get (ps_states d') = hm_get (ps_states d)"

lemma load_snapshot:
  assumes "hex_ok enc dec" and "heal_ok m" and "same_heal_state d (heal_snapshot enc clock m)"
  shows "hm_get (fold (\<lambda>(_, s). hm_insert (hn_node_id s) s) (ps_states d) hm_empty) i = hm_get (sm_states m) i"
proof -
  let ?hex = "id_to_hex enc" and ?D = "ps_states d"
  have inj: "inj ?hex" using id_to_hex_inject [OF assms(1)] by (auto simp: inj_def)
  have ok: "hm_ok (sm_states m)" "hm_ok ?D"
    using assms(2,3) by (simp_all add: heal_ok_def same_heal_state_def)
  have get: "hm_get ?D (?hex j) = hm_get (sm_states m) j" for j
    using hm_rekey(1) [OF ok(1) inj, of j] assms(3) by (simp add: same_heal_state_def heal_snapshot_def)
  have key: "k = ?hex (hn_node_id s)" if "(k, s) \<in> set ?D" for k s
  proof -
    from that ok(2) have "hm_get ?D k = Some s" by (simp add: hm_get_iff)
    moreover from this obtain j where "k = ?hex j"
      using hm_rekey(2) [OF ok(1) inj, of k] assms(3) by (auto simp: same_heal_state_def heal_snapshot_def)
    ultimately show ?thesis using get [of j] assms(2) by (auto simp: heal_ok_def)
  qed
  have "inj_on (\<lambda>(k, s). hn_node_id s) (set ?D)"
  proof (rule inj_onI, clarsimp)
    fix k s k' s' assume m: "(k, s) \<in> set ?D" "(k', s') \<in> set ?D" "hn_node_id s = hn_node_id s'"
    then have "k = k'" using key by metis
    moreover have "hm_get ?D k = Some s" "hm_get ?D k' = Some s'" using m ok(2) by (simp_all add: hm_get_iff)
    ultimately show "k = k' \<and> s = s'" by simp
  qed
  moreover have "distinct ?D" using ok(2) by (simp add: hm_ok_def distinct_map)
  ultimately have "distinct (map (\<lambda>(k, s). hn_node_id s) ?D)" by (simp add: distinct_map)
  note f = fold_insert_get [OF this, of hm_empty i]
  show ?thesis
  proof (cases "List.find (\<lambda>(k, s). hn_node_id s = i) ?D")
    case None
    then have "\<nexists>s. (?hex i, s) \<in> set ?D" using key injD [OF inj] by (fastforce simp: find_None_iff)
    then have "hm_get ?D (?hex i) = None" using ok(2) by (metis hm_get_iff option.exhaust)
    with None f get [of i] show ?thesis by (simp add: hm_simps)
  next
    case (Some p)
    then obtain k s where p: "p = (k, s)" "(k, s) \<in> set ?D" "hn_node_id s = i"
      by (auto simp: find_Some_iff) (metis nth_mem)
    then have "hm_get ?D (?hex i) = Some s" using key [OF p(2)] ok(2) by (simp add: hm_get_iff)
    with Some p(1) f get [of i] show ?thesis by simp
  qed
qed

text \<open>The state file that a self-healing manager saves after any operations gives, loaded
  into a new manager, the same state for every node, when the encoders read back what
  they wrote.\<close>

theorem heal_state_survives_restart:
  assumes "sm_states m0 = hm_empty" and "fold (heal_do env enc) ops (t0, (m0, evs0), disk0) = (t, (m, evs), disk)"
    and "heal_save_state env enc clock path m disk = (disk', Inr ())"
    and "hex_ok enc dec" and "en_read env path = Inr ()"
    and "reads_back same_heal_state env (heal_snapshot enc clock m)"
  shows "\<exists>m' evs' n. heal_load_state env path disk' (heal_new l, []) = ((m', evs'), Inr n)
     \<and> heal_get_state m' = heal_get_state m"
proof -
  have ok: "heal_ok m"
    using heal.run_inv [of "(t0, (m0, evs0), disk0)" env enc ops] assms(1,2) by (simp add: heal_ok_def hm_simps)
  have "put_json env path (heal_snapshot enc clock m) disk = (disk', Inr ())"
    using assms(3) by (auto simp: heal_save_state_def split: sum.splits prod.splits)
  from get_after_put [OF this assms(5,6)]
  obtain j d where "disk' = disk(path \<mapsto> j)" "get_json env path j = Inr d"
    "same_heal_state d (heal_snapshot enc clock m)" by metis
  with load_snapshot [OF assms(4) ok] show ?thesis
    by (auto simp: heal_load_state_def heal_get_state_def [abs_def] heal_new_def fun_eq_iff)
qed

theorem heal_state_survives_restart_witness:
  "\<exists>env m' evs' n. heal_load_state env ''f'' (\<lambda>p. if p = ''f'' then Some ''x'' else None) (heal_new (fill32 9), []) = ((m', evs'), Inr n)
     \<and> heal_get_state m' (fill32 2) = Some \<lparr>hn_node_id = fill32 2, hn_last_seen = 7, hn_failed_attempts = 0,
           hn_is_offline = True, hn_last_recovery_attempt = 0\<rparr>"
proof -
  let ?enc = bytes_str and ?dec = "\<lambda>s. Inr (str_bytes s)"
  let ?t = "\<lparr>ht_last_recovery_check = 0, ht_last_persist = 0\<rparr>"
  let ?ops = "[HealOffline 0 7 (fill32 2)]"
  obtain t m evs disk where r: "fold (heal_do sample_heal_env ?enc) ?ops (?t, (heal_new (fill32 1), []), \<lambda>_. None)
      = (t, (m, evs), disk)" by (metis surj_pair)
  have m: "sm_states m = [(fill32 2, \<lparr>hn_node_id = fill32 2, hn_last_seen = 7, hn_failed_attempts = 0,
           hn_is_offline = True, hn_last_recovery_attempt = 0\<rparr>)]" and "disk = (\<lambda>_. None)"
    using r by (auto simp: on_node_offline_def update_heal_state_def heal_new_def mark_offline_def heal_node_new_def Let_def)
      (simp add: hm_defs heal_node_new_def)
  let ?env = "sample_heal_env\<lparr>en_decode := \<lambda>_. Inr (heal_snapshot ?enc 8 m)\<rparr>"
  have r': "fold (heal_do ?env ?enc) ?ops (?t, (heal_new (fill32 1), []), \<lambda>_. None) = (t, (m, evs), disk)"
    using r by simp
  have "word_of_nat (unat x mod 256) = x" for x :: byte using unat_byte_less [of x] by simp
  then have "hex_ok ?enc ?dec" by (simp add: hex_ok_def bytes_str_def str_bytes_def comp_def)
  moreover have "hm_ok (ps_states (heal_snapshot ?enc 8 m))"
    by (simp add: heal_snapshot_def m hm_simps)
  then have "reads_back same_heal_state ?env (heal_snapshot ?enc 8 m)"
    by (simp add: reads_back_def same_heal_state_def sample_heal_env_def is_blank_def)
  ultimately have "\<exists>m' evs' n. heal_load_state ?env ''f'' (disk(''f'' \<mapsto> ''x'')) (heal_new (fill32 9), []) = ((m', evs'), Inr n)
     \<and> heal_get_state m' = heal_get_state m"
    by (intro heal_state_survives_restart [OF _ r' _ _ _ , of 8 "''f''" "disk(''f'' \<mapsto> ''x'')" ?dec])
       (simp_all add: heal_new_def heal_save_state_def put_json_def fs_write_def sample_heal_env_def)
  moreover have "disk(''f'' \<mapsto> ''x'') = (\<lambda>p. if p = ''f'' then Some ''x'' else None)"
    using \<open>disk = (\<lambda>_. None)\<close> by (simp add: fun_eq_iff)
  moreover have "heal_get_state m (fill32 2) = Some \<lparr>hn_node_id = fill32 2, hn_last_seen = 7, hn_failed_attempts = 0,
      hn_is_offline = True, hn_last_recovery_attempt = 0\<rparr>"
    using m by (simp add: heal_get_state_def hm_get_def)
  ultimately show ?thesis by metis
qed

end
