(* ===== verification/Download.thy ===== *)
theory Download
  imports Float64 Chunk HashMap
begin

text \<open>
  Parallel download (\<open>src/storage/download.rs\<close>): the reorder buffer for blocks, the
  progress with its estimate of the remaining time, and the manager with its tasks and the
  load of the source nodes. The buffer's \<open>BTreeMap\<close> is only asked for single keys and its
  length, so it is a hash map here. An operation that panics returns None.
\<close>

section \<open>Tasks and blocks\<close>

definition max_failed_blocks :: u32 where
  "max_failed_blocks = 3"

datatype download_status =
  DlPending | DlDownloading f64 u64 u64 | DlCompleted bytes | DlFailed string

record download_task =
  dt_file_name :: string
  dt_file_hash :: hash
  dt_total_size :: u64
  dt_manifest :: "file_manifest option"
  dt_block_sources :: "(u32, string list) hashmap"

record block_request =
  bq_file_name :: string
  bq_block_index :: u32
  bq_block_hash :: hash

record block_response =
  bs_file_name :: string
  bs_block_index :: u32
  bs_data :: bytes
  bs_success :: bool
  bs_error :: "string option"

section \<open>The reorder buffer\<close>

record block_buffer =
  bb_blocks :: "(u32, bytes) hashmap"
  bb_expected_count :: u32
  bb_next_expected :: u32

definition bb_new :: "u32 \<Rightarrow> block_buffer" where
  "bb_new n = \<lparr>bb_blocks = hm_empty, bb_expected_count = n, bb_next_expected = 0\<rparr>"

definition bb_push :: "u32 \<Rightarrow> bytes \<Rightarrow> block_buffer \<Rightarrow> block_buffer \<times> (string + unit)" where
  "bb_push i d b =
     (if bb_expected_count b \<le> i then
        (b, Inl (''block index '' @ show_nat (unat i) @ '' out of range [0, '' @ show_nat (unat (bb_expected_count b)) @ '')''))
      else if hm_contains (bb_blocks b) i then
        (b, Inl (''block index '' @ show_nat (unat i) @ '' already received''))
      else (b\<lparr>bb_blocks := hm_insert i d (bb_blocks b)\<rparr>, Inr ()))"

definition bb_can_assemble :: "block_buffer \<Rightarrow> bool" where
  "bb_can_assemble b \<longleftrightarrow> hm_len (bb_blocks b) = unat (bb_expected_count b)"

lemma len_remove_less: "hm_get m k = Some v \<Longrightarrow> length (hm_remove k m) < length m"
  unfolding hm_get_def hm_remove_def AList.delete_eq
  by (rule length_filter_less [of "(k, v)"]) (auto dest: map_of_SomeD)

function bb_drain_loop :: "(u32, bytes) hashmap \<Rightarrow> u32 \<Rightarrow> (u32, bytes) hashmap \<times> u32 \<times> (u32 \<times> bytes) list" where
  "bb_drain_loop m next =
     (case hm_get m next of
        None \<Rightarrow> (m, next, [])
      | Some d \<Rightarrow> let (m', next', out) = bb_drain_loop (hm_remove next m) (next + 1)
                  in (m', next', (next, d) # out))"
  by pat_completeness auto
termination
  by (relation "measure (\<lambda>(m, next). length m)") (auto dest: len_remove_less)

declare bb_drain_loop.simps [simp del]

definition bb_drain_ordered :: "block_buffer \<Rightarrow> block_buffer \<times> (u32 \<times> bytes) list" where
  "bb_drain_ordered b =
     (let (m, next, out) = bb_drain_loop (bb_blocks b) (bb_next_expected b)
      in (b\<lparr>bb_blocks := m, bb_next_expected := next\<rparr>, out))"

definition bb_remaining :: "block_buffer \<Rightarrow> u32" where
  "bb_remaining b = sat_sub (bb_expected_count b) (of_nat (hm_len (bb_blocks b)))"

definition bb_is_complete :: "block_buffer \<Rightarrow> bool" where
  "bb_is_complete b = bb_can_assemble b"

section \<open>Progress\<close>

record download_progress =
  dp_file_name :: string
  dp_total_blocks :: u32
  dp_completed_blocks :: u32
  dp_failed_blocks :: u32
  dp_total_bytes :: u64
  dp_downloaded_bytes :: u64
  dp_started_at :: u64
  dp_estimated_remaining_secs :: "u64 option"

definition progress_new :: "u64 \<Rightarrow> string \<Rightarrow> u32 \<Rightarrow> u64 \<Rightarrow> download_progress" where
  "progress_new clock n blocks bytes =
     \<lparr>dp_file_name = n, dp_total_blocks = blocks, dp_completed_blocks = 0, dp_failed_blocks = 0,
      dp_total_bytes = bytes, dp_downloaded_bytes = 0, dp_started_at = clock, dp_estimated_remaining_secs = None\<rparr>"

definition update_eta :: "u64 \<Rightarrow> download_progress \<Rightarrow> download_progress" where
  "update_eta clock p =
     (let elapsed = sat_sub clock (dp_started_at p); rate = dp_downloaded_bytes p div elapsed
      in if dp_completed_blocks p = 0 \<or> dp_total_blocks p = 0 then p\<lparr>dp_estimated_remaining_secs := None\<rparr>
         else if elapsed = 0 then p\<lparr>dp_estimated_remaining_secs := None\<rparr>
         else if rate = 0 then p\<lparr>dp_estimated_remaining_secs := None\<rparr>
         else p\<lparr>dp_estimated_remaining_secs :=
                  Some (sat_sub (dp_total_bytes p) (dp_downloaded_bytes p) div rate)\<rparr>)"

definition progress_update :: "u64 \<Rightarrow> u32 \<Rightarrow> u32 \<Rightarrow> u64 \<Rightarrow> download_progress \<Rightarrow> download_progress" where
  "progress_update clock completed failed bytes p =
     update_eta clock
       (p\<lparr>dp_completed_blocks := completed, dp_failed_blocks := failed, dp_downloaded_bytes := bytes\<rparr>)"

definition progress_fraction :: "rounding \<Rightarrow> download_progress \<Rightarrow> f64" where
  "progress_fraction rnd p =
     (if dp_total_blocks p = 0 then 1
      else rnd (of_nat (unat (dp_completed_blocks p)) / of_nat (unat (dp_total_blocks p))))"

section \<open>The manager\<close>

record internal_task =
  it_task :: download_task
  it_status :: download_status
  it_progress :: download_progress
  it_buffer :: block_buffer
  it_completed_blocks :: "u32 list"
  it_failed_blocks :: "(u32, string list) hashmap"
  it_node_assignments :: "(u32, string) hashmap"

definition internal_task_new :: "u64 \<Rightarrow> download_task \<Rightarrow> internal_task" where
  "internal_task_new clock t =
     (let total = of_nat (hm_len (dt_block_sources t))
      in \<lparr>it_task = t, it_status = DlPending, it_progress = progress_new clock (dt_file_name t) total (dt_total_size t),
          it_buffer = bb_new total, it_completed_blocks = [], it_failed_blocks = hm_empty,
          it_node_assignments = hm_empty\<rparr>)"

record download_manager =
  dm_tasks :: "(string, internal_task) hashmap"
  dm_node_load :: "(string, u32) hashmap"

definition download_new :: "download_manager" where
  "download_new = \<lparr>dm_tasks = hm_empty, dm_node_load = hm_empty\<rparr>"

definition create_task ::
  "u64 \<Rightarrow> string \<Rightarrow> file_manifest \<Rightarrow> (u32, string list) hashmap \<Rightarrow> download_manager
   \<Rightarrow> download_manager \<times> download_task" where
  "create_task clock n manifest sources m =
     (let task = \<lparr>dt_file_name = n, dt_file_hash = fm_file_hash manifest, dt_total_size = fm_file_size manifest,
                  dt_manifest = Some manifest, dt_block_sources = sources\<rparr>
      in (m\<lparr>dm_tasks := hm_insert n (internal_task_new clock task) (dm_tasks m)\<rparr>, task))"

definition download_get_status :: "download_manager \<Rightarrow> string \<Rightarrow> download_status option" where
  "download_get_status m n = map_option it_status (hm_get (dm_tasks m) n)"

definition node_load :: "download_manager \<Rightarrow> string \<Rightarrow> u32" where
  "node_load m n = (case hm_get (dm_node_load m) n of None \<Rightarrow> 0 | Some c \<Rightarrow> c)"

definition select_source :: "download_manager \<Rightarrow> string list \<Rightarrow> string option" where
  "select_source m nodes = (if nodes = [] then None else min_by_key (node_load m) nodes)"

definition download_cancel :: "string \<Rightarrow> download_manager \<Rightarrow> download_manager \<times> (string + unit)" where
  "download_cancel n m =
     (if hm_contains (dm_tasks m) n then (m\<lparr>dm_tasks := hm_remove n (dm_tasks m)\<rparr>, Inr ())
      else (m, Inl (''download task '' @ [CHR 0x27] @ n @ [CHR 0x27] @ '' not found'')))"

definition active_downloads :: "download_manager \<Rightarrow> string list" where
  "active_downloads m =
     map fst (filter (\<lambda>(_, t). case it_status t of DlPending \<Rightarrow> True | DlDownloading _ _ _ \<Rightarrow> True | _ \<Rightarrow> False)
                     (dm_tasks m))"

definition assign_block :: "string \<Rightarrow> u32 \<Rightarrow> string \<Rightarrow> download_manager \<Rightarrow> download_manager \<times> (string + unit)" where
  "assign_block n i node m =
     (if (case hm_get (dm_tasks m) n of None \<Rightarrow> False | Some t \<Rightarrow> i \<in> set (it_completed_blocks t))
      then (m, Inl (''block '' @ show_nat (unat i) @ '' already completed''))
      else
        (m\<lparr>dm_tasks := hm_modify n (\<lambda>t. t\<lparr>it_node_assignments := hm_insert i node (it_node_assignments t)\<rparr>) (dm_tasks m),
           dm_node_load := hm_insert node (node_load m node + 1) (dm_node_load m)\<rparr>, Inr ()))"

definition assigned_node :: "download_manager \<Rightarrow> string \<Rightarrow> u32 \<Rightarrow> string option" where
  "assigned_node m n i = (case hm_get (dm_tasks m) n of None \<Rightarrow> None | Some t \<Rightarrow> hm_get (it_node_assignments t) i)"

definition release_node :: "string option \<Rightarrow> download_manager \<Rightarrow> download_manager" where
  "release_node node m =
     (case node of
        None \<Rightarrow> m
      | Some x \<Rightarrow>
          (case hm_get (dm_node_load m) x of
             None \<Rightarrow> m
           | Some c \<Rightarrow>
               let c' = sat_sub c 1
               in m\<lparr>dm_node_load := (if c' = 0 then hm_remove x (dm_node_load m) else hm_insert x c' (dm_node_load m))\<rparr>))"

text \<open>The estimate of the bytes downloaded; the division panics for a task without sources.\<close>

definition estimate_downloaded :: "internal_task \<Rightarrow> u64 option" where
  "estimate_downloaded t =
     (if it_completed_blocks t = [] then Some 0
      else if of_nat (hm_len (dt_block_sources (it_task t))) = (0 :: u64) then None
      else Some (sum_list (map (\<lambda>_. dt_total_size (it_task t) div of_nat (hm_len (dt_block_sources (it_task t))))
                             (it_completed_blocks t))))"

definition complete_block ::
  "rounding \<Rightarrow> u64 \<Rightarrow> string \<Rightarrow> u32 \<Rightarrow> bytes \<Rightarrow> download_manager \<Rightarrow> (download_manager \<times> (string + unit)) option" where
  "complete_block rnd clock n i d m =
     (let m = release_node (assigned_node m n i) m
      in case hm_get (dm_tasks m) n of
           None \<Rightarrow> Some (m, Inl (''download task '' @ [CHR 0x27] @ n @ [CHR 0x27] @ '' not found''))
         | Some t \<Rightarrow>
             let t = t\<lparr>it_completed_blocks := hs_insert i (it_completed_blocks t),
                       it_node_assignments := hm_remove i (it_node_assignments t)\<rparr>
             in (case bb_push i d (it_buffer t) of
                   (_, Inl e) \<Rightarrow>
                     Some (m\<lparr>dm_tasks := hm_insert n t (dm_tasks m)\<rparr>, Inl (''reorder buffer push failed: '' @ e))
                 | (b, Inr _) \<Rightarrow>
                     let t = t\<lparr>it_buffer := b\<rparr>
                     in (case estimate_downloaded t of
                           None \<Rightarrow> None
                         | Some bytes \<Rightarrow>
                             let p = progress_update clock (of_nat (length (it_completed_blocks t)))
                                       (of_nat (hm_len (it_failed_blocks t))) bytes (it_progress t);
                                 total = dt_total_size (it_task t);
                                 status = (if bb_is_complete b then DlDownloading 1 total total
                                           else DlDownloading (progress_fraction rnd p) bytes total);
                                 t = t\<lparr>it_progress := p, it_status := status\<rparr>
                             in Some (m\<lparr>dm_tasks := hm_insert n t (dm_tasks m)\<rparr>, Inr ()))))"

text \<open>\<open>failed_blocks.entry(i).or_default()\<close> gets the node, and the check of the limit.\<close>

definition record_failure :: "u32 \<Rightarrow> string option \<Rightarrow> internal_task \<Rightarrow> internal_task" where
  "record_failure i node t =
     t\<lparr>it_node_assignments := hm_remove i (it_node_assignments t),
       it_failed_blocks := hm_insert i
         ((case hm_get (it_failed_blocks t) i of None \<Rightarrow> [] | Some ns \<Rightarrow> ns)
          @ (case node of None \<Rightarrow> [] | Some x \<Rightarrow> [x])) (it_failed_blocks t)\<rparr>"

definition check_failures :: "internal_task \<Rightarrow> internal_task" where
  "check_failures t =
     (let total_failed = of_nat (hm_len (it_failed_blocks t)) :: u32
      in if max_failed_blocks \<le> total_failed then
           t\<lparr>it_status := DlFailed (''too many failed blocks: '' @ show_nat (unat total_failed)
                                   @ '' (max '' @ show_nat (unat max_failed_blocks) @ '')'')\<rparr>
         else t)"

definition fail_block ::
  "u64 \<Rightarrow> string \<Rightarrow> u32 \<Rightarrow> string \<Rightarrow> download_manager \<Rightarrow> (download_manager \<times> (string + unit)) option" where
  "fail_block clock n i err m =
     (let node = assigned_node m n i; m = release_node node m
      in case hm_get (dm_tasks m) n of
           None \<Rightarrow> Some (m, Inl (''download task '' @ [CHR 0x27] @ n @ [CHR 0x27] @ '' not found''))
         | Some t \<Rightarrow>
             let t = check_failures (record_failure i node t)
             in (case estimate_downloaded t of
                   None \<Rightarrow> None
                 | Some bytes \<Rightarrow>
                     let p = progress_update clock (of_nat (length (it_completed_blocks t)))
                               (of_nat (hm_len (it_failed_blocks t))) bytes (it_progress t)
                     in Some (m\<lparr>dm_tasks := hm_insert n (t\<lparr>it_progress := p\<rparr>) (dm_tasks m)\<rparr>, Inr ())))"

section \<open>The buffer delivers in order\<close>

datatype buffer_op = BufPush u32 bytes | BufDrain

fun buffer_run :: "buffer_op list \<Rightarrow> block_buffer \<Rightarrow> block_buffer \<times> (u32 \<times> bytes) list" where
  "buffer_run [] b = (b, [])"
| "buffer_run (BufPush i d # ops) b = buffer_run ops (fst (bb_push i d b))"
| "buffer_run (BufDrain # ops) b =
     (let (b', out) = bb_drain_ordered b; (b'', out') = buffer_run ops b' in (b'', out @ out'))"

fun pushes :: "buffer_op list \<Rightarrow> (u32 \<times> bytes) list" where
  "pushes [] = []"
| "pushes (BufPush i d # ops) = (i, d) # pushes ops"
| "pushes (BufDrain # ops) = pushes ops"

text \<open>The blocks from \<open>k\<close> up to \<open>l\<close> with their indices.\<close>

definition numbered_blocks :: "bytes list \<Rightarrow> nat \<Rightarrow> nat \<Rightarrow> (u32 \<times> bytes) list" where
  "numbered_blocks ds k l = map (\<lambda>j. (of_nat j, ds ! j)) [k..<l]"

lemma numbered_blocks_append: "k \<le> l \<Longrightarrow> l \<le> n \<Longrightarrow> numbered_blocks ds k l @ numbered_blocks ds l n = numbered_blocks ds k n"
  using upt_add_eq_append [of k l "n - l"] by (simp add: numbered_blocks_def map_append [symmetric] del: map_append)

text \<open>The blocks in \<open>S\<close> from index \<open>k\<close> on are in the buffer, and only they.\<close>

definition holds :: "bytes list \<Rightarrow> u32 set \<Rightarrow> nat \<Rightarrow> (u32, bytes) hashmap \<Rightarrow> bool" where
  "holds ds S k m \<longleftrightarrow> (\<forall>i. hm_get m i = (if i \<in> S \<and> k \<le> unat i then Some (ds ! unat i) else None))"

lemma drain_loop:
  assumes "holds ds S k m" and "k \<le> length ds" and "length ds < 2 ^ 32" and "\<And>i. i \<in> S \<Longrightarrow> unat i < length ds"
  shows "\<exists>l m'. bb_drain_loop m (of_nat k) = (m', of_nat l, numbered_blocks ds k l) \<and> k \<le> l \<and> l \<le> length ds
     \<and> holds ds S l m' \<and> of_nat l \<notin> S \<and> (\<forall>j. k \<le> j \<and> j < l \<longrightarrow> of_nat j \<in> S)"
  using assms(1,2)
proof (induction "length ds - k" arbitrary: k m)
  case 0
  then have k: "k = length ds" by simp
  have "unat (of_nat k :: u32) = k" using assms(3) k by (simp add: unat_of_nat)
  then have n: "of_nat k \<notin> S" using assms(4) [of "of_nat k"] k by auto
  then have "hm_get m (of_nat k) = None" using 0 by (simp add: holds_def)
  then show ?case using 0 n k by (subst bb_drain_loop.simps) (auto simp: numbered_blocks_def)
next
  case (Suc r)
  have k: "unat (of_nat k :: u32) = k" using assms(3) Suc.hyps(2) by (simp add: unat_of_nat)
  show ?case
  proof (cases "of_nat k \<in> S")
    case False
    then have "hm_get m (of_nat k) = None" using Suc.prems by (simp add: holds_def)
    then show ?thesis using Suc.prems False by (subst bb_drain_loop.simps) (auto simp: numbered_blocks_def)
  next
    case True
    then have g: "hm_get m (of_nat k) = Some (ds ! k)" using Suc.prems k by (simp add: holds_def)
    have ne: "unat i \<noteq> k" if "i \<noteq> of_nat k" for i :: u32 using that k unsigned_word_eqI [of i "of_nat k"] by auto
    have "holds ds S (Suc k) (hm_remove (of_nat k) m)"
      using Suc.prems(1) ne k by (auto simp: holds_def hm_simps Suc_le_eq le_less)
    moreover have "r = length ds - Suc k" "Suc k \<le> length ds" using Suc.hyps(2) by simp_all
    ultimately obtain l m' where l: "bb_drain_loop (hm_remove (of_nat k) m) (of_nat (Suc k)) = (m', of_nat l, numbered_blocks ds (Suc k) l)"
      "Suc k \<le> l" "l \<le> length ds" "holds ds S l m'" "of_nat l \<notin> S" "\<forall>j. Suc k \<le> j \<and> j < l \<longrightarrow> of_nat j \<in> S"
      using Suc.hyps(1) by blast
    have "(of_nat k, ds ! k) # numbered_blocks ds (Suc k) l = numbered_blocks ds k l"
      using l(2) by (simp add: numbered_blocks_def upt_rec [of k])
    then have "bb_drain_loop m (of_nat k) = (m', of_nat l, numbered_blocks ds k l)"
      using g l(1) by (subst bb_drain_loop.simps) (simp add: add.commute)
    moreover have "\<forall>j. k \<le> j \<and> j < l \<longrightarrow> of_nat j \<in> S"
      using l(6) True by (metis Suc_leI le_neq_implies_less)
    ultimately show ?thesis using l by auto
  qed
qed

lemma buffer_run_from:
  assumes "length ds < 2 ^ 32" and "bb_expected_count b = of_nat (length ds)"
    and "bb_next_expected b = of_nat k" and "k \<le> length ds" and "holds ds S k (bb_blocks b)"
    and "\<And>i. i \<in> S \<Longrightarrow> unat i < length ds" and "\<And>j. j < k \<Longrightarrow> of_nat j \<in> S"
    and "distinct (map fst (pushes ops))" and "S \<inter> fst ` set (pushes ops) = {}"
    and "\<And>i d. (i, d) \<in> set (pushes ops) \<Longrightarrow> unat i < length ds \<and> d = ds ! unat i"
  shows "\<exists>b' l. buffer_run ops b = (b', numbered_blocks ds k l) \<and> k \<le> l \<and> l \<le> length ds
     \<and> bb_expected_count b' = of_nat (length ds) \<and> bb_next_expected b' = of_nat l
     \<and> holds ds (S \<union> fst ` set (pushes ops)) l (bb_blocks b') \<and> (\<forall>j < l. of_nat j \<in> S \<union> fst ` set (pushes ops))"
  using assms(2-10)
proof (induction ops arbitrary: b k S)
  case Nil
  then show ?case by (auto simp: numbered_blocks_def)
next
  case (Cons op ops)
  show ?case
  proof (cases op)
    case (BufPush i d)
    with Cons.prems(7-9) have i: "i \<notin> S" "unat i < length ds" "d = ds ! unat i"
      "i \<notin> fst ` set (pushes ops)" by auto
    have "unat (of_nat (length ds) :: u32) = length ds" using assms(1) by (simp add: unat_of_nat)
    then have "\<not> bb_expected_count b \<le> i" using Cons.prems(1) i(2) by (simp add: word_le_nat_alt)
    moreover have "\<not> hm_contains (bb_blocks b) i" using Cons.prems(4) i(1) by (simp add: holds_def hm_contains_def)
    ultimately have p: "fst (bb_push i d b) = b\<lparr>bb_blocks := hm_insert i d (bb_blocks b)\<rparr>" by (simp add: bb_push_def)
    have ki: "k \<le> unat i"
    proof (rule ccontr)
      assume "\<not> k \<le> unat i"
      then have "of_nat (unat i) \<in> S" using Cons.prems(6) [of "unat i"] by simp
      with i(1) show False by simp
    qed
    have h: "holds ds (insert i S) k (hm_insert i d (bb_blocks b))"
      using Cons.prems(4) i(3) ki by (auto simp: holds_def hm_simps)
    let ?b = "b\<lparr>bb_blocks := hm_insert i d (bb_blocks b)\<rparr>"
    have "\<exists>b' l. buffer_run ops ?b = (b', numbered_blocks ds k l) \<and> k \<le> l \<and> l \<le> length ds
     \<and> bb_expected_count b' = of_nat (length ds) \<and> bb_next_expected b' = of_nat l
     \<and> holds ds (insert i S \<union> fst ` set (pushes ops)) l (bb_blocks b') \<and> (\<forall>j < l. of_nat j \<in> insert i S \<union> fst ` set (pushes ops))"
    proof (rule Cons.IH)
      show "bb_expected_count ?b = of_nat (length ds)" "bb_next_expected ?b = of_nat k" "k \<le> length ds"
        using Cons.prems(1-3) by simp_all
      show "holds ds (insert i S) k (bb_blocks ?b)" using h by simp
      show "unat j < length ds" if "j \<in> insert i S" for j using that Cons.prems(5) [of j] i(2) by auto
      show "of_nat j \<in> insert i S" if "j < k" for j using that Cons.prems(6) by simp
      show "distinct (map fst (pushes ops))" using Cons.prems(7) BufPush by simp
      show "insert i S \<inter> fst ` set (pushes ops) = {}" using Cons.prems(8) BufPush i(4) by auto
      show "unat j < length ds \<and> e = ds ! unat j" if "(j, e) \<in> set (pushes ops)" for j e
        using that Cons.prems(9) [of j e] BufPush by simp
    qed
    then show ?thesis using BufPush p by simp
  next
    case BufDrain
    obtain l m' where l: "bb_drain_loop (bb_blocks b) (of_nat k) = (m', of_nat l, numbered_blocks ds k l)"
      "k \<le> l" "l \<le> length ds" "holds ds S l m'" "\<forall>j. k \<le> j \<and> j < l \<longrightarrow> of_nat j \<in> S"
      using drain_loop [OF Cons.prems(4,3) assms(1) Cons.prems(5)] by blast
    let ?b = "b\<lparr>bb_blocks := m', bb_next_expected := of_nat l\<rparr>"
    have d: "bb_drain_ordered b = (?b, numbered_blocks ds k l)"
      using l(1) Cons.prems(2) by (simp add: bb_drain_ordered_def)
    have S: "j < l \<Longrightarrow> of_nat j \<in> S" for j using l(5) Cons.prems(6) by (cases "j < k") auto
    have "\<exists>b' l'. buffer_run ops ?b = (b', numbered_blocks ds l l') \<and> l \<le> l' \<and> l' \<le> length ds
     \<and> bb_expected_count b' = of_nat (length ds) \<and> bb_next_expected b' = of_nat l'
     \<and> holds ds (S \<union> fst ` set (pushes ops)) l' (bb_blocks b') \<and> (\<forall>j < l'. of_nat j \<in> S \<union> fst ` set (pushes ops))"
    proof (rule Cons.IH)
      show "bb_expected_count ?b = of_nat (length ds)" "bb_next_expected ?b = of_nat l" "l \<le> length ds"
        "holds ds S l (bb_blocks ?b)" using Cons.prems(1) l by simp_all
      show "unat j < length ds" if "j \<in> S" for j using that by (rule Cons.prems(5))
      show "of_nat j \<in> S" if "j < l" for j using that by (rule S)
      show "distinct (map fst (pushes ops))" "S \<inter> fst ` set (pushes ops) = {}" using Cons.prems(7,8) BufDrain by simp_all
      show "unat j < length ds \<and> e = ds ! unat j" if "(j, e) \<in> set (pushes ops)" for j e
        using that Cons.prems(9) [of j e] BufDrain by simp
    qed
    then obtain b' l' where r: "buffer_run ops ?b = (b', numbered_blocks ds l l')" "l \<le> l'" "l' \<le> length ds"
      "bb_expected_count b' = of_nat (length ds)" "bb_next_expected b' = of_nat l'"
      "holds ds (S \<union> fst ` set (pushes ops)) l' (bb_blocks b')"
      "\<forall>j < l'. of_nat j \<in> S \<union> fst ` set (pushes ops)" by blast
    have "buffer_run (op # ops) b = (b', numbered_blocks ds k l')"
      using BufDrain d r(1) numbered_blocks_append [OF l(2) r(2), of ds] by simp
    then show ?thesis using BufDrain l(2) r by auto
  qed
qed

lemma buffer_run_append:
  "buffer_run (xs @ ys) b = (let (b', out) = buffer_run xs b; (b'', out') = buffer_run ys b' in (b'', out @ out'))"
proof (induction xs arbitrary: b)
  case (Cons op xs)
  then show ?case by (cases op) (simp_all add: split_beta Let_def)
qed simp

lemma map_snd_numbered: "map snd (numbered_blocks ds 0 (length ds)) = ds"
  by (simp add: numbered_blocks_def o_def map_nth)

text \<open>C34. Whatever order the blocks of a download arrive in, and whenever the buffer is
  drained in between, all of them come out exactly once and in order; yet the finished
  buffer still counts every block as remaining.\<close>

theorem buffer_delivers_in_order:
  assumes "length ds < 2 ^ 32" and "distinct (map fst (pushes ops))"
    and "set (pushes ops) = set (numbered_blocks ds 0 (length ds))"
  shows "\<exists>b. buffer_run (ops @ [BufDrain]) (bb_new (of_nat (length ds))) = (b, numbered_blocks ds 0 (length ds))
     \<and> bb_remaining b = of_nat (length ds) \<and> (ds \<noteq> [] \<longrightarrow> \<not> bb_is_complete b)"
proof -
  let ?b = "bb_new (of_nat (length ds))" and ?S = "fst ` set (pushes ops)"
  have small: "unat (of_nat j :: u32) = j" if "j \<le> length ds" for j
    using that assms(1) by (simp add: unat_of_nat)
  have mem: "unat i < length ds \<and> d = ds ! unat i" if "(i, d) \<in> set (pushes ops)" for i d
  proof -
    from that assms(3) obtain j where "j < length ds" "i = of_nat j" "d = ds ! j"
      by (auto simp: numbered_blocks_def)
    with small [of j] show ?thesis by simp
  qed
  have "\<exists>b' l. buffer_run ops ?b = (b', numbered_blocks ds 0 l) \<and> 0 \<le> l \<and> l \<le> length ds
     \<and> bb_expected_count b' = of_nat (length ds) \<and> bb_next_expected b' = of_nat l
     \<and> holds ds ({} \<union> ?S) l (bb_blocks b') \<and> (\<forall>j < l. of_nat j \<in> {} \<union> ?S)"
    by (rule buffer_run_from [OF assms(1)])
       (use assms(2) mem in \<open>auto simp: bb_new_def holds_def hm_simps\<close>)
  then obtain b1 l where r: "buffer_run ops ?b = (b1, numbered_blocks ds 0 l)" "l \<le> length ds"
    "bb_expected_count b1 = of_nat (length ds)" "bb_next_expected b1 = of_nat l" "holds ds ?S l (bb_blocks b1)" by auto
  have lt: "unat i < length ds" if "i \<in> ?S" for i using that mem by auto
  from drain_loop [OF r(5,2) assms(1) lt] obtain k m' where d:
    "bb_drain_loop (bb_blocks b1) (of_nat l) = (m', of_nat k, numbered_blocks ds l k)" "l \<le> k" "k \<le> length ds"
    "holds ds ?S k m'" "of_nat k \<notin> ?S" by blast
  have "k = length ds"
  proof (rule ccontr)
    assume "k \<noteq> length ds"
    then have "(of_nat k, ds ! k) \<in> set (pushes ops)" using d(3) assms(3) by (auto simp: numbered_blocks_def)
    with d(5) show False by force
  qed
  let ?b2 = "b1\<lparr>bb_blocks := m', bb_next_expected := of_nat k\<rparr>"
  have "bb_drain_ordered b1 = (?b2, numbered_blocks ds l k)" using d(1) r(4) by (simp add: bb_drain_ordered_def)
  then have run: "buffer_run (ops @ [BufDrain]) ?b = (?b2, numbered_blocks ds 0 (length ds))"
    using r(1) numbered_blocks_append [of 0 l k ds] d(2) \<open>k = length ds\<close>
    by (simp add: buffer_run_append)
  have "hm_get m' i = None" for i
    using d(4) lt [of i] \<open>k = length ds\<close> by (cases "i \<in> ?S") (simp_all add: holds_def)
  then have "i \<notin> fst ` set m'" for i by (simp only: hm_get_None [symmetric])
  then have "m' = []" by (cases m') auto
  then have "bb_remaining ?b2 = of_nat (length ds)" "ds \<noteq> [] \<longrightarrow> \<not> bb_is_complete ?b2"
    using r(3) small [of "length ds"]
    by (simp_all add: bb_remaining_def sat_sub_def bb_is_complete_def bb_can_assemble_def hm_len_def)
  with run show ?thesis by blast
qed

theorem buffer_delivers_in_order_witness:
  "snd (buffer_run ([BufPush 2 [5], BufDrain, BufPush 0 [3], BufDrain, BufPush 1 [4]] @ [BufDrain]) (bb_new 3))
     = [(0, [3]), (1, [4]), (2, [5])]"
proof -
  let ?ops = "[BufPush 2 [5], BufDrain, BufPush 0 [3], BufDrain, BufPush 1 [4]]" and ?ds = "[[3], [4], [5]] :: bytes list"
  have n: "numbered_blocks ?ds 0 (length ?ds) = [(0, [3]), (1, [4]), (2, [5])]"
    by (simp add: numbered_blocks_def upt_rec)
  have p: "pushes ?ops = [(2, [5]), (0, [3]), (1, [4])]" by simp
  have "\<exists>b. buffer_run (?ops @ [BufDrain]) (bb_new (of_nat (length ?ds))) = (b, numbered_blocks ?ds 0 (length ?ds))
     \<and> bb_remaining b = of_nat (length ?ds) \<and> (?ds \<noteq> [] \<longrightarrow> \<not> bb_is_complete b)"
    by (rule buffer_delivers_in_order) (unfold n p, auto)
  moreover have "of_nat (length ?ds) = (3 :: u32)" by simp
  ultimately show ?thesis unfolding n by (metis snd_conv)
qed

section \<open>Runs of the manager\<close>

datatype download_op =
  DoCreate u64 string file_manifest "(u32, string list) hashmap" | DoAssign string u32 string
| DoComplete u64 string u32 bytes | DoFail u64 string u32 string | DoCancel string

fun download_do :: "rounding \<Rightarrow> download_op \<Rightarrow> download_manager \<Rightarrow> download_manager option" where
  "download_do rnd (DoCreate clock n manifest sources) m = Some (fst (create_task clock n manifest sources m))"
| "download_do rnd (DoAssign n i node) m = Some (fst (assign_block n i node m))"
| "download_do rnd (DoComplete clock n i d) m = map_option fst (complete_block rnd clock n i d m)"
| "download_do rnd (DoFail clock n i err) m = map_option fst (fail_block clock n i err m)"
| "download_do rnd (DoCancel n) m = Some (fst (download_cancel n m))"

fun download_run :: "rounding \<Rightarrow> download_op list \<Rightarrow> download_manager \<Rightarrow> download_manager option" where
  "download_run rnd [] m = Some m"
| "download_run rnd (op # ops) m = (case download_do rnd op m of None \<Rightarrow> None | Some m' \<Rightarrow> download_run rnd ops m')"

lemma release_node_tasks [simp]: "dm_tasks (release_node x m) = dm_tasks m"
  by (simp add: release_node_def Let_def split: option.split)

lemma node_load_release:
  "node_load (release_node node m) x = (if node = Some x then sat_sub (node_load m x) 1 else node_load m x)"
  by (auto simp: release_node_def node_load_def hm_simps Let_def sat_sub_def split: option.splits if_splits)

text \<open>What the end of a block does to the loads and the assignments.\<close>

lemma complete_block_effect:
  assumes "complete_block rnd clock n i d m = Some (m', r)"
  shows "node_load m' x = (if assigned_node m n i = Some x then sat_sub (node_load m x) 1 else node_load m x)"
    and "assigned_node m' n' i' = (if n' = n \<and> i' = i then None else assigned_node m n' i')"
proof -
  have l: "dm_node_load m' = dm_node_load (release_node (assigned_node m n i) m)"
    using assms by (auto simp: complete_block_def Let_def split: option.splits prod.splits sum.splits)
  then have "node_load m' x = node_load (release_node (assigned_node m n i) m) x" by (simp add: node_load_def)
  then show "node_load m' x = (if assigned_node m n i = Some x then sat_sub (node_load m x) 1 else node_load m x)"
    by (simp only: node_load_release)
  show "assigned_node m' n' i' = (if n' = n \<and> i' = i then None else assigned_node m n' i')"
  proof (cases "hm_get (dm_tasks m) n")
    case None
    then have "dm_tasks m' = dm_tasks m" using assms by (auto simp: complete_block_def Let_def)
    with None show ?thesis by (auto simp: assigned_node_def split: option.split)
  next
    case (Some t)
    then have "\<exists>t'. dm_tasks m' = hm_insert n t' (dm_tasks m)
        \<and> it_node_assignments t' = hm_remove i (it_node_assignments t)"
      using assms by (auto simp: complete_block_def Let_def split: option.splits prod.splits sum.splits)
    with Some show ?thesis by (cases "n' = n") (auto simp: assigned_node_def hm_simps)
  qed
qed

lemma check_failures_fields [simp]:
  "it_task (check_failures t) = it_task t" "it_progress (check_failures t) = it_progress t"
  "it_buffer (check_failures t) = it_buffer t" "it_completed_blocks (check_failures t) = it_completed_blocks t"
  "it_failed_blocks (check_failures t) = it_failed_blocks t"
  "it_node_assignments (check_failures t) = it_node_assignments t"
  by (simp_all add: check_failures_def Let_def)

lemma check_failures_status:
  "it_status (check_failures t) = it_status t \<or> (\<exists>e. it_status (check_failures t) = DlFailed e)"
  by (auto simp: check_failures_def Let_def)

lemma fail_block_cases:
  assumes "fail_block clock n i err m = Some (m', r)"
  shows "hm_get (dm_tasks m) n = None \<Longrightarrow> m' = m"
    and "hm_get (dm_tasks m) n = Some t \<Longrightarrow> \<exists>p. m' = (release_node (assigned_node m n i) m)
      \<lparr>dm_tasks := hm_insert n ((check_failures (record_failure i (assigned_node m n i) t))\<lparr>it_progress := p\<rparr>) (dm_tasks m)\<rparr>"
  using assms
  by (auto simp: fail_block_def Let_def assigned_node_def release_node_def split: option.splits)

lemma fail_block_effect:
  assumes "fail_block clock n i err m = Some (m', r)"
  shows "node_load m' x = (if assigned_node m n i = Some x then sat_sub (node_load m x) 1 else node_load m x)"
    and "assigned_node m' n' i' = (if n' = n \<and> i' = i then None else assigned_node m n' i')"
proof -
  have "node_load m' x = node_load (release_node (assigned_node m n i) m) x
      \<and> assigned_node m' n' i' = (if n' = n \<and> i' = i then None else assigned_node m n' i')"
  proof (cases "hm_get (dm_tasks m) n")
    case None
    then show ?thesis using fail_block_cases(1) [OF assms] by (auto simp: assigned_node_def release_node_def)
  next
    case (Some t)
    then obtain p where "m' = (release_node (assigned_node m n i) m)
      \<lparr>dm_tasks := hm_insert n ((check_failures (record_failure i (assigned_node m n i) t))\<lparr>it_progress := p\<rparr>) (dm_tasks m)\<rparr>"
      using fail_block_cases(2) [OF assms] by blast
    with Some show ?thesis
      by (cases "n' = n") (auto simp: assigned_node_def record_failure_def hm_simps node_load_def)
  qed
  then show "node_load m' x = (if assigned_node m n i = Some x then sat_sub (node_load m x) 1 else node_load m x)"
    and "assigned_node m' n' i' = (if n' = n \<and> i' = i then None else assigned_node m n' i')"
    by (simp_all only: node_load_release)
qed

section \<open>The load of a node\<close>

definition blocks_at :: "download_manager \<Rightarrow> string \<Rightarrow> (string \<times> u32) set" where
  "blocks_at m x = {(n, i). assigned_node m n i = Some x}"

lemma finite_blocks_at [simp]: "finite (blocks_at m x)"
proof (rule finite_subset)
  show "blocks_at m x \<subseteq> (\<Union>p \<in> set (dm_tasks m). {fst p} \<times> fst ` set (it_node_assignments (snd p)))"
  proof
    fix q assume "q \<in> blocks_at m x"
    then obtain n i t where q: "q = (n, i)" "hm_get (dm_tasks m) n = Some t" "hm_get (it_node_assignments t) i = Some x"
      by (auto simp: blocks_at_def assigned_node_def split: option.splits)
    then have "(n, t) \<in> set (dm_tasks m)" "(i, x) \<in> set (it_node_assignments t)" by (auto dest: hm_get_mem)
    with q(1) show "q \<in> (\<Union>p \<in> set (dm_tasks m). {fst p} \<times> fst ` set (it_node_assignments (snd p)))"
      by (intro UN_I [of "(n, t)"]) (auto intro: image_eqI [of _ _ "(i, x)"])
  qed
qed simp

text \<open>The load is at least the number of assigned blocks plus a surplus, which never shrinks.\<close>

definition surplus :: "nat \<Rightarrow> string \<Rightarrow> download_manager \<Rightarrow> bool" where
  "surplus k x m \<longleftrightarrow> card (blocks_at m x) + k \<le> unat (node_load m x)"

lemma surplus_released:
  assumes "surplus k x m"
    and "node_load m' x = (if assigned_node m n i = Some x then sat_sub (node_load m x) 1 else node_load m x)"
    and "\<And>n' i'. assigned_node m' n' i' = (if n' = n \<and> i' = i then None else assigned_node m n' i')"
  shows "surplus k x m'"
proof -
  have b: "blocks_at m' x = blocks_at m x - {(n, i)}" using assms(3) by (auto simp: blocks_at_def)
  show ?thesis
  proof (cases "assigned_node m n i = Some x")
    case True
    then have "(n, i) \<in> blocks_at m x" by (simp add: blocks_at_def)
    then have "card (blocks_at m' x) = card (blocks_at m x) - 1" "0 < card (blocks_at m x)"
      using b by (auto simp: card_gt_0_iff)
    then show ?thesis using assms(1,2) True by (simp add: surplus_def unat_sat_sub)
  next
    case False
    then have "blocks_at m' x = blocks_at m x" using b by (auto simp: blocks_at_def)
    then show ?thesis using assms(1,2) False by (simp add: surplus_def)
  qed
qed

lemma surplus_fewer:
  "surplus k x m \<Longrightarrow> blocks_at m' x \<subseteq> blocks_at m x \<Longrightarrow> node_load m' x = node_load m x \<Longrightarrow> surplus k x m'"
  using card_mono [of "blocks_at m x" "blocks_at m' x"] by (simp add: surplus_def)

lemma surplus_do:
  assumes "surplus k x m" and "download_do rnd op m = Some m'" and "unat (node_load m x) < 2 ^ 32 - 1"
  shows "surplus k x m' \<and> unat (node_load m' x) \<le> Suc (unat (node_load m x))"
proof (cases op)
  case (DoCreate clock n manifest sources)
  with assms(2) have l: "node_load m' x = node_load m x" by (auto simp: create_task_def node_load_def Let_def)
  have "blocks_at m' x \<subseteq> blocks_at m x"
    using assms(2) DoCreate by (auto simp: create_task_def Let_def blocks_at_def assigned_node_def hm_simps
        internal_task_new_def split: option.splits if_splits)
  with l surplus_fewer [OF assms(1)] show ?thesis by simp
next
  case (DoAssign n i node)
  show ?thesis
  proof (cases "m' = m")
    case False
    with DoAssign assms(2) have m': "m' = m\<lparr>dm_tasks := hm_modify n (\<lambda>t. t\<lparr>it_node_assignments := hm_insert i node (it_node_assignments t)\<rparr>) (dm_tasks m),
           dm_node_load := hm_insert node (node_load m node + 1) (dm_node_load m)\<rparr>"
      by (auto simp: assign_block_def split: if_splits)
    have "node_load m' x = (if x = node then node_load m node + 1 else node_load m x)"
      by (simp add: m' node_load_def hm_simps)
    moreover have "node_load m x \<noteq> - 1"
      using assms(3) by (auto simp: unsigned_minus_1_eq_mask mask_eq_exp_minus_1)
    ultimately have l: "unat (node_load m' x) = (if x = node then Suc (unat (node_load m x)) else unat (node_load m x))"
      by (cases "x = node") (simp_all add: unat_inc)
    have b: "blocks_at m' x \<subseteq> (if x = node then insert (n, i) (blocks_at m x) else blocks_at m x)"
      unfolding m' by (auto simp: blocks_at_def assigned_node_def hm_get_modify hm_simps split: option.splits if_splits)
    then have "card (blocks_at m' x) \<le> (if x = node then Suc (card (blocks_at m x)) else card (blocks_at m x))"
      using card_mono [OF _ b] card_insert_le_m1 [of "Suc (card (blocks_at m x))" "blocks_at m x" "(n, i)"]
      by (cases "x = node") (auto simp: card_insert_if split: if_splits)
    with l assms(1) show ?thesis by (auto simp: surplus_def)
  qed (use assms(1) in simp)
next
  case (DoComplete clock n i d)
  with assms(2) obtain r where "complete_block rnd clock n i d m = Some (m', r)" by auto
  note e = complete_block_effect [OF this]
  show ?thesis using surplus_released [OF assms(1) e(1,2)] e(1)
    by (auto simp: unat_sat_sub intro: order_trans [OF diff_le_self])
next
  case (DoFail clock n i err)
  with assms(2) obtain r where "fail_block clock n i err m = Some (m', r)" by auto
  note e = fail_block_effect [OF this]
  show ?thesis using surplus_released [OF assms(1) e(1,2)] e(1)
    by (auto simp: unat_sat_sub intro: order_trans [OF diff_le_self])
next
  case (DoCancel n)
  with assms(2) have l: "node_load m' x = node_load m x" by (auto simp: download_cancel_def node_load_def)
  have "blocks_at m' x \<subseteq> blocks_at m x"
    using assms(2) DoCancel by (auto simp: download_cancel_def blocks_at_def assigned_node_def hm_simps
        split: option.splits if_splits)
  with l surplus_fewer [OF assms(1)] show ?thesis by simp
qed

lemma surplus_run:
  "surplus k x m \<Longrightarrow> download_run rnd ops m = Some m' \<Longrightarrow> unat (node_load m x) + length ops < 2 ^ 32 \<Longrightarrow>
   surplus k x m' \<and> unat (node_load m' x) \<le> unat (node_load m x) + length ops"
proof (induction ops arbitrary: m)
  case (Cons op ops)
  then obtain m1 where m1: "download_do rnd op m = Some m1" "download_run rnd ops m1 = Some m'"
    by (auto split: option.splits)
  have "unat (node_load m x) < 2 ^ 32 - 1" using Cons.prems(3) by simp
  with surplus_do [OF Cons.prems(1) m1(1)] have "surplus k x m1" "unat (node_load m1 x) \<le> Suc (unat (node_load m x))" by auto
  with Cons.IH [OF _ m1(2)] Cons.prems(3) show ?case by auto
qed simp

lemma surplus_new: "surplus 0 x download_new"
  by (simp add: surplus_def blocks_at_def assigned_node_def download_new_def node_load_def hm_simps)

lemma node_load_new: "node_load download_new x = 0"
  by (simp add: node_load_def download_new_def hm_simps)

text \<open>Cancelling a task keeps the load of the nodes that were fetching its blocks.\<close>

theorem cancel_leaks_load:
  assumes "download_run rnd ops download_new = Some m" and "assigned_node m n i = Some x"
    and "download_run rnd (DoCancel n # ops') m = Some m'" and "length ops + length ops' < 2 ^ 32 - 1"
  shows "card (blocks_at m' x) < unat (node_load m' x)"
proof -
  have m: "surplus 0 x m" "unat (node_load m x) \<le> length ops"
    using surplus_run [OF surplus_new assms(1)] assms(4) by (simp_all add: node_load_new)
  let ?m1 = "fst (download_cancel n m)"
  have gone: "(n, i) \<in> blocks_at m x" "blocks_at ?m1 x \<subseteq> blocks_at m x - {(n, i)}"
    using assms(2) by (auto simp: blocks_at_def assigned_node_def download_cancel_def hm_simps hm_contains_def
        split: option.splits if_splits)
  then have "card (blocks_at ?m1 x) < card (blocks_at m x)" by (intro psubset_card_mono) auto
  moreover have l: "node_load ?m1 x = node_load m x" by (simp add: download_cancel_def node_load_def)
  ultimately have "surplus 1 x ?m1" using m(1) by (simp add: surplus_def)
  from surplus_run [OF this, of rnd ops' m'] show ?thesis
    using assms(3,4) m(2) l by (auto simp: surplus_def)
qed

lemma download_run_append:
  "download_run rnd (xs @ ys) m = (case download_run rnd xs m of None \<Rightarrow> None | Some m' \<Rightarrow> download_run rnd ys m')"
  by (induction xs arbitrary: m) (auto split: option.split)

text \<open>Only a task without sources makes an operation panic.\<close>

definition sourced :: "download_manager \<Rightarrow> bool" where
  "sourced m \<longleftrightarrow> (\<forall>n t. hm_get (dm_tasks m) n = Some t
     \<longrightarrow> of_nat (hm_len (dt_block_sources (it_task t))) \<noteq> (0 :: u64))"

fun creates_sourced :: "download_op \<Rightarrow> bool" where
  "creates_sourced (DoCreate clock n manifest sources) \<longleftrightarrow> of_nat (hm_len sources) \<noteq> (0 :: u64)"
| "creates_sourced _ \<longleftrightarrow> True"

lemma estimate_sourced:
  "of_nat (hm_len (dt_block_sources (it_task t))) \<noteq> (0 :: u64) \<Longrightarrow> \<exists>b. estimate_downloaded t = Some b"
  by (simp add: estimate_downloaded_def)

lemma sourced_do:
  assumes "sourced m" and "creates_sourced op"
  shows "\<exists>m'. download_do rnd op m = Some m' \<and> sourced m'"
proof (cases op)
  case (DoComplete clock n i d)
  show ?thesis
  proof (cases "hm_get (dm_tasks m) n")
    case (Some t)
    let ?t = "t\<lparr>it_completed_blocks := hs_insert i (it_completed_blocks t), it_node_assignments := hm_remove i (it_node_assignments t)\<rparr>"
    have "of_nat (hm_len (dt_block_sources (it_task t))) \<noteq> (0 :: u64)" using assms(1) Some by (simp add: sourced_def)
    then have "\<exists>b. estimate_downloaded (?t\<lparr>it_buffer := x\<rparr>) = Some b" for x by (intro estimate_sourced) simp
    then obtain b where b: "\<And>x. estimate_downloaded (?t\<lparr>it_buffer := x\<rparr>) = Some (b x)" by metis
    show ?thesis using DoComplete Some assms(1) b
      by (auto simp: complete_block_def sourced_def hm_simps Let_def split: prod.split sum.split if_splits)
  qed (use DoComplete assms in \<open>auto simp: complete_block_def sourced_def Let_def\<close>)
next
  case (DoFail clock n i err)
  show ?thesis
  proof (cases "hm_get (dm_tasks m) n")
    case (Some t)
    let ?t = "check_failures (record_failure i (assigned_node m n i) t)"
    have s: "of_nat (hm_len (dt_block_sources (it_task ?t))) \<noteq> (0 :: u64)"
      using assms(1) Some by (simp add: sourced_def record_failure_def)
    from estimate_sourced [OF this] obtain b where "estimate_downloaded ?t = Some b" by blast
    with DoFail Some assms(1) s show ?thesis
      by (auto simp: fail_block_def sourced_def hm_simps Let_def split: if_splits)
  qed (use DoFail assms in \<open>auto simp: fail_block_def sourced_def Let_def\<close>)
qed (use assms in \<open>auto simp: sourced_def create_task_def assign_block_def download_cancel_def internal_task_new_def
      hm_simps hm_get_modify Let_def split: if_splits\<close>)

lemma sourced_downloads_never_panic:
  "sourced m \<Longrightarrow> \<forall>op \<in> set ops. creates_sourced op \<Longrightarrow> download_run rnd ops m \<noteq> None"
proof (induction ops arbitrary: m)
  case (Cons op ops)
  then obtain m' where "download_do rnd op m = Some m'" "sourced m'" using sourced_do [of m op rnd] by auto
  with Cons show ?case by simp
qed simp

definition sample_dl_manifest :: file_manifest where
  "sample_dl_manifest = \<lparr>fm_file_hash = fill32 1, fm_file_size = 8, fm_chunks = [], fm_chunk_size = 4\<rparr>"

lemma hm_len_Cons: "hm_len (p # m) = Suc (hm_len m)" "hm_len [] = 0"
  by (simp_all add: hm_len_def)

lemmas download_defs = create_task_def assign_block_def complete_block_def fail_block_def download_cancel_def
  internal_task_new_def bb_new_def bb_push_def release_node_def assigned_node_def record_failure_def
  check_failures_def estimate_downloaded_def hs_insert_def hm_len_Cons hm_contains_def hm_simps hm_get_modify

theorem cancel_leaks_load_witness:
  "\<exists>m'. download_run id [DoCreate 0 ''f'' sample_dl_manifest [(0, [''n'']), (1, [''n''])], DoAssign ''f'' 0 ''n'', DoCancel ''f''] download_new
       = Some m' \<and> 0 < unat (node_load m' ''n'')"
proof -
  let ?ops = "[DoCreate 0 ''f'' sample_dl_manifest [(0, [''n'']), (1, [''n''])], DoAssign ''f'' 0 ''n'']"
  obtain m where m: "download_run id ?ops download_new = Some m" "assigned_node m ''f'' 0 = Some ''n''"
    by (simp add: download_defs download_new_def Let_def)
  obtain m' where m': "download_run id [DoCancel ''f''] m = Some m'" by simp
  have "card (blocks_at m' ''n'') < unat (node_load m' ''n'')"
    using cancel_leaks_load [OF m m'] by simp
  moreover have "download_run id (?ops @ [DoCancel ''f'']) download_new = Some m'"
    using m(1) m' by (simp add: download_run_append del: download_run.simps append_Cons append_Nil)
  ultimately show ?thesis by auto
qed

definition uncompleted :: "download_manager \<Rightarrow> bool" where
  "uncompleted m \<longleftrightarrow> hm_ok (dm_tasks m)
     \<and> (\<forall>n t. hm_get (dm_tasks m) n = Some t \<longrightarrow> (\<forall>d. it_status t \<noteq> DlCompleted d))"

lemma uncompleted_do:
  assumes "uncompleted m" and "download_do rnd op m = Some m'"
  shows "uncompleted m'"
proof (cases op)
  case (DoFail clock n i err)
  with assms(2) obtain r where "fail_block clock n i err m = Some (m', r)" by auto
  note task = fail_block_cases [OF this]
  show ?thesis
  proof (cases "hm_get (dm_tasks m) n")
    case (Some t)
    have "it_status (record_failure i x t) = it_status t" for x by (simp add: record_failure_def)
    then show ?thesis
      using task(2) [OF Some] Some assms(1) check_failures_status [of "record_failure i (assigned_node m n i) t"]
      by (auto simp: uncompleted_def hm_simps split: if_splits)
  qed (use task(1) assms(1) in simp)
qed (use assms in \<open>auto simp: uncompleted_def create_task_def assign_block_def complete_block_def download_cancel_def
        internal_task_new_def hm_simps hm_get_modify Let_def split: option.splits prod.splits sum.splits if_splits\<close>)

lemma uncompleted_run: "uncompleted m \<Longrightarrow> download_run rnd ops m = Some m' \<Longrightarrow> uncompleted m'"
  by (induction ops arbitrary: m) (auto intro: uncompleted_do split: option.splits)

text \<open>No run of the manager makes a task completed; a task that did not fail stays active.\<close>

theorem download_never_completes:
  assumes "download_run rnd ops download_new = Some m" and "download_get_status m n = Some st"
  shows "(\<forall>d. st \<noteq> DlCompleted d) \<and> (n \<in> set (active_downloads m) \<longleftrightarrow> (\<forall>e. st \<noteq> DlFailed e))"
proof -
  have "uncompleted download_new" by (simp add: uncompleted_def download_new_def hm_simps)
  then have ok: "uncompleted m" using uncompleted_run assms(1) by blast
  from assms(2) obtain t where t: "hm_get (dm_tasks m) n = Some t" "it_status t = st"
    by (auto simp: download_get_status_def)
  have "hm_get (dm_tasks m) n = Some t' \<longleftrightarrow> t' = t" for t' using t(1) by auto
  then have "(n, t') \<in> set (dm_tasks m) \<longleftrightarrow> t' = t" for t'
    using ok by (simp add: uncompleted_def hm_get_iff)
  then have "n \<in> set (active_downloads m)
      \<longleftrightarrow> (case st of DlPending \<Rightarrow> True | DlDownloading _ _ _ \<Rightarrow> True | _ \<Rightarrow> False)"
    using t(2) by (force simp: active_downloads_def)
  moreover have "\<forall>d. st \<noteq> DlCompleted d" using ok t by (auto simp: uncompleted_def)
  ultimately show ?thesis by (cases st) auto
qed

theorem download_never_completes_witness:
  "\<exists>m. download_run id [DoCreate 0 ''f'' sample_dl_manifest [(0, [''n''])], DoComplete 1 ''f'' 0 [1, 2, 3, 4]] download_new = Some m
     \<and> download_get_status m ''f'' = Some (DlDownloading 1 8 8) \<and> ''f'' \<in> set (active_downloads m)"
proof -
  obtain m where m: "download_run id [DoCreate 0 ''f'' sample_dl_manifest [(0, [''n''])], DoComplete 1 ''f'' 0 [1, 2, 3, 4]] download_new = Some m"
    "download_get_status m ''f'' = Some (DlDownloading 1 8 8)"
    by (simp add: download_defs download_new_def bb_is_complete_def bb_can_assemble_def download_get_status_def
        sample_dl_manifest_def Let_def)
  from download_never_completes [OF m] show ?thesis using m by auto
qed

text \<open>A task without sources panics when one of its blocks fails.\<close>

theorem empty_download_panics:
  "\<exists>m1 e. complete_block rnd clock n i d (fst (create_task clock n manifest [] m)) = Some (m1, Inl e)
     \<and> fail_block clock' n j err m1 = None"
  by (simp add: create_task_def complete_block_def fail_block_def internal_task_new_def bb_new_def bb_push_def
      hm_simps assigned_node_def release_node_def estimate_downloaded_def hs_insert_def hm_len_def record_failure_def Let_def)

section \<open>Failures\<close>

lemma select_source_least:
  "select_source m ns = Some x \<Longrightarrow> x \<in> set ns \<and> (\<forall>y \<in> set ns. node_load m x \<le> node_load m y)"
  using min_by_key_Some [of "node_load m" ns x] by (simp add: select_source_def split: if_splits)

definition failed_set :: "string \<Rightarrow> u32 set \<Rightarrow> download_manager \<Rightarrow> bool" where
  "failed_set n F m \<longleftrightarrow> (\<exists>t. hm_get (dm_tasks m) n = Some t \<and> hm_ok (it_failed_blocks t)
     \<and> fst ` set (it_failed_blocks t) = F)"

fun fails :: "string \<Rightarrow> download_op \<Rightarrow> u32 set" where
  "fails n (DoFail clock f i err) = (if f = n then {i} else {})"
| "fails n _ = {}"

fun replaces :: "string \<Rightarrow> download_op \<Rightarrow> bool" where
  "replaces n (DoCreate clock f manifest sources) \<longleftrightarrow> f = n"
| "replaces n (DoCancel f) \<longleftrightarrow> f = n"
| "replaces n _ \<longleftrightarrow> False"

lemma failed_set_do:
  assumes "failed_set n F m" and "download_do rnd op m = Some m'" and "\<not> replaces n op"
  shows "failed_set n (F \<union> fails n op) m'"
proof -
  from assms(1) obtain t where t: "hm_get (dm_tasks m) n = Some t" "hm_ok (it_failed_blocks t)"
    "fst ` set (it_failed_blocks t) = F" by (auto simp: failed_set_def)
  show ?thesis
  proof (cases op)
    case (DoCreate clock f manifest sources)
    with assms t show ?thesis by (auto simp: failed_set_def create_task_def hm_simps Let_def)
  next
    case (DoAssign f i node)
    with assms t show ?thesis by (auto simp: failed_set_def assign_block_def hm_get_modify)
  next
    case (DoComplete clock f i d)
    with assms(2) obtain r where "complete_block rnd clock f i d m = Some (m', r)" by auto
    then have "dm_tasks m' = dm_tasks m \<or> (\<exists>t1 t2. hm_get (dm_tasks m) f = Some t1
        \<and> dm_tasks m' = hm_insert f t2 (dm_tasks m) \<and> it_failed_blocks t2 = it_failed_blocks t1)"
      by (auto simp: complete_block_def Let_def split: option.splits prod.splits sum.splits)
    with DoComplete t show ?thesis
      by (cases "n = f") (auto simp: failed_set_def hm_simps intro: rev_image_eqI)
  next
    case (DoFail clock f i err)
    with assms(2) obtain r where "fail_block clock f i err m = Some (m', r)" by auto
    note task = fail_block_cases [OF this]
    show ?thesis
    proof (cases "n = f")
      case True
      with task(2) [of t] t DoFail show ?thesis
        by (auto simp: failed_set_def record_failure_def hm_simps keys_insert)
    next
      case False
      then have "hm_get (dm_tasks m') n = hm_get (dm_tasks m) n"
        using task by (cases "hm_get (dm_tasks m) f") (auto simp: hm_simps)
      with False t DoFail show ?thesis by (simp add: failed_set_def)
    qed
  next
    case (DoCancel f)
    with assms t show ?thesis by (auto simp: failed_set_def download_cancel_def hm_simps)
  qed
qed

lemma failed_set_run:
  "failed_set n F m \<Longrightarrow> download_run rnd ops m = Some m' \<Longrightarrow> \<forall>op \<in> set ops. \<not> replaces n op
     \<Longrightarrow> failed_set n (F \<union> (\<Union>op \<in> set ops. fails n op)) m'"
proof (induction ops arbitrary: m F)
  case (Cons op ops)
  then obtain m1 where m1: "download_do rnd op m = Some m1" "download_run rnd ops m1 = Some m'"
    by (auto split: option.splits)
  have "failed_set n (F \<union> fails n op) m1" using failed_set_do [OF Cons.prems(1) m1(1)] Cons.prems(3) by simp
  from Cons.IH [OF this m1(2)] Cons.prems(3) show ?case by (simp add: Un_assoc)
qed simp

lemma card_fails: "card (\<Union>op \<in> set ops. fails n op) \<le> length ops"
proof (induction ops)
  case (Cons op ops)
  have "card (fails n op) \<le> 1" by (cases op) simp_all
  with Cons card_Un_le [of "fails n op" "\<Union>op \<in> set ops. fails n op"] show ?case by simp
qed simp

text \<open>A block that failed and was then completed still counts as failed: three such blocks
  fail the task.\<close>

theorem repaired_failures_still_count:
  assumes "m = fst (create_task clock0 n manifest sources m0)" and "\<forall>op \<in> set ops. \<not> replaces n op"
    and "download_run rnd (ops @ [DoFail clock n i err]) m = Some m'"
    and "3 \<le> card (insert i (\<Union>op \<in> set ops. fails n op))" and "length ops < 2 ^ 32 - 1"
  shows "\<exists>msg. download_get_status m' n = Some (DlFailed msg)"
proof -
  let ?F = "\<Union>op \<in> set ops. fails n op"
  have "failed_set n {} m"
    unfolding assms(1) by (simp add: failed_set_def create_task_def internal_task_new_def hm_simps Let_def)
      (simp add: hm_empty_def)
  moreover from assms(3) obtain m1 where m1: "download_run rnd ops m = Some m1"
    "download_do rnd (DoFail clock n i err) m1 = Some m'" by (auto simp: download_run_append split: option.splits)
  ultimately have "failed_set n ?F m1" using failed_set_run [of n "{}" m rnd ops m1] assms(2) by simp
  then obtain t where t: "hm_get (dm_tasks m1) n = Some t" "hm_ok (it_failed_blocks t)"
    "fst ` set (it_failed_blocks t) = ?F" by (auto simp: failed_set_def)
  have len: "hm_len (hm_insert i v (it_failed_blocks t)) = card (insert i ?F)" for v
    using distinct_card [of "map fst (hm_insert i v (it_failed_blocks t))"] hm.ok_insert [OF t(2), of i v] t(3)
    by (simp add: hm_len_def hm_ok_def keys_insert)
  have "card (insert i ?F) \<le> Suc (card ?F)" by (rule card_insert_le_m1) simp_all
  with card_fails [of n ops] assms(5) have "card (insert i ?F) < 2 ^ 32" by simp
  then have "max_failed_blocks \<le> of_nat (card (insert i ?F))"
    using assms(4) by (simp add: max_failed_blocks_def word_le_nat_alt unat_of_nat)
  then have st: "\<exists>msg. it_status (check_failures (record_failure i x t)) = DlFailed msg" for x
    by (simp add: check_failures_def Let_def record_failure_def len)
  from m1(2) obtain r where "fail_block clock n i err m1 = Some (m', r)" by auto
  from fail_block_cases(2) [OF this t(1)] st show ?thesis
    by (auto simp: download_get_status_def hm_simps)
qed

theorem repaired_failures_still_count_witness:
  "\<exists>m'. download_run id [DoFail 1 ''f'' 0 [], DoComplete 2 ''f'' 0 [7], DoFail 3 ''f'' 1 [], DoComplete 4 ''f'' 1 [8], DoFail 5 ''f'' 2 []]
      (fst (create_task 0 ''f'' sample_dl_manifest [(0, []), (1, []), (2, []), (3, [])] download_new)) = Some m'
    \<and> (\<exists>msg. download_get_status m' ''f'' = Some (DlFailed msg))"
proof -
  let ?ops = "[DoFail 1 ''f'' 0 [], DoComplete 2 ''f'' 0 [7], DoFail 3 ''f'' 1 [], DoComplete 4 ''f'' 1 [8]]"
  let ?m = "fst (create_task 0 ''f'' sample_dl_manifest [(0, []), (1, []), (2, []), (3, [])] download_new)"
  have "download_run id (?ops @ [DoFail 5 ''f'' 2 []]) ?m \<noteq> None"
    by (rule sourced_downloads_never_panic) (auto simp: sourced_def create_task_def internal_task_new_def
        download_new_def hm_simps hm_len_Cons Let_def split: if_splits)
  then obtain m' where m': "download_run id (?ops @ [DoFail 5 ''f'' 2 []]) ?m = Some m'" by auto
  have "insert 2 (\<Union>op \<in> set ?ops. fails ''f'' op) = {0, 1, 2 :: u32}" by auto
  then have "\<exists>msg. download_get_status m' ''f'' = Some (DlFailed msg)"
    by (intro repaired_failures_still_count [OF refl _ m']) auto
  with m' show ?thesis by auto
qed

end
