(* ===== verification/Handshake.thy ===== *)
theory Handshake
  imports NodeId Wire
begin

text \<open>
  The handshake (\<open>src/vpn/handshake.rs\<close>): message tags, timestamped payloads, the phases of
  initiator and responder, and the whole exchange. The Noise library is the record
  \<open>noise_env\<close> of the results of its calls; its states have the type \<open>'n\<close>. The clock is an
  argument.
\<close>

section \<open>Errors, tags and payloads\<close>

definition noise_protocol :: string where
  "noise_protocol = ''Noise_IK_25519_AESGCM_SHA256''"

definition hs_key_rotation_secs :: u64 where
  "hs_key_rotation_secs = 86400"

definition replay_window_secs :: u64 where
  "replay_window_secs = 60"

text \<open>An error of the Noise library is its text.\<close>

datatype handshake_error =
    SnowError string
  | InvalidState string
  | ReplayDetected u64
  | TimestampExpired u64 u64
  | HsInvalidData string

fun handshake_error_display :: "handshake_error \<Rightarrow> string" where
  "handshake_error_display (SnowError e) = ''noise error: '' @ e"
| "handshake_error_display (InvalidState m) = ''invalid state: '' @ m"
| "handshake_error_display (ReplayDetected ts) = ''replay detected at timestamp: '' @ show_nat (unat ts)"
| "handshake_error_display (TimestampExpired ts now) =
     ''timestamp expired: '' @ show_nat (unat ts) @ '' (now: '' @ show_nat (unat now) @ '')''"
| "handshake_error_display (HsInvalidData m) = ''invalid data: '' @ m"

datatype handshake_msg_type = Hello | HelloAck | HsData

definition handshake_type_from_u8 :: "byte \<Rightarrow> handshake_msg_type option" where
  "handshake_type_from_u8 b =
     (if b = 0x01 then Some Hello
      else if b = 0x02 then Some HelloAck
      else if b = 0x03 then Some HsData
      else None)"

fun handshake_type_to_u8 :: "handshake_msg_type \<Rightarrow> byte" where
  "handshake_type_to_u8 Hello = 0x01"
| "handshake_type_to_u8 HelloAck = 0x02"
| "handshake_type_to_u8 HsData = 0x03"

interpretation hst: wire_tag handshake_type_to_u8 handshake_type_from_u8
proof unfold_locales
  fix t b
  show "handshake_type_from_u8 (handshake_type_to_u8 t) = Some t"
    by (cases t) (simp_all add: handshake_type_from_u8_def)
  show "handshake_type_from_u8 b = Some t \<Longrightarrow> handshake_type_to_u8 t = b"
    by (auto simp: handshake_type_from_u8_def split: if_splits)
qed

datatype handshake_phase = PhInit | HelloSent | HelloReceived | HelloAckReceived | PhEstablished | PhFailed

record timestamped_payload =
  tp_timestamp :: u64
  tp_payload :: bytes

definition timestamped_new :: "u64 \<Rightarrow> bytes \<Rightarrow> timestamped_payload" where
  "timestamped_new now p = \<lparr>tp_timestamp = now, tp_payload = p\<rparr>"

definition timestamped_to_bytes :: "timestamped_payload \<Rightarrow> bytes" where
  "timestamped_to_bytes p = to_be 8 (unat (tp_timestamp p)) @ tp_payload p"

definition timestamped_from_bytes :: "bytes \<Rightarrow> timestamped_payload option" where
  "timestamped_from_bytes d =
     (if length d < 8 then None
      else Some \<lparr>tp_timestamp = of_nat (of_be (take 8 d)), tp_payload = drop 8 d\<rparr>)"

text \<open>The sum wraps as in a release build.\<close>

definition timestamped_validate :: "u64 \<Rightarrow> timestamped_payload \<Rightarrow> handshake_error + unit" where
  "timestamped_validate now p =
     (if tp_timestamp p + replay_window_secs < now then Inl (TimestampExpired (tp_timestamp p) now) else Inr ())"

section \<open>The two sides\<close>

record 'n noise_env =
  nz_generate_keypair :: "string + bytes \<times> bytes"
  nz_build_initiator :: "bytes \<Rightarrow> bytes \<Rightarrow> string + 'n"
  nz_build_responder :: "bytes \<Rightarrow> string + 'n"

record 'n handshake_initiator =
  hi_node_id :: node_id
  hi_remote_public_key :: bytes
  hi_noise_state :: "'n option"
  hi_phase :: handshake_phase
  hi_used_timestamps :: "u64 list"

definition initiator_new :: "node_id \<Rightarrow> bytes \<Rightarrow> 'n handshake_initiator" where
  "initiator_new i key =
     \<lparr>hi_node_id = i, hi_remote_public_key = key, hi_noise_state = None, hi_phase = PhInit, hi_used_timestamps = []\<rparr>"

definition start_handshake ::
  "'n noise_env \<Rightarrow> 'n handshake_initiator \<Rightarrow> 'n handshake_initiator \<times> (handshake_error + bytes)" where
  "start_handshake env h =
     (case nz_generate_keypair env of
        Inl e \<Rightarrow> (h, Inl (SnowError e))
      | Inr (priv, pub) \<Rightarrow>
          (case nz_build_initiator env priv (hi_remote_public_key h) of
             Inl e \<Rightarrow> (h, Inl (SnowError e))
           | Inr st \<Rightarrow>
               (h\<lparr>hi_noise_state := Some st, hi_phase := HelloSent\<rparr>, Inr (handshake_type_to_u8 Hello # pub))))"

definition check_replay :: "u64 list \<Rightarrow> u64 \<Rightarrow> handshake_error + unit" where
  "check_replay used ts = (if ts \<in> set used then Inl (ReplayDetected ts) else Inr ())"

text \<open>The checks of a payload that carries a timestamp, with the used timestamps after them.\<close>

definition check_timestamped :: "u64 \<Rightarrow> u64 list \<Rightarrow> bytes \<Rightarrow> handshake_error + u64 list" where
  "check_timestamped now used d =
     (case timestamped_from_bytes d of
        None \<Rightarrow> Inr used
      | Some t \<Rightarrow>
          (case timestamped_validate now t of
             Inl e \<Rightarrow> Inl e
           | Inr _ \<Rightarrow>
               (case check_replay used (tp_timestamp t) of
                  Inl e \<Rightarrow> Inl e
                | Inr _ \<Rightarrow> Inr (used @ [tp_timestamp t]))))"

definition handle_hello_ack ::
  "u64 \<Rightarrow> bytes \<Rightarrow> 'n handshake_initiator \<Rightarrow> 'n handshake_initiator \<times> (handshake_error + bytes)" where
  "handle_hello_ack now msg h =
     (if hi_phase h \<noteq> HelloSent then (h, Inl (InvalidState ''expected HelloSent phase''))
      else if length msg < 1 \<or> msg ! 0 \<noteq> handshake_type_to_u8 HelloAck
      then (h, Inl (HsInvalidData ''invalid HelloACK message''))
      else
        (case check_timestamped now (hi_used_timestamps h) (drop 1 msg) of
           Inl e \<Rightarrow> (h, Inl e)
         | Inr used \<Rightarrow>
             (h\<lparr>hi_used_timestamps := used, hi_phase := HelloAckReceived\<rparr>,
              Inr (handshake_type_to_u8 HsData
                   # timestamped_to_bytes (timestamped_new now (as_bytes (hi_node_id h)))))))"

definition initiator_complete :: "'n handshake_initiator \<Rightarrow> 'n handshake_initiator \<times> (handshake_error + unit)" where
  "initiator_complete h =
     (if hi_phase h \<noteq> HelloAckReceived then (h, Inl (InvalidState ''handshake not completed''))
      else (h\<lparr>hi_phase := PhEstablished\<rparr>, Inr ()))"

record 'n handshake_responder =
  hr_node_id :: node_id
  hr_private_key :: bytes
  hr_noise_state :: "'n option"
  hr_phase :: handshake_phase
  hr_used_timestamps :: "u64 list"

definition responder_new :: "node_id \<Rightarrow> bytes \<Rightarrow> 'n handshake_responder" where
  "responder_new i key =
     \<lparr>hr_node_id = i, hr_private_key = key, hr_noise_state = None, hr_phase = PhInit, hr_used_timestamps = []\<rparr>"

definition handle_hello ::
  "'n noise_env \<Rightarrow> u64 \<Rightarrow> bytes \<Rightarrow> 'n handshake_responder \<Rightarrow> 'n handshake_responder \<times> (handshake_error + bytes)" where
  "handle_hello env now msg h =
     (if hr_phase h \<noteq> PhInit then (h, Inl (InvalidState ''expected Init phase''))
      else if length msg < 1 \<or> msg ! 0 \<noteq> handshake_type_to_u8 Hello
      then (h, Inl (HsInvalidData ''invalid Hello message''))
      else
        (case nz_build_responder env (hr_private_key h) of
           Inl e \<Rightarrow> (h, Inl (SnowError e))
         | Inr st \<Rightarrow>
             (h\<lparr>hr_noise_state := Some st, hr_phase := HelloReceived\<rparr>,
              Inr (handshake_type_to_u8 HelloAck
                   # timestamped_to_bytes (timestamped_new now (as_bytes (hr_node_id h)))))))"

definition handle_data :: "u64 \<Rightarrow> bytes \<Rightarrow> 'n handshake_responder \<Rightarrow> 'n handshake_responder \<times> (handshake_error + unit)" where
  "handle_data now msg h =
     (if hr_phase h \<noteq> HelloReceived then (h, Inl (InvalidState ''expected HelloReceived phase''))
      else if length msg < 1 \<or> msg ! 0 \<noteq> handshake_type_to_u8 HsData
      then (h, Inl (HsInvalidData ''invalid Data message''))
      else
        (case check_timestamped now (hr_used_timestamps h) (drop 1 msg) of
           Inl e \<Rightarrow> (h, Inl e)
         | Inr used \<Rightarrow> (h\<lparr>hr_used_timestamps := used, hr_phase := PhEstablished\<rparr>, Inr ())))"

text \<open>
  \<open>perform_handshake\<close>: the exchange between two fresh sides, with the clock of each step. The
  two sides generate keys of their own: \<open>env\<close> serves the responder, \<open>env'\<close> the initiator. The
  assertions on the phases hold at every step (lemma \<open>perform_handshake_phases\<close>).
\<close>

definition perform_handshake ::
  "'n noise_env \<Rightarrow> 'n noise_env \<Rightarrow> u64 \<Rightarrow> u64 \<Rightarrow> u64 \<Rightarrow> node_id \<Rightarrow> node_id
   \<Rightarrow> handshake_error + handshake_phase \<times> handshake_phase" where
  "perform_handshake env env' t1 t2 t3 initiator_id responder_id =
     (case nz_generate_keypair env of
        Inl e \<Rightarrow> Inl (SnowError e)
      | Inr (priv, pub) \<Rightarrow>
          let initiator = initiator_new initiator_id pub; responder = responder_new responder_id priv in
          case start_handshake env' initiator of
            (_, Inl e) \<Rightarrow> Inl e
          | (initiator, Inr hello) \<Rightarrow>
          case handle_hello env t1 hello responder of
            (_, Inl e) \<Rightarrow> Inl e
          | (responder, Inr ack) \<Rightarrow>
          case handle_hello_ack t2 ack initiator of
            (_, Inl e) \<Rightarrow> Inl e
          | (initiator, Inr data) \<Rightarrow>
          case handle_data t3 data responder of
            (_, Inl e) \<Rightarrow> Inl e
          | (responder, Inr _) \<Rightarrow>
          case initiator_complete initiator of
            (_, Inl e) \<Rightarrow> Inl e
          | (initiator, Inr _) \<Rightarrow> Inr (hi_phase initiator, hr_phase responder))"

section \<open>Payloads\<close>

lemma timestamped_roundtrip: "timestamped_from_bytes (timestamped_to_bytes p) = Some p"
proof -
  have "unat (tp_timestamp p) < 256 ^ 8" using unsigned_less [of "tp_timestamp p"] by simp
  then show ?thesis by (simp add: timestamped_from_bytes_def timestamped_to_bytes_def of_be_to_be_id)
qed

section \<open>What the handshake establishes\<close>

text \<open>C28. An attacker who knows no key takes a responder to the established phase: after
  any HELLO, the single byte 0x03 is accepted as the DATA message, without a
  timestamp, an identity or a byte of the Noise protocol; and neither answer nor phase
  depends on the private key of the responder.\<close>

theorem keyless_peer_is_established:
  assumes "\<And>k. \<exists>st. nz_build_responder env k = Inr st"
  shows "\<exists>h1 h2 ack. handle_hello env now (handshake_type_to_u8 Hello # junk) (responder_new i key) = (h1, Inr ack)
    \<and> handle_data now' [0x03] h1 = (h2, Inr ()) \<and> hr_phase h2 = PhEstablished
    \<and> snd (handle_hello env now (handshake_type_to_u8 Hello # junk) (responder_new i key')) = Inr ack"
proof -
  obtain st st' where "nz_build_responder env key = Inr st" "nz_build_responder env key' = Inr st'"
    using assms by metis
  then show ?thesis
    by (simp add: handle_hello_def responder_new_def handle_data_def check_timestamped_def timestamped_from_bytes_def)
qed

definition sample_noise :: "unit noise_env" where
  "sample_noise = \<lparr>nz_generate_keypair = Inr ([1], [2]), nz_build_initiator = \<lambda>_ _. Inr (), nz_build_responder = \<lambda>_. Inr ()\<rparr>"

theorem keyless_peer_is_established_witness:
  "\<exists>h1 h2 ack. handle_hello sample_noise 100 [0x01] (responder_new (fill32 1) [7]) = (h1, Inr ack)
    \<and> handle_data 100 [0x03] h1 = (h2, Inr ()) \<and> hr_phase h2 = PhEstablished"
  using keyless_peer_is_established [of sample_noise 100 "[]" "fill32 1" "[7]" 100 "[8]"]
  by (auto simp: sample_noise_def)

text \<open>The replay error is never returned: the list of used timestamps is empty whenever a
  side is still in the phase in which it checks it.\<close>

definition responder_fresh :: "'n handshake_responder \<Rightarrow> bool" where
  "responder_fresh h \<longleftrightarrow> (hr_phase h \<in> {PhInit, HelloReceived} \<longrightarrow> hr_used_timestamps h = [])"

datatype responder_op = OnHello u64 bytes | OnData u64 bytes

fun responder_step :: "'n noise_env \<Rightarrow> responder_op \<Rightarrow> 'n handshake_responder \<Rightarrow> 'n handshake_responder" where
  "responder_step env (OnHello now m) h = fst (handle_hello env now m h)"
| "responder_step env (OnData now m) h = fst (handle_data now m h)"

interpretation resp: op_machine "responder_step (env :: 'n noise_env)" responder_fresh
proof
  fix e and s :: "'n handshake_responder"
  assume "responder_fresh s"
  then show "responder_fresh (responder_step env e s)"
    by (cases e) (auto simp: responder_fresh_def handle_hello_def handle_data_def split: sum.split)
qed

text \<open>The documented replay protection does nothing: whatever messages a responder has
  handled, no message makes it report a replay. A HELLO or DATA recorded from another
  handshake is accepted within its 60 seconds, and one from the future always.\<close>

theorem replay_never_detected:
  "snd (handle_data now m (fold (responder_step env) ops (responder_new i key))) \<noteq> Inl (ReplayDetected ts)"
proof -
  have "responder_fresh (responder_new i key)" by (simp add: responder_fresh_def responder_new_def)
  from resp.run_inv [OF this, of env ops] show ?thesis
    by (auto simp: responder_fresh_def handle_data_def check_timestamped_def timestamped_validate_def check_replay_def
        split: option.splits if_splits)
qed

text \<open>When the Noise library builds its states and the clock does not run more than sixty
  seconds ahead between the steps, the exchange ends with both sides established.\<close>

theorem handshake_completes:
  assumes "nz_generate_keypair env = Inr (priv, pub)" and "nz_generate_keypair env' = Inr (priv', pub')"
    and "nz_build_initiator env' priv' pub = Inr a"
    and "nz_build_responder env priv = Inr b"
    and "t2 \<le> t1 + replay_window_secs" and "t3 \<le> t2 + replay_window_secs"
  shows "perform_handshake env env' t1 t2 t3 i j = Inr (PhEstablished, PhEstablished)"
  using assms
  by (simp add: perform_handshake_def start_handshake_def initiator_new_def handle_hello_def responder_new_def
      handle_hello_ack_def handle_data_def initiator_complete_def check_timestamped_def timestamped_roundtrip
      timestamped_validate_def check_replay_def timestamped_new_def Let_def not_less)

theorem handshake_completes_witness:
  "perform_handshake sample_noise sample_noise 100 130 190 (fill32 1) (fill32 2) = Inr (PhEstablished, PhEstablished)"
  by (rule handshake_completes) (simp_all add: sample_noise_def replay_window_secs_def)

lemma perform_handshake_phases:
  "start_handshake env h = (h1, Inr m) \<Longrightarrow> hi_phase h1 = HelloSent"
  "handle_hello env t m r = (r1, Inr a) \<Longrightarrow> hr_phase r1 = HelloReceived"
  "handle_hello_ack t a h = (h2, Inr d) \<Longrightarrow> hi_phase h2 = HelloAckReceived"
  "handle_data t d r = (r2, Inr u) \<Longrightarrow> hr_phase r2 = PhEstablished"
  "initiator_complete h = (h3, Inr v) \<Longrightarrow> hi_phase h3 = PhEstablished"
  by (auto simp: start_handshake_def handle_hello_def handle_hello_ack_def handle_data_def initiator_complete_def
      split: if_splits sum.splits)

end
