(* ===== verification/Json.thy ===== *)
theory Json
  imports Prelude
begin

text \<open>
  JSON values (\<open>serde_json::Value\<close>) as far as the code looks into them: indexing an object
  with a key, which gives \<open>Null\<close> for everything else, and the conversions \<open>as_str\<close>,
  \<open>as_u64\<close> and \<open>as_array\<close>. The parser and the printer of the library are parameters where
  they are used.
\<close>

datatype json =
    JNull
  | JBool bool
  | JUnsigned u64
  | JOtherNumber
  | JString string
  | JArray "json list"
  | JObject "(string \<times> json) list"

fun json_index :: "json \<Rightarrow> string \<Rightarrow> json" where
  "json_index (JObject m) k = (case map_of m k of None \<Rightarrow> JNull | Some v \<Rightarrow> v)"
| "json_index _ k = JNull"

fun json_str :: "json \<Rightarrow> string option" where
  "json_str (JString s) = Some s"
| "json_str _ = None"

fun json_u64 :: "json \<Rightarrow> u64 option" where
  "json_u64 (JUnsigned n) = Some n"
| "json_u64 _ = None"

fun json_array :: "json \<Rightarrow> json list option" where
  "json_array (JArray vs) = Some vs"
| "json_array _ = None"

end
