(* ===== verification/Bootstrap.thy ===== *)
theory Bootstrap
  imports Address Json Text Wire
begin

text \<open>
  Bootstrapping (\<open>src/vpn/bootstrap.rs\<close>): the configuration from JSON or the simple YAML,
  sorted by priority, the bootstrap manager, and the codec of the requests. Connecting to a
  bootstrap node is a stub of the code that returns no nodes; it is modelled as it is. The
  JSON parser is a parameter.
\<close>

section \<open>Configuration\<close>

definition default_bootstrap_port :: u16 where
  "default_bootstrap_port = 9876"

definition bootstrap_timeout_secs :: nat where
  "bootstrap_timeout_secs = 10"

datatype bootstrap_error =
  ConfigError string | ConnectionFailed string | HandshakeFailed string | BootTimeout | AllNodesUnreachable

fun bootstrap_error_display :: "bootstrap_error \<Rightarrow> string" where
  "bootstrap_error_display (ConfigError m) = ''config error: '' @ m"
| "bootstrap_error_display (ConnectionFailed m) = ''connection failed: '' @ m"
| "bootstrap_error_display (HandshakeFailed m) = ''handshake failed: '' @ m"
| "bootstrap_error_display BootTimeout = ''bootstrap timeout''"
| "bootstrap_error_display AllNodesUnreachable = ''all bootstrap nodes unreachable''"

record bootstrap_node =
  bn_host :: string
  bn_port :: u16
  bn_priority :: u32

definition boot_node_new :: "string \<Rightarrow> u16 \<Rightarrow> bootstrap_node" where
  "boot_node_new host port = \<lparr>bn_host = host, bn_port = port, bn_priority = 0\<rparr>"

definition boot_node_with_priority :: "string \<Rightarrow> u16 \<Rightarrow> u32 \<Rightarrow> bootstrap_node" where
  "boot_node_with_priority host port pr = \<lparr>bn_host = host, bn_port = port, bn_priority = pr\<rparr>"

definition boot_node_addr :: "bootstrap_node \<Rightarrow> string" where
  "boot_node_addr n = bn_host n @ '':'' @ show_nat (unat (bn_port n))"

record bootstrap_config =
  bc_nodes :: "bootstrap_node list"
  bc_timeout :: duration

definition config_new :: bootstrap_config where
  "config_new = \<lparr>bc_nodes = [], bc_timeout = from_secs bootstrap_timeout_secs\<rparr>"

text \<open>One element of the array; \<open>as u16\<close> and \<open>as u32\<close> cut the number.\<close>

definition u64_or :: "u64 \<Rightarrow> json \<Rightarrow> u64" where
  "u64_or d v = (case json_u64 v of None \<Rightarrow> d | Some n \<Rightarrow> n)"

definition node_of_json :: "nat \<Rightarrow> json \<Rightarrow> bootstrap_error + bootstrap_node" where
  "node_of_json i v =
     (case json_str (json_index v ''host'') of
        None \<Rightarrow> Inl (ConfigError ''missing host'')
      | Some host \<Rightarrow>
          Inr (boot_node_with_priority host
                 (ucast (u64_or (ucast default_bootstrap_port) (json_index v ''port'')))
                 (ucast (u64_or (of_nat i) (json_index v ''priority'')))))"

fun nodes_of_json :: "nat \<Rightarrow> json list \<Rightarrow> bootstrap_error + bootstrap_node list" where
  "nodes_of_json i [] = Inr []"
| "nodes_of_json i (v # vs) =
     (case node_of_json i v of
        Inl e \<Rightarrow> Inl e
      | Inr n \<Rightarrow> (case nodes_of_json (Suc i) vs of Inl e \<Rightarrow> Inl e | Inr ns \<Rightarrow> Inr (n # ns)))"

definition sort_nodes :: "bootstrap_node list \<Rightarrow> bootstrap_node list" where
  "sort_nodes ns = sort_key bn_priority ns"

definition config_from_json :: "(string \<Rightarrow> string + json) \<Rightarrow> string \<Rightarrow> bootstrap_error + bootstrap_config" where
  "config_from_json parse_json text =
     (case parse_json text of
        Inl e \<Rightarrow> Inl (ConfigError e)
      | Inr v \<Rightarrow>
          (case json_array (json_index (json_index v ''bootstrap'') ''nodes'') of
             None \<Rightarrow> Inr (config_new\<lparr>bc_nodes := sort_nodes []\<rparr>)
           | Some vs \<Rightarrow>
               (case nodes_of_json 0 vs of
                  Inl e \<Rightarrow> Inl e
                | Inr ns \<Rightarrow> Inr (config_new\<lparr>bc_nodes := sort_nodes ns\<rparr>))))"

text \<open>One line of the YAML text, over the nodes, the current host and the current port.\<close>

definition yaml_line :: "string \<Rightarrow> bootstrap_node list \<times> string option \<times> u16 \<Rightarrow> bootstrap_node list \<times> string option \<times> u16" where
  "yaml_line raw = (\<lambda>(ns, host, port).
     let line = trim_text raw in
     if starts_with line ''- host:'' then
       let (ns, port) = (case host of None \<Rightarrow> (ns, port) | Some h \<Rightarrow> (ns @ [boot_node_new h port], default_bootstrap_port))
       in (ns, Some (trim_matches (CHR 0x22) (trim_text (trim_start_matches line ''- host:''))), port)
     else if starts_with line ''port:'' then
       (case parse_u16 (trim_text (trim_start_matches line ''port:'')) of
          None \<Rightarrow> (ns, host, port)
        | Some p \<Rightarrow> (ns, host, p))
     else (ns, host, port))"

definition config_from_yaml_simple :: "string \<Rightarrow> bootstrap_config" where
  "config_from_yaml_simple yaml =
     (let (ns, host, port) = fold yaml_line (text_lines yaml) ([], None, default_bootstrap_port)
      in config_new\<lparr>bc_nodes := (case host of None \<Rightarrow> ns | Some h \<Rightarrow> ns @ [boot_node_new h port])\<rparr>)"

definition config_add_node :: "bootstrap_node \<Rightarrow> bootstrap_config \<Rightarrow> bootstrap_config" where
  "config_add_node n c = c\<lparr>bc_nodes := sort_nodes (bc_nodes c @ [n])\<rparr>"

definition config_node_count :: "bootstrap_config \<Rightarrow> nat" where
  "config_node_count c = length (bc_nodes c)"

section \<open>The manager\<close>

record boot_known_node =
  kn_id :: node_id
  kn_name :: string
  kn_addr :: string
  kn_discovered_at :: instant
  kn_source :: string

record bootstrap_manager =
  bm_local_id :: node_id
  bm_local_name :: string
  bm_config :: bootstrap_config
  bm_known_nodes :: "(node_id, boot_known_node) hashmap"
  bm_connected :: "string list"

definition boot_manager_new :: "node_id \<Rightarrow> string \<Rightarrow> bootstrap_config \<Rightarrow> bootstrap_manager" where
  "boot_manager_new i n c =
     \<lparr>bm_local_id = i, bm_local_name = n, bm_config = c, bm_known_nodes = hm_empty, bm_connected = []\<rparr>"

text \<open>The stub of the connection: it returns no nodes.\<close>

definition connect_to_bootstrap_node :: "bootstrap_node \<Rightarrow> bootstrap_error + boot_known_node list" where
  "connect_to_bootstrap_node n = Inr []"

fun try_nodes :: "bootstrap_node list \<Rightarrow> boot_known_node list \<times> string list \<Rightarrow> boot_known_node list \<times> string list" where
  "try_nodes [] acc = acc"
| "try_nodes (n # ns) (found, connected) =
     (case connect_to_bootstrap_node n of
        Inl e \<Rightarrow> try_nodes ns (found, connected)
      | Inr nodes \<Rightarrow> try_nodes ns (found @ nodes, connected @ [boot_node_addr n]))"

definition run_bootstrap :: "bootstrap_manager \<Rightarrow> bootstrap_manager \<times> (bootstrap_error + boot_known_node list)" where
  "run_bootstrap m =
     (if bc_nodes (bm_config m) = [] then (m, Inl (ConfigError ''no bootstrap nodes configured''))
      else
        let (found, connected) = try_nodes (bc_nodes (bm_config m)) ([], bm_connected m);
            m = m\<lparr>bm_connected := connected\<rparr>
        in if found = [] \<and> bc_nodes (bm_config m) \<noteq> [] then (m, Inl AllNodesUnreachable) else (m, Inr found))"

definition boot_add_known_node :: "boot_known_node \<Rightarrow> bootstrap_manager \<Rightarrow> bootstrap_manager" where
  "boot_add_known_node n m = m\<lparr>bm_known_nodes := hm_insert (kn_id n) n (bm_known_nodes m)\<rparr>"

definition boot_remove_known_node :: "node_id \<Rightarrow> bootstrap_manager \<Rightarrow> bootstrap_manager \<times> boot_known_node option" where
  "boot_remove_known_node i m = (m\<lparr>bm_known_nodes := hm_remove i (bm_known_nodes m)\<rparr>, hm_get (bm_known_nodes m) i)"

definition boot_get_known_node :: "node_id \<Rightarrow> bootstrap_manager \<Rightarrow> boot_known_node option" where
  "boot_get_known_node i m = hm_get (bm_known_nodes m) i"

definition boot_get_all_known_nodes :: "bootstrap_manager \<Rightarrow> boot_known_node list" where
  "boot_get_all_known_nodes m = hm_values (bm_known_nodes m)"

definition boot_known_node_count :: "bootstrap_manager \<Rightarrow> nat" where
  "boot_known_node_count m = hm_len (bm_known_nodes m)"

text \<open>Only logs: nothing is sent.\<close>

definition broadcast_node_list :: "bootstrap_manager \<Rightarrow> bootstrap_error + unit" where
  "broadcast_node_list m = Inr ()"

definition is_bootstrapped :: "bootstrap_manager \<Rightarrow> bool" where
  "is_bootstrapped m \<longleftrightarrow> bm_connected m \<noteq> []"

section \<open>Requests\<close>

datatype bootstrap_request_type = GetNodeList | ReportNode | NodeListResponse

definition boot_type_from_u8 :: "byte \<Rightarrow> bootstrap_request_type option" where
  "boot_type_from_u8 b =
     (if b = 0x01 then Some GetNodeList
      else if b = 0x02 then Some ReportNode
      else if b = 0x03 then Some NodeListResponse
      else None)"

fun boot_type_to_u8 :: "bootstrap_request_type \<Rightarrow> byte" where
  "boot_type_to_u8 GetNodeList = 0x01"
| "boot_type_to_u8 ReportNode = 0x02"
| "boot_type_to_u8 NodeListResponse = 0x03"

interpretation bootT: wire_tag boot_type_to_u8 boot_type_from_u8
proof unfold_locales
  fix t b
  show "boot_type_from_u8 (boot_type_to_u8 t) = Some t"
    by (cases t) (simp_all add: boot_type_from_u8_def)
  show "boot_type_from_u8 b = Some t \<Longrightarrow> boot_type_to_u8 t = b"
    by (auto simp: boot_type_from_u8_def split: if_splits)
qed

record bootstrap_request =
  br_request_type :: bootstrap_request_type
  br_sender_id :: node_id
  br_sender_name :: string
  br_timestamp :: u64

definition boot_request_to_bytes :: "bootstrap_request \<Rightarrow> bytes" where
  "boot_request_to_bytes r =
     (let name_bytes = str_bytes (br_sender_name r)
      in [boot_type_to_u8 (br_request_type r)] @ as_bytes (br_sender_id r) @ [of_nat (length name_bytes)]
         @ name_bytes @ to_be 8 (unat (br_timestamp r)))"

definition boot_request_from_bytes :: "bytes \<Rightarrow> bootstrap_request option" where
  "boot_request_from_bytes d =
     (if length d < 1 + 32 + 1 + 8 then None
      else case boot_type_from_u8 (d ! 0) of
        None \<Rightarrow> None
      | Some t \<Rightarrow>
          let name_len = unat (d ! 33) in
          if length d < 34 + name_len + 8 then None
          else case from_utf8 (sub_slice d 34 (34 + name_len)) of
            None \<Rightarrow> None
          | Some n \<Rightarrow>
              Some \<lparr>br_request_type = t, br_sender_id = B32 (sub_slice d 1 33), br_sender_name = n,
                    br_timestamp = of_nat (of_be (sub_slice d (34 + name_len) (42 + name_len)))\<rparr>)"

section \<open>Requests round-trip\<close>

text \<open>A bootstrap request whose sender name has at most 255 bytes is read back from its
  bytes, whatever follows them.\<close>

theorem bootstrap_request_roundtrip:
  assumes "length (br_sender_name r) \<le> 255" and "utf8_valid (str_bytes (br_sender_name r))"
  shows "boot_request_from_bytes (boot_request_to_bytes r @ rest) = Some r"
proof -
  let ?n = "length (br_sender_name r)" and ?d = "boot_request_to_bytes r @ rest"
  have l: "length (str_bytes (br_sender_name r)) = ?n" by (simp add: str_bytes_def)
  have d: "?d = [boot_type_to_u8 (br_request_type r)] @ as_bytes (br_sender_id r) @ [of_nat ?n]
      @ str_bytes (br_sender_name r) @ to_be 8 (unat (br_timestamp r)) @ rest"
    by (simp add: boot_request_to_bytes_def Let_def l)
  have len: "length ?d = 42 + ?n + length rest" by (simp add: d l)
  have t: "boot_type_from_u8 (?d ! 0) = Some (br_request_type r)" by (simp add: d bootT.from_to)
  have n: "unat (?d ! 33) = ?n"
    using assms(1) by (simp add: d nth_append unat_of_nat take_bit_nat_eq_self)
  have drop34: "drop 34 ?d = str_bytes (br_sender_name r) @ to_be 8 (unat (br_timestamp r)) @ rest" by (simp add: d)
  have name: "sub_slice ?d 34 (34 + ?n) = str_bytes (br_sender_name r)" unfolding sub_slice_def drop34 by (simp add: l)
  have "drop (34 + ?n) ?d = drop ?n (drop 34 ?d)" by (simp only: drop_drop add.commute)
  also have "\<dots> = to_be 8 (unat (br_timestamp r)) @ rest" unfolding drop34 by (simp add: l)
  finally have ts: "sub_slice ?d (34 + ?n) (42 + ?n) = to_be 8 (unat (br_timestamp r))" by (simp add: sub_slice_def)
  have i: "sub_slice ?d 1 33 = as_bytes (br_sender_id r)" by (simp add: d sub_slice_def)
  have "unat (br_timestamp r) < 256 ^ 8" using unsigned_less [of "br_timestamp r"] by simp
  then show ?thesis
    unfolding boot_request_from_bytes_def Let_def t n name ts i len
    by (simp add: from_utf8_str_bytes assms(2) of_be_to_be_id)
qed

theorem bootstrap_request_roundtrip_witness:
  "boot_request_from_bytes (boot_request_to_bytes \<lparr>br_request_type = ReportNode, br_sender_id = fill32 7,
       br_sender_name = ''n'', br_timestamp = 1000\<rparr> @ [1])
   = Some \<lparr>br_request_type = ReportNode, br_sender_id = fill32 7, br_sender_name = ''n'', br_timestamp = 1000\<rparr>"
  by (rule bootstrap_request_roundtrip) (simp_all add: str_bytes_def)

section \<open>The order of the nodes\<close>

definition by_priority :: "bootstrap_config \<Rightarrow> bool" where
  "by_priority c \<longleftrightarrow> sorted (map bn_priority (bc_nodes c))"

interpretation bconf: op_machine config_add_node by_priority
  by unfold_locales (simp add: by_priority_def config_add_node_def sort_nodes_def)

lemma yaml_priorities:
  assumes "\<forall>n \<in> set ns. bn_priority n = 0"
  shows "\<forall>n \<in> set (fst (fold yaml_line ls (ns, host, port))). bn_priority n = 0"
  using assms
proof (induction ls arbitrary: ns host port)
  case (Cons l ls)
  obtain ns' host' port' where y: "yaml_line l (ns, host, port) = (ns', host', port')" using prod_cases3 by blast
  then have "\<forall>n \<in> set ns'. bn_priority n = 0"
    using Cons.prems by (auto simp: yaml_line_def boot_node_new_def Let_def split: if_splits option.splits)
  with Cons.IH y show ?case by simp
qed simp

lemma yaml_by_priority: "by_priority (config_from_yaml_simple text)"
proof -
  obtain ns host port where f: "fold yaml_line (text_lines text) ([], None, default_bootstrap_port) = (ns, host, port)"
    using prod_cases3 by blast
  with yaml_priorities [of "[]" "text_lines text" None default_bootstrap_port]
  have "\<forall>n \<in> set ns. bn_priority n = 0" by simp
  then have "map bn_priority ns = replicate (length ns) 0" by (induction ns) auto
  then show ?thesis
    by (auto simp: by_priority_def config_from_yaml_simple_def f boot_node_new_def sorted_append split: option.split)
qed

text \<open>Any additions leave the nodes sorted, and nodes of one priority in the order they came in.\<close>

definition prio_nodes :: "u32 \<Rightarrow> bootstrap_node list \<Rightarrow> bootstrap_node list" where
  "prio_nodes p ns = filter (\<lambda>n. bn_priority n = p) ns"

lemma prio_sorted: "prio_nodes p (sort_nodes ns) = prio_nodes p ns"
  unfolding prio_nodes_def sort_nodes_def by (rule sort_key_stable)

lemma prio_added: "prio_nodes p (bc_nodes (fold config_add_node ns c)) = prio_nodes p (bc_nodes c @ ns)"
proof (induction ns arbitrary: c)
  case (Cons n ns)
  have "prio_nodes p (bc_nodes (config_add_node n c)) = prio_nodes p (bc_nodes c @ [n])"
    by (simp add: config_add_node_def prio_sorted)
  with Cons show ?case by (simp add: prio_nodes_def)
qed simp

lemma nodes_of_json_each:
  "nodes_of_json k vs = Inr nodes \<Longrightarrow>
     length nodes = length vs \<and> (\<forall>i < length vs. node_of_json (k + i) (vs ! i) = Inr (nodes ! i))"
proof (induction k vs arbitrary: nodes rule: nodes_of_json.induct)
  case (2 k v vs)
  then obtain n ns where n: "node_of_json k v = Inr n" "nodes_of_json (Suc k) vs = Inr ns" "nodes = n # ns"
    by (auto split: sum.splits)
  with 2 show ?case by (auto simp: nth_Cons split: nat.split)
qed simp

text \<open>C39. However a configuration is made, its nodes are in the order of their
  priorities, from JSON, from YAML, and after any additions, and nodes of one priority
  keep the order in which they came: for any JSON document that is accepted these are
  the elements of its array at bootstrap, nodes, each read by itself, then the added
  ones.\<close>

theorem bootstrap_order:
  assumes "parse_json text = Inr v" and "config_from_json parse_json text = Inr c"
    and "vs = (case json_array (json_index (json_index v ''bootstrap'') ''nodes'') of None \<Rightarrow> [] | Some vs \<Rightarrow> vs)"
  shows "\<exists>nodes. length nodes = length vs \<and> (\<forall>i < length vs. node_of_json i (vs ! i) = Inr (nodes ! i))
      \<and> by_priority (fold config_add_node ns c)
      \<and> (\<forall>p. prio_nodes p (bc_nodes (fold config_add_node ns c)) = prio_nodes p (nodes @ ns))
      \<and> by_priority (fold config_add_node ns (config_from_yaml_simple yaml))
      \<and> (\<forall>p. prio_nodes p (bc_nodes (fold config_add_node ns (config_from_yaml_simple yaml)))
           = prio_nodes p (bc_nodes (config_from_yaml_simple yaml) @ ns))"
proof -
  obtain nodes where n: "nodes_of_json 0 vs = Inr nodes" "bc_nodes c = sort_nodes nodes"
    using assms by (auto simp: config_from_json_def split: option.splits sum.splits)
  then have "by_priority c" by (simp add: by_priority_def sort_nodes_def)
  moreover have "prio_nodes p (bc_nodes c @ ns) = prio_nodes p (nodes @ ns)" for p
    using prio_sorted [of p nodes] by (simp add: prio_nodes_def n(2))
  ultimately show ?thesis
    using nodes_of_json_each [OF n(1)] bconf.run_inv yaml_by_priority by (intro exI [of _ nodes]) (simp add: prio_added)
qed

theorem bootstrap_order_witness:
  "let v = JObject [(''version'', JUnsigned 1), (''bootstrap'', JObject [(''nodes'', JArray
             [JObject [(''host'', JString ''a''), (''priority'', JUnsigned 5)], JObject [(''host'', JString ''b'')]])])]
   in \<exists>c nodes. config_from_json (\<lambda>_. Inr v) ''t'' = Inr c \<and> length nodes = 2
        \<and> by_priority (config_add_node (boot_node_new ''c'' 1) c)
        \<and> prio_nodes 0 (bc_nodes (config_add_node (boot_node_new ''c'' 1) c)) = prio_nodes 0 (nodes @ [boot_node_new ''c'' 1])"
proof -
  let ?vs = "[JObject [(''host'', JString ''a''), (''priority'', JUnsigned 5)], JObject [(''host'', JString ''b'')]]"
  let ?v = "JObject [(''version'', JUnsigned 1), (''bootstrap'', JObject [(''nodes'', JArray ?vs)])]"
  obtain c where c: "config_from_json (\<lambda>_. Inr ?v) ''t'' = Inr c"
    by (simp add: config_from_json_def node_of_json_def)
  have "?vs = (case json_array (json_index (json_index ?v ''bootstrap'') ''nodes'') of None \<Rightarrow> [] | Some vs \<Rightarrow> vs)" by simp
  from bootstrap_order [OF refl c this, of "[boot_node_new ''c'' 1]"] c show ?thesis by (force simp: Let_def)
qed

section \<open>The bootstrap itself\<close>

lemma try_nodes_stub: "try_nodes ns (found, connected) = (found, connected @ map boot_node_addr ns)"
  by (induction ns arbitrary: found connected) (simp_all add: connect_to_bootstrap_node_def)

text \<open>Bootstrapping never succeeds: with nodes configured it reports every one of them as
  unreachable, although it has recorded them all as connected, again at every call.\<close>

theorem bootstrap_never_succeeds:
  "run_bootstrap m =
    (if bc_nodes (bm_config m) = [] then (m, Inl (ConfigError ''no bootstrap nodes configured''))
     else (m\<lparr>bm_connected := bm_connected m @ map boot_node_addr (bc_nodes (bm_config m))\<rparr>, Inl AllNodesUnreachable))
   \<and> (bc_nodes (bm_config m) = [] \<or> is_bootstrapped (fst (run_bootstrap m)))"
  by (simp add: run_bootstrap_def try_nodes_stub is_bootstrapped_def)

text \<open>A port above 65535 in the JSON is cut to its low 16 bits.\<close>

lemma json_port_truncated:
  "node_of_json 0 (JObject [(''host'', JString ''h''), (''port'', JUnsigned 70000)])
   = Inr (boot_node_with_priority ''h'' 4464 0)"
proof -
  have e: "(70000 :: u16) = 4464" by simp
  show ?thesis by (simp add: node_of_json_def u64_or_def) (simp only: e)
qed

end
