(* ===== verification/Lan.thy ===== *)
theory Lan
  imports Router Address Wire
begin

text \<open>
  The LAN router (\<open>src/lan_router.rs\<close>): UDP frames, the table of discovered nodes, the
  handling of one datagram by the receiving thread, discovery and sending. The socket is a
  record of the results of its calls; a datagram that an operation sends shows as its
  address and its bytes. The loop of the thread is represented by the single receptions.
\<close>

section \<open>Frames\<close>

definition lan_default_port :: u16 where
  "lan_default_port = 9876"

definition broadcast_addr :: string where
  "broadcast_addr = ''255.255.255.255''"

datatype udp_message_type = Discover | DiscoverReply | UdpData | UdpHeartbeat

definition udp_type_from_u8 :: "byte \<Rightarrow> udp_message_type option" where
  "udp_type_from_u8 b =
     (if b = 0x01 then Some Discover
      else if b = 0x02 then Some DiscoverReply
      else if b = 0x03 then Some UdpData
      else if b = 0x04 then Some UdpHeartbeat
      else None)"

fun udp_type_to_u8 :: "udp_message_type \<Rightarrow> byte" where
  "udp_type_to_u8 Discover = 0x01"
| "udp_type_to_u8 DiscoverReply = 0x02"
| "udp_type_to_u8 UdpData = 0x03"
| "udp_type_to_u8 UdpHeartbeat = 0x04"

interpretation udpt: wire_tag udp_type_to_u8 udp_type_from_u8
proof unfold_locales
  fix t b
  show "udp_type_from_u8 (udp_type_to_u8 t) = Some t"
    by (cases t) (simp_all add: udp_type_from_u8_def)
  show "udp_type_from_u8 b = Some t \<Longrightarrow> udp_type_to_u8 t = b"
    by (auto simp: udp_type_from_u8_def split: if_splits)
qed

definition header_size :: nat where
  "header_size = 1 + 1"

definition node_id_size :: nat where
  "node_id_size = 32"

definition data_len_size :: nat where
  "data_len_size = 2"

definition build_discover_msg :: "string \<Rightarrow> node_id \<Rightarrow> bytes" where
  "build_discover_msg n i =
     (let name_bytes = str_bytes n
      in [udp_type_to_u8 Discover, of_nat (length name_bytes)] @ name_bytes @ as_bytes i)"

definition build_discover_reply :: "string \<Rightarrow> node_id \<Rightarrow> bytes" where
  "build_discover_reply n i =
     (let name_bytes = str_bytes n
      in [udp_type_to_u8 DiscoverReply, of_nat (length name_bytes)] @ name_bytes @ as_bytes i)"

text \<open>The length of the data is cut to 16 bits.\<close>

definition build_data_msg :: "string \<Rightarrow> node_id \<Rightarrow> bytes \<Rightarrow> bytes" where
  "build_data_msg n i d =
     (let name_bytes = str_bytes n
      in [udp_type_to_u8 UdpData, of_nat (length name_bytes)] @ name_bytes @ as_bytes i
         @ to_be 2 (length d) @ d)"

definition parse_udp_frame :: "bytes \<Rightarrow> (udp_message_type \<times> string \<times> node_id \<times> bytes option) option" where
  "parse_udp_frame buf =
     (if length buf < header_size + node_id_size then None
      else case udp_type_from_u8 (buf ! 0) of
        None \<Rightarrow> None
      | Some t \<Rightarrow>
          let name_len = unat (buf ! 1) in
          if length buf < header_size + name_len + node_id_size then None
          else case from_utf8 (sub_slice buf header_size (header_size + name_len)) of
            None \<Rightarrow> None
          | Some n \<Rightarrow>
              let id_start = header_size + name_len;
                  i = B32 (sub_slice buf id_start (id_start + node_id_size))
              in if t = UdpData then
                   let data_offset = id_start + node_id_size in
                   if length buf < data_offset + data_len_size then None
                   else
                     let data_len = of_be [buf ! data_offset, buf ! (data_offset + 1)];
                         data_start = data_offset + data_len_size
                     in if length buf < data_start + data_len then None
                        else Some (t, n, i, Some (sub_slice buf data_start (data_start + data_len)))
                 else Some (t, n, i, None))"

section \<open>The router\<close>

text \<open>A socket address is its IP, in text form, and its port.\<close>

type_synonym socket_addr = "string \<times> u16"

record lan_node =
  ln_name :: string
  ln_id :: node_id
  ln_addr :: socket_addr
  ln_last_seen :: instant
  ln_status :: node_status

definition ln_is_online :: "instant \<Rightarrow> lan_node \<Rightarrow> bool" where
  "ln_is_online now n \<longleftrightarrow> elapsed now (ln_last_seen n) < from_secs 5"

record lan_router =
  lr_local_name :: string
  lr_local_id :: node_id
  lr_port :: u16
  lr_nodes :: "(string, lan_node) hashmap"
  lr_resolver :: mem_resolver
  lr_running :: bool
  lr_received :: "(string \<times> bytes) list"
  lr_socket :: bool

text \<open>The calls of the socket: the text of the error, if there is one.\<close>

record udp_env =
  ue_bind :: "string \<Rightarrow> string option"
  ue_set_broadcast :: "string option"
  ue_try_clone :: "string option"
  ue_reply_clone :: "string option"
  ue_send_to :: "string \<Rightarrow> bytes \<Rightarrow> string option"

definition lan_with_port :: "string \<Rightarrow> node_id \<Rightarrow> u16 \<Rightarrow> lan_router" where
  "lan_with_port n i port =
     \<lparr>lr_local_name = n, lr_local_id = i, lr_port = port, lr_nodes = hm_empty, lr_resolver = mem_new,
      lr_running = False, lr_received = [], lr_socket = False\<rparr>"

definition lan_new :: "string \<Rightarrow> node_id \<Rightarrow> lan_router" where
  "lan_new n i = lan_with_port n i lan_default_port"

definition discovered_nodes :: "lan_router \<Rightarrow> lan_node list" where
  "discovered_nodes lr = hm_values (lr_nodes lr)"

definition online_node_count :: "instant \<Rightarrow> lan_router \<Rightarrow> nat" where
  "online_node_count now lr = length (filter (ln_is_online now) (hm_values (lr_nodes lr)))"

definition take_received_data :: "lan_router \<Rightarrow> lan_router \<times> (string \<times> bytes) list" where
  "take_received_data lr = (lr\<lparr>lr_received := []\<rparr>, lr_received lr)"

definition lan_find_node :: "string \<Rightarrow> lan_router \<Rightarrow> lan_node option" where
  "lan_find_node n lr = hm_get (lr_nodes lr) n"

definition lan_stop :: "lan_router \<Rightarrow> lan_router" where
  "lan_stop lr = lr\<lparr>lr_running := False\<rparr>"

type_synonym datagrams = "(string \<times> bytes) list"

definition show_addr :: "string \<Rightarrow> u16 \<Rightarrow> string" where
  "show_addr ip port = ip @ '':'' @ show_nat (unat port)"

definition broadcast_discover :: "udp_env \<Rightarrow> lan_router \<Rightarrow> datagrams \<times> (router_error + unit)" where
  "broadcast_discover env lr =
     (if \<not> lr_socket lr then ([], Inl (SendFailedTo ''socket not initialized''))
      else
        let msg = build_discover_msg (lr_local_name lr) (lr_local_id lr);
            broadcast = show_addr broadcast_addr (lr_port lr)
        in case ue_send_to env broadcast msg of
             Some e \<Rightarrow> ([], Inl (SendFailedTo (''broadcast failed: '' @ e)))
           | None \<Rightarrow> ([(broadcast, msg)], Inr ()))"

text \<open>One datagram, cut to the 4096 bytes of the buffer, that the thread receives.\<close>

definition recv_buffer :: nat where
  "recv_buffer = 4096"

definition record_node :: "instant \<Rightarrow> string \<Rightarrow> node_id \<Rightarrow> socket_addr \<Rightarrow> lan_router \<Rightarrow> lan_router" where
  "record_node now n i from_addr lr =
     (if n \<noteq> lr_local_name lr
      then lr\<lparr>lr_nodes := hm_insert n \<lparr>ln_name = n, ln_id = i, ln_addr = from_addr, ln_last_seen = now,
                                     ln_status = Online\<rparr> (lr_nodes lr)\<rparr>
      else lr)"

definition lan_receive :: "udp_env \<Rightarrow> instant \<Rightarrow> socket_addr \<Rightarrow> bytes \<Rightarrow> lan_router \<Rightarrow> lan_router \<times> datagrams" where
  "lan_receive env now from_addr datagram lr =
     (if \<not> lr_running lr then (lr, [])
      else case parse_udp_frame (take recv_buffer datagram) of
        None \<Rightarrow> (lr, [])
      | Some (t, n, i, data) \<Rightarrow>
          (case t of
             Discover \<Rightarrow>
               let reply = build_discover_reply (lr_local_name lr) (lr_local_id lr);
                   to_addr = show_addr (fst from_addr) (snd from_addr)
               in (record_node now n i from_addr lr,
                   if ue_send_to env to_addr reply = None then [(to_addr, reply)] else [])
           | DiscoverReply \<Rightarrow> (record_node now n i from_addr lr, [])
           | UdpData \<Rightarrow>
               (case data of None \<Rightarrow> (lr, []) | Some d \<Rightarrow> (lr\<lparr>lr_received := lr_received lr @ [(n, d)]\<rparr>, []))
           | UdpHeartbeat \<Rightarrow>
               (lr\<lparr>lr_nodes := hm_modify n (\<lambda>x. x\<lparr>ln_last_seen := now, ln_status := Online\<rparr>) (lr_nodes lr)\<rparr>, [])))"

definition lan_start :: "udp_env \<Rightarrow> lan_router \<Rightarrow> lan_router \<times> datagrams \<times> (router_error + unit)" where
  "lan_start env lr =
     (let addr = show_addr ''0.0.0.0'' (lr_port lr) in
      case ue_bind env addr of
        Some e \<Rightarrow> (lr, [], Inl (SendFailedTo (''failed to bind UDP '' @ addr @ '': '' @ e)))
      | None \<Rightarrow>
      case ue_set_broadcast env of
        Some e \<Rightarrow> (lr, [], Inl (SendFailedTo (''set_broadcast failed: '' @ e)))
      | None \<Rightarrow>
      case ue_try_clone env of
        Some e \<Rightarrow> (lr, [], Inl (SendFailedTo (''socket clone failed: '' @ e)))
      | None \<Rightarrow>
      let lr = lr\<lparr>lr_socket := True, lr_running := True\<rparr> in
      case ue_reply_clone env of
        Some e \<Rightarrow> (lr, [], Inl (SendFailedTo (''socket clone failed: '' @ e)))
      | None \<Rightarrow> (lr, broadcast_discover env lr))"

definition update_node_status :: "instant \<Rightarrow> lan_router \<Rightarrow> lan_router" where
  "update_node_status now lr =
     lr\<lparr>lr_nodes := map (\<lambda>(n, x). (n, if ln_is_online now x then x else x\<lparr>ln_status := Offline\<rparr>)) (lr_nodes lr)\<rparr>"

text \<open>The last part of \<open>send\<close>, for a node of the table.\<close>

definition lan_deliver ::
  "udp_env \<Rightarrow> lan_node \<Rightarrow> parsed_address \<Rightarrow> bytes \<Rightarrow> lan_router \<Rightarrow> datagrams \<times> (router_error + unit)" where
  "lan_deliver env node parsed d lr =
     (let target_port = (case pa_port parsed of None \<Rightarrow> lr_port lr | Some p \<Rightarrow> p);
          target_addr = show_addr (fst (ln_addr node)) target_port;
          msg = build_data_msg (lr_local_name lr) (lr_local_id lr) d
      in if \<not> lr_socket lr then ([], Inl (SendFailedTo ''socket not initialized''))
         else case ue_send_to env target_addr msg of
                Some e \<Rightarrow> ([], Inl (SendFailedTo (''send to '' @ target_addr @ '' failed: '' @ e)))
              | None \<Rightarrow> ([(target_addr, msg)], Inr ()))"

text \<open>What the thread receives during the 500 ms sleep is the argument \<open>meanwhile\<close>.\<close>

fun lan_receive_all :: "udp_env \<Rightarrow> (instant \<times> socket_addr \<times> bytes) list \<Rightarrow> lan_router \<Rightarrow> lan_router \<times> datagrams" where
  "lan_receive_all env [] lr = (lr, [])"
| "lan_receive_all env ((now, from_addr, b) # rest) lr =
     (let (lr, out) = lan_receive env now from_addr b lr;
          (lr, outs) = lan_receive_all env rest lr
      in (lr, out @ outs))"

definition lan_send ::
  "udp_env \<Rightarrow> (instant \<times> socket_addr \<times> bytes) list \<Rightarrow> string \<Rightarrow> bytes \<Rightarrow> lan_router
   \<Rightarrow> lan_router \<times> datagrams \<times> (router_error + unit)" where
  "lan_send env meanwhile target d lr =
     (case parse_address target of
        Inl e \<Rightarrow> (lr, [], Inl (InvalidData (address_error_display e)))
      | Inr parsed \<Rightarrow>
          (case hm_get (lr_nodes lr) (pa_name parsed) of
             Some node \<Rightarrow> (lr, lan_deliver env node parsed d lr)
           | None \<Rightarrow>
               (case broadcast_discover env lr of
                  (out, Inl e) \<Rightarrow> (lr, out, Inl e)
                | (out, Inr _) \<Rightarrow>
                    let (lr, replies) = lan_receive_all env meanwhile lr in
                    (case hm_get (lr_nodes lr) (pa_name parsed) of
                       None \<Rightarrow> (lr, out @ replies, Inl (Unreachable (''node not found: '' @ pa_name parsed)))
                     | Some node \<Rightarrow>
                         let (sent, r) = lan_deliver env node parsed d lr in (lr, out @ replies @ sent, r)))))"

definition lan_status :: "instant \<Rightarrow> u64 \<Rightarrow> lan_router \<Rightarrow> router_status" where
  "lan_status now clock lr =
     \<lparr>rs_node_status = (if lr_running lr then Online else Offline), rs_connection_type = Lan,
      rs_known_nodes = hm_len (lr_nodes lr), rs_active_routes = online_node_count now lr,
      rs_last_update = clock\<rparr>"

section \<open>The frame codec\<close>

text \<open>The fields of a frame, by their positions.\<close>

lemma frame_fields:
  assumes "length n < 256" and "buf = [b, of_nat (length n)] @ str_bytes n @ as_bytes i @ rest"
  shows "buf ! 0 = b" and "unat (buf ! 1) = length n"
    and "length buf = header_size + length n + node_id_size + length rest"
    and "sub_slice buf header_size (header_size + length n) = str_bytes n"
    and "sub_slice buf (header_size + length n) (header_size + length n + node_id_size) = as_bytes i"
    and "drop (header_size + length n + node_id_size) buf = rest"
proof -
  have "buf = ([b, of_nat (length n)] @ str_bytes n @ as_bytes i) @ rest" using assms(2) by simp
  moreover have "length ([b, of_nat (length n)] @ str_bytes n @ as_bytes i) = header_size + length n + node_id_size"
    by (simp add: header_size_def node_id_size_def)
  ultimately show "drop (header_size + length n + node_id_size) buf = rest" by (metis append_eq_conv_conj)
qed (use assms in \<open>simp_all add: header_size_def node_id_size_def sub_slice_def unat_of_nat take_bit_nat_eq_self\<close>)

lemma parse_frame_head:
  assumes "length n < 256" and "utf8_valid (str_bytes n)"
    and "buf = [udp_type_to_u8 t, of_nat (length n)] @ str_bytes n @ as_bytes i @ rest" and "t \<noteq> UdpData"
  shows "parse_udp_frame buf = Some (t, n, i, None)"
  using frame_fields [OF assms(1,3)] assms(2,4)
  by (simp add: parse_udp_frame_def Let_def udpt.from_to from_utf8_str_bytes)

lemma of_be_pair: "of_be [xs ! k, xs ! Suc k] = of_be (sub_slice xs k (k + 2))" if "k + 2 \<le> length xs"
proof -
  have "drop k xs = xs ! k # drop (Suc k) xs" "drop (Suc k) xs = xs ! Suc k # drop (Suc (Suc k)) xs"
    using that by (simp_all add: Cons_nth_drop_Suc)
  then have "sub_slice xs k (k + 2) = [xs ! k, xs ! Suc k]" by (simp add: sub_slice_def)
  then show ?thesis by simp
qed

lemma parse_frame_data:
  assumes "length n < 256" and "utf8_valid (str_bytes n)" and "length d < 65536"
    and buf: "buf = [udp_type_to_u8 UdpData, of_nat (length n)] @ str_bytes n @ as_bytes i @ to_be 2 (length d) @ d @ rest"
  shows "parse_udp_frame buf = Some (UdpData, n, i, Some d)"
proof -
  let ?k = "header_size + length n + node_id_size"
  note f = frame_fields [OF assms(1) buf]
  have len: "length buf = ?k + 2 + length d + length rest" using f(3) by simp
  have "sub_slice buf ?k (?k + 2) = to_be 2 (length d)"
    unfolding sub_slice_def f(6) by simp
  then have l: "of_be [buf ! ?k, buf ! Suc ?k] = length d"
    using assms(3) by (subst of_be_pair) (simp_all add: len of_be_to_be_id)
  have "drop (?k + 2) buf = d @ rest" using f(6) by (metis add.commute append_eq_conv_conj drop_drop length_to_be)
  then have "sub_slice buf (?k + 2) (?k + 2 + length d) = d" by (simp add: sub_slice_def)
  with l len f assms(2) show ?thesis
    by (simp add: parse_udp_frame_def Let_def udp_type_from_u8_def from_utf8_str_bytes data_len_size_def)
qed

lemma parse_built:
  "length n \<le> 255 \<Longrightarrow> utf8_valid (str_bytes n) \<Longrightarrow> parse_udp_frame (build_discover_msg n i @ rest) = Some (Discover, n, i, None)"
  "length n \<le> 255 \<Longrightarrow> utf8_valid (str_bytes n) \<Longrightarrow> parse_udp_frame (build_discover_reply n i @ rest) = Some (DiscoverReply, n, i, None)"
  "length n \<le> 255 \<Longrightarrow> utf8_valid (str_bytes n) \<Longrightarrow> length d \<le> 65535
    \<Longrightarrow> parse_udp_frame (build_data_msg n i d @ rest) = Some (UdpData, n, i, Some d)"
  by (simp_all add: build_discover_msg_def build_discover_reply_def build_data_msg_def Let_def
      parse_frame_head [where rest = rest] parse_frame_data [where rest = rest])

text \<open>Every frame that the LAN router builds parses back to its type, name, identity and
  data, even with bytes after it, when the name has at most 255 bytes and the data at
  most 65535.\<close>

theorem udp_frames_roundtrip:
  assumes "length n \<le> 255" and "utf8_valid (str_bytes n)" and "length d \<le> 65535"
  shows "parse_udp_frame (build_discover_msg n i @ rest) = Some (Discover, n, i, None)
    \<and> parse_udp_frame (build_discover_reply n i @ rest) = Some (DiscoverReply, n, i, None)
    \<and> parse_udp_frame (build_data_msg n i d @ rest) = Some (UdpData, n, i, Some d)"
  using assms by (simp add: parse_built)

theorem udp_frames_roundtrip_witness:
  "parse_udp_frame (build_data_msg ''a'' (fill32 1) [7, 8] @ [9]) = Some (UdpData, ''a'', fill32 1, Some [7, 8])"
  using udp_frames_roundtrip [of "''a''" "[7, 8]" "fill32 1" "[9]"] by (simp add: str_bytes_def)

section \<open>Discovery\<close>

lemma discover_short: "length n \<le> 255 \<Longrightarrow> take recv_buffer (build_discover_msg n i) = build_discover_msg n i"
    "length n \<le> 255 \<Longrightarrow> take recv_buffer (build_discover_reply n i) = build_discover_reply n i"
  by (simp_all add: build_discover_msg_def build_discover_reply_def recv_buffer_def Let_def)

text \<open>A name that fits the one-byte length field and is UTF-8, as every \<open>String\<close> is.\<close>

definition name_ok :: "lan_router \<Rightarrow> bool" where
  "name_ok lr \<longleftrightarrow> length (lr_local_name lr) \<le> 255 \<and> utf8_valid (str_bytes (lr_local_name lr))"

lemma receive_discover:
  assumes "lr_running b" and "name_ok a"
  shows "lan_receive env now from_addr (build_discover_msg (lr_local_name a) (lr_local_id a)) b
    = (record_node now (lr_local_name a) (lr_local_id a) from_addr b,
       let reply = build_discover_reply (lr_local_name b) (lr_local_id b);
           to_addr = show_addr (fst from_addr) (snd from_addr)
       in if ue_send_to env to_addr reply = None then [(to_addr, reply)] else [])"
  using assms parse_built(1) [of "lr_local_name a" "lr_local_id a" "[]"]
  by (simp add: lan_receive_def name_ok_def discover_short Let_def)

lemma receive_reply:
  assumes "lr_running b" and "name_ok a"
  shows "lan_receive env now from_addr (build_discover_reply (lr_local_name a) (lr_local_id a)) b
    = (record_node now (lr_local_name a) (lr_local_id a) from_addr b, [])"
  using assms parse_built(2) [of "lr_local_name a" "lr_local_id a" "[]"]
  by (simp add: lan_receive_def name_ok_def discover_short Let_def)

text \<open>C19. When the discovery broadcast of one router reaches another with a different
  name and the reply comes back, each has the other in its table under its name, with
  its identity, the address the datagram came from, and online.\<close>

theorem discovery_is_mutual:
  assumes "name_ok a" and "name_ok b" and "lr_local_name a \<noteq> lr_local_name b"
    and "lr_running a" and "lr_running b"
    and "broadcast_discover env a = ([(addr, msg)], Inr ())"
    and "lan_receive env' t from_a msg b = (b', [(to_addr, reply)])"
    and "lan_receive env t' from_b reply a = (a', out)"
  shows "out = [] \<and> to_addr = show_addr (fst from_a) (snd from_a)
    \<and> lan_find_node (lr_local_name b) a' = Some \<lparr>ln_name = lr_local_name b, ln_id = lr_local_id b, ln_addr = from_b,
          ln_last_seen = t', ln_status = Online\<rparr>
    \<and> lan_find_node (lr_local_name a) b' = Some \<lparr>ln_name = lr_local_name a, ln_id = lr_local_id a, ln_addr = from_a,
          ln_last_seen = t, ln_status = Online\<rparr>"
proof -
  have msg: "msg = build_discover_msg (lr_local_name a) (lr_local_id a)"
    using assms(6) by (auto simp: broadcast_discover_def Let_def split: if_splits option.splits)
  with assms(7) receive_discover [OF assms(5,1), of env' t from_a]
  have b': "b' = record_node t (lr_local_name a) (lr_local_id a) from_a b"
    and reply: "reply = build_discover_reply (lr_local_name b) (lr_local_id b)" "to_addr = show_addr (fst from_a) (snd from_a)"
    by (auto simp: Let_def split: if_splits)
  with assms(8) receive_reply [OF assms(4,2), of env t' from_b]
  have "a' = record_node t' (lr_local_name b) (lr_local_id b) from_b a" "out = []" by auto
  with b' reply assms(3) show ?thesis by (simp add: record_node_def lan_find_node_def hm_simps)
qed

definition sample_udp :: udp_env where
  "sample_udp = \<lparr>ue_bind = \<lambda>_. None, ue_set_broadcast = None, ue_try_clone = None, ue_reply_clone = None,
                 ue_send_to = \<lambda>_ _. None\<rparr>"

definition sample_lan :: "string \<Rightarrow> byte \<Rightarrow> lan_router" where
  "sample_lan n b = fst (lan_start sample_udp (lan_new n (fill32 b)))"

lemma sample_lan_facts:
  "lr_running (sample_lan n b)" "lr_socket (sample_lan n b)" "lr_local_name (sample_lan n b) = n"
  "lr_local_id (sample_lan n b) = fill32 b" "lr_nodes (sample_lan n b) = hm_empty" "lr_received (sample_lan n b) = []"
  by (simp_all add: sample_lan_def sample_udp_def lan_start_def lan_new_def lan_with_port_def Let_def)

theorem discovery_is_mutual_witness:
  "let a = sample_lan ''a'' 1; b = sample_lan ''b'' 2;
       msg = build_discover_msg ''a'' (fill32 1);
       (b', _) = lan_receive sample_udp 5 (''10.0.0.1'', 9876) msg b;
       (a', _) = lan_receive sample_udp 6 (''10.0.0.2'', 9876) (build_discover_reply ''b'' (fill32 2)) a
   in map_option ln_id (lan_find_node ''b'' a') = Some (fill32 2)
      \<and> map_option ln_id (lan_find_node ''a'' b') = Some (fill32 1)"
proof -
  let ?a = "sample_lan ''a'' 1" and ?b = "sample_lan ''b'' 2"
  have ok: "name_ok ?a" "name_ok ?b" by (simp_all add: name_ok_def sample_lan_facts str_bytes_def)
  have "broadcast_discover sample_udp ?a
      = ([(show_addr broadcast_addr (lr_port ?a), build_discover_msg ''a'' (fill32 1))], Inr ())"
    by (simp add: broadcast_discover_def sample_lan_facts sample_udp_def Let_def)
  moreover have "lan_receive sample_udp 5 (''10.0.0.1'', 9876) (build_discover_msg ''a'' (fill32 1)) ?b
      = (record_node 5 ''a'' (fill32 1) (''10.0.0.1'', 9876) ?b,
         [(show_addr ''10.0.0.1'' 9876, build_discover_reply ''b'' (fill32 2))])"
    using receive_discover [of ?b ?a sample_udp 5 "(''10.0.0.1'', 9876)"] ok(1)
    by (simp add: sample_lan_facts sample_udp_def Let_def)
  moreover have "lan_receive sample_udp 6 (''10.0.0.2'', 9876) (build_discover_reply ''b'' (fill32 2)) ?a
      = (record_node 6 ''b'' (fill32 2) (''10.0.0.2'', 9876) ?a, [])"
    using receive_reply [of ?a ?b sample_udp 6 "(''10.0.0.2'', 9876)"] ok(2) by (simp add: sample_lan_facts)
  ultimately show ?thesis
    using discovery_is_mutual [OF ok] by (simp add: sample_lan_facts Let_def)
qed

section \<open>Sending\<close>

text \<open>The bytes of a frame around its data.\<close>

definition frame_overhead :: "lan_router \<Rightarrow> nat" where
  "frame_overhead lr = header_size + length (lr_local_name lr) + node_id_size + data_len_size"

lemma length_data_msg: "length (build_data_msg n i d) = header_size + length n + node_id_size + data_len_size + length d"
  by (simp add: build_data_msg_def header_size_def node_id_size_def data_len_size_def Let_def)

text \<open>A frame that is cut inside its data does not parse.\<close>

lemma parse_cut_frame:
  assumes "length n \<le> 255" and "length d \<le> 65535" and "header_size + length n + node_id_size + data_len_size \<le> k"
    and "k < length (build_data_msg n i d)"
  shows "parse_udp_frame (take k (build_data_msg n i d)) = None"
proof -
  let ?buf = "take k (build_data_msg n i d)" and ?h = "header_size + length n + node_id_size"
  have len: "length (build_data_msg n i d) = ?h + 2 + length d" by (simp add: length_data_msg data_len_size_def)
  define r where "r = take (k - (?h + 2)) d"
  have r: "length r < length d" using assms(3,4) len by (simp add: r_def data_len_size_def)
  have buf: "?buf = [udp_type_to_u8 UdpData, of_nat (length n)] @ str_bytes n @ as_bytes i @ to_be 2 (length d) @ r"
    using assms(3) by (simp add: build_data_msg_def Let_def header_size_def node_id_size_def data_len_size_def r_def take_Cons')
  have n: "length n < 256" using assms(1) by simp
  note f = frame_fields [OF n buf]
  have l2: "length ?buf = ?h + 2 + length r" using f(3) by simp
  have "sub_slice ?buf ?h (?h + 2) = to_be 2 (length d)" unfolding sub_slice_def f(6) by simp
  then have l: "of_be [?buf ! ?h, ?buf ! Suc ?h] = length d"
    using assms(2) l2 of_be_to_be_id [of "length d" 2] by (subst of_be_pair) simp_all
  have "udp_type_from_u8 (?buf ! 0) = Some UdpData" unfolding f(1) by (rule udpt.from_to)
  then show ?thesis
    unfolding parse_udp_frame_def Let_def f(2) l2
    using l r by (auto simp: data_len_size_def split: option.split)
qed

lemma receive_data:
  assumes "lr_running b" and "name_ok a" and "length d \<le> 65535"
  shows "lan_receive env now from_addr (build_data_msg (lr_local_name a) (lr_local_id a) d) b
    = (if frame_overhead a + length d \<le> recv_buffer
       then b\<lparr>lr_received := lr_received b @ [(lr_local_name a, d)]\<rparr> else b, [])"
proof (cases "frame_overhead a + length d \<le> recv_buffer")
  case True
  then have "take recv_buffer (build_data_msg (lr_local_name a) (lr_local_id a) d) = build_data_msg (lr_local_name a) (lr_local_id a) d"
    by (simp add: length_data_msg frame_overhead_def)
  with True assms parse_built(3) [of "lr_local_name a" d "lr_local_id a" "[]"] show ?thesis
    by (simp add: lan_receive_def name_ok_def)
next
  case False
  then have "parse_udp_frame (take recv_buffer (build_data_msg (lr_local_name a) (lr_local_id a) d)) = None"
    using assms(2,3)
    by (intro parse_cut_frame) (simp_all add: name_ok_def length_data_msg frame_overhead_def recv_buffer_def
        header_size_def node_id_size_def data_len_size_def)
  with False show ?thesis by (simp add: lan_receive_def)
qed

lemma lan_deliver_Inr:
  "lan_deliver env node p d lr = (sent, Inr ()) \<Longrightarrow> \<exists>addr. sent = [(addr, build_data_msg (lr_local_name lr) (lr_local_id lr) d)]"
  by (auto simp: lan_deliver_def Let_def split: if_splits option.splits)

lemma record_node_local [simp]:
  "lr_local_name (record_node now n i f lr) = lr_local_name lr" "lr_local_id (record_node now n i f lr) = lr_local_id lr"
  by (simp_all add: record_node_def)

lemma lan_receive_local [simp]:
  "lr_local_name (fst (lan_receive env now f b lr)) = lr_local_name lr"
  "lr_local_id (fst (lan_receive env now f b lr)) = lr_local_id lr"
  by (auto simp: lan_receive_def Let_def split: option.split udp_message_type.split)

lemma lan_receive_all_local [simp]:
  "lr_local_name (fst (lan_receive_all env ms lr)) = lr_local_name lr"
  "lr_local_id (fst (lan_receive_all env ms lr)) = lr_local_id lr"
  by (induction ms arbitrary: lr) (auto simp: split_beta)

lemma lan_send_Inr:
  assumes "lan_send env meanwhile target d a = (a', sent, Inr ())"
  shows "sent \<noteq> [] \<and> snd (last sent) = build_data_msg (lr_local_name a) (lr_local_id a) d"
proof (cases "parse_address target")
  case (Inr p)
  show ?thesis
  proof (cases "hm_get (lr_nodes a) (pa_name p)")
    case (Some node)
    with assms Inr have "lan_deliver env node p d a = (sent, Inr ())" by (auto simp: lan_send_def)
    from lan_deliver_Inr [OF this] show ?thesis by auto
  next
    case None
    obtain out where out: "broadcast_discover env a = (out, Inr ())"
      using assms Inr None by (auto simp: lan_send_def split: prod.splits sum.splits)
    obtain a1 replies where r: "lan_receive_all env meanwhile a = (a1, replies)" by force
    from assms Inr None out r obtain node s where s: "lan_deliver env node p d a1 = (s, Inr ())" "sent = out @ replies @ s"
      by (auto simp: lan_send_def split: option.splits prod.splits)
    have "lr_local_name a1 = lr_local_name a" "lr_local_id a1 = lr_local_id a"
      using lan_receive_all_local [of env meanwhile a] r by simp_all
    with lan_deliver_Inr [OF s(1)] s(2) show ?thesis by auto
  qed
qed (use assms in \<open>simp add: lan_send_def\<close>)

text \<open>When a LAN send succeeds, the last datagram is the data, and a router that receives
  it records the data under the name of the sender exactly when the whole frame fits
  the 4096 bytes of the receive buffer; otherwise it drops it, although the sender was
  told that the send succeeded.\<close>

theorem lan_data_needs_small_frame:
  assumes "lan_send env meanwhile target d a = (a', sent, Inr ())" and "name_ok a" and "length d \<le> 65535"
    and "lr_running b"
  shows "lan_receive env' now from_addr (snd (last sent)) b
    = (if frame_overhead a + length d \<le> recv_buffer
       then b\<lparr>lr_received := lr_received b @ [(lr_local_name a, d)]\<rparr> else b, [])"
  using lan_send_Inr [OF assms(1)] receive_data [OF assms(4,2,3)] by simp

lemma sample_send:
  "lan_send sample_udp [(1, (''10.0.0.2'', 9876), build_discover_reply ''b'' (fill32 2))] ''node:b'' d (sample_lan ''a'' 1)
   = (record_node 1 ''b'' (fill32 2) (''10.0.0.2'', 9876) (sample_lan ''a'' 1),
      [(show_addr broadcast_addr 9876, build_discover_msg ''a'' (fill32 1)),
       (show_addr ''10.0.0.2'' 9876, build_data_msg ''a'' (fill32 1) d)], Inr ())"
proof -
  have p: "parse_address ''node:b'' = Inr \<lparr>pa_name = ''b'', pa_port = None\<rparr>" by (simp add: parse_address_def numeral_3_eq_3 Let_def)
  have port: "lr_port (sample_lan n k) = 9876" for n k
    by (simp add: sample_lan_def sample_udp_def lan_start_def lan_new_def lan_with_port_def lan_default_port_def Let_def)
  have "name_ok (sample_lan ''b'' 2)" by (simp add: name_ok_def sample_lan_facts str_bytes_def)
  from receive_reply [OF sample_lan_facts(1) this, of sample_udp 1 "(''10.0.0.2'', 9876)" "''a''" 1]
  have "lan_receive sample_udp 1 (''10.0.0.2'', 9876) (build_discover_reply ''b'' (fill32 2)) (sample_lan ''a'' 1)
      = (record_node 1 ''b'' (fill32 2) (''10.0.0.2'', 9876) (sample_lan ''a'' 1), [])"
    by (simp add: sample_lan_facts)
  then show ?thesis
    by (simp add: lan_send_def p sample_lan_facts hm_simps broadcast_discover_def Let_def port)
       (simp add: record_node_def sample_lan_facts hm_simps lan_deliver_def Let_def port sample_udp_def)
qed

theorem lan_data_needs_small_frame_witness:
  "\<exists>a' sent. lan_send sample_udp [(1, (''10.0.0.2'', 9876), build_discover_reply ''b'' (fill32 2))] ''node:b''
       (replicate 4060 7) (sample_lan ''a'' 1) = (a', sent, Inr ())
     \<and> lr_received (fst (lan_receive sample_udp 2 (''10.0.0.1'', 9876) (snd (last sent)) (sample_lan ''b'' 2))) = []"
proof -
  have ok: "name_ok (sample_lan ''a'' 1)" by (simp add: name_ok_def sample_lan_facts str_bytes_def)
  define d :: bytes where "d = replicate 4060 7"
  have len: "length d = 4060" by (simp add: d_def)
  let ?sent = "[(show_addr broadcast_addr 9876, build_discover_msg ''a'' (fill32 1)),
       (show_addr ''10.0.0.2'' 9876, build_data_msg ''a'' (fill32 1) d)]"
  have "lan_receive sample_udp 2 (''10.0.0.1'', 9876) (snd (last ?sent)) (sample_lan ''b'' 2) = (sample_lan ''b'' 2, [])"
    using lan_data_needs_small_frame [OF sample_send ok _ sample_lan_facts(1), of d sample_udp 2 "(''10.0.0.1'', 9876)" "''b''" 2]
    by (simp add: len frame_overhead_def sample_lan_facts header_size_def node_id_size_def data_len_size_def recv_buffer_def)
  then have "lr_received (fst (lan_receive sample_udp 2 (''10.0.0.1'', 9876) (snd (last ?sent)) (sample_lan ''b'' 2))) = []"
    by (simp only: fst_conv sample_lan_facts(6))
  with sample_send [of d] show ?thesis unfolding d_def by blast
qed

text \<open>The port of the peer is not used: without a port in the address, the data goes to the
  port of the sender itself.\<close>

lemma lan_deliver_ignores_peer_port:
  "lan_deliver env (node\<lparr>ln_addr := (fst (ln_addr node), port)\<rparr>) parsed d lr = lan_deliver env node parsed d lr"
  by (simp add: lan_deliver_def)

section \<open>Staying online\<close>

text \<open>The frames that LAN routers send: there is no heartbeat among them.\<close>

definition router_frame :: "bytes \<Rightarrow> bool" where
  "router_frame b \<longleftrightarrow>
     (\<exists>n i d. b = build_discover_msg n i \<or> b = build_discover_reply n i \<or> b = build_data_msg n i d)"

lemma router_frames [simp]:
  "router_frame (build_discover_msg n i)" "router_frame (build_discover_reply n i)" "router_frame (build_data_msg n i d)"
  by (auto simp: router_frame_def)

lemma broadcast_frames: "(addr, b) \<in> set (fst (broadcast_discover env lr)) \<Longrightarrow> router_frame b"
  by (auto simp: broadcast_discover_def Let_def split: if_splits option.splits)

lemma receive_frames: "(addr, b) \<in> set (snd (lan_receive env now f datagram lr)) \<Longrightarrow> router_frame b"
  by (auto simp: lan_receive_def Let_def split: if_splits option.splits udp_message_type.splits)

lemma receive_all_frames: "(addr, b) \<in> set (snd (lan_receive_all env rs lr)) \<Longrightarrow> router_frame b"
  by (induction rs arbitrary: lr) (auto simp: split_beta dest: receive_frames)

lemma deliver_frames: "(addr, b) \<in> set (fst (lan_deliver env node p d lr)) \<Longrightarrow> router_frame b"
  by (auto simp: lan_deliver_def Let_def split: if_splits option.splits)

lemma start_frames: "(addr, b) \<in> set (fst (snd (lan_start env lr))) \<Longrightarrow> router_frame b"
  by (auto simp: lan_start_def Let_def dest: broadcast_frames split: option.splits)

lemma send_frames: "(addr, b) \<in> set (fst (snd (lan_send env meanwhile target d lr))) \<Longrightarrow> router_frame b"
  by (auto simp: lan_send_def Let_def split_beta dest: broadcast_frames receive_all_frames deliver_frames
      split: sum.splits option.splits)

lemma parse_type: "parse_udp_frame buf = Some (t, rest) \<Longrightarrow> buf ! 0 = udp_type_to_u8 t"
  by (auto simp: parse_udp_frame_def Let_def udpt.from_u8_iff split: if_splits option.splits)

lemma frame_type:
  "build_discover_msg n i ! 0 = udp_type_to_u8 Discover" "build_discover_reply n i ! 0 = udp_type_to_u8 DiscoverReply"
  "build_data_msg n i d ! 0 = udp_type_to_u8 UdpData"
  by (simp_all add: build_discover_msg_def build_discover_reply_def build_data_msg_def Let_def)

text \<open>Only discovery and heartbeat frames change the table.\<close>

lemma receive_keeps_nodes:
  assumes "router_frame b" and "b ! 0 \<noteq> udp_type_to_u8 Discover" and "b ! 0 \<noteq> udp_type_to_u8 DiscoverReply"
  shows "lr_nodes (fst (lan_receive env now f b lr)) = lr_nodes lr"
proof (cases "parse_udp_frame (take recv_buffer b)")
  case (Some fr)
  obtain t rest where fr: "fr = (t, rest)" by (metis surj_pair)
  have "take recv_buffer b ! 0 = b ! 0" by (simp add: recv_buffer_def)
  with parse_type [of "take recv_buffer b" t rest] Some fr have "b ! 0 = udp_type_to_u8 t" by simp
  moreover have "b ! 0 = udp_type_to_u8 UdpData" using assms by (auto simp: router_frame_def frame_type)
  ultimately have "t = UdpData" by (simp only: udpt.to_u8_inject)
  with Some fr show ?thesis by (cases rest) (auto simp: lan_receive_def split: option.split)
qed (simp add: lan_receive_def)

lemma receive_last_seen:
  assumes "\<forall>x \<in> set (hm_values (lr_nodes lr)). ln_last_seen x \<le> m" and "now \<le> m"
  shows "\<forall>x \<in> set (hm_values (lr_nodes (fst (lan_receive env now f b lr)))). ln_last_seen x \<le> m"
  using assms
  by (auto simp: lan_receive_def record_node_def hm_modify_def Let_def dest!: hm_values_insert hm_get_mem
      split: option.splits udp_message_type.splits if_splits)

text \<open>Data does not keep a node online: a table whose nodes were last seen five seconds
  ago shows no node online, whatever frames of other routers it received since, unless
  a discovery frame was among those of the last five seconds. The routers send no
  heartbeats.\<close>

theorem data_keeps_no_node_online:
  assumes "\<forall>x \<in> set (hm_values (lr_nodes lr)). ln_last_seen x + int (from_secs 5) \<le> now"
    and "\<forall>(t, f, b) \<in> set rs. router_frame b
          \<and> (b ! 0 \<in> {udp_type_to_u8 Discover, udp_type_to_u8 DiscoverReply} \<longrightarrow> t + int (from_secs 5) \<le> now)"
  shows "online_node_count now (fst (lan_receive_all env rs lr)) = 0"
proof -
  let ?m = "now - int (from_secs 5)"
  have "\<forall>x \<in> set (hm_values (lr_nodes lr)). ln_last_seen x \<le> ?m" using assms(1) by auto
  then have "\<forall>x \<in> set (hm_values (lr_nodes (fst (lan_receive_all env rs lr)))). ln_last_seen x \<le> ?m"
    using assms(2)
  proof (induction rs arbitrary: lr)
    case (Cons r rs)
    obtain t f b where r: "r = (t, f, b)" using prod_cases3 by blast
    let ?lr = "fst (lan_receive env t f b lr)"
    have "\<forall>x \<in> set (hm_values (lr_nodes ?lr)). ln_last_seen x \<le> ?m"
    proof (cases "b ! 0 \<in> {udp_type_to_u8 Discover, udp_type_to_u8 DiscoverReply}")
      case True
      then show ?thesis using Cons.prems by (intro receive_last_seen) (auto simp: r)
    next
      case False
      then have "lr_nodes ?lr = lr_nodes lr" using Cons.prems by (intro receive_keeps_nodes) (auto simp: r)
      then show ?thesis using Cons.prems by auto
    qed
    with Cons.IH [of ?lr] Cons.prems(2) show ?case by (auto simp: r split_beta)
  qed auto
  then show ?thesis by (auto simp: online_node_count_def filter_empty_conv ln_is_online_def elapsed_def)
qed

theorem data_keeps_no_node_online_witness:
  "let lr = record_node 0 ''b'' (fill32 2) (''10.0.0.2'', 9876) (sample_lan ''a'' 1);
       data = build_data_msg ''b'' (fill32 2) [1]
   in online_node_count 0 lr = 1
      \<and> online_node_count 5000000000 (fst (lan_receive_all sample_udp [(4000000000, (''10.0.0.2'', 9876), data)] lr)) = 0"
proof -
  let ?lr = "record_node 0 ''b'' (fill32 2) (''10.0.0.2'', 9876) (sample_lan ''a'' 1)"
  have nodes: "hm_values (lr_nodes ?lr) = [\<lparr>ln_name = ''b'', ln_id = fill32 2, ln_addr = (''10.0.0.2'', 9876), ln_last_seen = 0, ln_status = Online\<rparr>]"
    by (simp add: record_node_def sample_lan_facts hm_values_def hm_insert_def hm_empty_def)
  have "online_node_count 5000000000
      (fst (lan_receive_all sample_udp [(4000000000, (''10.0.0.2'', 9876), build_data_msg ''b'' (fill32 2) [1])] ?lr)) = 0"
    by (rule data_keeps_no_node_online) (simp_all add: nodes from_secs_def frame_type)
  moreover have "online_node_count 0 ?lr = 1" by (simp add: online_node_count_def nodes ln_is_online_def from_secs_def)
  ultimately show ?thesis by (simp add: Let_def)
qed

end
