(* ===== verification/VpnRouter.thy ===== *)
theory VpnRouter
  imports Lan Relay Session Text
begin

text \<open>
  The VPN router (\<open>src/vpn/vpn_router.rs\<close>): LAN first, then the relay; the listeners and the
  dispatch of received messages to them; the table of known nodes; ping. The resolver is any
  implementation of the resolver trait (its state has the type \<open>'r\<close>), a listener of a
  client is a value of type \<open>'l\<close>, and a call of a listener shows as the listener with its
  arguments.
\<close>

section \<open>State\<close>

definition default_vpn_port :: u16 where
  "default_vpn_port = 9877"

fun relay_error_display :: "(io_error \<Rightarrow> string) \<Rightarrow> relay_error \<Rightarrow> string" where
  "relay_error_display io (IoError e) = ''io error: '' @ io e"
| "relay_error_display io (ConnectionError m) = ''connection error: '' @ m"
| "relay_error_display io (ParseError m) = ''parse error: '' @ m"
| "relay_error_display io PoolFull = ''connection pool full''"
| "relay_error_display io (relay_error.Unreachable a) = ''unreachable: '' @ a"
| "relay_error_display io RelayTimeout = ''timeout''"

record 'r vpn_env =
  ve_hex :: "bytes \<Rightarrow> string"
  ve_net :: net_env
  ve_io_display :: "io_error \<Rightarrow> string"
  ve_udp :: udp_env
  ve_resolve :: "instant \<Rightarrow> string \<Rightarrow> 'r \<Rightarrow> 'r \<times> (address_error + node_id)"

datatype 'l listener = Client 'l | PingWait string

type_synonym known_node_info = "node_id \<times> connection_type \<times> node_status"

record ('r, 'l) vpn_router =
  vr_local_name :: string
  vr_local_id :: node_id
  vr_port :: u16
  vr_resolver :: 'r
  vr_lan :: "lan_router option"
  vr_relay :: relay_manager
  vr_sessions :: session_manager
  vr_running :: bool
  vr_listeners :: "'l listener list"
  vr_known :: "(string, known_node_info) hashmap"

definition vpn_with_port ::
  "string \<Rightarrow> node_id \<Rightarrow> 'r \<Rightarrow> lan_router option \<Rightarrow> relay_manager \<Rightarrow> u16 \<Rightarrow> ('r, 'l) vpn_router" where
  "vpn_with_port n i r lan relay port =
     \<lparr>vr_local_name = n, vr_local_id = i, vr_port = port, vr_resolver = r, vr_lan = lan, vr_relay = relay,
      vr_sessions = session_manager_new i, vr_running = False, vr_listeners = [], vr_known = hm_empty\<rparr>"

definition vpn_new :: "string \<Rightarrow> node_id \<Rightarrow> 'r \<Rightarrow> lan_router option \<Rightarrow> relay_manager \<Rightarrow> ('r, 'l) vpn_router" where
  "vpn_new n i r lan relay = vpn_with_port n i r lan relay default_vpn_port"

definition register_listener :: "'l \<Rightarrow> ('r, 'l) vpn_router \<Rightarrow> ('r, 'l) vpn_router" where
  "register_listener l vr = vr\<lparr>vr_listeners := vr_listeners vr @ [Client l]\<rparr>"

definition known_nodes_info :: "('r, 'l) vpn_router \<Rightarrow> (string \<times> node_id \<times> connection_type \<times> node_status) list" where
  "known_nodes_info vr = map (\<lambda>(n, i, ct, ns). (n, i, ct, ns)) (vr_known vr)"

definition vpn_known_count :: "('r, 'l) vpn_router \<Rightarrow> nat" where
  "vpn_known_count vr = hm_len (vr_known vr)"

definition vpn_start ::
  "(io_error \<Rightarrow> string) \<Rightarrow> (string \<Rightarrow> io_error option) \<Rightarrow> ('r, 'l) vpn_router
   \<Rightarrow> ('r, 'l) vpn_router \<times> (router_error + unit)" where
  "vpn_start io bind vr =
     (case relay_start bind (vr_relay vr) of
        (rm, Inl e) \<Rightarrow> (vr\<lparr>vr_relay := rm\<rparr>, Inl (SendFailedTo (''relay start failed: '' @ relay_error_display io e)))
      | (rm, Inr _) \<Rightarrow> (vr\<lparr>vr_relay := rm, vr_running := True\<rparr>, Inr ()))"

definition vpn_stop :: "('r, 'l) vpn_router \<Rightarrow> ('r, 'l) vpn_router" where
  "vpn_stop vr = vr\<lparr>vr_running := False, vr_relay := relay_stop (vr_relay vr)\<rparr>"

text \<open>A connection that the relay server of a router serves.\<close>

definition vpn_accept :: "bytes \<Rightarrow> ('r, 'l) vpn_router \<Rightarrow> ('r, 'l) vpn_router" where
  "vpn_accept stream vr = vr\<lparr>vr_relay := (vr_relay vr)\<lparr>rm_server := server_accept stream (rm_server (vr_relay vr))\<rparr>\<rparr>"

text \<open>
  The calls of the listeners for received messages, and one round of the receiving thread,
  which takes them from the queue of the relay server.
\<close>

definition dispatch ::
  "(bytes \<Rightarrow> string) \<Rightarrow> (node_id \<times> message) list \<Rightarrow> ('r, 'l) vpn_router \<Rightarrow> ('l listener \<times> string \<times> bytes) list" where
  "dispatch hex received vr =
     (if \<not> vr_running vr then []
      else concat (map (\<lambda>(sender, m).
             if msg_type m = MtData then map (\<lambda>l. (l, id_to_hex hex sender, payload m)) (vr_listeners vr) else [])
           received))"

definition receive_round ::
  "(bytes \<Rightarrow> string) \<Rightarrow> ('r, 'l) vpn_router \<Rightarrow> ('r, 'l) vpn_router \<times> ('l listener \<times> string \<times> bytes) list" where
  "receive_round hex vr =
     (if \<not> vr_running vr then (vr, [])
      else case take_received (rm_server (vr_relay vr)) of
             (srv, received) \<Rightarrow> (vr\<lparr>vr_relay := (vr_relay vr)\<lparr>rm_server := srv\<rparr>\<rparr>, dispatch hex received vr))"

definition update_node ::
  "string \<Rightarrow> node_id \<Rightarrow> connection_type \<Rightarrow> node_status \<Rightarrow> ('r, 'l) vpn_router \<Rightarrow> ('r, 'l) vpn_router" where
  "update_node n i ct ns vr = vr\<lparr>vr_known := hm_insert n (i, ct, ns) (vr_known vr)\<rparr>"

section \<open>Sending\<close>

text \<open>What a send puts on the network: the datagrams and the writes to relay streams.\<close>

type_synonym vpn_output = "datagrams \<times> (stream \<times> bytes) list"

definition vpn_resolve ::
  "'r vpn_env \<Rightarrow> instant \<Rightarrow> string \<Rightarrow> ('r, 'l) vpn_router \<Rightarrow> ('r, 'l) vpn_router \<times> (router_error + parsed_address \<times> node_id)" where
  "vpn_resolve env now target vr =
     (case parse_address target of
        Inl e \<Rightarrow> (vr, Inl (InvalidData (address_error_display e)))
      | Inr parsed \<Rightarrow>
          (case ve_resolve env now (pa_name parsed) (vr_resolver vr) of
             (r, Inl e) \<Rightarrow> (vr\<lparr>vr_resolver := r\<rparr>, Inl (router_error.Unreachable (address_error_display e)))
           | (r, Inr i) \<Rightarrow> (vr\<lparr>vr_resolver := r\<rparr>, Inr (parsed, i))))"

text \<open>The attempt over the LAN: whether it succeeded.\<close>

definition try_lan ::
  "'r vpn_env \<Rightarrow> (instant \<times> socket_addr \<times> bytes) list \<Rightarrow> string \<Rightarrow> bytes \<Rightarrow> ('r, 'l) vpn_router
   \<Rightarrow> ('r, 'l) vpn_router \<times> datagrams \<times> bool" where
  "try_lan env meanwhile target d vr =
     (case vr_lan vr of
        None \<Rightarrow> (vr, [], False)
      | Some lan \<Rightarrow>
          (case lan_send (ve_udp env) meanwhile target d lan of
             (lan, out, Inl _) \<Rightarrow> (vr\<lparr>vr_lan := Some lan\<rparr>, out, False)
           | (lan, out, Inr _) \<Rightarrow> (vr\<lparr>vr_lan := Some lan\<rparr>, out, True)))"

definition vpn_router_send ::
  "'r vpn_env \<Rightarrow> instant \<Rightarrow> (instant \<times> socket_addr \<times> bytes) list \<Rightarrow> string \<Rightarrow> bytes \<Rightarrow> ('r, 'l) vpn_router
   \<Rightarrow> ('r, 'l) vpn_router \<times> vpn_output \<times> (router_error + unit)" where
  "vpn_router_send env now meanwhile target d vr =
     (case vpn_resolve env now target vr of
        (vr, Inl e) \<Rightarrow> (vr, ([], []), Inl e)
      | (vr, Inr (parsed, i)) \<Rightarrow>
          (case try_lan env meanwhile target d vr of
             (vr, out, True) \<Rightarrow> (update_node (pa_name parsed) i Lan Online vr, (out, []), Inr ())
           | (vr, out, False) \<Rightarrow>
               (case relay_send (ve_hex env) (ve_net env) now i (message_new MtData d) (vr_relay vr) of
                  (rm, w, Inl e) \<Rightarrow>
                    (vr\<lparr>vr_relay := rm\<rparr>, (out, w), Inl (SendFailedTo (relay_error_display (ve_io_display env) e)))
                | (rm, w, Inr _) \<Rightarrow>
                    (update_node (pa_name parsed) i Vpn Online (vr\<lparr>vr_relay := rm\<rparr>), (out, w), Inr ()))))"

definition is_pong :: "string \<Rightarrow> bytes \<Rightarrow> bool" where
  "is_pong ping_id data =
     (case from_utf8 data of
        None \<Rightarrow> False
      | Some s \<Rightarrow> starts_with s ''PONG:'' \<and> trim_end s = ''PONG:'' @ ping_id)"

text \<open>
  \<open>ping_node\<close>: \<open>answers\<close> is what the relay server receives in the 5 seconds after the ping,
  \<open>took\<close> the time until the result. The listener stays registered.
\<close>

definition ping_node ::
  "'r vpn_env \<Rightarrow> instant \<Rightarrow> u64 \<Rightarrow> (instant \<times> socket_addr \<times> bytes) list \<Rightarrow> (node_id \<times> message) list \<Rightarrow> duration
   \<Rightarrow> string \<Rightarrow> ('r, 'l) vpn_router \<Rightarrow> ('r, 'l) vpn_router \<times> vpn_output \<times> (router_error + duration)" where
  "ping_node env now rand meanwhile answers took target vr =
     (case vpn_resolve env now target vr of
        (vr, Inl e) \<Rightarrow> (vr, ([], []), Inl e)
      | (vr, Inr (parsed, i)) \<Rightarrow>
          let ping_id = ''ping-'' @ show_nat (unat rand);
              vr = vr\<lparr>vr_listeners := vr_listeners vr @ [PingWait ping_id]\<rparr>;
              msg = message_new MtData (str_bytes (''PING:'' @ ping_id))
          in case try_lan env meanwhile target (message_to_bytes msg) vr of
               (vr, out, True) \<Rightarrow> (update_node (pa_name parsed) i Lan Online vr, (out, []), Inr took)
             | (vr, out, False) \<Rightarrow>
                 (case relay_send (ve_hex env) (ve_net env) now i msg (vr_relay vr) of
                    (rm, w, Inl e) \<Rightarrow>
                      (vr\<lparr>vr_relay := rm\<rparr>, (out, w), Inl (SendFailedTo (relay_error_display (ve_io_display env) e)))
                  | (rm, w, Inr _) \<Rightarrow>
                      let vr = vr\<lparr>vr_relay := rm\<rparr> in
                      if (\<exists>(l, from_id, data) \<in> set (dispatch (ve_hex env) answers vr). l = PingWait ping_id \<and> is_pong ping_id data)
                      then (update_node (pa_name parsed) i Vpn Online vr, (out, w), Inr took)
                      else (vr, (out, w), Inl Timeout)))"

definition vpn_status :: "u64 \<Rightarrow> ('r, 'l) vpn_router \<Rightarrow> router_status" where
  "vpn_status clock vr =
     \<lparr>rs_node_status = (if vr_running vr then Online else Offline), rs_connection_type = Vpn,
      rs_known_nodes = vpn_known_count vr + session_count (vr_sessions vr),
      rs_active_routes = length (filter (\<lambda>(i, ct, ns). ns = Online) (hm_values (vr_known vr))),
      rs_last_update = clock\<rparr>"

section \<open>Known nodes\<close>

datatype 'l vpn_op =
    SendOp instant "(instant \<times> socket_addr \<times> bytes) list" string bytes
  | PingOp instant u64 "(instant \<times> socket_addr \<times> bytes) list" "(node_id \<times> message) list" duration string
  | ListenOp 'l
  | StopOp

fun vpn_step :: "'r vpn_env \<Rightarrow> 'l vpn_op \<Rightarrow> ('r, 'l) vpn_router \<Rightarrow> ('r, 'l) vpn_router" where
  "vpn_step env (SendOp now meanwhile target d) vr = fst (vpn_router_send env now meanwhile target d vr)"
| "vpn_step env (PingOp now rand meanwhile answers took target) vr =
     fst (ping_node env now rand meanwhile answers took target vr)"
| "vpn_step env (ListenOp l) vr = register_listener l vr"
| "vpn_step env StopOp vr = vpn_stop vr"

definition all_online :: "('r, 'l) vpn_router \<Rightarrow> bool" where
  "all_online vr \<longleftrightarrow> (\<forall>(i, ct, ns) \<in> set (hm_values (vr_known vr)). ns = Online)"

lemma all_online_update: "all_online vr \<Longrightarrow> all_online (update_node n i ct Online vr)"
  by (auto simp: all_online_def update_node_def dest!: hm_values_insert)

lemma vpn_resolve_known [simp]: "vr_known (fst (vpn_resolve env now target vr)) = vr_known vr"
  by (auto simp: vpn_resolve_def split: sum.split prod.split)

lemma try_lan_known [simp]: "vr_known (fst (try_lan env meanwhile target d vr)) = vr_known vr"
  by (auto simp: try_lan_def split: sum.split prod.split option.split)

lemma all_online_known: "vr_known vr' = vr_known vr \<Longrightarrow> all_online vr' = all_online vr"
  by (simp add: all_online_def)

lemma vpn_router_send_online: "all_online vr \<Longrightarrow> all_online (fst (vpn_router_send env now meanwhile target d vr))"
proof -
  assume a: "all_online vr"
  obtain v1 r where 1: "vpn_resolve env now target vr = (v1, r)" by force
  obtain v2 out ok where 2: "try_lan env meanwhile target d v1 = (v2, out, ok)" using prod_cases3 by blast
  have k: "vr_known v1 = vr_known vr" "vr_known v2 = vr_known v1"
    using vpn_resolve_known [of env now target vr] try_lan_known [of env meanwhile target d v1] 1 2 by simp_all
  have b: "all_online v1" "all_online v2" "all_online (v2\<lparr>vr_relay := rm\<rparr>)" for rm
    using a all_online_known k by (simp_all add: all_online_def)
  show ?thesis using b
    by (auto simp: vpn_router_send_def 1 2 intro: all_online_update split: sum.split prod.split bool.split)
qed

lemma ping_node_online: "all_online vr \<Longrightarrow> all_online (fst (ping_node env now rand meanwhile answers took target vr))"
proof -
  assume a: "all_online vr"
  let ?p = "''ping-'' @ show_nat (unat rand)"
  obtain v1 r where 1: "vpn_resolve env now target vr = (v1, r)" by force
  let ?v = "v1\<lparr>vr_listeners := vr_listeners v1 @ [PingWait ?p]\<rparr>"
  let ?m = "message_new MtData (str_bytes (''PING:'' @ ?p))"
  obtain v2 out ok where 2: "try_lan env meanwhile target (message_to_bytes ?m) ?v = (v2, out, ok)" using prod_cases3 by blast
  have "vr_known v1 = vr_known vr" using vpn_resolve_known [of env now target vr] unfolding 1 by simp
  moreover have "vr_known v2 = vr_known v1"
    using try_lan_known [of env meanwhile target "message_to_bytes ?m" ?v] unfolding 2 by simp
  ultimately have k: "vr_known v1 = vr_known vr" "vr_known v2 = vr_known v1" by simp_all
  have b: "all_online v1" "all_online v2" "all_online (v2\<lparr>vr_relay := rm\<rparr>)" for rm
    using a all_online_known k by (simp_all add: all_online_def)
  show ?thesis using b 2
    by (auto simp: ping_node_def 1 Let_def intro: all_online_update split: sum.split prod.split bool.split)
qed

interpretation vpn: op_machine "vpn_step (env :: 'r vpn_env)" all_online
proof
  fix e :: "'l vpn_op" and s :: "('r, 'l) vpn_router"
  assume "all_online s"
  then show "all_online (vpn_step env e s)"
    by (cases e) (simp_all add: vpn_router_send_online ping_node_online, simp_all add: all_online_def register_listener_def vpn_stop_def)
qed

text \<open>A node that was reached once is reported as an active route for ever: after every
  run of sends, pings, registrations and stops, failed or not, the number of active
  routes of a new router is the number of nodes it ever reached.\<close>

theorem reached_nodes_stay_active:
  "let s = vpn_status clock (fold (vpn_step env) ops (vpn_with_port n i r lan relay port))
   in rs_active_routes s = vpn_known_count (fold (vpn_step env) ops (vpn_with_port n i r lan relay port))"
proof -
  let ?v = "fold (vpn_step env) ops (vpn_with_port n i r lan relay port)"
  have "all_online (vpn_with_port n i r lan relay port)"
    by (simp add: all_online_def vpn_with_port_def hm_values_def hm_empty_def)
  from vpn.run_inv [OF this, of env ops] have "all_online ?v" .
  then have "filter (\<lambda>(i, ct, ns). ns = Online) (hm_values (vr_known ?v)) = hm_values (vr_known ?v)"
    by (auto simp: all_online_def filter_id_conv)
  then show ?thesis by (simp add: vpn_status_def vpn_known_count_def hm_len_def hm_values_def Let_def)
qed

section \<open>What arrives\<close>

text \<open>The streams that were written reach a router, and its thread makes a round: the calls.\<close>

definition calls_at :: "(bytes \<Rightarrow> string) \<Rightarrow> (stream \<times> bytes) list \<Rightarrow> ('r, 'l) vpn_router \<Rightarrow> ('l listener \<times> string \<times> bytes) list" where
  "calls_at hex w peer = snd (receive_round hex (fold (\<lambda>(st, b). vpn_accept b) w peer))"

text \<open>A router whose threads run and whose queue is empty.\<close>

definition idle :: "('r, 'l) vpn_router \<Rightarrow> bool" where
  "idle vr \<longleftrightarrow> vr_running vr \<and> tcp_running (rm_server (vr_relay vr)) \<and> tcp_received (rm_server (vr_relay vr)) = []"

lemma calls_at_one:
  "idle peer \<Longrightarrow> calls_at hex [(st, b)] peer
    = concat (map (\<lambda>(sender, m). if msg_type m = MtData then map (\<lambda>l. (l, id_to_hex hex sender, payload m)) (vr_listeners peer) else [])
        (handle_connection b))"
  "idle peer \<Longrightarrow> calls_at hex [] peer = []"
  by (simp_all add: calls_at_def receive_round_def idle_def vpn_accept_def server_accept_def take_received_def dispatch_def
      cong: if_cong)

text \<open>C15. When a send to a node whose address is known succeeds over the relay, because
  there is no LAN router or its send failed, data of at most 1 MiB calls every
  listener of the receiving router, if that runs and has nothing else to read, exactly
  once with the data, in the order of registration; the sender they are told is not
  the sending node but the identity of 32 zero bytes. Larger data, below 4 GiB, calls
  no listener. In both cases the sender records the node as online.\<close>

theorem relayed_data_reaches_listeners:
  assumes "vpn_router_send env now meanwhile target d vr = (vr', (out, w), Inr ())" and "w \<noteq> []"
    and "parse_address target = Inr p" and "ve_resolve env now (pa_name p) (vr_resolver vr) = (r, Inr i)"
    and "get_node_addr (vr_relay vr) i = Some addr" and "length d < 2 ^ 32" and "idle peer"
  shows "calls_at hex w peer = (if length d \<le> max_message_len
             then map (\<lambda>l. (l, id_to_hex hex (fill32 0), d)) (vr_listeners peer) else [])
    \<and> hm_get (vr_known vr') (pa_name p) = Some (i, Vpn, Online)"
proof -
  let ?vr = "vr\<lparr>vr_resolver := r\<rparr>"
  have s: "vpn_router_send env now meanwhile target d vr =
      (case try_lan env meanwhile target d ?vr of
         (vr, out, True) \<Rightarrow> (update_node (pa_name p) i Lan Online vr, (out, []), Inr ())
       | (vr, out, False) \<Rightarrow>
           (case relay_send (ve_hex env) (ve_net env) now i (message_new MtData d) (vr_relay vr) of
              (rm, w, Inl e) \<Rightarrow>
                (vr\<lparr>vr_relay := rm\<rparr>, (out, w), Inl (SendFailedTo (relay_error_display (ve_io_display env) e)))
            | (rm, w, Inr _) \<Rightarrow> (update_node (pa_name p) i Vpn Online (vr\<lparr>vr_relay := rm\<rparr>), (out, w), Inr ())))"
    using assms(3,4) by (simp add: vpn_router_send_def vpn_resolve_def)
  obtain vr1 out1 where t: "try_lan env meanwhile target d ?vr = (vr1, out1, False)"
    using s assms(1,2) by (cases "try_lan env meanwhile target d ?vr") (auto split: bool.splits)
  have "vr_relay vr1 = vr_relay vr"
    using t by (auto simp: try_lan_def split: option.splits prod.splits sum.splits)
  then obtain rm where rm: "relay_send (ve_hex env) (ve_net env) now i (message_new MtData d) (vr_relay vr) = (rm, w, Inr ())"
    "vr' = update_node (pa_name p) i Vpn Online (vr1\<lparr>vr_relay := rm\<rparr>)"
    using assms(1) s t by (auto split: prod.splits sum.splits)
  then obtain st where w: "w = [(st, message_to_bytes (message_new MtData d))]"
    using assms(5) by (auto simp: relay_send_def dest: via_client_writes)
  have h: "handle_connection (message_to_bytes (message_new MtData d))
      = (if length d \<le> max_message_len then [(fill32 0, message_new MtData d)] else [])"
    using frames_read_back [of "[message_new MtData d]"] assms(6)
      oversized_frame [of "message_new MtData d" "[]"] by (auto simp: message_new_def)
  have "calls_at hex w peer = (if length d \<le> max_message_len
      then map (\<lambda>l. (l, id_to_hex hex (fill32 0), d)) (vr_listeners peer) else [])"
    unfolding w calls_at_one(1) [OF assms(7)] h by (simp add: message_new_def)
  then show ?thesis by (simp add: rm(2) update_node_def hm_simps)
qed

text \<open>C16. Over the LAN, a successful send of at most 65535 bytes by a router with a name
  of at most 255 bytes calls no listener of a running peer: nothing is written to the
  relay. When the frame fits the 4096 bytes of the receive buffer, the LAN router of
  the peer puts the data into a buffer of its own that its VPN router does not look
  at; when it does not fit, the data is lost.\<close>

theorem lan_data_reaches_no_listener:
  assumes "vr_lan vr = Some lan" and "lan_send (ve_udp env) meanwhile target d lan = (lan', sent, Inr ())"
    and "vpn_resolve env now target vr = (vr1, Inr (p, i))"
    and "name_ok lan" and "length d \<le> 65535" and "lr_running peer_lan" and "idle peer"
  shows "\<exists>vr' out w. vpn_router_send env now meanwhile target d vr = (vr', (out, w), Inr ())
    \<and> lan_receive env' t from_addr (snd (last out)) peer_lan
      = (if frame_overhead lan + length d \<le> recv_buffer
         then peer_lan\<lparr>lr_received := lr_received peer_lan @ [(lr_local_name lan, d)]\<rparr> else peer_lan, [])
    \<and> calls_at hex w peer = []"
proof -
  have "vr_lan vr1 = Some lan"
    using assms(1,3) by (auto simp: vpn_resolve_def split: sum.splits prod.splits)
  then have "vpn_router_send env now meanwhile target d vr
      = (update_node (pa_name p) i Lan Online (vr1\<lparr>vr_lan := Some lan'\<rparr>), (sent, []), Inr ())"
    using assms(2,3) by (simp add: vpn_router_send_def try_lan_def)
  moreover have "lan_receive env' t from_addr (snd (last sent)) peer_lan
      = (if frame_overhead lan + length d \<le> recv_buffer
         then peer_lan\<lparr>lr_received := lr_received peer_lan @ [(lr_local_name lan, d)]\<rparr> else peer_lan, [])"
    using lan_send_Inr [OF assms(2)] receive_data [OF assms(6,4,5)] by simp
  ultimately show ?thesis using calls_at_one(2) [OF assms(7)] by simp
qed

section \<open>Examples\<close>

text \<open>Every name resolves to the identity 2, whose address the relay manager knows.\<close>

definition sample_vpn_env :: "unit vpn_env" where
  "sample_vpn_env = \<lparr>ve_hex = (\<lambda>_. []), ve_net = sample_net, ve_io_display = (\<lambda>_. []), ve_udp = sample_udp,
                 ve_resolve = (\<lambda>now n r. (r, Inr (fill32 2)))\<rparr>"

definition sample_router :: "lan_router option \<Rightarrow> (unit, 'l) vpn_router" where
  "sample_router lan = vpn_new ''a'' (fill32 1) () lan (register_node (fill32 2) ''10.0.0.2:9877'' (relay_new (fill32 1) 9877))"

definition sample_peer :: "(unit, nat) vpn_router" where
  "sample_peer = register_listener 8 (register_listener 7
     (fst (vpn_start (\<lambda>_. []) (\<lambda>_. None) (vpn_new ''b'' (fill32 2) () None (relay_new (fill32 2) 9877)))))"

lemma sample_peer_facts: "idle sample_peer" "vr_listeners sample_peer = [Client 7, Client 8]"
  by (simp_all add: idle_def sample_peer_def register_listener_def vpn_start_def vpn_new_def vpn_with_port_def
      relay_start_def server_start_def relay_new_def server_new_def)

lemma parse_node_b: "parse_address ''node:b'' = Inr \<lparr>pa_name = ''b'', pa_port = None\<rparr>"
  by (simp add: parse_address_def numeral_3_eq_3 Let_def)

theorem relayed_data_reaches_listeners_witness:
  "\<exists>vr' out w. vpn_router_send sample_vpn_env 5 [] ''node:b'' [1, 2, 3] (sample_router None :: (unit, nat) vpn_router) = (vr', (out, w), Inr ())
     \<and> calls_at (\<lambda>_. ''zero'') w sample_peer = [(Client 7, ''zero'', [1, 2, 3]), (Client 8, ''zero'', [1, 2, 3])]"
proof -
  let ?vr = "sample_router None :: (unit, nat) vpn_router"
  have lan: "vr_lan ?vr = None" by (simp add: sample_router_def vpn_new_def vpn_with_port_def)
  have addr: "get_node_addr (vr_relay ?vr) (fill32 2) = Some ''10.0.0.2:9877''"
    by (simp add: sample_router_def vpn_new_def vpn_with_port_def relay_eval)
  have "snd (snd (vpn_router_send sample_vpn_env 5 [] ''node:b'' [1, 2, 3] ?vr)) = Inr ()"
    by (simp add: vpn_router_send_def vpn_resolve_def try_lan_def parse_node_b sample_vpn_env_def sample_router_def vpn_new_def
        vpn_with_port_def relay_eval message_new_def)
  then obtain vr' out w where s: "vpn_router_send sample_vpn_env 5 [] ''node:b'' [1, 2, 3] ?vr = (vr', (out, w), Inr ())"
    by (metis prod.exhaust_sel snd_conv)
  then have w: "w \<noteq> []"
    by (auto simp: vpn_router_send_def vpn_resolve_def try_lan_def parse_node_b sample_vpn_env_def sample_router_def vpn_new_def
        vpn_with_port_def relay_eval message_new_def)
  have "calls_at (\<lambda>_. ''zero'') w sample_peer
      = map (\<lambda>l. (l, id_to_hex (\<lambda>_. ''zero'') (fill32 0), [1, 2, 3])) (vr_listeners sample_peer)"
    using w relayed_data_reaches_listeners [OF s _ parse_node_b _ addr _ sample_peer_facts(1), where hex = "\<lambda>_. ''zero''"]
    by (simp add: sample_vpn_env_def max_message_len_def)
  then show ?thesis using s by (simp add: sample_peer_facts id_to_hex_def)
qed

theorem lan_data_reaches_no_listener_witness:
  "\<exists>vr' out w. vpn_router_send sample_vpn_env 5 [(1, (''10.0.0.2'', 9876), build_discover_reply ''b'' (fill32 2))] ''node:b''
       [1, 2, 3] (sample_router (Some (sample_lan ''a'' 1)) :: (unit, nat) vpn_router) = (vr', (out, w), Inr ())
     \<and> lr_received (fst (lan_receive sample_udp 2 (''10.0.0.1'', 9876) (snd (last out)) (sample_lan ''b'' 2)))
         = [(''a'', [1, 2, 3])]
     \<and> calls_at (\<lambda>_. []) w sample_peer = []"
proof -
  let ?lan = "sample_lan ''a'' 1" and ?vr = "sample_router (Some (sample_lan ''a'' 1)) :: (unit, nat) vpn_router"
  let ?reply = "[(1, (''10.0.0.2'', 9876), build_discover_reply ''b'' (fill32 2))]"
  have ok: "name_ok ?lan" by (simp add: name_ok_def sample_lan_facts str_bytes_def)
  have vr: "vr_lan ?vr = Some ?lan" "vpn_resolve sample_vpn_env 5 ''node:b'' ?vr
      = (?vr, Inr (\<lparr>pa_name = ''b'', pa_port = None\<rparr>, fill32 2))"
    by (simp_all add: sample_router_def vpn_new_def vpn_with_port_def vpn_resolve_def parse_node_b sample_vpn_env_def)
  have udp: "ve_udp sample_vpn_env = sample_udp" by (simp add: sample_vpn_env_def)
  show ?thesis
    using lan_data_reaches_no_listener [OF vr(1) sample_send [folded udp] vr(2) ok _ sample_lan_facts(1) [of "''b''" 2] sample_peer_facts(1),
        where d = "[1, 2, 3]" and env' = sample_udp and t = 2 and from_addr = "(''10.0.0.1'', 9876)"
          and hex = "\<lambda>_. []"]
    by (force simp: frame_overhead_def sample_lan_facts header_size_def node_id_size_def data_len_size_def recv_buffer_def)
qed

end
