(* ===== verification/Encrypt.thy ===== *)
theory Encrypt
  imports Prelude
begin

text \<open>
  Encrypted chunks (\<open>src/storage/encrypt.rs\<close>): the nonce of a chunk and the check of the
  index it holds. AES-256-GCM is the record \<open>aes_env\<close>; the eight random bytes of a nonce are
  an argument.
\<close>

definition key_len :: nat where
  "key_len = 32"

definition nonce_len :: nat where
  "nonce_len = 12"

definition tag_len :: nat where
  "tag_len = 16"

definition nonce_random_bytes :: nat where
  "nonce_random_bytes = 8"

record encrypted_chunk =
  ec_nonce :: bytes
  ec_data :: bytes

record encryptor =
  en_key :: b32

record aes_env =
  ae_encrypt :: "bytes \<Rightarrow> bytes \<Rightarrow> bytes \<Rightarrow> bytes"
  ae_decrypt :: "bytes \<Rightarrow> bytes \<Rightarrow> bytes \<Rightarrow> bytes option"

definition encryptor_new :: "b32 \<Rightarrow> encryptor" where
  "encryptor_new key = \<lparr>en_key = key\<rparr>"

definition to_le :: "nat \<Rightarrow> nat \<Rightarrow> bytes" where
  "to_le n k = rev (to_be n k)"

definition of_le :: "bytes \<Rightarrow> nat" where
  "of_le bs = of_be (rev bs)"

definition encrypt_chunk :: "aes_env \<Rightarrow> bytes \<Rightarrow> u32 \<Rightarrow> bytes \<Rightarrow> encryptor \<Rightarrow> encrypted_chunk" where
  "encrypt_chunk aes random i plaintext enc =
     (let nonce = to_le 4 (unat i) @ random
      in \<lparr>ec_nonce = nonce, ec_data = ae_encrypt aes (as_bytes (en_key enc)) nonce plaintext\<rparr>)"

definition decrypt_chunk :: "aes_env \<Rightarrow> u32 \<Rightarrow> encrypted_chunk \<Rightarrow> encryptor \<Rightarrow> string + bytes" where
  "decrypt_chunk aes i c enc =
     (let stored_index = (of_nat (of_le (take 4 (ec_nonce c))) :: u32)
      in if stored_index \<noteq> i then
           Inl (''chunk index mismatch: nonce has '' @ show_nat (unat stored_index) @ '', expected ''
                @ show_nat (unat i))
         else case ae_decrypt aes (as_bytes (en_key enc)) (ec_nonce c) (ec_data c) of
                None \<Rightarrow> Inl ''decryption failed: authentication tag mismatch or wrong key''
              | Some p \<Rightarrow> Inr p)"

text \<open>What the cipher documents: decryption undoes encryption, and the tag makes the data
  longer by sixteen bytes.\<close>

definition aes_ok :: "aes_env \<Rightarrow> bool" where
  "aes_ok aes \<longleftrightarrow>
     (\<forall>key nonce p. ae_decrypt aes key nonce (ae_encrypt aes key nonce p) = Some p
        \<and> length (ae_encrypt aes key nonce p) = length p + tag_len)"

text \<open>Decrypting an encrypted chunk under its own index gives the plaintext back; under
  any other index it is an error, so the chunks of a file cannot be exchanged. The
  ciphertext is sixteen bytes longer than the plaintext.\<close>

theorem encrypted_chunk_roundtrip:
  assumes "aes_ok aes"
  shows "decrypt_chunk aes j (encrypt_chunk aes random i p enc) enc
      = (if j = i then Inr p
         else Inl (''chunk index mismatch: nonce has '' @ show_nat (unat i) @ '', expected '' @ show_nat (unat j)))
    \<and> length (ec_data (encrypt_chunk aes random i p enc)) = length p + tag_len"
proof -
  have "unat i < 256 ^ 4" using unsigned_less [of i] by simp
  then have "of_le (to_le 4 (unat i)) = unat i" by (simp add: of_le_def to_le_def of_be_to_be_id)
  moreover have "length (to_le 4 (unat i)) = 4" by (simp add: to_le_def)
  ultimately show ?thesis using assms by (simp add: decrypt_chunk_def encrypt_chunk_def aes_ok_def Let_def)
qed

definition sample_aes :: aes_env where
  "sample_aes = \<lparr>ae_encrypt = \<lambda>_ _ p. p @ replicate 16 0, ae_decrypt = \<lambda>_ _ c. Some (take (length c - 16) c)\<rparr>"

lemma sample_aes_ok: "aes_ok sample_aes"
  by (simp add: aes_ok_def sample_aes_def tag_len_def)

theorem encrypted_chunk_roundtrip_witness:
  "decrypt_chunk sample_aes 3 (encrypt_chunk sample_aes [1, 2, 3, 4, 5, 6, 7, 8] 3 [9] (encryptor_new (fill32 1)))
     (encryptor_new (fill32 1)) = Inr [9]"
  using encrypted_chunk_roundtrip [OF sample_aes_ok, of 3 "[1, 2, 3, 4, 5, 6, 7, 8]" 3 "[9]"] by simp

end
