(* ===== verification/Stats.thy ===== *)
theory Stats
  imports Float64
begin

text \<open>
  Traffic statistics and rate limits (\<open>src/vpn/stats.rs\<close>): counters with the rate over the
  last five seconds and its peak, the token bucket, and the tracker of a peer. Floating-point
  numbers are rationals with the rounding \<open>rnd\<close> as a parameter; the clock is an argument, and
  an operation that reads it several times reads it once.
\<close>

section \<open>Constants\<close>

definition default_rate_limit_bytes_per_sec :: u64 where
  "default_rate_limit_bytes_per_sec = 1048576"

definition default_bucket_capacity :: u64 where
  "default_bucket_capacity = 10485760"

definition rate_window_secs :: nat where
  "rate_window_secs = 5"

section \<open>Durations and numbers\<close>

definition nanos_per_sec :: nat where
  "nanos_per_sec = 1000000000"

text \<open>\<open>Duration::as_secs_f64\<close>\<close>

definition as_secs_f64 :: "rounding \<Rightarrow> duration \<Rightarrow> f64" where
  "as_secs_f64 rnd d =
     rnd (rnd (of_nat (d div nanos_per_sec)) + rnd (of_nat (d mod nanos_per_sec) / of_nat nanos_per_sec))"

text \<open>\<open>bytes as f64\<close>, and \<open>x as u64\<close>, which saturates.\<close>

definition f64_of :: "rounding \<Rightarrow> 'a::len word \<Rightarrow> f64" where
  "f64_of rnd w = rnd (of_nat (unat w))"

definition f64_to_u64 :: "f64 \<Rightarrow> u64" where
  "f64_to_u64 x = (if x < 0 then 0 else if 2 ^ 64 \<le> x then - 1 else of_int \<lfloor>x\<rfloor>)"

text \<open>The nearest integer, ties to the even one.\<close>

definition nearest :: "rat \<Rightarrow> int" where
  "nearest x =
     (let k = \<lfloor>x\<rfloor>; r = x - of_int k
      in if r < 1 / 2 \<or> (r = 1 / 2 \<and> even k) then k else k + 1)"

text \<open>\<open>Duration::from_secs_f64\<close> of a number that is not negative; it panics from 2^64 seconds on.\<close>

definition from_secs_f64 :: "f64 \<Rightarrow> duration option" where
  "from_secs_f64 x =
     (let n = nearest (x * of_nat nanos_per_sec)
      in if n < 0 \<or> 2 ^ 64 * int nanos_per_sec \<le> n then None else Some (nat n))"

text \<open>\<open>{:.2}\<close> of a number that is not negative.\<close>

definition show_fixed2 :: "f64 \<Rightarrow> string" where
  "show_fixed2 x =
     (let n = nat (nearest (x * 100))
      in show_nat (n div 100) @ ''.'' @ show_nat (n mod 100 div 10) @ show_nat (n mod 10))"

section \<open>Traffic statistics\<close>

record traffic_summary =
  sum_total_tx :: u64
  sum_total_rx :: u64
  sum_tx_rate :: f64
  sum_rx_rate :: f64
  sum_tx_peak :: f64
  sum_rx_peak :: f64
  sum_connection_count :: u64

definition total_bytes :: "traffic_summary \<Rightarrow> u64" where
  "total_bytes s = sum_total_tx s + sum_total_rx s"

definition format_bytes :: "rounding \<Rightarrow> u64 \<Rightarrow> string" where
  "format_bytes rnd b =
     (if 1073741824 \<le> b then show_fixed2 (rnd (f64_of rnd b / 1073741824)) @ '' GiB''
      else if 1048576 \<le> b then show_fixed2 (rnd (f64_of rnd b / 1048576)) @ '' MiB''
      else if 1024 \<le> b then show_fixed2 (rnd (f64_of rnd b / 1024)) @ '' KiB''
      else show_nat (unat b) @ '' B'')"

definition format_rate :: "rounding \<Rightarrow> f64 \<Rightarrow> string" where
  "format_rate rnd r =
     (if 1073741824 \<le> r then show_fixed2 (rnd (r / 1073741824)) @ '' GiB/s''
      else if 1048576 \<le> r then show_fixed2 (rnd (r / 1048576)) @ '' MiB/s''
      else if 1024 \<le> r then show_fixed2 (rnd (r / 1024)) @ '' KiB/s''
      else show_fixed2 r @ '' B/s'')"

record rate_sample =
  rs_timestamp :: instant
  rs_bytes :: u64

record traffic_stats =
  ts_total_tx :: u64
  ts_total_rx :: u64
  ts_tx_peak :: f64
  ts_rx_peak :: f64
  ts_tx_samples :: "rate_sample list"
  ts_rx_samples :: "rate_sample list"
  ts_connection_count :: u64

definition stats_new :: traffic_stats where
  "stats_new =
     \<lparr>ts_total_tx = 0, ts_total_rx = 0, ts_tx_peak = 0, ts_rx_peak = 0, ts_tx_samples = [],
      ts_rx_samples = [], ts_connection_count = 0\<rparr>"

definition cleanup_old_samples :: "instant \<Rightarrow> rate_sample list \<Rightarrow> rate_sample list" where
  "cleanup_old_samples now samples =
     filter (\<lambda>s. now - int (from_secs rate_window_secs) \<le> rs_timestamp s) samples"

definition calculate_rate :: "rounding \<Rightarrow> rate_sample list \<Rightarrow> f64" where
  "calculate_rate rnd samples =
     (if length samples < 2 then 0
      else
        let d = elapsed (rs_timestamp (last samples)) (rs_timestamp (samples ! 0))
        in if d < from_millis 100 then 0
           else rnd (f64_of rnd (sum_list (map rs_bytes samples)) / as_secs_f64 rnd d))"

definition stats_record_tx :: "rounding \<Rightarrow> instant \<Rightarrow> u64 \<Rightarrow> traffic_stats \<Rightarrow> traffic_stats" where
  "stats_record_tx rnd now n s =
     (let samples = cleanup_old_samples now (ts_tx_samples s @ [\<lparr>rs_timestamp = now, rs_bytes = n\<rparr>]);
          rate = calculate_rate rnd samples
      in s\<lparr>ts_total_tx := ts_total_tx s + n, ts_tx_samples := samples,
           ts_tx_peak := (if ts_tx_peak s < rate then rate else ts_tx_peak s)\<rparr>)"

definition stats_record_rx :: "rounding \<Rightarrow> instant \<Rightarrow> u64 \<Rightarrow> traffic_stats \<Rightarrow> traffic_stats" where
  "stats_record_rx rnd now n s =
     (let samples = cleanup_old_samples now (ts_rx_samples s @ [\<lparr>rs_timestamp = now, rs_bytes = n\<rparr>]);
          rate = calculate_rate rnd samples
      in s\<lparr>ts_total_rx := ts_total_rx s + n, ts_rx_samples := samples,
           ts_rx_peak := (if ts_rx_peak s < rate then rate else ts_rx_peak s)\<rparr>)"

text \<open>The counter wraps below zero, as \<open>fetch_sub\<close> does.\<close>

definition add_connection :: "traffic_stats \<Rightarrow> traffic_stats" where
  "add_connection s = s\<lparr>ts_connection_count := ts_connection_count s + 1\<rparr>"

definition stats_remove_connection :: "traffic_stats \<Rightarrow> traffic_stats" where
  "stats_remove_connection s = s\<lparr>ts_connection_count := ts_connection_count s - 1\<rparr>"

definition stats_summary :: "rounding \<Rightarrow> traffic_stats \<Rightarrow> traffic_summary" where
  "stats_summary rnd s =
     \<lparr>sum_total_tx = ts_total_tx s, sum_total_rx = ts_total_rx s,
      sum_tx_rate = calculate_rate rnd (ts_tx_samples s), sum_rx_rate = calculate_rate rnd (ts_rx_samples s),
      sum_tx_peak = ts_tx_peak s, sum_rx_peak = ts_rx_peak s,
      sum_connection_count = ts_connection_count s\<rparr>"

definition stats_reset :: "traffic_stats \<Rightarrow> traffic_stats" where
  "stats_reset s =
     s\<lparr>ts_total_tx := 0, ts_total_rx := 0, ts_tx_samples := [], ts_rx_samples := [],
       ts_tx_peak := 0, ts_rx_peak := 0, ts_connection_count := 0\<rparr>"

section \<open>The token bucket\<close>

record rate_limiter =
  rl_rate_per_sec :: u64
  rl_capacity :: u64
  rl_tokens :: f64
  rl_last_refill :: instant

definition limiter_new :: "rounding \<Rightarrow> instant \<Rightarrow> u64 \<Rightarrow> u64 \<Rightarrow> rate_limiter" where
  "limiter_new rnd now rate capacity =
     \<lparr>rl_rate_per_sec = rate, rl_capacity = capacity, rl_tokens = f64_of rnd capacity, rl_last_refill = now\<rparr>"

definition limiter_default :: "rounding \<Rightarrow> instant \<Rightarrow> rate_limiter" where
  "limiter_default rnd now = limiter_new rnd now default_rate_limit_bytes_per_sec default_bucket_capacity"

definition refill :: "rounding \<Rightarrow> instant \<Rightarrow> rate_limiter \<Rightarrow> rate_limiter" where
  "refill rnd now l =
     (let new_tokens = rnd (as_secs_f64 rnd (elapsed now (rl_last_refill l)) * f64_of rnd (rl_rate_per_sec l))
      in l\<lparr>rl_tokens := min (rnd (rl_tokens l + new_tokens)) (f64_of rnd (rl_capacity l)), rl_last_refill := now\<rparr>)"

definition limiter_check :: "rounding \<Rightarrow> instant \<Rightarrow> u64 \<Rightarrow> rate_limiter \<Rightarrow> rate_limiter \<times> bool" where
  "limiter_check rnd now n l =
     (let l = refill rnd now l
      in if f64_of rnd n \<le> rl_tokens l then (l\<lparr>rl_tokens := rnd (rl_tokens l - f64_of rnd n)\<rparr>, True)
         else (l, False))"

definition limiter_consume :: "rounding \<Rightarrow> instant \<Rightarrow> u64 \<Rightarrow> rate_limiter \<Rightarrow> rate_limiter \<times> u64" where
  "limiter_consume rnd now n l =
     (let l = refill rnd now l;
          consumed = f64_to_u64 (min (f64_of rnd n) (rl_tokens l))
      in (l\<lparr>rl_tokens := rnd (rl_tokens l - f64_of rnd consumed)\<rparr>, consumed))"

definition set_rate :: "u64 \<Rightarrow> rate_limiter \<Rightarrow> rate_limiter" where
  "set_rate r l = l\<lparr>rl_rate_per_sec := r\<rparr>"

definition limiter_reset :: "rounding \<Rightarrow> instant \<Rightarrow> rate_limiter \<Rightarrow> rate_limiter" where
  "limiter_reset rnd now l = l\<lparr>rl_tokens := f64_of rnd (rl_capacity l), rl_last_refill := now\<rparr>"

text \<open>
  \<open>wait_for\<close> at the time \<open>now\<close>; after the sleep the clock reads \<open>later\<close>. The division by a
  rate of zero gives infinity, on which \<open>from_secs_f64\<close> panics (\<open>None\<close>), or, when nothing is
  needed, a number that \<open>max(0.0)\<close> turns into zero.
\<close>

definition wait_for :: "rounding \<Rightarrow> instant \<Rightarrow> instant \<Rightarrow> u64 \<Rightarrow> rate_limiter \<Rightarrow> rate_limiter \<times> duration option" where
  "wait_for rnd now later n l =
     (case limiter_check rnd now n l of
        (l, True) \<Rightarrow> (l, Some 0)
      | (l, False) \<Rightarrow>
          let needed = rnd (f64_of rnd n - rl_tokens l);
              wait = (if rl_rate_per_sec l = 0 then (if 0 < needed then None else Some 0)
                      else from_secs_f64 (max (rnd (needed / f64_of rnd (rl_rate_per_sec l))) 0))
          in case wait of
               None \<Rightarrow> (l, None)
             | Some d \<Rightarrow> (fst (limiter_check rnd later n l), Some d))"

section \<open>The tracker of a peer\<close>

record peer_traffic_tracker =
  pt_stats :: traffic_stats
  pt_limiter :: rate_limiter

definition tracker_new :: "rounding \<Rightarrow> instant \<Rightarrow> u64 \<Rightarrow> u64 \<Rightarrow> peer_traffic_tracker" where
  "tracker_new rnd now rate capacity = \<lparr>pt_stats = stats_new, pt_limiter = limiter_new rnd now rate capacity\<rparr>"

definition tracker_record_tx :: "rounding \<Rightarrow> instant \<Rightarrow> u64 \<Rightarrow> peer_traffic_tracker \<Rightarrow> peer_traffic_tracker \<times> bool" where
  "tracker_record_tx rnd now n p =
     (let (l, ok) = limiter_check rnd now n (pt_limiter p)
      in (p\<lparr>pt_stats := stats_record_tx rnd now n (pt_stats p), pt_limiter := l\<rparr>, ok))"

definition tracker_record_rx :: "rounding \<Rightarrow> instant \<Rightarrow> u64 \<Rightarrow> peer_traffic_tracker \<Rightarrow> peer_traffic_tracker \<times> bool" where
  "tracker_record_rx rnd now n p =
     (let (l, ok) = limiter_check rnd now n (pt_limiter p)
      in (p\<lparr>pt_stats := stats_record_rx rnd now n (pt_stats p), pt_limiter := l\<rparr>, ok))"

definition tracker_summary :: "rounding \<Rightarrow> peer_traffic_tracker \<Rightarrow> traffic_summary" where
  "tracker_summary rnd p = stats_summary rnd (pt_stats p)"

section \<open>The peak bounds the rate\<close>

datatype stats_event =
    RecordTx instant u64
  | RecordRx instant u64
  | AddConnection
  | RemoveConnection
  | ResetStats

fun stats_step :: "rounding \<Rightarrow> stats_event \<Rightarrow> traffic_stats \<Rightarrow> traffic_stats" where
  "stats_step rnd (RecordTx now n) s = stats_record_tx rnd now n s"
| "stats_step rnd (RecordRx now n) s = stats_record_rx rnd now n s"
| "stats_step rnd AddConnection s = add_connection s"
| "stats_step rnd RemoveConnection s = stats_remove_connection s"
| "stats_step rnd ResetStats s = stats_reset s"

definition peaks_ok :: "rounding \<Rightarrow> traffic_stats \<Rightarrow> bool" where
  "peaks_ok rnd s \<longleftrightarrow> 0 \<le> ts_tx_peak s \<and> 0 \<le> ts_rx_peak s
     \<and> calculate_rate rnd (ts_tx_samples s) \<le> ts_tx_peak s \<and> calculate_rate rnd (ts_rx_samples s) \<le> ts_rx_peak s"

interpretation traffic: op_machine "stats_step rnd" "peaks_ok rnd"
proof
  fix s e
  assume "peaks_ok rnd s"
  then show "peaks_ok rnd (stats_step rnd e s)"
    by (cases e) (auto simp: peaks_ok_def stats_record_tx_def stats_record_rx_def add_connection_def
        stats_remove_connection_def stats_reset_def calculate_rate_def Let_def)
qed

text \<open>The bytes that a run recorded since its last reset.\<close>

fun sent_since_reset :: "stats_event list \<Rightarrow> u64 \<Rightarrow> u64" where
  "sent_since_reset [] a = a"
| "sent_since_reset (RecordTx now n # es) a = sent_since_reset es (a + n)"
| "sent_since_reset (ResetStats # es) a = sent_since_reset es 0"
| "sent_since_reset (_ # es) a = sent_since_reset es a"

lemma total_tx_run: "ts_total_tx (fold (stats_step rnd) es s) = sent_since_reset es (ts_total_tx s)"
  by (induction es "ts_total_tx s" arbitrary: s rule: sent_since_reset.induct)
     (simp_all add: stats_record_tx_def stats_record_rx_def add_connection_def stats_remove_connection_def
        stats_reset_def Let_def)

text \<open>After every run of recordings, connection changes and resets, the rates of the
  summary are at most its peaks, and the sent total is the sum of what was recorded
  since the last reset, modulo 2^64.\<close>

theorem rate_never_exceeds_peak:
  "let s = stats_summary rnd (fold (stats_step rnd) es stats_new)
   in sum_tx_rate s \<le> sum_tx_peak s \<and> sum_rx_rate s \<le> sum_rx_peak s
      \<and> sum_total_tx s = sent_since_reset es 0"
proof -
  have "peaks_ok rnd stats_new" by (simp add: peaks_ok_def stats_new_def calculate_rate_def)
  from traffic.run_inv [OF this, of es] total_tx_run [of rnd es stats_new]
  show ?thesis by (simp add: Let_def stats_summary_def peaks_ok_def) (simp add: stats_new_def)
qed

section \<open>What the token bucket lets through\<close>

text \<open>A rounding with relative error at most \<open>eps\<close>; an \<open>f64\<close> without underflow has 2^-53.\<close>

definition rel_error :: "rat \<Rightarrow> rounding \<Rightarrow> bool" where
  "rel_error eps rnd \<longleftrightarrow> 0 \<le> eps \<and> eps \<le> 1 \<and> (\<forall>x \<ge> 0. \<bar>rnd x - x\<bar> \<le> eps * x)"

lemma rel_upper: "rel_error eps rnd \<Longrightarrow> 0 \<le> x \<Longrightarrow> rnd x \<le> (1 + eps) * x"
  unfolding rel_error_def by (auto simp: algebra_simps abs_le_iff)

lemma rel_nonneg: "rel_error eps rnd \<Longrightarrow> 0 \<le> x \<Longrightarrow> 0 \<le> rnd x"
proof -
  assume a: "rel_error eps rnd" "0 \<le> x"
  then have "x - rnd x \<le> eps * x" by (auto simp: rel_error_def abs_le_iff)
  moreover have "eps * x \<le> 1 * x" using a by (intro mult_right_mono) (auto simp: rel_error_def)
  ultimately show ?thesis by simp
qed

lemma square_sum: "c * (c * a + c * b) = c ^ 2 * (a + b :: rat)"
  by (simp add: power2_eq_square algebra_simps)

lemma fourth_product: "c * ((c ^ 2 * a) * (c * b)) = c ^ 4 * b * (a :: rat)"
  by (simp add: numeral_eq_Suc algebra_simps)

lemma unsigned_nonneg [simp]: "0 \<le> (unsigned w :: rat)"
  using of_nat_0_le_iff [of "unat w", where 'a = rat] by simp

lemma f64_nonneg: "rel_error eps rnd \<Longrightarrow> 0 \<le> f64_of rnd w"
  unfolding f64_of_def by (erule rel_nonneg) (rule of_nat_0_le_iff)

lemma secs_upper:
  assumes "rel_error eps rnd"
  shows "0 \<le> as_secs_f64 rnd d" and "as_secs_f64 rnd d \<le> (1 + eps) ^ 2 * (of_nat d / of_nat nanos_per_sec)"
proof -
  let ?s = "of_nat (d div nanos_per_sec) :: rat" and ?f = "of_nat (d mod nanos_per_sec) / of_nat nanos_per_sec :: rat"
  have e: "0 \<le> 1 + eps" using assms by (simp add: rel_error_def)
  have split: "?s + ?f = of_nat d / of_nat nanos_per_sec"
  proof -
    have "(of_nat d :: rat) = of_nat (d div nanos_per_sec * nanos_per_sec + d mod nanos_per_sec)" by simp
    also have "\<dots> = ?s * of_nat nanos_per_sec + of_nat (d mod nanos_per_sec)" by (simp only: of_nat_add of_nat_mult)
    finally show ?thesis by (simp add: nanos_per_sec_def field_simps)
  qed
  have n: "0 \<le> rnd ?s" "0 \<le> rnd ?f" by (auto intro: rel_nonneg [OF assms])
  then show "0 \<le> as_secs_f64 rnd d" unfolding as_secs_f64_def by (intro rel_nonneg [OF assms]) auto
  have "as_secs_f64 rnd d \<le> (1 + eps) * (rnd ?s + rnd ?f)"
    unfolding as_secs_f64_def using n by (intro rel_upper [OF assms]) simp
  also have "\<dots> \<le> (1 + eps) * ((1 + eps) * ?s + (1 + eps) * ?f)"
    using rel_upper [OF assms, of ?s] rel_upper [OF assms, of ?f] e by (intro mult_left_mono add_mono) auto
  also have "\<dots> = (1 + eps) ^ 2 * (?s + ?f)" by (rule square_sum)
  finally show "as_secs_f64 rnd d \<le> (1 + eps) ^ 2 * (of_nat d / of_nat nanos_per_sec)" by (simp only: split)
qed

lemma refill_upper:
  assumes r: "rel_error eps rnd" and "0 \<le> rl_tokens l" and "rl_last_refill l \<le> now"
  shows "0 \<le> rl_tokens (refill rnd now l)" and "rl_tokens (refill rnd now l) \<le> f64_of rnd (rl_capacity l)"
    and "rl_tokens (refill rnd now l) \<le> rl_tokens l + eps * f64_of rnd (rl_capacity l)
      + (1 + eps) ^ 4 * of_nat (unat (rl_rate_per_sec l)) * (of_int (now - rl_last_refill l) / of_nat nanos_per_sec)"
proof -
  let ?d = "elapsed now (rl_last_refill l)" and ?r = "of_nat (unat (rl_rate_per_sec l)) :: rat"
  let ?new = "rnd (as_secs_f64 rnd ?d * f64_of rnd (rl_rate_per_sec l))" and ?C = "f64_of rnd (rl_capacity l)"
  have e: "0 \<le> eps" "0 \<le> 1 + eps" using r by (auto simp: rel_error_def)
  have C: "0 \<le> ?C" "0 \<le> f64_of rnd (rl_rate_per_sec l)" using f64_nonneg [OF r] by auto
  have p: "0 \<le> as_secs_f64 rnd ?d * f64_of rnd (rl_rate_per_sec l)"
    using secs_upper(1) [OF r] C(2) by simp
  then have new: "0 \<le> ?new" by (rule rel_nonneg [OF r])
  have x: "0 \<le> rl_tokens l + ?new" using assms(2) new by simp
  have tok: "rl_tokens (refill rnd now l) = min (rnd (rl_tokens l + ?new)) ?C" by (simp add: refill_def Let_def)
  show "0 \<le> rl_tokens (refill rnd now l)" using rel_nonneg [OF r x] C(1) by (simp add: tok)
  show "rl_tokens (refill rnd now l) \<le> ?C" by (simp add: tok)
  have le: "rl_tokens (refill rnd now l) \<le> rl_tokens l + ?new + eps * ?C"
  proof (cases "rl_tokens l + ?new \<le> ?C")
    case True
    have "rnd (rl_tokens l + ?new) \<le> (rl_tokens l + ?new) + eps * (rl_tokens l + ?new)"
      using rel_upper [OF r x] by (simp add: algebra_simps)
    also have "\<dots> \<le> rl_tokens l + ?new + eps * ?C" using True e by (simp add: mult_left_mono)
    finally show ?thesis by (simp add: tok)
  next
    case False
    moreover have "0 \<le> eps * ?C" using e C by simp
    ultimately show ?thesis by (simp add: tok)
  qed
  have "?new \<le> (1 + eps) * (as_secs_f64 rnd ?d * f64_of rnd (rl_rate_per_sec l))" by (rule rel_upper [OF r p])
  also have "\<dots> \<le> (1 + eps) * (((1 + eps) ^ 2 * (of_nat ?d / of_nat nanos_per_sec)) * ((1 + eps) * ?r))"
    using secs_upper [OF r, of ?d] C(2) e rel_upper [OF r, of ?r] unfolding f64_of_def
    by (intro mult_left_mono mult_mono) auto
  also have "\<dots> = (1 + eps) ^ 4 * ?r * (of_nat ?d / of_nat nanos_per_sec)" by (rule fourth_product)
  also have "(of_nat ?d :: rat) = of_int (now - rl_last_refill l)" using assms(3) by (simp add: elapsed_def)
  finally show "rl_tokens (refill rnd now l) \<le> rl_tokens l + eps * ?C
      + (1 + eps) ^ 4 * ?r * (of_int (now - rl_last_refill l) / of_nat nanos_per_sec)" using le by linarith
qed

text \<open>One request: what it lets through and what stays in the bucket.\<close>

lemma check_upper:
  assumes r: "rel_error eps rnd" and "0 \<le> rl_tokens l" and "rl_last_refill l \<le> now"
    and exact: "f64_of rnd n = of_nat (unat n)" and c: "limiter_check rnd now n l = (l', ok)"
  shows "0 \<le> rl_tokens l'" and "of_nat (if ok then unat n else 0) + rl_tokens l'
      \<le> rl_tokens l + 2 * eps * f64_of rnd (rl_capacity l)
        + (1 + eps) ^ 4 * of_nat (unat (rl_rate_per_sec l)) * (of_int (now - rl_last_refill l) / of_nat nanos_per_sec)"
    and "rl_last_refill l' = now" and "rl_capacity l' = rl_capacity l" and "rl_rate_per_sec l' = rl_rate_per_sec l"
proof -
  let ?l = "refill rnd now l" and ?n = "of_nat (unat n) :: rat"
  note f = refill_upper [OF assms(1-3)]
  have e: "0 \<le> eps" using r by (simp add: rel_error_def)
  have rest: "0 \<le> rnd (rl_tokens ?l - ?n) \<and> ?n + rnd (rl_tokens ?l - ?n) \<le> rl_tokens ?l + eps * f64_of rnd (rl_capacity l)"
    if "?n \<le> rl_tokens ?l"
  proof -
    have d: "0 \<le> rl_tokens ?l - ?n" using that by simp
    have "rnd (rl_tokens ?l - ?n) \<le> rl_tokens ?l - ?n + eps * (rl_tokens ?l - ?n)"
      using rel_upper [OF r d] by (simp add: algebra_simps)
    also have "\<dots> \<le> rl_tokens ?l - ?n + eps * f64_of rnd (rl_capacity l)"
      using f(2) e order_trans [OF _ f(2), of "rl_tokens ?l - ?n"] by (intro add_left_mono mult_left_mono) simp_all
    finally show ?thesis using rel_nonneg [OF r d] by simp
  qed
  have "0 \<le> eps * f64_of rnd (rl_capacity l)" using e f64_nonneg [OF r] by (rule mult_nonneg_nonneg)
  with c f rest show "0 \<le> rl_tokens l'" "of_nat (if ok then unat n else 0) + rl_tokens l'
      \<le> rl_tokens l + 2 * eps * f64_of rnd (rl_capacity l)
        + (1 + eps) ^ 4 * of_nat (unat (rl_rate_per_sec l)) * (of_int (now - rl_last_refill l) / of_nat nanos_per_sec)"
    by (auto simp: limiter_check_def Let_def exact split: if_splits)
  from c show "rl_last_refill l' = now" "rl_capacity l' = rl_capacity l" "rl_rate_per_sec l' = rl_rate_per_sec l"
    by (auto simp: limiter_check_def refill_def Let_def split: if_splits)
qed

text \<open>The bytes of the requests that a limiter grants.\<close>

fun admitted :: "rounding \<Rightarrow> (instant \<times> u64) list \<Rightarrow> rate_limiter \<Rightarrow> nat" where
  "admitted rnd [] l = 0"
| "admitted rnd ((t, n) # rs) l =
     (let (l', ok) = limiter_check rnd t n l in (if ok then unat n else 0) + admitted rnd rs l')"

lemma admitted_upper:
  assumes r: "rel_error eps rnd" and "0 \<le> rl_tokens l" and "sorted (rl_last_refill l # map fst rs @ [end_time])"
    and "\<forall>(t, n) \<in> set rs. f64_of rnd n = of_nat (unat n)"
  shows "of_nat (admitted rnd rs l) \<le> rl_tokens l + 2 * eps * of_nat (length rs) * f64_of rnd (rl_capacity l)
    + (1 + eps) ^ 4 * of_nat (unat (rl_rate_per_sec l)) * (of_int (end_time - rl_last_refill l) / of_nat nanos_per_sec)"
  using assms(2-4)
proof (induction rs arbitrary: l)
  case Nil
  have "0 \<le> (1 + eps) ^ 4 * of_nat (unat (rl_rate_per_sec l)) * (of_int (end_time - rl_last_refill l) / of_nat nanos_per_sec)"
    using r Nil.prems(2) by (intro mult_nonneg_nonneg) (auto simp: rel_error_def nanos_per_sec_def)
  with Nil.prems(1) show ?case by simp
next
  case (Cons q rs)
  let ?K = "(1 + eps) ^ 4 * of_nat (unat (rl_rate_per_sec l)) :: rat" and ?C = "f64_of rnd (rl_capacity l)"
  obtain t n where q: "q = (t, n)" by force
  obtain l' ok where c: "limiter_check rnd t n l = (l', ok)" by force
  have t: "rl_last_refill l \<le> t" "f64_of rnd n = of_nat (unat n)" using Cons.prems by (auto simp: q)
  note step = check_upper [OF r Cons.prems(1) t c]
  have "of_nat (admitted rnd rs l') \<le> rl_tokens l' + 2 * eps * of_nat (length rs) * ?C
      + ?K * (of_int (end_time - t) / of_nat nanos_per_sec)"
    using Cons.IH [OF step(1)] Cons.prems(2,3) by (simp add: step q)
  moreover have "?K * (of_int (end_time - rl_last_refill l) / of_nat nanos_per_sec)
      = ?K * (of_int (end_time - t) / of_nat nanos_per_sec) + ?K * (of_int (t - rl_last_refill l) / of_nat nanos_per_sec)"
    by (simp add: diff_divide_distrib right_diff_distrib)
  moreover have "2 * eps * of_nat (length (q # rs)) * ?C = 2 * eps * of_nat (length rs) * ?C + 2 * eps * ?C"
    by (simp add: distrib_left distrib_right)
  moreover have "of_nat (admitted rnd (q # rs) l) = (of_nat (if ok then unat n else 0) :: rat) + of_nat (admitted rnd rs l')"
    by (simp add: q c)
  ultimately show ?case using step(2) by linarith
qed

text \<open>C18. A token bucket with the rate r and the capacity c lets through at most c + r *
  t bytes in t seconds, whatever the requests, up to the rounding errors of the
  floating-point numbers: relatively (1 + eps)^4 on the refill and twice eps of the
  capacity per request, when the requests are exact as floating-point numbers.\<close>

theorem token_bucket_bound:
  assumes "rel_error eps rnd" and "sorted (t0 # map fst rs @ [end_time])"
    and "\<forall>(t, n) \<in> set rs. f64_of rnd n = of_nat (unat n)"
  shows "of_nat (admitted rnd rs (limiter_new rnd t0 rate capacity))
    \<le> (1 + 2 * eps * of_nat (length rs)) * f64_of rnd capacity
      + (1 + eps) ^ 4 * of_nat (unat rate) * (of_int (end_time - t0) / of_nat nanos_per_sec)"
proof -
  have "0 \<le> rl_tokens (limiter_new rnd t0 rate capacity)"
    using f64_nonneg [OF assms(1)] by (simp add: limiter_new_def)
  from admitted_upper [OF assms(1) this, of rs end_time] assms(2,3)
  show ?thesis by (simp add: limiter_new_def distrib_right)
qed

theorem token_bucket_bound_witness:
  "admitted id [(0, 4096), (0, 1), (500000000, 600), (1000000000, 600)] (limiter_new id 0 1024 4096) = 4696
   \<and> (4696 :: rat) \<le> 4096 + 1024"
proof -
  let ?rs = "[(0, 4096), (0, 1), (500000000, 600), (1000000000, 600)] :: (instant \<times> u64) list"
  have a: "admitted id ?rs (limiter_new id 0 1024 4096) = 4696"
    by (simp add: limiter_new_def limiter_check_def refill_def as_secs_f64_def f64_of_def elapsed_def nanos_per_sec_def Let_def)
  have "of_nat (admitted id ?rs (limiter_new id 0 1024 4096))
      \<le> (1 + 2 * (0 :: rat) * of_nat (length ?rs)) * f64_of id (4096 :: u64)
        + (1 + 0) ^ 4 * of_nat (unat (1024 :: u64)) * (of_int (1000000000 - 0) / of_nat nanos_per_sec)"
    by (rule token_bucket_bound) (auto simp: rel_error_def f64_of_def)
  with a show ?thesis by (simp add: f64_of_def nanos_per_sec_def)
qed

section \<open>Waiting, and what is counted\<close>

lemma refill_le_capacity: "rl_tokens (refill rnd now l) \<le> f64_of rnd (rl_capacity l)"
  by (simp add: refill_def Let_def)

lemma refill_same [simp]:
  "rl_capacity (refill rnd now l) = rl_capacity l" "rl_rate_per_sec (refill rnd now l) = rl_rate_per_sec l"
  by (simp_all add: refill_def Let_def)

lemma check_oversized:
  "f64_of rnd (rl_capacity l) < f64_of rnd n \<Longrightarrow> limiter_check rnd now n l = (refill rnd now l, False)"
  using refill_le_capacity [of rnd now l] by (simp add: limiter_check_def Let_def)

lemma refill_nonneg:
  assumes "mono rnd" and "rnd 0 = 0" and "0 \<le> rl_tokens l"
  shows "0 \<le> rl_tokens (refill rnd now l)"
proof -
  have pos: "0 \<le> x \<Longrightarrow> 0 \<le> rnd x" for x using assms(1,2) monoD by metis
  have "0 \<le> as_secs_f64 rnd d" for d
    unfolding as_secs_f64_def by (intro pos add_nonneg_nonneg) simp_all
  then show ?thesis unfolding refill_def f64_of_def Let_def
    using assms(3) by (auto intro!: pos add_nonneg_nonneg mult_nonneg_nonneg)
qed

lemma nearest_bounds: "nearest x \<le> \<lfloor>x\<rfloor> + 1" "\<lfloor>x\<rfloor> \<le> nearest x"
  by (auto simp: nearest_def Let_def)

lemma from_secs_f64_small:
  assumes "0 \<le> x" and "x \<le> 2 ^ 53"
  shows "\<exists>d. from_secs_f64 x = Some d"
proof -
  have "\<lfloor>x * 1000000000\<rfloor> \<le> \<lfloor>of_int (2 ^ 53 * 1000000000) :: rat\<rfloor>" using assms by (intro floor_mono) simp
  then have "\<lfloor>x * 1000000000\<rfloor> \<le> 2 ^ 53 * 1000000000" unfolding floor_of_int .
  moreover have "(2 :: int) ^ 53 + 1 \<le> 2 ^ 64" by simp
  moreover have "0 \<le> \<lfloor>x * 1000000000\<rfloor>" using assms by simp
  ultimately have "0 \<le> nearest (x * 1000000000)" "nearest (x * 1000000000) < 2 ^ 64 * 1000000000"
    using nearest_bounds [of "x * 1000000000"] by linarith+
  then show ?thesis by (simp add: from_secs_f64_def nanos_per_sec_def Let_def)
qed

text \<open>Waiting for more bytes than the bucket can hold returns normally after a sleep,
  without having taken a single token: the second check is bound to fail and its
  answer is dropped, so the caller goes on as if the bytes had been paid for.\<close>

theorem oversized_wait_takes_nothing:
  assumes "mono rnd" and exact: "\<And>k. k \<le> 2 ^ 53 \<Longrightarrow> rnd (of_nat k) = of_nat k"
    and "rl_rate_per_sec l \<noteq> 0" and "unat (rl_capacity l) < unat n" and "unat n \<le> 2 ^ 53" and "0 \<le> rl_tokens l"
  shows "\<exists>d. wait_for rnd now later n l = (refill rnd later (refill rnd now l), Some d)"
proof -
  have z: "rnd 0 = 0" and one: "rnd 1 = 1" and top: "rnd (2 ^ 53) = 2 ^ 53"
    using exact [of 0] exact [of 1] exact [of "2 ^ 53"] by simp_all
  have n: "f64_of rnd n = of_nat (unat n)" "f64_of rnd (rl_capacity l) = of_nat (unat (rl_capacity l))"
    using exact [of "unat n"] exact [of "unat (rl_capacity l)"] assms(4,5) by (simp_all add: f64_of_def)
  have big: "f64_of rnd (rl_capacity l) < f64_of rnd n" unfolding n using assms(4) by (simp only: of_nat_less_iff)
  define tok where "tok = rl_tokens (refill rnd now l)"
  define rate where "rate = f64_of rnd (rl_rate_per_sec l)"
  have "(1 :: rat) \<le> of_nat (unat (rl_rate_per_sec l))"
    using assms(3) by (metis One_nat_def Suc_leI neq0_conv of_nat_1 of_nat_le_iff unat_eq_zero)
  from monoD [OF assms(1) this] have rate: "1 \<le> rate" by (simp only: one rate_def f64_of_def)
  have tok: "0 \<le> tok" unfolding tok_def using assms(1,6) z by (intro refill_nonneg)
  have "of_nat (unat n) - tok \<le> (2 ^ 53 :: rat)"
  proof -
    have "(of_nat (unat n) :: rat) \<le> of_nat (2 ^ 53)" using assms(5) by (simp only: of_nat_le_iff)
    then show ?thesis using tok by simp
  qed
  from monoD [OF assms(1) this] have need: "rnd (f64_of rnd n - tok) \<le> 2 ^ 53" by (simp only: n top)
  have "rnd (f64_of rnd n - tok) / rate \<le> 2 ^ 53"
    using need rate by (simp add: divide_le_eq)
  from monoD [OF assms(1) this] have "rnd (rnd (f64_of rnd n - tok) / rate) \<le> 2 ^ 53" by (simp only: top)
  then obtain d where "from_secs_f64 (max (rnd (rnd (f64_of rnd n - tok) / rate)) 0) = Some d"
    using from_secs_f64_small [of "max (rnd (rnd (f64_of rnd n - tok) / rate)) 0"] by auto
  moreover have "limiter_check rnd now n l = (refill rnd now l, False)" by (rule check_oversized [OF big])
  moreover have "limiter_check rnd later n (refill rnd now l) = (refill rnd later (refill rnd now l), False)"
    using big by (intro check_oversized) simp
  ultimately show ?thesis using assms(3) by (simp add: wait_for_def Let_def tok_def rate_def)
qed

theorem oversized_wait_takes_nothing_witness:
  "\<exists>d. wait_for id 0 5000000000 3000 (limiter_new id 0 1000 2000)
     = (refill id 5000000000 (refill id 0 (limiter_new id 0 1000 2000)), Some d)"
  by (rule oversized_wait_takes_nothing) (simp_all add: mono_def limiter_new_def f64_of_def)

text \<open>Bytes that the limiter refuses are counted as sent.\<close>

lemma refused_bytes_counted:
  "ts_total_tx (pt_stats (fst (tracker_record_tx rnd now n p))) = ts_total_tx (pt_stats p) + n"
  by (simp add: tracker_record_tx_def stats_record_tx_def Let_def split_beta)

text \<open>The example in the documentation of the limiter: its third request is granted.\<close>

lemma documented_example_not_limited:
  "let l = limiter_new id 0 1024 4096;
       (l1, a) = limiter_check id 0 512 l; (l2, b) = limiter_check id 0 512 l1
   in a \<and> b \<and> snd (limiter_check id 0 1024 l2)"
  by (simp add: limiter_new_def limiter_check_def refill_def as_secs_f64_def f64_of_def nanos_per_sec_def Let_def)

end
