(* ===== verification/Metadata.thy ===== *)
theory Metadata
  imports Chunk HashMap Disk
begin

text \<open>
  The metadata store (\<open>src/storage/metadata.rs\<close>): which blocks a backed-up file has and
  which nodes hold them, kept in memory and written to a JSON file after every change, and
  the merging of entries from other nodes. The hash of a name and a file hash by the standard
  hasher is the parameter \<open>hp\<close>.
\<close>

section \<open>Entries\<close>

definition default_metadata_path :: string where
  "default_metadata_path = ''metadata_store.json''"

definition conflict_window_secs :: u64 where
  "conflict_window_secs = 5"

record block_location =
  bl_hash :: hash
  bl_index :: u32
  bl_nodes :: "string list"
  bl_last_synced :: u64

record file_metadata =
  fd_name :: string
  fd_file_hash :: hash
  fd_file_size :: u64
  fd_blocks :: "block_location list"
  fd_created_at :: u64
  fd_updated_at :: u64
  fd_source_node :: string
  fd_encrypted :: bool

record metadata_entry =
  me_meta :: file_metadata
  me_manifest :: "file_manifest option"

datatype metadata_error =
    MdAlreadyExists string | MdNotFound string | MdIoError string | MdSerializeError string
  | MdLockPoisoned

fun metadata_error_display :: "metadata_error \<Rightarrow> string" where
  "metadata_error_display (MdAlreadyExists n) = ''metadata for '' @ [CHR 0x27] @ n @ [CHR 0x27] @ '' already exists''"
| "metadata_error_display (MdNotFound n) = ''metadata for '' @ [CHR 0x27] @ n @ [CHR 0x27] @ '' not found''"
| "metadata_error_display (MdIoError e) = ''io error: '' @ e"
| "metadata_error_display (MdSerializeError m) = ''serialize error: '' @ m"
| "metadata_error_display MdLockPoisoned = ''lock poisoned''"

section \<open>The store and its file\<close>

type_synonym metadata_entries = "(string, metadata_entry) hashmap"
record metadata_store =
  md_entries :: metadata_entries
  md_db_path :: string
  md_dirty :: bool

type_synonym metadata_env = "metadata_entries json_env"

fun metadata_of_json_error :: "json_error \<Rightarrow> metadata_error" where
  "metadata_of_json_error (CodecError e) = MdSerializeError e"
| "metadata_of_json_error (CreateDirError e) = MdIoError e"
| "metadata_of_json_error (WriteError e) = MdIoError e"
| "metadata_of_json_error (ReadError e) = MdIoError e"

definition metadata_new :: "string \<Rightarrow> metadata_store" where
  "metadata_new path = \<lparr>md_entries = hm_empty, md_db_path = path, md_dirty = False\<rparr>"

definition metadata_new_default :: metadata_store where
  "metadata_new_default = metadata_new default_metadata_path"

definition metadata_load ::
  "metadata_env \<Rightarrow> disk \<Rightarrow> string \<Rightarrow> metadata_error + metadata_store" where
  "metadata_load env disk path =
     (case read_json env path disk of
        Inl e \<Rightarrow> Inl (metadata_of_json_error e)
      | Inr None \<Rightarrow> Inr (metadata_new path)
      | Inr (Some entries) \<Rightarrow> Inr \<lparr>md_entries = entries, md_db_path = path, md_dirty = False\<rparr>)"

definition metadata_save ::
  "metadata_env \<Rightarrow> metadata_store \<times> disk \<Rightarrow> (metadata_store \<times> disk) \<times> (metadata_error + unit)" where
  "metadata_save env = (\<lambda>(s, disk).
     case write_json env (md_db_path s) (md_entries s) disk of
       (disk, Inl e) \<Rightarrow> ((s, disk), Inl (metadata_of_json_error e))
     | (disk, Inr _) \<Rightarrow> ((s\<lparr>md_dirty := False\<rparr>, disk), Inr ()))"

text \<open>The build that ships; the one for tests only clears the flag.\<close>

definition metadata_save_if_dirty ::
  "metadata_env \<Rightarrow> metadata_store \<times> disk \<Rightarrow> metadata_store \<times> disk" where
  "metadata_save_if_dirty env sd = (if md_dirty (fst sd) then fst (metadata_save env sd) else sd)"

definition metadata_flush ::
  "metadata_env \<Rightarrow> metadata_store \<times> disk \<Rightarrow> (metadata_store \<times> disk) \<times> (metadata_error + unit)" where
  "metadata_flush env = metadata_save env"

text \<open>The end of every change: \<open>dirty.store(true)\<close> and \<open>save_if_dirty\<close>.\<close>

definition metadata_commit ::
  "metadata_env \<Rightarrow> metadata_entries \<Rightarrow> metadata_store \<times> disk \<Rightarrow> metadata_store \<times> disk" where
  "metadata_commit env entries = (\<lambda>(s, disk).
     metadata_save_if_dirty env (s\<lparr>md_entries := entries, md_dirty := True\<rparr>, disk))"

section \<open>Operations\<close>

definition metadata_entry_new ::
  "u64 \<Rightarrow> string \<Rightarrow> hash \<Rightarrow> u64 \<Rightarrow> file_manifest option \<Rightarrow> block_location list \<Rightarrow> string \<Rightarrow> metadata_entry" where
  "metadata_entry_new now name fh fsize manifest blocks src =
     \<lparr>me_meta = \<lparr>fd_name = name, fd_file_hash = fh, fd_file_size = fsize, fd_blocks = blocks,
        fd_created_at = now, fd_updated_at = now, fd_source_node = src, fd_encrypted = False\<rparr>,
      me_manifest = manifest\<rparr>"

definition metadata_register ::
  "metadata_env \<Rightarrow> u64 \<Rightarrow> string \<Rightarrow> hash \<Rightarrow> u64 \<Rightarrow> file_manifest option \<Rightarrow> block_location list \<Rightarrow> string
   \<Rightarrow> metadata_store \<times> disk \<Rightarrow> (metadata_store \<times> disk) \<times> (metadata_error + unit)" where
  "metadata_register env now name fh fsize manifest blocks src sd =
     (if hm_contains (md_entries (fst sd)) name then (sd, Inl (MdAlreadyExists name))
      else (metadata_commit env
              (hm_insert name (metadata_entry_new now name fh fsize manifest blocks src) (md_entries (fst sd))) sd,
            Inr ()))"

definition metadata_upsert ::
  "metadata_env \<Rightarrow> u64 \<Rightarrow> string \<Rightarrow> hash \<Rightarrow> u64 \<Rightarrow> file_manifest option \<Rightarrow> block_location list \<Rightarrow> string
   \<Rightarrow> metadata_store \<times> disk \<Rightarrow> (metadata_store \<times> disk) \<times> (metadata_error + unit)" where
  "metadata_upsert env now name fh fsize manifest blocks src sd =
     (metadata_commit env
        (hm_insert name (metadata_entry_new now name fh fsize manifest blocks src) (md_entries (fst sd))) sd,
      Inr ())"

definition metadata_query :: "metadata_store \<Rightarrow> string \<Rightarrow> metadata_entry option" where
  "metadata_query s name = hm_get (md_entries s) name"

definition metadata_contains :: "metadata_store \<Rightarrow> string \<Rightarrow> bool" where
  "metadata_contains s name = hm_contains (md_entries s) name"

definition metadata_list_files :: "metadata_store \<Rightarrow> string list" where
  "metadata_list_files s = hm_keys (md_entries s)"

definition metadata_len :: "metadata_store \<Rightarrow> nat" where
  "metadata_len s = hm_len (md_entries s)"

definition metadata_is_empty :: "metadata_store \<Rightarrow> bool" where
  "metadata_is_empty s \<longleftrightarrow> metadata_len s = 0"

definition get_block_nodes :: "metadata_store \<Rightarrow> string \<Rightarrow> u32 \<Rightarrow> string list" where
  "get_block_nodes s name i =
     (case hm_get (md_entries s) name of
        None \<Rightarrow> []
      | Some e \<Rightarrow> (case find (\<lambda>b. bl_index b = i) (fd_blocks (me_meta e)) of
                     None \<Rightarrow> [] | Some b \<Rightarrow> bl_nodes b))"

text \<open>Collecting into a map keeps the last of several values of a key.\<close>

definition get_block_distribution :: "metadata_store \<Rightarrow> string \<Rightarrow> (u32, string list) hashmap" where
  "get_block_distribution s name =
     (case hm_get (md_entries s) name of
        None \<Rightarrow> hm_empty
      | Some e \<Rightarrow> fold (\<lambda>b m. hm_insert (bl_index b) (bl_nodes b) m) (fd_blocks (me_meta e)) hm_empty)"

text \<open>\<open>iter_mut().find(p)\<close> followed by a change of what it found.\<close>

fun modify_first :: "('a \<Rightarrow> bool) \<Rightarrow> ('a \<Rightarrow> 'a) \<Rightarrow> 'a list \<Rightarrow> 'a list" where
  "modify_first p f [] = []"
| "modify_first p f (x # xs) = (if p x then f x # xs else x # modify_first p f xs)"

definition push_node :: "string \<Rightarrow> block_location \<Rightarrow> block_location" where
  "push_node node b = (if node \<in> set (bl_nodes b) then b else b\<lparr>bl_nodes := bl_nodes b @ [node]\<rparr>)"

definition touch_entry :: "u64 \<Rightarrow> (block_location list \<Rightarrow> block_location list) \<Rightarrow> metadata_entry \<Rightarrow> metadata_entry" where
  "touch_entry now f e =
     e\<lparr>me_meta := (me_meta e)\<lparr>fd_blocks := f (fd_blocks (me_meta e)), fd_updated_at := now\<rparr>\<rparr>"

definition add_node_to_blocks :: "u64 \<Rightarrow> u32 \<Rightarrow> string \<Rightarrow> block_location list \<Rightarrow> block_location list" where
  "add_node_to_blocks now i node blocks =
     (if \<exists>b \<in> set blocks. bl_index b = i
      then modify_first (\<lambda>b. bl_index b = i) (\<lambda>b. (push_node node b)\<lparr>bl_last_synced := now\<rparr>) blocks
      else blocks @ [\<lparr>bl_hash = fill32 0, bl_index = i, bl_nodes = [node], bl_last_synced = now\<rparr>])"

definition add_block_node ::
  "metadata_env \<Rightarrow> u64 \<Rightarrow> string \<Rightarrow> u32 \<Rightarrow> string \<Rightarrow> metadata_store \<times> disk
   \<Rightarrow> (metadata_store \<times> disk) \<times> (metadata_error + unit)" where
  "add_block_node env now name i node sd =
     (case hm_get (md_entries (fst sd)) name of
        None \<Rightarrow> (sd, Inl (MdNotFound name))
      | Some e \<Rightarrow>
          (metadata_commit env
             (hm_insert name (touch_entry now (add_node_to_blocks now i node) e) (md_entries (fst sd))) sd,
           Inr ()))"

definition add_nodes_to_blocks ::
  "u64 \<Rightarrow> (u32, string list) hashmap \<Rightarrow> block_location list \<Rightarrow> block_location list" where
  "add_nodes_to_blocks now nodes_by_index blocks =
     fold (\<lambda>(i, nodes). modify_first (\<lambda>b. bl_index b = i)
             (\<lambda>b. (fold push_node nodes b)\<lparr>bl_last_synced := now\<rparr>)) nodes_by_index blocks"

definition add_block_nodes ::
  "metadata_env \<Rightarrow> u64 \<Rightarrow> string \<Rightarrow> (u32, string list) hashmap \<Rightarrow> metadata_store \<times> disk
   \<Rightarrow> (metadata_store \<times> disk) \<times> (metadata_error + unit)" where
  "add_block_nodes env now name nodes_by_index sd =
     (case hm_get (md_entries (fst sd)) name of
        None \<Rightarrow> (sd, Inl (MdNotFound name))
      | Some e \<Rightarrow>
          (metadata_commit env
             (hm_insert name (touch_entry now (add_nodes_to_blocks now nodes_by_index) e) (md_entries (fst sd))) sd,
           Inr ()))"

definition metadata_remove_file ::
  "metadata_env \<Rightarrow> string \<Rightarrow> metadata_store \<times> disk \<Rightarrow> (metadata_store \<times> disk) \<times> (metadata_error + unit)" where
  "metadata_remove_file env name sd =
     (if hm_get (md_entries (fst sd)) name = None then (sd, Inl (MdNotFound name))
      else (metadata_commit env (hm_remove name (md_entries (fst sd))) sd, Inr ()))"

definition mark_encrypted ::
  "metadata_env \<Rightarrow> u64 \<Rightarrow> string \<Rightarrow> metadata_store \<times> disk \<Rightarrow> (metadata_store \<times> disk) \<times> (metadata_error + unit)" where
  "mark_encrypted env now name sd =
     (case hm_get (md_entries (fst sd)) name of
        None \<Rightarrow> (sd, Inl (MdNotFound name))
      | Some e \<Rightarrow>
          (metadata_commit env
             (hm_insert name (e\<lparr>me_meta := (me_meta e)\<lparr>fd_encrypted := True, fd_updated_at := now\<rparr>\<rparr>)
                (md_entries (fst sd))) sd,
           Inr ()))"

definition metadata_all_entries :: "metadata_store \<Rightarrow> metadata_entry list" where
  "metadata_all_entries s = hm_values (md_entries s)"

section \<open>Merging\<close>

definition hash_entry :: "(string \<Rightarrow> hash \<Rightarrow> u64) \<Rightarrow> metadata_entry \<Rightarrow> u64" where
  "hash_entry hp e = hp (fd_name (me_meta e)) (fd_file_hash (me_meta e))"

definition should_merge :: "(string \<Rightarrow> hash \<Rightarrow> u64) \<Rightarrow> metadata_entry option \<Rightarrow> metadata_entry \<Rightarrow> bool" where
  "should_merge hp stored remote =
     (case stored of
        None \<Rightarrow> True
      | Some loc \<Rightarrow>
          (let local_time = fd_updated_at (me_meta loc); remote_time = fd_updated_at (me_meta remote)
           in if remote_time > local_time + conflict_window_secs then True
              else if local_time > remote_time + conflict_window_secs then False
              else hash_entry hp remote > hash_entry hp loc))"

definition stamped :: "u64 \<Rightarrow> metadata_entry \<Rightarrow> metadata_entry" where
  "stamped now e = e\<lparr>me_meta := (me_meta e)\<lparr>fd_updated_at := now\<rparr>\<rparr>"

definition sync_one ::
  "(string \<Rightarrow> hash \<Rightarrow> u64) \<Rightarrow> u64 \<Rightarrow> metadata_entry \<Rightarrow> metadata_entries \<times> nat \<Rightarrow> metadata_entries \<times> nat" where
  "sync_one hp now remote = (\<lambda>(entries, n).
     let name = fd_name (me_meta remote)
     in if should_merge hp (hm_get entries name) remote
        then (hm_insert name (stamped now remote) entries, n + 1) else (entries, n))"

definition sync_from ::
  "metadata_env \<Rightarrow> (string \<Rightarrow> hash \<Rightarrow> u64) \<Rightarrow> u64 \<Rightarrow> metadata_entry list \<Rightarrow> metadata_store \<times> disk
   \<Rightarrow> (metadata_store \<times> disk) \<times> nat" where
  "sync_from env hp now remotes sd =
     (let (entries, n) = fold (sync_one hp now) remotes (md_entries (fst sd), 0)
      in (if n > 0 then metadata_commit env entries sd else sd, n))"

section \<open>What the store means\<close>

datatype metadata_op =
    MdRegister u64 string hash u64 "file_manifest option" "block_location list" string
  | MdUpsert u64 string hash u64 "file_manifest option" "block_location list" string
  | MdAddNode u64 string u32 string
  | MdAddNodes u64 string "(u32, string list) hashmap"
  | MdRemove string
  | MdMark u64 string
  | MdSync u64 "metadata_entry list"
  | MdFlush

fun metadata_do ::
  "metadata_env \<Rightarrow> (string \<Rightarrow> hash \<Rightarrow> u64) \<Rightarrow> metadata_op \<Rightarrow> metadata_store \<times> disk \<Rightarrow> metadata_store \<times> disk" where
  "metadata_do env hp (MdRegister now n h k mf bs src) sd = fst (metadata_register env now n h k mf bs src sd)"
| "metadata_do env hp (MdUpsert now n h k mf bs src) sd = fst (metadata_upsert env now n h k mf bs src sd)"
| "metadata_do env hp (MdAddNode now n i node) sd = fst (add_block_node env now n i node sd)"
| "metadata_do env hp (MdAddNodes now n ni) sd = fst (add_block_nodes env now n ni sd)"
| "metadata_do env hp (MdRemove n) sd = fst (metadata_remove_file env n sd)"
| "metadata_do env hp (MdMark now n) sd = fst (mark_encrypted env now n sd)"
| "metadata_do env hp (MdSync now es) sd = fst (sync_from env hp now es sd)"
| "metadata_do env hp MdFlush sd = fst (metadata_flush env sd)"

text \<open>The effect of merging one entry on the lookups.\<close>

type_synonym metadata_map = "string \<Rightarrow> metadata_entry option"

definition merge_entry ::
  "(string \<Rightarrow> hash \<Rightarrow> u64) \<Rightarrow> u64 \<Rightarrow> metadata_entry \<Rightarrow> metadata_map \<Rightarrow> metadata_map" where
  "merge_entry hp now r M =
     (if should_merge hp (M (fd_name (me_meta r))) r then M(fd_name (me_meta r) \<mapsto> stamped now r) else M)"

lemma entries_of_save [simp]: "md_entries (fst (fst (metadata_save env sd))) = md_entries (fst sd)"
  by (simp add: metadata_save_def split_beta split: sum.split prod.split)

lemma entries_of_commit [simp]: "md_entries (fst (metadata_commit env entries sd)) = entries"
  by (simp add: metadata_commit_def metadata_save_if_dirty_def split_beta)

lemma query_hm_insert:
  "hm_get (hm_insert n e entries) = (hm_get entries)(n \<mapsto> e)"
  "hm_get (hm_remove n entries) = (hm_get entries)(n := None)"
  by (auto simp: hm_simps)

lemma sync_fold:
  "hm_get (fst (fold (sync_one hp now) es (entries, k))) = fold (merge_entry hp now) es (hm_get entries)
   \<and> k \<le> snd (fold (sync_one hp now) es (entries, k))
   \<and> (snd (fold (sync_one hp now) es (entries, k)) = k \<longrightarrow> fst (fold (sync_one hp now) es (entries, k)) = entries)"
proof (induction es arbitrary: entries k)
  case (Cons e es)
  obtain entries' k' where s: "sync_one hp now e (entries, k) = (entries', k')" by force
  then have "hm_get entries' = merge_entry hp now e (hm_get entries)"
    and "(entries' = entries \<and> k' = k) \<or> k' = Suc k"
    by (auto simp: sync_one_def merge_entry_def Let_def query_hm_insert split: if_splits)
  with Cons.IH [of entries' k'] s show ?case by auto
qed simp

lemma entries_of_sync:
  "md_entries (fst (fst (sync_from env hp now es sd)))
     = fst (fold (sync_one hp now) es (md_entries (fst sd), 0))"
  using sync_fold [of hp now es "md_entries (fst sd)" 0]
  by (simp add: sync_from_def split_beta)

section \<open>The abstract store\<close>

text \<open>
  What the store is about: for each file its facts and, for each block index, the set of the
  nodes that hold the block, if the block is known. Times are natural numbers. Nothing of the
  abstract store refers to the operations of the code.
\<close>

record file_view =
  view_hash :: hash
  view_size :: u64
  view_manifest :: "file_manifest option"
  view_source :: string
  view_created :: nat
  view_updated :: nat
  view_encrypted :: bool
  view_holders :: "u32 \<Rightarrow> string set option"

type_synonym file_views = "string \<Rightarrow> file_view option"

definition holders_of :: "block_location list \<Rightarrow> u32 \<Rightarrow> string set option" where
  "holders_of bs i = (case filter (\<lambda>b. bl_index b = i) bs of [] \<Rightarrow> None | b # _ \<Rightarrow> Some (set (bl_nodes b)))"

definition view_of :: "metadata_entry \<Rightarrow> file_view" where
  "view_of e = (let m = me_meta e in
     \<lparr>view_hash = fd_file_hash m, view_size = fd_file_size m, view_manifest = me_manifest e,
      view_source = fd_source_node m, view_created = unat (fd_created_at m), view_updated = unat (fd_updated_at m),
      view_encrypted = fd_encrypted m, view_holders = holders_of (fd_blocks m)\<rparr>)"

text \<open>A file as it is first recorded.\<close>

definition new_view ::
  "nat \<Rightarrow> hash \<Rightarrow> u64 \<Rightarrow> file_manifest option \<Rightarrow> block_location list \<Rightarrow> string \<Rightarrow> file_view" where
  "new_view now h k mf bs src =
     \<lparr>view_hash = h, view_size = k, view_manifest = mf, view_source = src, view_created = now, view_updated = now,
      view_encrypted = False, view_holders = holders_of bs\<rparr>"

text \<open>
  Which of two versions of a file wins: the newer one when they are more than five seconds
  apart, and otherwise the one with the larger hash.
\<close>

definition beats :: "(hash \<Rightarrow> u64) \<Rightarrow> file_view \<Rightarrow> file_view \<Rightarrow> bool" where
  "beats rank new old \<longleftrightarrow>
     (if \<bar>int (view_updated new) - int (view_updated old)\<bar> > 5 then view_updated old < view_updated new
      else rank (view_hash old) < rank (view_hash new))"

definition merge_view :: "(string \<Rightarrow> hash \<Rightarrow> u64) \<Rightarrow> nat \<Rightarrow> string \<Rightarrow> file_view \<Rightarrow> file_views \<Rightarrow> file_views" where
  "merge_view hp now n new V =
     (if (case V n of None \<Rightarrow> True | Some old \<Rightarrow> beats (hp n) new old) then V(n \<mapsto> new\<lparr>view_updated := now\<rparr>) else V)"

definition change_view :: "string \<Rightarrow> (file_view \<Rightarrow> file_view) \<Rightarrow> file_views \<Rightarrow> file_views" where
  "change_view n f V = V(n := map_option f (V n))"

fun store_spec :: "(string \<Rightarrow> hash \<Rightarrow> u64) \<Rightarrow> metadata_op \<Rightarrow> file_views \<Rightarrow> file_views" where
  "store_spec hp (MdRegister now n h k mf bs src) V = (if V n = None then V(n \<mapsto> new_view (unat now) h k mf bs src) else V)"
| "store_spec hp (MdUpsert now n h k mf bs src) V = V(n \<mapsto> new_view (unat now) h k mf bs src)"
| "store_spec hp (MdAddNode now n i node) V =
     change_view n (\<lambda>v. v\<lparr>view_updated := unat now,
       view_holders := (view_holders v)(i \<mapsto> {node} \<union> (case view_holders v i of None \<Rightarrow> {} | Some N \<Rightarrow> N))\<rparr>) V"
| "store_spec hp (MdAddNodes now n ni) V =
     change_view n (\<lambda>v. v\<lparr>view_updated := unat now,
       view_holders := (\<lambda>i. map_option (\<lambda>N. N \<union> \<Union> {set nodes | nodes. (i, nodes) \<in> set ni}) (view_holders v i))\<rparr>) V"
| "store_spec hp (MdRemove n) V = V(n := None)"
| "store_spec hp (MdMark now n) V = change_view n (\<lambda>v. v\<lparr>view_encrypted := True, view_updated := unat now\<rparr>) V"
| "store_spec hp (MdSync now es) V = fold (\<lambda>e. merge_view hp (unat now) (fd_name (me_meta e)) (view_of e)) es V"
| "store_spec hp MdFlush V = V"

text \<open>The clock of the operations is not within ten seconds of the largest 64-bit number.\<close>

definition clock_in_range :: "u64 \<Rightarrow> bool" where
  "clock_in_range t \<longleftrightarrow> unat t + 10 < 2 ^ 64"

fun op_clock_in_range :: "metadata_op \<Rightarrow> bool" where
  "op_clock_in_range (MdRegister now n h k mf bs src) \<longleftrightarrow> clock_in_range now"
| "op_clock_in_range (MdUpsert now n h k mf bs src) \<longleftrightarrow> clock_in_range now"
| "op_clock_in_range (MdAddNode now n i node) \<longleftrightarrow> clock_in_range now"
| "op_clock_in_range (MdAddNodes now n ni) \<longleftrightarrow> clock_in_range now"
| "op_clock_in_range (MdRemove n) \<longleftrightarrow> True"
| "op_clock_in_range (MdMark now n) \<longleftrightarrow> clock_in_range now"
| "op_clock_in_range (MdSync now es) \<longleftrightarrow> clock_in_range now"
| "op_clock_in_range MdFlush \<longleftrightarrow> True"

text \<open>The entries that implement a map of views.\<close>

definition implements :: "metadata_entries \<Rightarrow> file_views \<Rightarrow> bool" where
  "implements entries V \<longleftrightarrow> (\<forall>n. map_option view_of (hm_get entries n) = V n)
     \<and> (\<forall>n e. hm_get entries n = Some e \<longrightarrow> fd_name (me_meta e) = n \<and> clock_in_range (fd_updated_at (me_meta e)))"

lemma implements_insert:
  assumes "implements entries V" and "view_of e = v" and "fd_name (me_meta e) = n" and "clock_in_range (fd_updated_at (me_meta e))"
  shows "implements (hm_insert n e entries) (V(n \<mapsto> v))"
  using assms by (auto simp: implements_def hm_simps)

lemma implements_remove: "implements entries V \<Longrightarrow> implements (hm_remove n entries) (V(n := None))"
  by (auto simp: implements_def hm_simps)

lemma implements_get:
  assumes "implements entries V"
  shows "V n = map_option view_of (hm_get entries n)"
    and "hm_get entries n = Some e \<Longrightarrow> fd_name (me_meta e) = n" and "hm_get entries n = Some e \<Longrightarrow> clock_in_range (fd_updated_at (me_meta e))"
  using assms by (auto simp: implements_def)

lemma holders_modify_first:
  assumes "\<And>b. bl_index (f b) = bl_index b" and "\<And>b. set (bl_nodes (f b)) = set (bl_nodes b) \<union> X"
  shows "holders_of (modify_first (\<lambda>b. bl_index b = i) f bs) j
    = (if j = i then map_option (\<lambda>N. N \<union> X) (holders_of bs i) else holders_of bs j)"
proof (induction bs)
  case (Cons b bs)
  have c: "holders_of (b # bs) k = (if bl_index b = k then Some (set (bl_nodes b)) else holders_of bs k)" for b bs k
    by (simp add: holders_of_def)
  show ?case using Cons by (auto simp: c assms)
qed (simp add: holders_of_def)

lemma push_node_facts: "bl_index (push_node x b) = bl_index b" "set (bl_nodes (push_node x b)) = insert x (set (bl_nodes b))"
  by (auto simp: push_node_def)

lemma push_nodes_facts:
  "bl_index (fold push_node xs b) = bl_index b" "set (bl_nodes (fold push_node xs b)) = set (bl_nodes b) \<union> set xs"
  by (induction xs arbitrary: b) (auto simp: push_node_facts)

lemma holders_add_node:
  "holders_of (add_node_to_blocks now i node bs)
     = (holders_of bs)(i \<mapsto> {node} \<union> (case holders_of bs i of None \<Rightarrow> {} | Some N \<Rightarrow> N))"
proof (cases "\<exists>b \<in> set bs. bl_index b = i")
  case True
  then obtain N where "holders_of bs i = Some N"
    by (cases "filter (\<lambda>b. bl_index b = i) bs") (auto simp: holders_of_def filter_empty_conv)
  with True show ?thesis
    by (simp add: add_node_to_blocks_def fun_eq_iff holders_modify_first [where X = "{node}"] push_node_facts)
next
  case False
  then have "filter (\<lambda>b. bl_index b = i) bs = []" by (auto simp: filter_empty_conv)
  with False show ?thesis by (auto simp: add_node_to_blocks_def holders_of_def fun_eq_iff split: list.split)
qed

lemma holders_add_nodes:
  "holders_of (add_nodes_to_blocks now ni bs) i
     = map_option (\<lambda>N. N \<union> \<Union> {set nodes | nodes. (i, nodes) \<in> set ni}) (holders_of bs i)"
proof (induction ni arbitrary: bs)
  case Nil
  show ?case by (simp add: add_nodes_to_blocks_def option.map_ident)
next
  case (Cons p ni)
  obtain j nodes where p: "p = (j, nodes)" by force
  let ?bs = "modify_first (\<lambda>b. bl_index b = j) (\<lambda>b. (fold push_node nodes b)\<lparr>bl_last_synced := now\<rparr>) bs"
  have "holders_of ?bs i = (if i = j then map_option (\<lambda>N. N \<union> set nodes) (holders_of bs j) else holders_of bs i)"
    by (rule holders_modify_first) (simp_all add: push_nodes_facts)
  moreover have "add_nodes_to_blocks now (p # ni) bs = add_nodes_to_blocks now ni ?bs" by (simp add: add_nodes_to_blocks_def p)
  moreover have "\<Union> {set ns | ns. (i, ns) \<in> set (p # ni)}
      = (if i = j then set nodes else {}) \<union> \<Union> {set ns | ns. (i, ns) \<in> set ni}" by (auto simp: p)
  ultimately show ?case
    by (cases "holders_of bs i") (auto simp: Cons.IH)
qed

lemma beats_cases:
  "beats rank new old \<longleftrightarrow> view_updated old + 5 < view_updated new
     \<or> (view_updated new \<le> view_updated old + 5 \<and> view_updated old \<le> view_updated new + 5
        \<and> rank (view_hash old) < rank (view_hash new))"
  by (auto simp: beats_def)

lemma holders_find: "holders_of bs i = map_option (\<lambda>b. set (bl_nodes b)) (find (\<lambda>b. bl_index b = i) bs)"
  by (induction bs) (auto simp: holders_of_def)

text \<open>The comparison of the code, in 64 bits, decides as the abstract rule does.\<close>

lemma should_merge_beats:
  assumes "clock_in_range (fd_updated_at (me_meta old))" and "fd_name (me_meta old) = fd_name (me_meta new)"
  shows "should_merge hp (Some old) new \<longleftrightarrow> beats (hp (fd_name (me_meta new))) (view_of new) (view_of old)"
proof -
  let ?l = "fd_updated_at (me_meta old)" and ?r = "fd_updated_at (me_meta new)"
  have l: "unat (?l + conflict_window_secs) = unat ?l + 5"
    using assms(1) by (simp add: clock_in_range_def conflict_window_secs_def unat_word_ariths)
  have gt: "?r > ?l + conflict_window_secs \<longleftrightarrow> unat ?r > unat ?l + 5" by (simp add: word_less_nat_alt l)
  show ?thesis
  proof (cases "unat ?r > unat ?l + 5")
    case True
    with gt show ?thesis by (simp add: should_merge_def beats_cases view_of_def Let_def)
  next
    case False
    then have "unat (?r + conflict_window_secs) = unat ?r + 5"
      using assms(1) by (simp add: clock_in_range_def conflict_window_secs_def unat_word_ariths)
    then have "?l > ?r + conflict_window_secs \<longleftrightarrow> unat ?l > unat ?r + 5" by (simp add: word_less_nat_alt)
    with False gt assms(2) show ?thesis
      by (auto simp: should_merge_def beats_cases view_of_def Let_def hash_entry_def)
  qed
qed

lemma implements_sync_one:
  assumes "implements entries V" and "clock_in_range now"
  shows "implements (fst (sync_one hp now e (entries, k))) (merge_view hp (unat now) (fd_name (me_meta e)) (view_of e) V)"
proof -
  let ?n = "fd_name (me_meta e)"
  have "should_merge hp (hm_get entries ?n) e
      \<longleftrightarrow> (case V ?n of None \<Rightarrow> True | Some old \<Rightarrow> beats (hp ?n) (view_of e) old)"
  proof (cases "hm_get entries ?n")
    case (Some old)
    with should_merge_beats [of old e hp] implements_get [OF assms(1)] show ?thesis by simp
  qed (simp add: implements_get(1) [OF assms(1)] should_merge_def)
  moreover have "view_of (stamped now e) = (view_of e)\<lparr>view_updated := unat now\<rparr>" by (simp add: stamped_def view_of_def Let_def)
  ultimately show ?thesis
    using assms implements_insert [OF assms(1), of "stamped now e"] by (simp add: sync_one_def merge_view_def Let_def stamped_def)
qed

lemma implements_sync:
  "implements entries V \<Longrightarrow> clock_in_range now \<Longrightarrow>
     implements (fst (fold (sync_one hp now) es (entries, k)))
       (fold (\<lambda>e. merge_view hp (unat now) (fd_name (me_meta e)) (view_of e)) es V)"
proof (induction es arbitrary: entries V k)
  case (Cons e es)
  obtain entries' k' where "sync_one hp now e (entries, k) = (entries', k')" by force
  with Cons implements_sync_one [OF Cons.prems, of hp e k] show ?case by simp
qed simp

lemma implements_change:
  assumes "implements entries V" and "hm_get entries n = Some e" and "view_of e' = f (view_of e)"
    and "fd_name (me_meta e') = fd_name (me_meta e)" and "clock_in_range (fd_updated_at (me_meta e'))"
  shows "implements (hm_insert n e' entries) (change_view n f V)"
  using implements_insert [OF assms(1), of e' "f (view_of e)" n] implements_get [OF assms(1)] assms(2-)
  by (simp add: change_view_def)

lemma unchanged_view: "V n = None \<Longrightarrow> change_view n f V = V"
  by (auto simp: change_view_def)

lemma implements_step:
  assumes "implements (md_entries (fst sd)) V" and "op_clock_in_range op"
  shows "implements (md_entries (fst (metadata_do env hp op sd))) (store_spec hp op V)"
proof -
  note get = implements_get [OF assms(1)]
  have new: "implements (hm_insert n (metadata_entry_new now n h k mf bs src) (md_entries (fst sd))) (V(n \<mapsto> new_view (unat now) h k mf bs src))"
    if "clock_in_range now" for now n h k mf bs src
    using that by (intro implements_insert [OF assms(1)]) (simp_all add: metadata_entry_new_def new_view_def view_of_def Let_def)
  have touch: "view_of (touch_entry now f e) = (view_of e)\<lparr>view_updated := unat now, view_holders := holders_of (f (fd_blocks (me_meta e)))\<rparr>"
    "fd_name (me_meta (touch_entry now f e)) = fd_name (me_meta e)" "fd_updated_at (me_meta (touch_entry now f e)) = now" for now f e
    by (simp_all add: touch_entry_def view_of_def Let_def)
  have blocks: "view_holders (view_of e) = holders_of (fd_blocks (me_meta e))" for e by (simp add: view_of_def Let_def)
  show ?thesis
  proof (cases op)
    case (MdRegister now n h k mf bs src)
    with assms new show ?thesis by (auto simp: metadata_register_def hm_contains_def get(1))
  next
    case (MdUpsert now n h k mf bs src)
    with assms new show ?thesis by (simp add: metadata_upsert_def)
  next
    case (MdAddNode now n i node)
    show ?thesis
    proof (cases "hm_get (md_entries (fst sd)) n")
      case (Some e)
      have "implements (hm_insert n (touch_entry now (add_node_to_blocks now i node) e) (md_entries (fst sd))) (store_spec hp op V)"
        unfolding MdAddNode store_spec.simps using assms(2) MdAddNode
        by (intro implements_change [OF assms(1) Some]) (simp_all add: touch holders_add_node blocks)
      with Some show ?thesis by (simp add: MdAddNode add_block_node_def)
    qed (use assms(1) get(1) in \<open>simp add: MdAddNode add_block_node_def unchanged_view\<close>)
  next
    case (MdAddNodes now n ni)
    show ?thesis
    proof (cases "hm_get (md_entries (fst sd)) n")
      case (Some e)
      have "holders_of (add_nodes_to_blocks now ni bs)
          = (\<lambda>i. map_option (\<lambda>N. N \<union> \<Union> {set nodes | nodes. (i, nodes) \<in> set ni}) (holders_of bs i))" for bs
        by (rule ext) (rule holders_add_nodes)
      then have "implements (hm_insert n (touch_entry now (add_nodes_to_blocks now ni) e) (md_entries (fst sd))) (store_spec hp op V)"
        unfolding MdAddNodes store_spec.simps using assms(2) MdAddNodes
        by (intro implements_change [OF assms(1) Some]) (simp_all add: touch blocks)
      with Some show ?thesis by (simp add: MdAddNodes add_block_nodes_def)
    qed (use assms(1) get(1) in \<open>simp add: MdAddNodes add_block_nodes_def unchanged_view\<close>)
  next
    case (MdRemove n)
    have "V(n := None) = V" if "hm_get (md_entries (fst sd)) n = None" using that get(1) [of n] by auto
    with assms(1) implements_remove [OF assms(1), of n] show ?thesis by (simp add: MdRemove metadata_remove_file_def)
  next
    case (MdMark now n)
    show ?thesis
    proof (cases "hm_get (md_entries (fst sd)) n")
      case (Some e)
      let ?e = "e\<lparr>me_meta := (me_meta e)\<lparr>fd_encrypted := True, fd_updated_at := now\<rparr>\<rparr>"
      have "implements (hm_insert n ?e (md_entries (fst sd))) (store_spec hp op V)"
        unfolding MdMark store_spec.simps using assms(2) MdMark
        by (intro implements_change [OF assms(1) Some]) (simp_all add: view_of_def Let_def)
      with Some show ?thesis by (simp add: MdMark mark_encrypted_def)
    qed (use assms(1) get(1) in \<open>simp add: MdMark mark_encrypted_def unchanged_view\<close>)
  next
    case (MdSync now es)
    with assms implements_sync show ?thesis by (simp add: entries_of_sync)
  next
    case MdFlush
    with assms(1) show ?thesis by (simp add: metadata_flush_def)
  qed
qed

definition sample_env :: metadata_env where
  "sample_env =
     \<lparr>en_encode = (\<lambda>m. Inr (if m = hm_empty then ''{}'' else ''{a}'')),
      en_decode = (\<lambda>j. Inr (if j = ''{}'' then hm_empty
                     else [(''a'', metadata_entry_new 5 ''a'' (fill32 9) 3 None [] ''n'')])),
      en_parent = (\<lambda>_. None), en_create_dir = (\<lambda>_. Inr ()), en_write = (\<lambda>_. Inr ()),
      en_read = (\<lambda>_. Inr ())\<rparr>"

text \<open>C4. Whatever its file system and encoder do, any sequence of operations on a new
  metadata store acts as the updates of an abstract store that maps names to facts of
  files, with a set of holders for each known block, times that do not wrap, and the
  rule that of two versions the newer wins when they are more than five seconds apart
  and otherwise the one with the larger hash. All lookups, the list of files and the
  holders of every block are those of the abstract store, as long as the own clock is
  not within ten seconds of 2^64.\<close>

theorem metadata_refines_map:
  assumes "\<forall>op \<in> set ops. op_clock_in_range op"
    and "fold (metadata_do env hp) ops (metadata_new path, disk) = (s, disk')"
    and "V = fold (store_spec hp) ops (\<lambda>_. None)"
  shows "map_option view_of (metadata_query s n) = V n
    \<and> (metadata_contains s n \<longleftrightarrow> V n \<noteq> None) \<and> set (metadata_list_files s) = {n. V n \<noteq> None}
    \<and> set (get_block_nodes s n i) = (case V n of None \<Rightarrow> {} | Some v \<Rightarrow> (case view_holders v i of None \<Rightarrow> {} | Some N \<Rightarrow> N))"
proof -
  have "implements (md_entries (fst (fold (metadata_do env hp) ops sd))) (fold (store_spec hp) ops W)"
    if "implements (md_entries (fst sd)) W" for sd W
    using assms(1) that by (induction ops arbitrary: sd W) (simp_all add: implements_step)
  moreover have "implements hm_empty (\<lambda>_. None)" by (simp add: implements_def hm_simps)
  ultimately have impl: "implements (md_entries s) V"
    using assms(2,3) by (metis fst_conv metadata_new_def metadata_store.select_convs(1))
  note get = implements_get(1) [OF impl]
  have "set (get_block_nodes s n i) = (case V n of None \<Rightarrow> {} | Some v \<Rightarrow> (case view_holders v i of None \<Rightarrow> {} | Some N \<Rightarrow> N))"
  proof (cases "hm_get (md_entries s) n")
    case (Some e)
    then show ?thesis
      by (cases "find (\<lambda>b. bl_index b = i) (fd_blocks (me_meta e))")
        (simp_all add: get_block_nodes_def get [of n] view_of_def Let_def holders_find)
  qed (simp add: get_block_nodes_def get [of n])
  moreover have "n \<in> set (metadata_list_files s) \<longleftrightarrow> V n \<noteq> None" for n
    using hm_get_None [of "md_entries s" n] by (auto simp: metadata_list_files_def hm_keys_def get)
  ultimately show ?thesis
    by (auto simp: metadata_query_def metadata_contains_def hm_contains_def get)
qed

text \<open>
  An entry that arrives fifty seconds newer wins over the registered one; a stale one does not.
\<close>

theorem metadata_refines_map_witness:
  "let e = (\<lambda>t h. metadata_entry_new t ''a'' (fill32 h) 3 None [\<lparr>bl_hash = fill32 h, bl_index = 0, bl_nodes = [''m''], bl_last_synced = 0\<rparr>] ''m'');
       s = fst (fold (metadata_do sample_env (\<lambda>_ _. 0))
             [MdRegister 100 ''a'' (fill32 1) 3 None [] ''n'', MdSync 200 [e 150 2], MdSync 300 [e 120 3], MdAddNode 310 ''a'' 0 ''k'']
             (metadata_new ''db'', \<lambda>_. None))
   in map_option fd_file_hash (map_option me_meta (metadata_query s ''a'')) = Some (fill32 2)
      \<and> set (get_block_nodes s ''a'' 0) = {''k'', ''m''}"
proof -
  let ?e = "\<lambda>t h. metadata_entry_new t ''a'' (fill32 h) 3 None [\<lparr>bl_hash = fill32 h, bl_index = 0, bl_nodes = [''m''], bl_last_synced = 0\<rparr>] ''m''"
  let ?ops = "[MdRegister 100 ''a'' (fill32 1) 3 None [] ''n'', MdSync 200 [?e 150 2], MdSync 300 [?e 120 3], MdAddNode 310 ''a'' 0 ''k'']"
  let ?V = "fold (store_spec (\<lambda>_ _. 0)) ?ops (\<lambda>_. None)"
  obtain s disk where r: "fold (metadata_do sample_env (\<lambda>_ _. 0)) ?ops (metadata_new ''db'', \<lambda>_. None) = (s, disk)" by force
  have clocks: "\<forall>op \<in> set ?ops. op_clock_in_range op" by (simp add: clock_in_range_def)
  note t = metadata_refines_map [OF clocks r refl, of "''a''" 0]
  have v: "map_option view_hash (?V ''a'') = Some (fill32 2)" "\<exists>v. ?V ''a'' = Some v \<and> view_holders v 0 = Some {''k'', ''m''}"
    by (simp_all add: merge_view_def change_view_def beats_cases new_view_def view_of_def Let_def metadata_entry_new_def holders_of_def)
  have "map_option fd_file_hash (map_option me_meta (metadata_query s ''a'')) = map_option view_hash (map_option view_of (metadata_query s ''a''))"
    by (simp add: option.map_comp comp_def view_of_def Let_def)
  also have "\<dots> = Some (fill32 2)" using t v(1) by simp
  finally show ?thesis using t v(2) r by (auto simp: Let_def)
qed

section \<open>What is on the disk\<close>

definition saved_as :: "metadata_env \<Rightarrow> string \<Rightarrow> metadata_store \<times> disk \<Rightarrow> bool" where
  "saved_as env path = (\<lambda>(s, disk). io_works env \<and> md_db_path s = path \<and> \<not> md_dirty s
     \<and> (metadata_load env disk path = Inr s
        \<or> (\<exists>j. en_encode env (md_entries s) = Inr j \<and> disk path = Some j)))"

lemma saved_as_save:
  assumes "io_works env" and "md_db_path (fst sd) = path"
  shows "saved_as env path (fst (metadata_save env sd))"
proof -
  obtain s disk where sd: "sd = (s, disk)" by force
  obtain j where "en_encode env (md_entries s) = Inr j" "write_json env path (md_entries s) disk = (disk(path \<mapsto> j), Inr ())"
    using write_json_works [OF assms(1)] by blast
  with assms sd show ?thesis by (auto simp: saved_as_def metadata_save_def)
qed

lemma saved_as_commit:
  assumes "saved_as env path sd"
  shows "saved_as env path (metadata_commit env entries sd)"
proof -
  have "io_works env" "md_db_path (fst sd) = path" using assms by (auto simp: saved_as_def split_beta)
  then show ?thesis
    by (simp add: metadata_commit_def metadata_save_if_dirty_def split_beta saved_as_save)
qed

interpretation md: op_machine "metadata_do env hp" "saved_as env path"
proof
  fix op sd assume sd: "saved_as env path sd"
  then have "io_works env" "md_db_path (fst sd) = path" by (auto simp: saved_as_def split_beta)
  with sd show "saved_as env path (metadata_do env hp op sd)"
    by (cases op) (auto simp: metadata_register_def metadata_upsert_def add_block_node_def
        add_block_nodes_def metadata_remove_file_def mark_encrypted_def metadata_flush_def
        sync_from_def split_beta saved_as_commit saved_as_save split: option.split)
qed

text \<open>After any operations on a loaded metadata store whose file system works, loading the
  file again gives a store with the same entries, when the encoder reads back what it
  wrote.\<close>

theorem metadata_survives_restart:
  assumes "io_works env" and "metadata_load env disk path = Inr s"
    and "fold (metadata_do env hp) ops (s, disk) = (s', disk')"
    and "reads_back (\<lambda>m' m. hm_get m' = hm_get m) env (md_entries s')"
  shows "\<exists>t. metadata_load env disk' path = Inr t \<and> metadata_query t = metadata_query s'"
proof -
  have "md_db_path s = path \<and> \<not> md_dirty s"
    using assms(2) by (auto simp: metadata_load_def metadata_new_def split: option.splits sum.splits)
  with assms(1,2) have "saved_as env path (s, disk)" by (simp add: saved_as_def)
  then have "saved_as env path (s', disk')" using md.run_inv assms(3) by metis
  then consider "metadata_load env disk' path = Inr s'"
    | j where "en_encode env (md_entries s') = Inr j" "disk' path = Some j"
    by (auto simp: saved_as_def)
  then show ?thesis
  proof cases
    case 2
    from read_after_write [OF assms(1,4), of j disk' path, OF 2]
    show ?thesis by (auto simp: metadata_load_def metadata_query_def [abs_def])
  qed blast
qed

theorem metadata_survives_restart_witness:
  "\<exists>s' disk' t. fold (metadata_do sample_env (\<lambda>_ _. 0)) [MdRegister 5 ''a'' (fill32 9) 3 None [] ''n'']
       (metadata_new ''db'', \<lambda>_. None) = (s', disk')
     \<and> metadata_load sample_env disk' ''db'' = Inr t
     \<and> metadata_query t ''a'' = Some (metadata_entry_new 5 ''a'' (fill32 9) 3 None [] ''n'')"
proof -
  let ?e = "metadata_entry_new 5 ''a'' (fill32 9) 3 None [] ''n''"
  let ?s = "\<lparr>md_entries = [(''a'', ?e)], md_db_path = ''db'', md_dirty = False\<rparr>"
  let ?d = "(\<lambda>_. None)(''db'' \<mapsto> ''{a}'')"
  have run: "fold (metadata_do sample_env (\<lambda>_ _. 0)) [MdRegister 5 ''a'' (fill32 9) 3 None [] ''n'']
       (metadata_new ''db'', \<lambda>_. None) = (?s, ?d)"
    by (simp add: sample_env_def metadata_register_def metadata_new_def hm_contains_def hm_get_def
        hm_empty_def hm_insert_def metadata_commit_def metadata_save_if_dirty_def metadata_save_def write_json_def fs_write_def)
  have "io_works sample_env" by (simp add: io_works_def sample_env_def)
  moreover have "metadata_load sample_env (\<lambda>_. None) ''db'' = Inr (metadata_new ''db'')"
    by (simp add: metadata_load_def read_json_def)
  moreover have "reads_back (\<lambda>m' m. hm_get m' = hm_get m) sample_env (md_entries ?s)"
    by (simp add: reads_back_def sample_env_def hm_empty_def is_blank_def white3_def)
  ultimately obtain t where "metadata_load sample_env ?d ''db'' = Inr t" "metadata_query t = metadata_query ?s"
    using metadata_survives_restart [OF _ _ run] by blast
  then show ?thesis
    by (intro exI [of _ ?s] exI [of _ ?d] exI [of _ t] conjI run)
      (simp_all add: metadata_query_def hm_get_def)
qed

section \<open>Merging between nodes\<close>

text \<open>The window of five seconds, on times that are not at the end of the range.\<close>

lemma in_window:
  "unat t + 5 < 2 ^ 64 \<Longrightarrow> u > t + conflict_window_secs \<longleftrightarrow> unat u > unat t + 5"
  by (simp add: conflict_window_secs_def word_less_nat_alt unat_word_ariths)

lemma sync_from_one:
  "sync_from env hp now [r] sd =
     (if should_merge hp (metadata_query (fst sd) (fd_name (me_meta r))) r
      then (metadata_commit env (hm_insert (fd_name (me_meta r)) (stamped now r) (md_entries (fst sd))) sd, 1)
      else (sd, 0))"
  by (simp add: sync_from_def sync_one_def Let_def metadata_query_def)

lemma stamped_simps [simp]:
  "fd_name (me_meta (stamped now e)) = fd_name (me_meta e)"
  "fd_updated_at (me_meta (stamped now e)) = now"
  "stamped t (stamped now e) = stamped t e"
  "hash_entry hp (stamped now e) = hash_entry hp e"
  by (simp_all add: stamped_def hash_entry_def)

lemma query_commit_insert:
  "metadata_query (fst (metadata_commit env (hm_insert n e (md_entries (fst sd))) sd)) m
     = (if m = n then Some e else metadata_query (fst sd) m)"
  by (simp add: metadata_query_def hm_simps)

text \<open>A store that learns a stale entry of a file and then gets one updated more than 5
  seconds later keeps the stale one, since the first merge stamped it with the time of
  the merge.\<close>

theorem sync_lets_stale_win:
  assumes "metadata_query (fst sd) n = None"
    and "fd_name (me_meta stale) = n" and "fd_name (me_meta newer) = n"
    and "unat (fd_updated_at (me_meta stale)) + 5 < unat (fd_updated_at (me_meta newer))"
    and "unat (fd_updated_at (me_meta newer)) + 5 < unat now" and "unat now + 5 < 2 ^ 64"
    and "sync_from env hp now [stale] sd = (sd1, k1)"
    and "sync_from env hp now' [newer] sd1 = (sd2, k2)"
  shows "k2 = 0 \<and> metadata_query (fst sd2) n = Some (stamped now stale)"
proof -
  have sd1: "metadata_query (fst sd1) n = Some (stamped now stale)"
    using assms(1,2,7) by (auto simp: sync_from_one should_merge_def query_commit_insert)
  have "now > fd_updated_at (me_meta newer) + conflict_window_secs"
    and "\<not> fd_updated_at (me_meta newer) > now + conflict_window_secs"
    using assms(5,6) by (simp_all only: in_window)
  then have "\<not> should_merge hp (Some (stamped now stale)) newer"
    by (simp add: should_merge_def Let_def)
  then show ?thesis using assms(3,8) sd1 by (simp add: sync_from_one)
qed

theorem sync_lets_stale_win_witness:
  "\<exists>sd1 sd2. sync_from sample_env (\<lambda>_ _. 0) 1000 [metadata_entry_new 100 ''a'' (fill32 1) 3 None [] ''n'']
       (metadata_new ''db'', \<lambda>_. None) = (sd1, 1)
     \<and> sync_from sample_env (\<lambda>_ _. 0) 1001 [metadata_entry_new 500 ''a'' (fill32 2) 4 None [] ''n''] sd1 = (sd2, 0)"
proof -
  let ?old = "metadata_entry_new 100 ''a'' (fill32 1) 3 None [] ''n''"
  let ?new = "metadata_entry_new 500 ''a'' (fill32 2) 4 None [] ''n''"
  let ?s = "(metadata_new ''db'', \<lambda>_. None) :: metadata_store \<times> disk"
  obtain sd1 k1 where 1: "sync_from sample_env (\<lambda>_ _. 0) 1000 [?old] ?s = (sd1, k1)" by (meson surj_pair)
  obtain sd2 k2 where 2: "sync_from sample_env (\<lambda>_ _. 0) 1001 [?new] sd1 = (sd2, k2)" by (meson surj_pair)
  have n: "metadata_query (fst ?s) ''a'' = None" by (simp add: metadata_query_def metadata_new_def hm_simps)
  then have "k1 = 1" using 1
    by (auto simp: sync_from_one should_merge_def metadata_entry_new_def)
  moreover have "k2 = 0"
    using sync_lets_stale_win [OF n _ _ _ _ _ 1 2] by (simp add: metadata_entry_new_def)
  ultimately show ?thesis using 1 2 by blast
qed

text \<open>
  Two nodes that hold the same file and sync from each other in turn, one sync at each of
  the given times; the result lists the counts of merged entries.
\<close>

fun sync_rounds ::
  "metadata_env \<Rightarrow> (string \<Rightarrow> hash \<Rightarrow> u64) \<Rightarrow> u64 list \<Rightarrow> metadata_store \<times> disk \<Rightarrow> metadata_store \<times> disk
   \<Rightarrow> nat list" where
  "sync_rounds env hp [] a b = []"
| "sync_rounds env hp (t # ts) a b =
     (let (a', k) = sync_from env hp t (metadata_all_entries (fst b)) a in k # sync_rounds env hp ts b a')"

lemma hm_insert_only: "hm_insert n e [(n, d)] = [(n, e)]"
  by (simp add: hm_insert_def)

lemma sync_rounds_merge:
  assumes "successively (\<lambda>x y. unat x + 5 < unat y) (ta # tb # ts)"
    and "fd_name (me_meta e) = n"
    and "md_entries (fst a) = [(n, stamped ta e)]" and "md_entries (fst b) = [(n, stamped tb e)]"
  shows "sync_rounds env hp ts a b = replicate (length ts) 1"
  using assms
proof (induction ts arbitrary: a b ta tb)
  case (Cons t ts)
  have w: "tb > ta + conflict_window_secs"
    using Cons.prems(1) unsigned_less [of tb, where 'a = nat] by (subst in_window) auto
  have all: "metadata_all_entries (fst b) = [stamped tb e]"
    by (simp add: metadata_all_entries_def hm_values_def Cons.prems(4))
  have "metadata_query (fst a) n = Some (stamped ta e)"
    by (simp add: metadata_query_def hm_get_def Cons.prems(3))
  then have "sync_from env hp t [stamped tb e] a
      = (metadata_commit env [(n, stamped t e)] a, 1)"
    using w by (simp add: sync_from_one should_merge_def Let_def Cons.prems(2,3) hm_insert_only)
  moreover have "sync_rounds env hp ts b (metadata_commit env [(n, stamped t e)] a)
      = replicate (length ts) 1"
    by (rule Cons.IH [OF _ Cons.prems(2,4)]) (use Cons.prems(1) in simp_all)
  ultimately show ?case by (simp add: all)
qed simp

text \<open>Two stores that hold the same entry with different times, more than 5 seconds apart,
  and synchronise in turns merge the entry in every round, for as long as they go on.\<close>

theorem sync_never_settles:
  assumes "successively (\<lambda>x y. unat x + 5 < unat y) (ta # tb # ts)"
    and "fd_name (me_meta e) = n"
    and "md_entries (fst a) = [(n, stamped ta e)]" and "md_entries (fst b) = [(n, stamped tb e)]"
  shows "sync_rounds env hp ts a b = replicate (length ts) 1"
  by (rule sync_rounds_merge [OF assms])

theorem sync_never_settles_witness:
  "\<exists>a b. sync_rounds sample_env (\<lambda>_ _. 0) [120, 130, 140] a b = [1, 1, 1]"
proof -
  let ?e = "metadata_entry_new 5 ''a'' (fill32 9) 3 None [] ''n''"
  let ?st = "\<lambda>t. (\<lparr>md_entries = [(''a'', stamped t ?e)], md_db_path = ''db'', md_dirty = False\<rparr>, (\<lambda>_. None) :: disk)"
  have "sync_rounds sample_env (\<lambda>_ _. 0) [120, 130, 140] (?st 100) (?st 110) = replicate (length [120, 130, 140 :: u64]) 1"
    by (rule sync_never_settles [of 100 110 _ ?e]) (simp_all add: metadata_entry_new_def)
  then show ?thesis by (auto simp: numeral_eq_Suc)
qed

text \<open>
  Within one store, though, a second sync of the same entries merges nothing, provided
  their times are not ahead of the clock by more than the window.
\<close>

lemma merge_again:
  assumes "unat (fd_updated_at (me_meta r)) \<le> unat now + 5" and "unat now + 5 < 2 ^ 64"
  shows "\<not> should_merge hp (Some (stamped now r)) r"
proof -
  have "\<not> fd_updated_at (me_meta r) > now + conflict_window_secs"
    using assms by (simp add: in_window)
  then show ?thesis by (simp add: should_merge_def Let_def)
qed

lemma fold_merge_other:
  "n \<notin> (\<lambda>r. fd_name (me_meta r)) ` set es \<Longrightarrow> fold (merge_entry hp now) es M n = M n"
  by (induction es arbitrary: M) (auto simp: merge_entry_def)

lemma fold_merge_settled:
  assumes "distinct (map (\<lambda>r. fd_name (me_meta r)) es)" and "unat now + 5 < 2 ^ 64"
    and "\<forall>r \<in> set es. unat (fd_updated_at (me_meta r)) \<le> unat now + 5" and "r \<in> set es"
  shows "\<not> should_merge hp (fold (merge_entry hp now) es M (fd_name (me_meta r))) r"
  using assms
proof (induction es arbitrary: M)
  case (Cons e es)
  show ?case
  proof (cases "r \<in> set es")
    case True
    with Cons show ?thesis by simp
  next
    case False
    with Cons.prems have "r = e" by simp
    moreover from Cons.prems(1) have "fd_name (me_meta e) \<notin> (\<lambda>r. fd_name (me_meta r)) ` set es" by simp
    then have "fold (merge_entry hp now) es (merge_entry hp now e M) (fd_name (me_meta e))
        = merge_entry hp now e M (fd_name (me_meta e))"
      by (rule fold_merge_other)
    moreover have "\<not> should_merge hp (merge_entry hp now e M (fd_name (me_meta e))) e"
      using merge_again [of e now hp] Cons.prems(2,3) by (simp add: merge_entry_def)
    ultimately show ?thesis by simp
  qed
qed simp

lemma sync_settled:
  "\<forall>r \<in> set es. \<not> should_merge hp (hm_get entries (fd_name (me_meta r))) r \<Longrightarrow>
   fold (sync_one hp now) es (entries, k) = (entries, k)"
  by (induction es) (simp_all add: sync_one_def Let_def)

text \<open>Merging the same entries a second time changes nothing.\<close>

theorem sync_twice_merges_nothing:
  assumes "distinct (map (\<lambda>r. fd_name (me_meta r)) es)" and "unat now + 5 < 2 ^ 64"
    and "\<forall>r \<in> set es. unat (fd_updated_at (me_meta r)) \<le> unat now + 5"
    and "sync_from env hp now es sd = (sd', k)"
  shows "sync_from env hp now' es sd' = (sd', 0)"
proof -
  have "hm_get (md_entries (fst sd')) = fold (merge_entry hp now) es (hm_get (md_entries (fst sd)))"
    using entries_of_sync [of env hp now es sd] sync_fold [of hp now es "md_entries (fst sd)" 0] assms(4) by simp
  then have "fold (sync_one hp now') es (md_entries (fst sd'), 0) = (md_entries (fst sd'), 0)"
    using fold_merge_settled [OF assms(1-3)] by (intro sync_settled) simp
  then show ?thesis by (simp add: sync_from_def)
qed

theorem sync_twice_merges_nothing_witness:
  "snd (sync_from sample_env (\<lambda>_ _. 0) 1001 [metadata_entry_new 100 ''a'' (fill32 1) 3 None [] ''n'']
     (fst (sync_from sample_env (\<lambda>_ _. 0) 1000 [metadata_entry_new 100 ''a'' (fill32 1) 3 None [] ''n'']
        (metadata_new ''db'', \<lambda>_. None)))) = 0"
  using sync_twice_merges_nothing [of "[metadata_entry_new 100 ''a'' (fill32 1) 3 None [] ''n'']" 1000 sample_env
      "\<lambda>_ _. 0" "(metadata_new ''db'', \<lambda>_. None)" _ _ 1001]
  by (cases "sync_from sample_env (\<lambda>_ _. 0) 1000 [metadata_entry_new 100 ''a'' (fill32 1) 3 None [] ''n'']
        (metadata_new ''db'', \<lambda>_. None)") (simp add: metadata_entry_new_def)

text \<open>The nodes of a block after \<open>add_block_node\<close>.\<close>

lemma find_snoc:
  "find p (xs @ [x]) = (case find p xs of None \<Rightarrow> if p x then Some x else None | Some y \<Rightarrow> Some y)"
  by (induction xs) auto

lemma find_modify_first:
  assumes "\<And>b. p b \<Longrightarrow> p (f b)"
  shows "find p (modify_first p f bs) = map_option f (find p bs)"
  using assms by (induction bs) auto

lemma find_modify_first_other:
  assumes "\<And>b. p b \<Longrightarrow> \<not> q b \<and> \<not> q (f b)"
  shows "find q (modify_first p f bs) = find q bs"
  using assms by (induction bs) auto

theorem add_block_node_adds:
  assumes "metadata_query (fst sd) name \<noteq> None" and "add_block_node env now name i node sd = (sd', res)"
  shows "res = Inr () \<and> node \<in> set (get_block_nodes (fst sd') name i)
     \<and> set (get_block_nodes (fst sd') name i) = insert node (set (get_block_nodes (fst sd) name i))
     \<and> (distinct (get_block_nodes (fst sd) name i) \<longrightarrow> distinct (get_block_nodes (fst sd') name i))
     \<and> (\<forall>j. j \<noteq> i \<longrightarrow> get_block_nodes (fst sd') name j = get_block_nodes (fst sd) name j)"
proof -
  from assms(1) obtain e where e: "hm_get (md_entries (fst sd)) name = Some e"
    by (auto simp: metadata_query_def)
  let ?bs = "fd_blocks (me_meta e)" and ?f = "\<lambda>b. (push_node node b)\<lparr>bl_last_synced := now\<rparr>"
  have new: "hm_get (md_entries (fst sd')) name = Some (touch_entry now (add_node_to_blocks now i node) e)"
    and res: "res = Inr ()"
    using assms(2) e by (auto simp: add_block_node_def hm_simps)
  have idx: "bl_index (?f b) = bl_index b" for b by (simp add: push_node_def)
  have other: "find (\<lambda>b. bl_index b = j) (add_node_to_blocks now i node ?bs) = find (\<lambda>b. bl_index b = j) ?bs"
    if "j \<noteq> i" for j
  proof (cases "\<exists>b \<in> set ?bs. bl_index b = i")
    case True
    have "find (\<lambda>b. bl_index b = j) (modify_first (\<lambda>b. bl_index b = i) ?f ?bs) = find (\<lambda>b. bl_index b = j) ?bs"
      using that by (intro find_modify_first_other) (auto simp: idx)
    with True show ?thesis by (simp add: add_node_to_blocks_def)
  qed (use that in \<open>simp add: add_node_to_blocks_def find_snoc split: option.split\<close>)
  have same: "find (\<lambda>b. bl_index b = i) (add_node_to_blocks now i node ?bs)
      = (case find (\<lambda>b. bl_index b = i) ?bs of Some b \<Rightarrow> Some (?f b)
         | None \<Rightarrow> Some \<lparr>bl_hash = fill32 0, bl_index = i, bl_nodes = [node], bl_last_synced = now\<rparr>)"
  proof (cases "find (\<lambda>b. bl_index b = i) ?bs")
    case None
    then have "\<not> (\<exists>b \<in> set ?bs. bl_index b = i)" by (auto simp: find_None_iff)
    then show ?thesis by (simp add: add_node_to_blocks_def find_snoc None)
  next
    case (Some b)
    then have "\<exists>b \<in> set ?bs. bl_index b = i" unfolding find_Some_iff by (metis nth_mem)
    then show ?thesis
      by (simp add: add_node_to_blocks_def find_modify_first idx Some)
  qed
  from same other new res e show ?thesis
    by (auto simp: get_block_nodes_def touch_entry_def push_node_def split: option.split)
qed

end
