(* ===== verification/Calendar.thy ===== *)
theory Calendar
  imports Prelude "HOL-Library.Signed_Division"
begin

text \<open>
  Time stamps of the version history (\<open>format_timestamp\<close> and \<open>civil_date_from_days\<close> of
  \<open>src/storage/version.rs\<close>) and their correctness against the Gregorian calendar: the
  formula of the code takes each day to the day after. An \<open>i64\<close> is an integer here; the days
  of a \<open>u64\<close> count of seconds stay below 2^48. Division is Rust's, which truncates.
\<close>

section \<open>The code\<close>

definition civil_date_from_days :: "int \<Rightarrow> int \<times> int \<times> int" where
  "civil_date_from_days days =
     (let z = days + 719468;
          era = (if 0 \<le> z then z else z - 146096) sdiv 146097;
          doe = z - era * 146097;
          yoe = (doe - doe sdiv 1460 + doe sdiv 36524 - doe sdiv 146096) sdiv 365;
          y = yoe + era * 400;
          doy = doe - (365 * yoe + yoe sdiv 4 - yoe sdiv 100);
          mp = (5 * doy + 2) sdiv 153;
          d = doy - (153 * mp + 2) sdiv 5 + 1;
          m = (if mp < 10 then mp + 3 else mp - 9);
          y = (if m \<le> 2 then y + 1 else y)
      in (y, m, d))"

text \<open>\<open>{:0w}\<close> of a number that is not negative.\<close>

definition pad_zero :: "nat \<Rightarrow> nat \<Rightarrow> string" where
  "pad_zero w n = replicate (w - length (show_nat n)) CHR ''0'' @ show_nat n"

definition format_timestamp :: "u64 \<Rightarrow> string" where
  "format_timestamp unix_secs =
     (let days_since_epoch = unix_secs div 86400;
          time_in_day = unix_secs mod 86400;
          hours = time_in_day div 3600;
          minutes = (time_in_day mod 3600) div 60;
          seconds = time_in_day mod 60;
          (year, month, day) = civil_date_from_days (int (unat days_since_epoch))
      in pad_zero 4 (nat year) @ pad_zero 2 (nat month) @ pad_zero 2 (nat day)
         @ pad_zero 2 (unat hours) @ pad_zero 2 (unat minutes) @ pad_zero 2 (unat seconds))"

section \<open>The calendar\<close>

definition is_leap :: "int \<Rightarrow> bool" where
  "is_leap y \<longleftrightarrow> y mod 4 = 0 \<and> (y mod 100 \<noteq> 0 \<or> y mod 400 = 0)"

definition month_length :: "int \<Rightarrow> int \<Rightarrow> int" where
  "month_length y m =
     (if m = 2 then if is_leap y then 29 else 28 else if m \<in> {4, 6, 9, 11} then 30 else 31)"

fun next_day :: "int \<times> int \<times> int \<Rightarrow> int \<times> int \<times> int" where
  "next_day (y, m, d) =
     (if d < month_length y m then (y, m, d + 1) else if m < 12 then (y, m + 1, 1) else (y + 1, 1, 1))"

section \<open>Eras, years and days of the year\<close>

text \<open>
  Years begin on the first of March here; an era has 400 of them and 146097 days. The
  functions are those the code computes, with the division that rounds down.
\<close>

definition year_day :: "int \<Rightarrow> int" where
  "year_day doe = (doe - doe div 1460 + doe div 36524 - doe div 146096) div 365"

definition year_start :: "int \<Rightarrow> int" where
  "year_start y = 365 * y + y div 4 - y div 100"

definition year_end :: "int \<Rightarrow> int" where
  "year_end y = (if y = 399 then 146097 else year_start (y + 1))"

definition month_day :: "int \<Rightarrow> int \<times> int" where
  "month_day doy =
     (let mp = (5 * doy + 2) div 153
      in (if mp < 10 then mp + 3 else mp - 9, doy - (153 * mp + 2) div 5 + 1))"

definition civil_of :: "int \<Rightarrow> int \<Rightarrow> int \<Rightarrow> int \<times> int \<times> int" where
  "civil_of era yoe doy =
     (let (m, d) = month_day doy in (yoe + era * 400 + (if m \<le> 2 then 1 else 0), m, d))"

lemma sdiv_nonneg: "0 \<le> a \<Longrightarrow> 0 < b \<Longrightarrow> a sdiv b = a div (b :: int)"
  by (cases "a = 0") (simp_all add: signed_divide_int_def)

lemma era_floor: "(if 0 \<le> z then z else z - 146096) sdiv 146097 = z div (146097 :: int)"
proof (cases "0 \<le> z")
  case False
  have "(z - 146096) sdiv 146097 = - ((146096 - z) div 146097)"
    using False by (simp add: signed_divide_int_def sgn_if)
  also have "(146096 - z) div 146097 = - (z div 146097)"
    by (rule int_div_pos_eq [of _ _ _ "146096 - z mod 146097"])
      (use div_mult_mod_eq [of z 146097] pos_mod_bound [of 146097 z] in linarith)+
  finally show ?thesis using False by simp
qed (simp add: sdiv_nonneg)

definition year_ok :: "int \<Rightarrow> bool" where
  "year_ok y \<longleftrightarrow> year_day (year_start y) = y \<and> year_day (year_end y - 1) = y
     \<and> year_end y - year_start y = (if is_leap (y + 1) then 366 else 365)"

definition month_ok :: "int \<Rightarrow> bool" where
  "month_ok doy =
     (case month_day doy of (m, d) \<Rightarrow> (m = 2 \<longrightarrow> d < 28) \<and> 1 \<le> m \<and> m \<le> 12
        \<and> month_day (doy + 1)
          = (if d < month_length 1 m then (m, d + 1) else if m < 12 then (m + 1, 1) else (1, 1)))"

lemma year_table:
  "list_all year_ok [0..99]" "list_all year_ok [100..199]"
  "list_all year_ok [200..299]" "list_all year_ok [300..399]"
  by code_simp+

lemma month_table: "list_all month_ok [0..181]" "list_all month_ok [182..363]"
  by code_simp+

lemma list_all_upto: "list_all P [a..b] \<longleftrightarrow> (\<forall>x. a \<le> x \<and> x \<le> b \<longrightarrow> P x)"
  by (auto simp: list_all_iff)

lemma year_facts: "0 \<le> y \<Longrightarrow> y \<le> 399 \<Longrightarrow> year_ok y"
proof -
  assume "0 \<le> y" "y \<le> 399"
  then consider "0 \<le> y \<and> y \<le> 99" | "100 \<le> y \<and> y \<le> 199" | "200 \<le> y \<and> y \<le> 299" | "300 \<le> y \<and> y \<le> 399"
    by linarith
  then show ?thesis using year_table [unfolded list_all_upto] by cases blast+
qed

lemma month_facts: "0 \<le> doy \<Longrightarrow> doy \<le> 363 \<Longrightarrow> month_ok doy"
proof -
  assume "0 \<le> doy" "doy \<le> 363"
  then consider "0 \<le> doy \<and> doy \<le> 181" | "182 \<le> doy \<and> doy \<le> 363" by linarith
  then show ?thesis using month_table [unfolded list_all_upto] by cases blast+
qed

lemma div_growth: "0 < k \<Longrightarrow> x \<le> y \<Longrightarrow> y div k - x div k \<le> y - (x :: int)"
proof -
  assume k: "0 < k" and le: "x \<le> y"
  have "(y - x) * 1 \<le> (y - x) * k" using k le by (intro mult_left_mono) simp_all
  then have "y \<le> x + (y - x) * k" by simp
  then have "y div k \<le> (x + (y - x) * k) div k" using k by (rule zdiv_mono1)
  then show ?thesis using k by simp
qed

lemma year_day_mono: "x \<le> y \<Longrightarrow> year_day x \<le> year_day y"
proof -
  assume le: "x \<le> y"
  have q: "z div 36524 - z div 146096 = z div 36524 - z div 36524 div 4" for z :: int
    using zdiv_zmult2_eq [of 4 z 36524] by simp
  have "x - x div 1460 \<le> y - y div 1460" using div_growth [of 1460 x y] le by simp
  moreover have "x div 36524 - x div 36524 div 4 \<le> y div 36524 - y div 36524 div 4"
    using div_growth [of 4 "x div 36524" "y div 36524"] zdiv_mono1 [OF le, of 36524] by simp
  ultimately show ?thesis
    unfolding year_day_def by (intro zdiv_mono1) (use q [of x] q [of y] in linarith, simp)
qed

lemma year_exists:
  assumes "0 \<le> doe" and "doe < 146097"
  shows "\<exists>y. 0 \<le> y \<and> y \<le> 399 \<and> year_start y \<le> doe \<and> doe < year_end y"
proof (cases "doe = 146096")
  case True
  then show ?thesis by (intro exI [of _ 399]) (simp add: year_start_def year_end_def)
next
  case False
  have "doe < year_start (int n) \<Longrightarrow>
      \<exists>y. 0 \<le> y \<and> y < int n \<and> year_start y \<le> doe \<and> doe < year_start (y + 1)" for n
  proof (induction n)
    case (Suc n)
    show ?case
    proof (cases "doe < year_start (int n)")
      case True
      with Suc.IH show ?thesis by force
    next
      case False
      with Suc.prems show ?thesis by (intro exI [of _ "int n"]) (simp add: add.commute)
    qed
  qed (use assms in \<open>simp add: year_start_def\<close>)
  moreover have "doe < year_start (int 400)"
    using assms False by (simp add: year_start_def)
  ultimately obtain y where y: "0 \<le> y" "y < int 400" "year_start y \<le> doe" "doe < year_start (y + 1)"
    by blast
  then show ?thesis using assms(2) by (intro exI [of _ y]) (simp add: year_end_def)
qed

lemma year_day_eq:
  assumes "0 \<le> y" and "y \<le> 399" and "year_start y \<le> doe" and "doe < year_end y"
  shows "year_day doe = y"
  using year_day_mono [of "year_start y" doe] year_day_mono [of doe "year_end y - 1"] year_facts [of y] assms
  by (simp add: year_ok_def)

section \<open>The code follows the calendar\<close>

lemma is_leap_era: "is_leap (y + era * 400) = is_leap y"
proof -
  have "(y + era * 400) mod k = y mod k" if "k dvd 400" for k :: int
  proof -
    from that obtain j where "400 = k * j" by (rule dvdE)
    then have "y + era * 400 = y + k * (era * j)" by (simp only: mult.left_commute)
    then show ?thesis by (simp only: mod_mult_self2)
  qed
  then show ?thesis by (simp add: is_leap_def)
qed

lemma month_length_1: "m \<noteq> 2 \<Longrightarrow> month_length y m = month_length 1 m"
  by (simp add: month_length_def)

lemma month_day_end:
  "month_day 0 = (3, 1)" "month_day 364 = (2, 28)" "month_day 365 = (2, 29)"
  by (simp_all add: month_day_def)

lemma civil_of_day:
  assumes "0 \<le> y" and "y \<le> 399" and "0 \<le> doy" and "doy + 1 < year_end y - year_start y"
  shows "civil_of era y (doy + 1) = next_day (civil_of era y doy)"
proof (cases "doy \<le> 363")
  case True
  obtain m d where md: "month_day doy = (m, d)" by force
  with month_facts [OF assms(3) True] have ok: "m = 2 \<longrightarrow> d < 28" "1 \<le> m" "m \<le> 12"
    "month_day (doy + 1) = (if d < month_length 1 m then (m, d + 1) else if m < 12 then (m + 1, 1) else (1, 1))"
    by (simp_all add: month_ok_def)
  show ?thesis
  proof (cases "m = 2")
    case True
    with ok md show ?thesis by (simp add: civil_of_def month_length_def is_leap_def)
  next
    case False
    define len where "len = month_length 1 m"
    have len: "month_length y' m = len" for y' using False by (simp add: len_def month_length_1 [of m y'])
    consider "d < len" | "\<not> d < len" "m < 12" | "\<not> d < len" "m = 12"
      using ok(3) by linarith
    then show ?thesis
    proof cases
      case 1
      then have "month_day (doy + 1) = (m, d + 1)" using ok(4) [folded len_def] by simp
      with 1 md show ?thesis by (simp add: civil_of_def len)
    next
      case 2
      then have "month_day (doy + 1) = (m + 1, 1)" and "m + 1 \<le> 2 \<longleftrightarrow> m \<le> 2"
        using ok(4) [folded len_def] False by (simp, linarith)
      with 2 md show ?thesis by (simp add: civil_of_def len)
    next
      case 3
      then have "month_day (doy + 1) = (1, 1)" using ok(4) [folded len_def] by simp
      with 3 md len [of "y + era * 400"] show ?thesis by (simp add: civil_of_def)
    qed
  qed
next
  case False
  have "is_leap (y + 1)" and "doy = 364"
    using year_facts [OF assms(1,2)] assms(4) False by (auto simp: year_ok_def split: if_splits)
  moreover have "is_leap (y + era * 400 + 1) = is_leap (y + 1)"
    using is_leap_era [of "y + 1" era] by (simp add: ac_simps)
  ultimately show ?thesis by (simp add: civil_of_def month_day_end month_length_def)
qed

lemma civil_of_year:
  assumes "0 \<le> y" and "y \<le> 399" and "doy + 1 = year_end y - year_start y"
  shows "civil_of era (y + 1) 0 = next_day (civil_of era y doy)"
proof -
  have "is_leap (y + era * 400 + 1) = is_leap (y + 1)"
    using is_leap_era [of "y + 1" era] by (simp add: ac_simps)
  moreover have "doy = (if is_leap (y + 1) then 365 else 364)"
    using year_facts [OF assms(1,2)] assms(3) by (auto simp: year_ok_def)
  ultimately show ?thesis
    by (auto simp: civil_of_def month_day_end month_length_def)
qed

lemma civil_date_eq:
  assumes y: "0 \<le> y" "y \<le> 399" "year_start y \<le> doe" "doe < year_end y" and "0 \<le> doe" "doe < 146097"
    and "days + 719468 = era * 146097 + doe"
  shows "civil_date_from_days days = civil_of era y (doe - year_start y)"
proof -
  have era: "(days + 719468) div 146097 = era" "days + 719468 - era * 146097 = doe"
    using assms(5-7) by simp_all
  have "0 \<le> doe - doe div 1460" "0 \<le> doe div 36524 - doe div 146096"
    using div_growth [of 1460 0 doe] assms(5) zdiv_mono2 [of doe 36524 146096] by simp_all
  then have yoe: "(doe - doe sdiv 1460 + doe sdiv 36524 - doe sdiv 146096) sdiv 365 = y"
    using year_day_eq [OF y] assms(5) by (simp add: sdiv_nonneg year_day_def)
  have doy: "doe - (365 * y + y sdiv 4 - y sdiv 100) = doe - year_start y"
    using y(1) by (simp add: sdiv_nonneg year_start_def)
  define doy where "doy = doe - year_start y"
  have "0 \<le> doy" using y(3) by (simp add: doy_def)
  then have mp: "(5 * doy + 2) sdiv 153 = (5 * doy + 2) div 153" "0 \<le> (5 * doy + 2) div 153"
    by (simp_all add: sdiv_nonneg)
  then have "(153 * ((5 * doy + 2) div 153) + 2) sdiv 5 = (153 * ((5 * doy + 2) div 153) + 2) div 5"
    by (intro sdiv_nonneg) simp_all
  then show ?thesis
    unfolding civil_date_from_days_def era_floor Let_def era yoe doy doy_def [symmetric] mp(1)
    by (auto simp: civil_of_def month_day_def Let_def)
qed

lemma year_end_less: "0 \<le> y \<Longrightarrow> y < 399 \<Longrightarrow> year_end y < 146097"
proof -
  assume y: "0 \<le> y" "y < 399"
  then have "(y + 1) div 4 \<le> 399 div 4" by (intro zdiv_mono1) simp_all
  moreover have "0 \<le> (y + 1) div 100" using y by (simp add: pos_imp_zdiv_nonneg_iff)
  ultimately show ?thesis using y by (simp add: year_end_def year_start_def)
qed

lemma year_start_less_end: "0 \<le> y \<Longrightarrow> y \<le> 399 \<Longrightarrow> year_start y < year_end y"
  using year_facts [of y] by (auto simp: year_ok_def split: if_splits)

text \<open>C25. The arithmetic date conversion of the time stamps is the Gregorian calendar:
  day 0 is 1970-01-01, and each next day is the next date by the rules for month
  lengths and leap years, for all integers.\<close>

theorem civil_date_follows_calendar:
  "civil_date_from_days 0 = (1970, 1, 1)
   \<and> civil_date_from_days (days + 1) = next_day (civil_date_from_days days)"
proof -
  define era where "era = (days + 719468) div 146097"
  define doe where "doe = (days + 719468) mod 146097"
  have z: "days + 719468 = era * 146097 + doe" "0 \<le> doe" "doe < 146097"
    by (simp_all add: era_def doe_def)
  from year_exists [OF z(2,3)]
  obtain y where y: "0 \<le> y" "y \<le> 399" "year_start y \<le> doe" "doe < year_end y" by blast
  have now: "civil_date_from_days days = civil_of era y (doe - year_start y)"
    by (rule civil_date_eq [OF y z(2,3,1)])
  have "doe + 1 < 146097" if "doe + 1 < year_end y \<or> y < 399"
    using that y year_end_less [of y] by (cases "y = 399") (auto simp: year_end_def)
  then consider "doe + 1 < year_end y" "doe + 1 < 146097" | "doe + 1 = year_end y" "y < 399" "doe + 1 < 146097"
    | "doe = 146096" "y = 399"
  proof (cases "doe + 1 < year_end y \<or> y < 399")
    case True
    with y \<open>_ \<Longrightarrow> doe + 1 < 146097\<close> \<open>\<lbrakk>doe + 1 < year_end y; doe + 1 < 146097\<rbrakk> \<Longrightarrow> thesis\<close>
      \<open>\<lbrakk>doe + 1 = year_end y; y < 399; doe + 1 < 146097\<rbrakk> \<Longrightarrow> thesis\<close> show thesis by fastforce
  next
    case False
    with y have "y = 399" by simp
    with False y have "doe = 146096" by (simp add: year_end_def)
    with \<open>y = 399\<close> \<open>\<lbrakk>doe = 146096; y = 399\<rbrakk> \<Longrightarrow> thesis\<close> show thesis by simp
  qed
  then have "civil_date_from_days (days + 1) = next_day (civil_of era y (doe - year_start y))"
  proof cases
    case 1
    then have "civil_date_from_days (days + 1) = civil_of era y (doe - year_start y + 1)"
      using civil_date_eq [of y "doe + 1" "days + 1" era] y z by (simp add: algebra_simps)
    with 1 show ?thesis using civil_of_day [of y "doe - year_start y" era] y by simp
  next
    case 2
    then have s: "year_start (y + 1) = doe + 1" by (simp add: year_end_def)
    have "civil_date_from_days (days + 1) = civil_of era (y + 1) 0"
      using civil_date_eq [of "y + 1" "doe + 1" "days + 1" era] 2 s y z year_start_less_end [of "y + 1"]
      by (simp add: algebra_simps)
    with 2 show ?thesis using civil_of_year [of y "doe - year_start y" era] y by simp
  next
    case 3
    then have "civil_date_from_days (days + 1) = civil_of (era + 1) 0 0"
      using civil_date_eq [of 0 0 "days + 1" "era + 1"] z
      by (simp add: year_start_def year_end_def algebra_simps)
    also have "\<dots> = civil_of era (y + 1) 0" using 3 by (simp add: civil_of_def add.commute)
    finally show ?thesis
      using 3 civil_of_year [of y "doe - year_start y" era] by (simp add: year_end_def)
  qed
  moreover have "civil_date_from_days 0 = (1970, 1, 1)" by code_simp
  ultimately show ?thesis using now by simp
qed

end
