(* ===== verification/Version.thy ===== *)
theory Version
  imports Calendar Chunk HashMap Disk "HOL-Library.List_Lexorder"
begin

text \<open>
  The version history (\<open>src/storage/version.rs\<close>): snapshots of file manifests, newest first,
  and the manager that numbers, restores and prunes them. The lock of the dirty flag is part
  of the model, because two operations call \<open>save_if_dirty\<close> while they still hold it for
  writing: an operation ends or blocks, and a blocked one leaves the state, with the lock
  taken, behind. The other lock is released before any other call, and is left out.
\<close>

section \<open>The history of a file\<close>

definition default_version_db_path :: string where
  "default_version_db_path = ''version_store.json''"

definition default_max_versions :: nat where
  "default_max_versions = 10"

record version_entry =
  ve_version_id :: string
  ve_timestamp :: string
  ve_unix_secs :: u64
  ve_seq :: u32
  ve_manifest :: file_manifest
  ve_annotation :: string

record file_versions =
  fv_file_name :: string
  fv_versions :: "version_entry list"

definition fv_new :: "string \<Rightarrow> file_versions" where
  "fv_new n = \<lparr>fv_file_name = n, fv_versions = []\<rparr>"

definition fv_push :: "version_entry \<Rightarrow> file_versions \<Rightarrow> file_versions" where
  "fv_push e fv = fv\<lparr>fv_versions := e # fv_versions fv\<rparr>"

definition fv_len :: "file_versions \<Rightarrow> nat" where
  "fv_len fv = length (fv_versions fv)"

definition fv_is_empty :: "file_versions \<Rightarrow> bool" where
  "fv_is_empty fv \<longleftrightarrow> fv_versions fv = []"

definition fv_latest :: "file_versions \<Rightarrow> version_entry option" where
  "fv_latest fv = (case fv_versions fv of [] \<Rightarrow> None | v # _ \<Rightarrow> Some v)"

definition fv_get :: "file_versions \<Rightarrow> string \<Rightarrow> version_entry option" where
  "fv_get fv i = find (\<lambda>v. ve_version_id v = i) (fv_versions fv)"

definition fv_prune :: "nat \<Rightarrow> file_versions \<Rightarrow> file_versions \<times> nat" where
  "fv_prune limit fv =
     (if length (fv_versions fv) \<le> limit then (fv, 0)
      else (fv\<lparr>fv_versions := take limit (fv_versions fv)\<rparr>, length (fv_versions fv) - limit))"

type_synonym version_store = "(string, file_versions) hashmap"

definition vs_get_or_create :: "string \<Rightarrow> version_store \<Rightarrow> file_versions" where
  "vs_get_or_create n st = (case hm_get st n of None \<Rightarrow> fv_new n | Some fv \<Rightarrow> fv)"

text \<open>\<open>files.sort()\<close> of the names.\<close>

definition vs_list_files :: "version_store \<Rightarrow> string list" where
  "vs_list_files st = sort_by name_compare (hm_keys st)"

definition vs_total_versions :: "version_store \<Rightarrow> nat" where
  "vs_total_versions st = sum_list (map (\<lambda>fv. length (fv_versions fv)) (hm_values st))"

definition vs_prune_all :: "nat \<Rightarrow> version_store \<Rightarrow> version_store \<times> nat" where
  "vs_prune_all limit st =
     (map (\<lambda>(n, fv). (n, fst (fv_prune limit fv))) st,
      sum_list (map (\<lambda>(_, fv). snd (fv_prune limit fv)) st))"

section \<open>The manager and its lock\<close>

record version_manager =
  vm_store :: version_store
  vm_seq_counter :: u64
  vm_db_path :: string
  vm_dirty :: bool
  vm_dirty_locked :: bool

type_synonym version_env = "version_store json_env"
type_synonym version_state = "version_manager \<times> disk"

datatype 'a call = Blocked version_state | Done version_state 'a

fun bind_call :: "'a call \<Rightarrow> (version_state \<Rightarrow> 'a \<Rightarrow> 'b call) \<Rightarrow> 'b call" where
  "bind_call (Blocked s) f = Blocked s"
| "bind_call (Done s a) f = f s a"

definition set_dirty :: "bool \<Rightarrow> version_state \<Rightarrow> version_state" where
  "set_dirty d = (\<lambda>(m, disk). (m\<lparr>vm_dirty := d\<rparr>, disk))"

text \<open>\<open>self.dirty.write()\<close>, the drop of its guard, and \<open>self.dirty.read()\<close> with the drop.\<close>

definition lock_dirty :: "version_state \<Rightarrow> unit call" where
  "lock_dirty = (\<lambda>(m, disk).
     if vm_dirty_locked m then Blocked (m, disk) else Done (m\<lparr>vm_dirty_locked := True\<rparr>, disk) ())"

definition unlock_dirty :: "version_state \<Rightarrow> version_state" where
  "unlock_dirty = (\<lambda>(m, disk). (m\<lparr>vm_dirty_locked := False\<rparr>, disk))"

definition read_dirty :: "version_state \<Rightarrow> bool call" where
  "read_dirty = (\<lambda>(m, disk). if vm_dirty_locked m then Blocked (m, disk) else Done (m, disk) (vm_dirty m))"

definition version_manager_new :: "string \<Rightarrow> version_manager" where
  "version_manager_new path =
     \<lparr>vm_store = hm_empty, vm_seq_counter = 0, vm_db_path = path, vm_dirty = False, vm_dirty_locked = False\<rparr>"

fun version_load_error :: "string \<Rightarrow> json_error \<Rightarrow> string" where
  "version_load_error path (CodecError e) = ''failed to parse '' @ [CHR 0x27] @ path @ [CHR 0x27] @ '': '' @ e"
| "version_load_error path (ReadError e) = ''failed to read '' @ [CHR 0x27] @ path @ [CHR 0x27] @ '': '' @ e"
| "version_load_error path (CreateDirError e) = e"
| "version_load_error path (WriteError e) = e"

definition version_load :: "version_env \<Rightarrow> disk \<Rightarrow> string \<Rightarrow> string + version_manager" where
  "version_load env disk path =
     (case read_json env path disk of
        Inl e \<Rightarrow> Inl (version_load_error path e)
      | Inr None \<Rightarrow> Inr (version_manager_new path)
      | Inr (Some st) \<Rightarrow> Inr ((version_manager_new path)\<lparr>vm_store := st\<rparr>))"

fun version_save_error :: "string \<Rightarrow> json_error \<Rightarrow> string" where
  "version_save_error path (CodecError e) = ''serialization error: '' @ e"
| "version_save_error path (CreateDirError e) = ''failed to create dir: '' @ e"
| "version_save_error path (WriteError e) = ''failed to write '' @ [CHR 0x27] @ path @ [CHR 0x27] @ '': '' @ e"
| "version_save_error path (ReadError e) = e"

definition version_save :: "version_env \<Rightarrow> version_state \<Rightarrow> (string + unit) call" where
  "version_save env = (\<lambda>(m, disk).
     case write_json env (vm_db_path m) (vm_store m) disk of
       (disk, Inl e) \<Rightarrow> Done (m, disk) (Inl (version_save_error (vm_db_path m) e))
     | (disk, Inr _) \<Rightarrow>
         bind_call (lock_dirty (m, disk)) (\<lambda>s _. Done (unlock_dirty (set_dirty False s)) (Inr ())))"

definition version_save_if_dirty :: "version_env \<Rightarrow> version_state \<Rightarrow> unit call" where
  "version_save_if_dirty env s =
     bind_call (read_dirty s) (\<lambda>s d.
       if d then bind_call (version_save env s) (\<lambda>s _. Done s ()) else Done s ())"

text \<open>The end of \<open>create_snapshot\<close> and \<open>remove_file\<close>: the guard is dropped before saving.\<close>

definition mark_and_save :: "version_env \<Rightarrow> version_state \<Rightarrow> unit call" where
  "mark_and_save env s =
     bind_call (lock_dirty s) (\<lambda>s _. version_save_if_dirty env (unlock_dirty (set_dirty True s)))"

text \<open>The end of the two pruning operations: the guard lives until the save has returned.\<close>

definition mark_and_save_locked :: "version_env \<Rightarrow> version_state \<Rightarrow> unit call" where
  "mark_and_save_locked env s =
     bind_call (lock_dirty s) (\<lambda>s _.
       bind_call (version_save_if_dirty env (set_dirty True s)) (\<lambda>s _. Done (unlock_dirty s) ()))"

section \<open>Operations\<close>

definition version_id_of :: "u64 \<Rightarrow> u32 \<Rightarrow> string" where
  "version_id_of now seq = format_timestamp now @ ''-'' @ pad_zero 4 (unat seq)"

definition create_snapshot ::
  "version_env \<Rightarrow> u64 \<Rightarrow> string \<Rightarrow> file_manifest \<Rightarrow> string \<Rightarrow> version_state \<Rightarrow> string call" where
  "create_snapshot env now n manifest annotation = (\<lambda>(m, disk).
     let seq = ucast (vm_seq_counter m);
         entry = \<lparr>ve_version_id = version_id_of now seq, ve_timestamp = format_timestamp now,
                  ve_unix_secs = now, ve_seq = seq, ve_manifest = manifest, ve_annotation = annotation\<rparr>;
         m' = m\<lparr>vm_seq_counter := vm_seq_counter m + 1,
                vm_store := hm_insert n (fv_push entry (vs_get_or_create n (vm_store m))) (vm_store m)\<rparr>
     in bind_call (mark_and_save env (m', disk)) (\<lambda>s _. Done s (version_id_of now seq)))"

definition list_versions :: "version_manager \<Rightarrow> string \<Rightarrow> version_entry list" where
  "list_versions m n = (case hm_get (vm_store m) n of None \<Rightarrow> [] | Some fv \<Rightarrow> fv_versions fv)"

definition get_version :: "version_manager \<Rightarrow> string \<Rightarrow> string \<Rightarrow> version_entry option" where
  "get_version m n i = (case hm_get (vm_store m) n of None \<Rightarrow> None | Some fv \<Rightarrow> fv_get fv i)"

definition latest_version :: "version_manager \<Rightarrow> string \<Rightarrow> version_entry option" where
  "latest_version m n = (case hm_get (vm_store m) n of None \<Rightarrow> None | Some fv \<Rightarrow> fv_latest fv)"

definition restore_version :: "version_manager \<Rightarrow> string \<Rightarrow> string \<Rightarrow> string + file_manifest" where
  "restore_version m n i =
     (case get_version m n i of
        None \<Rightarrow> Inl (''version '' @ [CHR 0x27] @ i @ [CHR 0x27] @ '' not found for file '' @ [CHR 0x27] @ n @ [CHR 0x27])
      | Some v \<Rightarrow> Inr (ve_manifest v))"

definition no_versions :: "string \<Rightarrow> string" where
  "no_versions n = ''no versions found for '' @ [CHR 0x27] @ n @ [CHR 0x27]"

definition prune_versions :: "version_env \<Rightarrow> string \<Rightarrow> nat \<Rightarrow> version_state \<Rightarrow> (string + nat) call" where
  "prune_versions env n limit = (\<lambda>(m, disk).
     case hm_get (vm_store m) n of
       None \<Rightarrow> Done (m, disk) (Inl (no_versions n))
     | Some fv \<Rightarrow>
         (let (fv', pruned) = fv_prune limit fv;
              s = (m\<lparr>vm_store := hm_insert n fv' (vm_store m)\<rparr>, disk)
          in if pruned > 0 then bind_call (mark_and_save_locked env s) (\<lambda>s _. Done s (Inr pruned))
             else Done s (Inr pruned)))"

definition prune_all_versions :: "version_env \<Rightarrow> nat \<Rightarrow> version_state \<Rightarrow> (string + nat) call" where
  "prune_all_versions env limit = (\<lambda>(m, disk).
     let (st, pruned) = vs_prune_all limit (vm_store m);
         s = (m\<lparr>vm_store := st\<rparr>, disk)
     in if pruned > 0 then bind_call (mark_and_save_locked env s) (\<lambda>s _. Done s (Inr pruned))
        else Done s (Inr pruned))"

definition version_remove_file :: "version_env \<Rightarrow> string \<Rightarrow> version_state \<Rightarrow> (string + unit) call" where
  "version_remove_file env n = (\<lambda>(m, disk).
     if hm_get (vm_store m) n = None then Done (m, disk) (Inl (no_versions n))
     else bind_call (mark_and_save env (m\<lparr>vm_store := hm_remove n (vm_store m)\<rparr>, disk))
            (\<lambda>s _. Done s (Inr ())))"

definition version_list_files :: "version_manager \<Rightarrow> string list" where
  "version_list_files m = vs_list_files (vm_store m)"

definition total_versions :: "version_manager \<Rightarrow> nat" where
  "total_versions m = vs_total_versions (vm_store m)"

definition has_versions :: "version_manager \<Rightarrow> string \<Rightarrow> bool" where
  "has_versions m n = (case hm_get (vm_store m) n of None \<Rightarrow> False | Some fv \<Rightarrow> \<not> fv_is_empty fv)"

definition version_flush :: "version_env \<Rightarrow> version_state \<Rightarrow> (string + unit) call" where
  "version_flush env = version_save env"

section \<open>Locks\<close>

lemma save_unlocked:
  assumes "\<not> vm_dirty_locked m"
  obtains s r where "version_save env (m, disk) = Done s r"
    and "vm_store (fst s) = vm_store m" and "vm_seq_counter (fst s) = vm_seq_counter m"
    and "\<not> vm_dirty_locked (fst s)"
proof -
  obtain disk' r where w: "write_json env (vm_db_path m) (vm_store m) disk = (disk', r)" by force
  show thesis
  proof (cases r)
    case (Inl e)
    with w assms that show thesis by (simp add: version_save_def)
  next
    case (Inr u)
    with w assms that show thesis
      by (simp add: version_save_def lock_dirty_def unlock_dirty_def set_dirty_def)
  qed
qed

lemma mark_and_save_returns:
  assumes "\<not> vm_dirty_locked m"
  obtains s where "mark_and_save env (m, disk) = Done s ()" and "vm_store (fst s) = vm_store m"
    and "vm_seq_counter (fst s) = vm_seq_counter m" and "\<not> vm_dirty_locked (fst s)"
proof -
  have "\<not> vm_dirty_locked (m\<lparr>vm_dirty := True, vm_dirty_locked := False\<rparr>)" by simp
  from save_unlocked [OF this, of env disk] obtain s r where
    "version_save env (m\<lparr>vm_dirty := True, vm_dirty_locked := False\<rparr>, disk) = Done s r"
    "vm_store (fst s) = vm_store m" "vm_seq_counter (fst s) = vm_seq_counter m" "\<not> vm_dirty_locked (fst s)"
    by auto
  with assms that [of s] show thesis
    by (simp add: mark_and_save_def lock_dirty_def unlock_dirty_def set_dirty_def
        version_save_if_dirty_def read_dirty_def)
qed

lemma mark_and_save_locked_blocks:
  "mark_and_save_locked env (m, disk)
     = Blocked (if vm_dirty_locked m then m else m\<lparr>vm_dirty := True, vm_dirty_locked := True\<rparr>, disk)"
  by (simp add: mark_and_save_locked_def lock_dirty_def set_dirty_def version_save_if_dirty_def read_dirty_def)

lemma mark_and_save_blocked: "vm_dirty_locked m \<Longrightarrow> mark_and_save env (m, disk) = Blocked (m, disk)"
  by (simp add: mark_and_save_def lock_dirty_def)

lemma hm_insert_same: "hm_get m k = Some v \<Longrightarrow> hm_insert k v m = m"
  unfolding hm_get_def hm_insert_def by (rule update_triv)

definition is_blocked :: "'a call \<Rightarrow> bool" where
  "is_blocked c = (case c of Blocked _ \<Rightarrow> True | Done _ _ \<Rightarrow> False)"

text \<open>C24. Pruning returns exactly when the file has no more versions than the limit.
  Otherwise it removes the old ones and then blocks on the lock it holds itself, and
  every later snapshot blocks as well.\<close>

theorem prune_never_returns:
  assumes "\<not> vm_dirty_locked m" and "hm_get (vm_store m) n = Some fv"
  shows "if length (fv_versions fv) \<le> limit
         then prune_versions env n limit (m, disk) = Done (m, disk) (Inr 0)
         else \<exists>m'. prune_versions env n limit (m, disk) = Blocked (m', disk)
              \<and> list_versions m' n = take limit (list_versions m n)
              \<and> (\<forall>now f manifest annotation. is_blocked (create_snapshot env now f manifest annotation (m', disk)))"
proof (cases "length (fv_versions fv) \<le> limit")
  case True
  with assms show ?thesis by (simp add: prune_versions_def fv_prune_def hm_insert_same)
next
  case False
  let ?m = "m\<lparr>vm_store := hm_insert n (fst (fv_prune limit fv)) (vm_store m), vm_dirty := True,
      vm_dirty_locked := True\<rparr>"
  from False assms have "prune_versions env n limit (m, disk) = Blocked (?m, disk)"
    by (simp add: prune_versions_def fv_prune_def mark_and_save_locked_blocks)
  moreover have "list_versions ?m n = take limit (list_versions m n)"
    using False assms(2) by (simp add: list_versions_def fv_prune_def hm_simps)
  moreover have "is_blocked (create_snapshot env now f manifest annotation (?m, disk))" for now f manifest annotation
    by (simp add: create_snapshot_def Let_def mark_and_save_blocked is_blocked_def)
  ultimately show ?thesis using False by (simp only: if_False) blast
qed

section \<open>Version identifiers\<close>

definition dec_val :: "string \<Rightarrow> nat" where
  "dec_val s = foldl (\<lambda>a c. a * 10 + (of_char c - 48)) 0 s"

lemma of_char_digit: "k < 10 \<Longrightarrow> of_char (char_of (48 + k) :: char) = 48 + (k :: nat)"
  by (simp add: of_char_of)

lemma dec_val_show_nat: "dec_val (show_nat n) = n"
proof (induction n rule: show_nat.induct)
  case (1 n)
  show ?case
  proof (cases "n < 10")
    case True
    then show ?thesis by (subst show_nat.simps) (simp add: dec_val_def of_char_digit)
  next
    case False
    have "of_char (char_of (48 + n mod 10) :: char) = 48 + n mod 10" by (rule of_char_digit) simp
    with False 1 show ?thesis by (subst show_nat.simps) (simp add: dec_val_def)
  qed
qed

lemma dec_val_zeros: "dec_val (replicate k CHR ''0'' @ s) = dec_val s"
  by (induction k) (simp_all add: dec_val_def)

lemma pad_zero_inject: "pad_zero w a = pad_zero w b \<Longrightarrow> a = b"
  by (metis dec_val_show_nat dec_val_zeros pad_zero_def)

lemma no_dash_show_nat: "CHR ''-'' \<notin> set (show_nat n)"
proof (induction n rule: show_nat.induct)
  case (1 n)
  have digit: "CHR ''-'' \<noteq> char_of (48 + k)" if "k < 10" for k :: nat
  proof
    assume "CHR ''-'' = char_of (48 + k)"
    then have "of_char (CHR ''-'' :: char) = 48 + k" by (simp only: of_char_digit that)
    then show False by simp
  qed
  show ?case using 1 digit [of n] digit [of "n mod 10"] by (subst show_nat.simps) auto
qed

lemma no_dash_timestamp: "CHR ''-'' \<notin> set (format_timestamp now)"
  by (simp add: format_timestamp_def pad_zero_def Let_def no_dash_show_nat split_beta)

lemma version_id_inject: "version_id_of t a = version_id_of u b \<Longrightarrow> a = b"
proof -
  assume eq: "version_id_of t a = version_id_of u b"
  have "dropWhile (\<lambda>c. c \<noteq> CHR ''-'') (version_id_of w k) = CHR ''-'' # pad_zero 4 (unat k)" for w k
    using no_dash_timestamp [of w] by (auto simp: version_id_of_def dropWhile_append)
  from this [of t a] this [of u b] eq have "pad_zero 4 (unat a) = pad_zero 4 (unat b)" by simp
  then have "unat a = unat b" by (rule pad_zero_inject)
  then show ?thesis by (rule unsigned_word_eqI)
qed

section \<open>Snapshots are restored\<close>

text \<open>A snapshot is the time, the file, its manifest and the annotation.\<close>

type_synonym snapshot = "u64 \<times> string \<times> file_manifest \<times> string"

fun snapshots :: "version_env \<Rightarrow> snapshot list \<Rightarrow> version_state \<Rightarrow> string list call" where
  "snapshots env [] s = Done s []"
| "snapshots env ((now, n, mf, a) # ops) s =
     bind_call (create_snapshot env now n mf a s) (\<lambda>s i.
       bind_call (snapshots env ops s) (\<lambda>s is. Done s (i # is)))"

definition snapshot_entry :: "snapshot list \<Rightarrow> nat \<Rightarrow> version_entry" where
  "snapshot_entry ops j =
     (case ops ! j of (now, n, mf, a) \<Rightarrow>
        \<lparr>ve_version_id = version_id_of now (of_nat j), ve_timestamp = format_timestamp now,
         ve_unix_secs = now, ve_seq = of_nat j, ve_manifest = mf, ve_annotation = a\<rparr>)"

definition snapshot_file :: "snapshot list \<Rightarrow> nat \<Rightarrow> string" where
  "snapshot_file ops j = fst (snd (ops ! j))"

text \<open>The history of a file is the snapshots of it, the latest first.\<close>

definition history :: "snapshot list \<Rightarrow> string \<Rightarrow> version_entry list" where
  "history ops n = rev (map (snapshot_entry ops) (filter (\<lambda>j. snapshot_file ops j = n) [0..<length ops]))"

lemma bind_call_assoc: "bind_call (bind_call c f) g = bind_call c (\<lambda>s a. bind_call (f s a) g)"
  by (cases c) simp_all

lemma snapshots_snoc:
  "snapshots env (ops @ [(now, n, mf, a)]) s =
     bind_call (snapshots env ops s) (\<lambda>s is.
       bind_call (create_snapshot env now n mf a s) (\<lambda>s i. Done s (is @ [i])))"
proof (induction ops arbitrary: s)
  case (Cons op ops)
  obtain t f mf' b where op: "op = (t, f, mf', b)" by (cases op) auto
  show ?case by (cases "create_snapshot env t f mf' b s") (simp_all add: op Cons.IH bind_call_assoc)
qed (simp add: bind_call_assoc)

lemma history_snoc:
  "history (ops @ [(now, n, mf, a)]) f =
     (if f = n then [snapshot_entry (ops @ [(now, n, mf, a)]) (length ops)] else []) @ history ops f"
proof -
  have "snapshot_file (ops @ [(now, n, mf, a)]) j = snapshot_file ops j"
    "snapshot_entry (ops @ [(now, n, mf, a)]) j = snapshot_entry ops j" if "j < length ops" for j
    using that by (simp_all add: snapshot_file_def snapshot_entry_def nth_append)
  then have "map (snapshot_entry (ops @ [(now, n, mf, a)]))
        (filter (\<lambda>j. snapshot_file (ops @ [(now, n, mf, a)]) j = f) [0..<length ops])
      = map (snapshot_entry ops) (filter (\<lambda>j. snapshot_file ops j = f) [0..<length ops])"
    by (intro map_cong filter_cong refl) auto
  then show ?thesis by (simp add: history_def snapshot_file_def)
qed

lemma snapshots_history:
  assumes "length ops \<le> 2 ^ 32"
  shows "\<exists>m disk' ids. snapshots env ops (version_manager_new path, disk) = Done (m, disk') ids
     \<and> ids = map (\<lambda>j. ve_version_id (snapshot_entry ops j)) [0..<length ops]
     \<and> \<not> vm_dirty_locked m \<and> vm_seq_counter m = of_nat (length ops)
     \<and> (\<forall>f. list_versions m f = history ops f)"
  using assms
proof (induction ops rule: rev_induct)
  case Nil
  then show ?case
    by (simp add: version_manager_new_def list_versions_def history_def hm_simps)
next
  case (snoc op ops)
  obtain now n mf a where op: "op = (now, n, mf, a)" by (cases op) auto
  let ?ops = "ops @ [op]" and ?e = "snapshot_entry (ops @ [op]) (length ops)"
  from snoc obtain m disk1 ids where IH:
    "snapshots env ops (version_manager_new path, disk) = Done (m, disk1) ids"
    "ids = map (\<lambda>j. ve_version_id (snapshot_entry ops j)) [0..<length ops]"
    "\<not> vm_dirty_locked m" "vm_seq_counter m = of_nat (length ops)" "\<And>f. list_versions m f = history ops f"
    by auto
  have seq: "ucast (vm_seq_counter m) = (of_nat (length ops) :: u32)"
  proof -
    have "length ops < 2 ^ 64" using snoc.prems by simp
    then have "unat (of_nat (length ops) :: u64) = length ops" by (simp add: unat_of_nat)
    then have "ucast (of_nat (length ops) :: u64) = (of_nat (length ops) :: u32)"
      by (metis of_nat_unat)
    with IH(4) show ?thesis by simp
  qed
  let ?m = "m\<lparr>vm_seq_counter := vm_seq_counter m + 1,
      vm_store := hm_insert n (fv_push ?e (vs_get_or_create n (vm_store m))) (vm_store m)\<rparr>"
  have "\<not> vm_dirty_locked ?m" using IH(3) by simp
  from mark_and_save_returns [OF this, of env disk1] obtain s where s:
    "mark_and_save env (?m, disk1) = Done s ()" "vm_store (fst s) = vm_store ?m"
    "vm_seq_counter (fst s) = vm_seq_counter ?m" "\<not> vm_dirty_locked (fst s)" by blast
  have e: "?e = \<lparr>ve_version_id = version_id_of now (of_nat (length ops)), ve_timestamp = format_timestamp now,
      ve_unix_secs = now, ve_seq = of_nat (length ops), ve_manifest = mf, ve_annotation = a\<rparr>"
    by (simp add: snapshot_entry_def op)
  have "create_snapshot env now n mf a (m, disk1) = Done s (ve_version_id ?e)"
    using s(1) by (simp add: create_snapshot_def Let_def seq e)
  then have "snapshots env ?ops (version_manager_new path, disk) = Done s (ids @ [ve_version_id ?e])"
    by (simp add: op snapshots_snoc IH(1))
  moreover have "ids @ [ve_version_id ?e] = map (\<lambda>j. ve_version_id (snapshot_entry ?ops j)) [0..<length ?ops]"
    using IH(2) by (simp add: snapshot_entry_def nth_append)
  moreover have "list_versions (fst s) f = history ?ops f" for f
    using IH(5) [of f]
    by (auto simp: list_versions_def s(2) hm_simps history_snoc op fv_push_def vs_get_or_create_def
        fv_new_def split: option.splits)
  ultimately show ?case
    using s(3,4) IH(4) by (intro exI [of _ "fst s"] exI [of _ "snd s"] exI [of _ "ids @ [ve_version_id ?e]"]) simp
qed

lemma of_nat_u32_inject: "i < 2 ^ 32 \<Longrightarrow> j < 2 ^ 32 \<Longrightarrow> (of_nat i :: u32) = of_nat j \<Longrightarrow> i = j"
proof -
  assume lt: "i < 2 ^ 32" "j < 2 ^ 32" and "(of_nat i :: u32) = of_nat j"
  then have "unat (of_nat i :: u32) = unat (of_nat j :: u32)" by simp
  with lt show "i = j" by (simp add: unat_of_nat)
qed

lemma snapshot_ids_distinct:
  assumes "length ops \<le> 2 ^ 32"
  shows "inj_on (\<lambda>j. ve_version_id (snapshot_entry ops j)) {0..<length ops}"
proof (rule inj_onI)
  fix i j assume "i \<in> {0..<length ops}" "j \<in> {0..<length ops}"
    and eq: "ve_version_id (snapshot_entry ops i) = ve_version_id (snapshot_entry ops j)"
  then have "i < 2 ^ 32" "j < 2 ^ 32" using assms by auto
  moreover have "(of_nat i :: u32) = of_nat j"
    using eq version_id_inject by (auto simp: snapshot_entry_def split: prod.splits)
  ultimately show "i = j" by (rule of_nat_u32_inject)
qed

lemma find_by_key:
  "e \<in> set xs \<Longrightarrow> inj_on f (set xs) \<Longrightarrow> find (\<lambda>v. f v = f e) xs = Some e"
proof (induction xs)
  case (Cons x xs)
  show ?case
  proof (cases "f x = f e")
    case True
    have "x = e" by (rule inj_onD [OF Cons.prems(2) True]) (use Cons.prems(1) in simp_all)
    then show ?thesis by simp
  next
    case False
    with Cons show ?thesis by auto
  qed
qed simp

text \<open>C6. Up to 2^32 snapshots of any files at any times on a new version manager all
  succeed, get distinct version identifiers, each restores exactly the manifest it was
  made of, and each file lists its snapshots with the newest first.\<close>

theorem snapshots_restorable:
  assumes "length ops \<le> 2 ^ 32"
  shows "\<exists>m disk' ids. snapshots env ops (version_manager_new path, disk) = Done (m, disk') ids
     \<and> length ids = length ops \<and> distinct ids
     \<and> (\<forall>j < length ops. restore_version m (snapshot_file ops j) (ids ! j) = Inr (fst (snd (snd (ops ! j)))))
     \<and> (\<forall>f. list_versions m f = history ops f)"
proof -
  obtain m disk' ids where run:
    "snapshots env ops (version_manager_new path, disk) = Done (m, disk') ids"
    "ids = map (\<lambda>j. ve_version_id (snapshot_entry ops j)) [0..<length ops]"
    and h: "\<And>f. list_versions m f = history ops f"
    using snapshots_history [OF assms] by blast
  note inj = snapshot_ids_distinct [OF assms]
  have "distinct ids" using inj run(2) by (simp add: distinct_map)
  moreover have "restore_version m (snapshot_file ops j) (ids ! j) = Inr (fst (snd (snd (ops ! j))))"
    if j: "j < length ops" for j
  proof -
    let ?f = "snapshot_file ops j" and ?e = "snapshot_entry ops j"
    have e: "?e \<in> set (history ops ?f)" using j by (simp add: history_def)
    have "inj_on ve_version_id (snapshot_entry ops ` {0..<length ops})"
      using inj by (auto simp: inj_on_def)
    then have "inj_on ve_version_id (set (history ops ?f))"
      by (rule inj_on_subset) (auto simp: history_def)
    from find_by_key [OF e this] h [of ?f] e
    have "get_version m ?f (ve_version_id ?e) = Some ?e"
      by (auto simp: get_version_def list_versions_def fv_get_def split: option.splits)
    then show ?thesis
      using j run(2) by (simp add: restore_version_def) (simp add: snapshot_entry_def split: prod.split)
  qed
  ultimately show ?thesis using run h by auto
qed

definition sample_manifest :: file_manifest where
  "sample_manifest = \<lparr>fm_file_hash = fill32 1, fm_file_size = 0, fm_chunks = [], fm_chunk_size = 4\<rparr>"

definition sample_version_env :: version_env where
  "sample_version_env =
     \<lparr>en_encode = (\<lambda>_. Inr ''{}''), en_decode = (\<lambda>_. Inr hm_empty), en_parent = (\<lambda>_. None),
      en_create_dir = (\<lambda>_. Inr ()), en_write = (\<lambda>_. Inr ()), en_read = (\<lambda>_. Inr ())\<rparr>"

theorem snapshots_restorable_witness:
  "\<exists>m disk' ids. snapshots sample_version_env
       [(5, ''a'', sample_manifest, []), (5, ''a'', sample_manifest\<lparr>fm_file_size := 9\<rparr>, [])]
       (version_manager_new ''db'', \<lambda>_. None) = Done (m, disk') ids
     \<and> restore_version m ''a'' (ids ! 0) = Inr sample_manifest"
  using snapshots_restorable [of "[(5, ''a'', sample_manifest, []), (5, ''a'', sample_manifest\<lparr>fm_file_size := 9\<rparr>, [])]"
      sample_version_env "''db''" "\<lambda>_. None"]
  by (force simp: snapshot_file_def)

theorem prune_never_returns_witness:
  "\<exists>m'. prune_versions sample_version_env ''a'' 0
      ((version_manager_new ''db'')\<lparr>vm_store := [(''a'', \<lparr>fv_file_name = ''a'',
          fv_versions = [snapshot_entry [(5, ''a'', sample_manifest, [])] 0]\<rparr>)]\<rparr>, \<lambda>_. None)
     = Blocked (m', \<lambda>_. None)"
proof -
  let ?fv = "\<lparr>fv_file_name = ''a'', fv_versions = [snapshot_entry [(5, ''a'', sample_manifest, [])] 0]\<rparr>"
  let ?m = "(version_manager_new ''db'')\<lparr>vm_store := [(''a'', ?fv)]\<rparr>"
  have "\<not> vm_dirty_locked ?m" "hm_get (vm_store ?m) ''a'' = Some ?fv"
    by (simp_all add: version_manager_new_def hm_get_def)
  from prune_never_returns [OF this, of 0 sample_version_env "\<lambda>_. None"] show ?thesis by auto
qed

end
