(* ===== verification/Gc.thy ===== *)
theory Gc
  imports Metadata Version
begin

text \<open>
  Garbage collection (\<open>src/storage/gc.rs\<close>): the blocks that the metadata store knows and no
  version refers to, the statistics of the storage, and how both compare.
\<close>

section \<open>The collector\<close>

record storage_stats =
  st_total_files :: nat
  st_total_blocks :: nat
  st_total_bytes :: u64
  st_versioned_files :: nat
  st_total_versions :: nat
  st_referenced_blocks :: nat
  st_unreferenced_blocks :: nat
  st_reclaimable_bytes :: u64

record collect_result =
  cr_unreferenced_count :: nat
  cr_reclaimable_bytes :: u64
  cr_unreferenced_hashes :: "hash list"

text \<open>The entries that \<open>list_files\<close> and \<open>query\<close> give one after the other.\<close>

definition known_entries :: "metadata_store \<Rightarrow> metadata_entry list" where
  "known_entries md = List.map_filter (metadata_query md) (metadata_list_files md)"

definition collect_referenced_blocks :: "version_manager \<Rightarrow> hash list" where
  "collect_referenced_blocks vm =
     hs_collect (concat (map (\<lambda>f. concat (map (\<lambda>v. map cm_hash (fm_chunks (ve_manifest v))) (list_versions vm f)))
       (version_list_files vm)))"

definition collect_all_metadata_blocks :: "metadata_store \<Rightarrow> hash list" where
  "collect_all_metadata_blocks md =
     hs_collect (concat (map (\<lambda>e. map bl_hash (fd_blocks (me_meta e))) (known_entries md)))"

definition estimate_average_block_size :: "metadata_store \<Rightarrow> u64" where
  "estimate_average_block_size md =
     (let (total_size, total_blocks) =
        fold (\<lambda>e (ts, tb).
            let block_count = of_nat (length (fd_blocks (me_meta e))) :: u64
            in if block_count > 0 then (ts + fd_file_size (me_meta e), tb + block_count) else (ts, tb))
          (known_entries md) (0, 0)
      in if total_blocks = 0 then 4 * 1024 * 1024 else total_size div total_blocks)"

definition gc_collect :: "version_manager \<Rightarrow> metadata_store \<Rightarrow> string + collect_result" where
  "gc_collect vm md =
     (let referenced = collect_referenced_blocks vm;
          all_blocks = collect_all_metadata_blocks md;
          unreferenced = filter (\<lambda>b. b \<notin> set referenced) all_blocks;
          avg_block_size = (if all_blocks = [] then 4 * 1024 * 1024 else estimate_average_block_size md);
          count = length unreferenced
      in Inr \<lparr>cr_unreferenced_count = count, cr_reclaimable_bytes = of_nat count * avg_block_size,
              cr_unreferenced_hashes = unreferenced\<rparr>)"

definition gc_prune_old_versions :: "version_env \<Rightarrow> nat \<Rightarrow> version_state \<Rightarrow> (string + nat) call" where
  "gc_prune_old_versions env keep_count s = prune_all_versions env keep_count s"

definition gc_storage_stats :: "version_manager \<Rightarrow> metadata_store \<Rightarrow> string + storage_stats" where
  "gc_storage_stats vm md =
     (let total_files = length (metadata_list_files md);
          total_blocks = sum_list (map (\<lambda>e. length (fd_blocks (me_meta e))) (known_entries md));
          total_bytes = sum_list (map (\<lambda>e. fd_file_size (me_meta e)) (known_entries md));
          referenced = collect_referenced_blocks vm;
          all_blocks = collect_all_metadata_blocks md;
          unreferenced_blocks = length all_blocks - length referenced;
          avg_block_size = (if all_blocks = [] then 0 else estimate_average_block_size md)
      in Inr \<lparr>st_total_files = total_files, st_total_blocks = total_blocks, st_total_bytes = total_bytes,
              st_versioned_files = length (version_list_files vm), st_total_versions = total_versions vm,
              st_referenced_blocks = length referenced, st_unreferenced_blocks = unreferenced_blocks,
              st_reclaimable_bytes = of_nat unreferenced_blocks * avg_block_size\<rparr>)"

definition nl :: string where
  "nl = [CHR 0x0A]"

definition storage_stats_display :: "storage_stats \<Rightarrow> string" where
  "storage_stats_display st =
     ''=== Storage Statistics ==='' @ nl
     @ ''Registered files:    '' @ show_nat (st_total_files st) @ nl
     @ ''Total blocks:        '' @ show_nat (st_total_blocks st) @ nl
     @ ''Total size:          '' @ show_nat (unat (st_total_bytes st)) @ '' bytes'' @ nl
     @ ''Versioned files:     '' @ show_nat (st_versioned_files st) @ nl
     @ ''Total versions:      '' @ show_nat (st_total_versions st) @ nl
     @ ''Referenced blocks:   '' @ show_nat (st_referenced_blocks st) @ nl
     @ ''Unreferenced blocks: '' @ show_nat (st_unreferenced_blocks st) @ nl
     @ ''Reclaimable space:  '' @ show_nat (unat (st_reclaimable_bytes st)) @ '' bytes'' @ nl"

text \<open>The dash of the message is U+2014.\<close>

definition collect_result_display :: "collect_result \<Rightarrow> string" where
  "collect_result_display r =
     ''=== Garbage Collection Result ==='' @ nl
     @ ''Unreferenced blocks: '' @ show_nat (cr_unreferenced_count r) @ nl
     @ ''Reclaimable bytes:   '' @ show_nat (unat (cr_reclaimable_bytes r)) @ nl
     @ (if cr_unreferenced_hashes r = []
        then ''Status: Nothing to clean '' @ [CHR 0xE2, CHR 0x80, CHR 0x94]
             @ '' all blocks are referenced.'' @ nl
        else ''Status: '' @ show_nat (cr_unreferenced_count r) @ '' blocks can be safely removed.'' @ nl)"

section \<open>What is collected\<close>

text \<open>The blocks of the current files, and those that some version refers to.\<close>

definition file_blocks :: "metadata_store \<Rightarrow> hash set" where
  "file_blocks md = {bl_hash b | b e n. metadata_query md n = Some e \<and> b \<in> set (fd_blocks (me_meta e))}"

definition version_blocks :: "version_manager \<Rightarrow> hash set" where
  "version_blocks vm = {cm_hash c | c v n. v \<in> set (list_versions vm n) \<and> c \<in> set (fm_chunks (ve_manifest v))}"

lemma known_entries_set: "set (known_entries md) = {e. \<exists>n. metadata_query md n = Some e}"
proof -
  have "n \<in> set (metadata_list_files md)" if "metadata_query md n = Some e" for n e
    using hm_get_mem [of "md_entries md" n e] that
    by (force simp: metadata_query_def metadata_list_files_def hm_keys_def)
  then show ?thesis by (force simp: known_entries_def List.map_filter_def image_iff)
qed

lemma set_sort_by_name: "set (vs_list_files st) = fst ` set st"
proof -
  have "vs_list_files st = sort_key (map of_char :: string \<Rightarrow> nat list) (hm_keys st)"
    unfolding vs_list_files_def by (rule sort_by_key) (simp add: name_compare_def)
  then show ?thesis by (simp add: hm_keys_def)
qed

lemma all_blocks_set: "set (collect_all_metadata_blocks md) = file_blocks md"
  by (auto simp: collect_all_metadata_blocks_def known_entries_set file_blocks_def)

lemma referenced_set: "set (collect_referenced_blocks vm) = version_blocks vm"
proof -
  have "n \<in> fst ` set (vm_store vm)" if "v \<in> set (list_versions vm n)" for v n
    using that hm_get_None [of "vm_store vm" n] by (cases "hm_get (vm_store vm) n") (auto simp: list_versions_def)
  then show ?thesis
    by (fastforce simp: collect_referenced_blocks_def version_list_files_def set_sort_by_name version_blocks_def)
qed

lemma collect_exact:
  "\<exists>r. gc_collect vm md = Inr r \<and> set (cr_unreferenced_hashes r) = file_blocks md - version_blocks vm
     \<and> distinct (cr_unreferenced_hashes r)
     \<and> cr_unreferenced_count r = card (file_blocks md - version_blocks vm)"
proof -
  let ?u = "filter (\<lambda>b. b \<notin> set (collect_referenced_blocks vm)) (collect_all_metadata_blocks md)"
  have set: "set ?u = file_blocks md - version_blocks vm"
    by (auto simp: all_blocks_set referenced_set)
  have "distinct ?u" by (simp add: collect_all_metadata_blocks_def)
  then have "length ?u = card (file_blocks md - version_blocks vm)"
    using set distinct_card [of ?u] by simp
  with set \<open>distinct ?u\<close> show ?thesis by (simp add: gc_collect_def Let_def)
qed

text \<open>C35. Garbage collection reports, without repetition and with the right count,
  exactly the block hashes of the metadata store that no stored version refers to.\<close>

theorem collect_is_exact:
  "\<exists>r. gc_collect vm md = Inr r \<and> set (cr_unreferenced_hashes r) = file_blocks md - version_blocks vm
     \<and> distinct (cr_unreferenced_hashes r)
     \<and> cr_unreferenced_count r = card (file_blocks md - version_blocks vm)"
  by (rule collect_exact)

text \<open>A file registered without a snapshot has all its blocks reported as unreferenced.\<close>

theorem collect_offers_live_blocks:
  assumes "metadata_register menv now n h fsize mf blocks src sd = (sd', Inr ())"
    and "\<forall>b \<in> set blocks. bl_hash b \<notin> version_blocks vm"
  shows "\<exists>e r. metadata_query (fst sd') n = Some e \<and> fd_blocks (me_meta e) = blocks
     \<and> gc_collect vm (fst sd') = Inr r \<and> bl_hash ` set blocks \<subseteq> set (cr_unreferenced_hashes r)"
proof -
  let ?e = "metadata_entry_new now n h fsize mf blocks src"
  have e: "metadata_query (fst sd') n = Some ?e" "fd_blocks (me_meta ?e) = blocks"
    using assms(1) by (auto simp: metadata_register_def metadata_query_def hm_simps metadata_entry_new_def
        split: if_splits)
  have "bl_hash ` set blocks \<subseteq> file_blocks (fst sd')"
  proof (rule image_subsetI)
    fix b assume "b \<in> set blocks"
    then have "b \<in> set (fd_blocks (me_meta ?e))" by (simp only: e(2))
    with e(1) show "bl_hash b \<in> file_blocks (fst sd')" unfolding file_blocks_def by blast
  qed
  with assms(2) have "bl_hash ` set blocks \<subseteq> file_blocks (fst sd') - version_blocks vm" by auto
  then show ?thesis using e collect_exact [of vm "fst sd'"] by metis
qed

text \<open>The statistics count unreferenced blocks by subtracting two totals, which is too low
  exactly when neither set of blocks contains the other.\<close>

theorem stats_undercount_garbage:
  "\<exists>st r. gc_storage_stats vm md = Inr st \<and> gc_collect vm md = Inr r
     \<and> st_unreferenced_blocks st = card (file_blocks md) - card (version_blocks vm)
     \<and> st_unreferenced_blocks st \<le> cr_unreferenced_count r
     \<and> (st_unreferenced_blocks st = cr_unreferenced_count r
        \<longleftrightarrow> version_blocks vm \<subseteq> file_blocks md \<or> file_blocks md \<subseteq> version_blocks vm)"
proof -
  let ?A = "file_blocks md" and ?V = "version_blocks vm"
  have fin: "finite ?A" "finite ?V"
    using all_blocks_set [of md] referenced_set [of vm] by (metis List.finite_set)+
  have len: "length (collect_all_metadata_blocks md) = card ?A" "length (collect_referenced_blocks vm) = card ?V"
    by (metis all_blocks_set collect_all_metadata_blocks_def distinct_card distinct_hs_collect)
       (metis referenced_set collect_referenced_blocks_def distinct_card distinct_hs_collect)
  obtain r where r: "gc_collect vm md = Inr r" "cr_unreferenced_count r = card (?A - ?V)"
    using collect_exact by blast
  obtain st where st: "gc_storage_stats vm md = Inr st" "st_unreferenced_blocks st = card ?A - card ?V"
    by (simp add: gc_storage_stats_def Let_def len)
  have split: "card (?A - ?V) = card ?A - card (?A \<inter> ?V)"
    using fin by (simp add: card_Diff_subset_Int)
  have le: "card (?A \<inter> ?V) \<le> card ?V" "card (?A \<inter> ?V) \<le> card ?A"
    using fin by (simp_all add: card_mono)
  have "card ?A - card ?V = card ?A - card (?A \<inter> ?V) \<longleftrightarrow> card (?A \<inter> ?V) = card ?V \<or> card (?A \<inter> ?V) = card ?A"
    using le by linarith
  also have "\<dots> \<longleftrightarrow> ?V \<subseteq> ?A \<or> ?A \<subseteq> ?V"
    using fin by (metis Int_absorb1 Int_absorb2 Int_lower1 Int_lower2 card_subset_eq inf.orderI)
  finally show ?thesis using r st le split by auto
qed

theorem collect_offers_live_blocks_witness:
  "\<exists>sd' r. metadata_register sample_env 5 ''a'' (fill32 9) 3 None
       [\<lparr>bl_hash = fill32 7, bl_index = 0, bl_nodes = [''n''], bl_last_synced = 5\<rparr>] ''n''
       (metadata_new ''db'', \<lambda>_. None) = (sd', Inr ())
     \<and> gc_collect (version_manager_new ''vdb'') (fst sd') = Inr r \<and> fill32 7 \<in> set (cr_unreferenced_hashes r)"
proof -
  let ?b = "[\<lparr>bl_hash = fill32 7, bl_index = 0, bl_nodes = [''n''], bl_last_synced = 5\<rparr>]"
  obtain sd' where reg: "metadata_register sample_env 5 ''a'' (fill32 9) 3 None ?b ''n''
      (metadata_new ''db'', \<lambda>_. None) = (sd', Inr ())"
    by (simp add: metadata_register_def metadata_new_def hm_contains_def hm_simps)
  have "version_blocks (version_manager_new ''vdb'') = {}"
    by (simp add: version_blocks_def list_versions_def version_manager_new_def hm_simps)
  then have "\<exists>r. gc_collect (version_manager_new ''vdb'') (fst sd') = Inr r
      \<and> bl_hash ` set ?b \<subseteq> set (cr_unreferenced_hashes r)"
    using collect_offers_live_blocks [OF reg, of "version_manager_new ''vdb''"] by auto
  with reg show ?thesis by auto
qed

end
