(* ===== verification/Command.thy ===== *)
theory Command
  imports VpnRouter Encrypt Json Stats Gc
begin

text \<open>
  The command line (\<open>src/vpn/command.rs\<close>): the parser of the two forms of a command, and its
  execution over the VPN router, the chunker, the encryptor and the stores on the disk. JSON
  text, hexadecimal text, SHA-256, AES and the file system are parameters of the record
  \<open>cmd_env\<close>, with the random numbers, the times and what arrives from the network.
\<close>

section \<open>Commands\<close>

datatype command =
    Cmd string string
  | Ping string
  | Nodes
  | Status
  | Backup string string
  | Restore string string
  | StorageGC
  | StoragePrune nat
  | StorageStats
  | Increment string string
  | Version string

definition quoted :: "string \<Rightarrow> string" where
  "quoted s = [CHR 0x27] @ s @ [CHR 0x27]"

definition bad_target :: "string \<Rightarrow> string + command" where
  "bad_target target = Inl (''invalid target address '' @ quoted target @ '': expected node:<name>'')"

text \<open>\<open>str::parse::<usize>\<close> on a 64-bit machine.\<close>

definition parse_usize :: "string \<Rightarrow> nat option" where
  "parse_usize s =
     (let d = strip_plus s in
      if d = [] \<or> \<not> list_all is_digit d \<or> 2 ^ 64 \<le> digits_value d then None else Some (digits_value d))"

definition parse_keep :: "string option \<Rightarrow> string + command" where
  "parse_keep arg =
     (let keep = (case arg of
                    None \<Rightarrow> Inr 10
                  | Some s \<Rightarrow> (case parse_usize s of
                                None \<Rightarrow> Inl (''invalid number '' @ quoted s @ '': expected a positive integer'')
                              | Some n \<Rightarrow> Inr n))
      in case keep of
           Inl e \<Rightarrow> Inl e
         | Inr n \<Rightarrow> if n = 0 then Inl ''keep count must be positive'' else Inr (StoragePrune n))"

definition restore_local_path :: "string \<Rightarrow> string" where
  "restore_local_path target =
     (let parts = splitn 3 CHR '':'' target
      in if 3 \<le> length parts then dropWhile (\<lambda>c. c = CHR ''/'') (parts ! 2) else ''restored_file'')"

definition unknown_storage :: "string \<Rightarrow> string + command" where
  "unknown_storage sub = Inl (''unknown storage subcommand '' @ quoted sub @ ''. Available: gc, prune, stats'')"

section \<open>The parser\<close>

definition parse_short_command :: "string list \<Rightarrow> string + command" where
  "parse_short_command args =
     (if args = [] then Inl ''empty command''
      else if args ! 0 = ''cmd'' then
        (if length args < 3 then Inl ''usage: cmd node:<name> <command>''
         else if \<not> is_node_address (args ! 1) then bad_target (args ! 1)
         else Inr (Cmd (args ! 1) (join_with '' '' (drop 2 args))))
      else if args ! 0 = ''ping'' then
        (if length args < 2 then Inl ''usage: ping node:<name>''
         else if \<not> is_node_address (args ! 1) then bad_target (args ! 1)
         else Inr (Ping (args ! 1)))
      else if args ! 0 = ''nodes'' then Inr Nodes
      else if args ! 0 = ''status'' then Inr Status
      else if args ! 0 = ''backup'' then
        (if length args < 3 then Inl ''usage: backup <path> node:<name>''
         else if \<not> is_node_address (args ! 2) then bad_target (args ! 2)
         else Inr (Backup (args ! 1) (args ! 2)))
      else if args ! 0 = ''restore'' then
        (if length args < 2 then Inl ''usage: restore node:<name>:<path> [local-path]''
         else if \<not> starts_with (args ! 1) ''node:'' then
           Inl (''invalid target '' @ quoted (args ! 1) @ '': expected node:<name>:<path>'')
         else Inr (Restore (args ! 1) (if 2 < length args then args ! 2 else restore_local_path (args ! 1))))
      else if args ! 0 = ''storage'' then
        (if length args < 2 then Inl ''usage: storage <gc|prune|stats> [args]''
         else if args ! 1 = ''gc'' then Inr StorageGC
         else if args ! 1 = ''prune'' then parse_keep (if 2 < length args then Some (args ! 2) else None)
         else if args ! 1 = ''stats'' then Inr StorageStats
         else unknown_storage (args ! 1))
      else if args ! 0 = ''increment'' \<or> args ! 0 = ''inc'' then
        (if length args < 3 then Inl ''usage: increment <path> node:<name>''
         else if \<not> is_node_address (args ! 2) then bad_target (args ! 2)
         else Inr (Increment (args ! 1) (args ! 2)))
      else if args ! 0 = ''version'' \<or> args ! 0 = ''ver'' then
        (if length args < 2 then Inl ''usage: version <file>''
         else Inr (Version (args ! 1)))
      else Inl (''unknown command '' @ quoted (args ! 0) @ ''. Available: ll cmd, ll ping, ll nodes, ll status, ll backup, ll restore, ll storage, ll increment, ll version''))"

definition parse_command :: "string list \<Rightarrow> string + command" where
  "parse_command args =
     (if ''ll'' \<notin> set args then
        (if args = [] then Inl ''empty command. Usage: ll <cmd|ping|nodes|status> [args]''
         else parse_short_command args)
      else let cmd_args = dropWhile (\<lambda>a. a \<noteq> ''ll'') args in
        if length cmd_args < 2 then
          Inl (''expected subcommand after '' @ quoted ''ll'' @ ''. Usage: ll <cmd|ping|nodes|status>'')
        else if cmd_args ! 1 = ''cmd'' then
          (if length cmd_args < 4 then Inl ''usage: ll cmd node:<name> <command>''
           else if \<not> is_node_address (cmd_args ! 2) then bad_target (cmd_args ! 2)
           else Inr (Cmd (cmd_args ! 2) (join_with '' '' (drop 3 cmd_args))))
        else if cmd_args ! 1 = ''ping'' then
          (if length cmd_args < 3 then Inl ''usage: ll ping node:<name>''
           else if \<not> is_node_address (cmd_args ! 2) then bad_target (cmd_args ! 2)
           else Inr (Ping (cmd_args ! 2)))
        else if cmd_args ! 1 = ''nodes'' then Inr Nodes
        else if cmd_args ! 1 = ''status'' then Inr Status
        else if cmd_args ! 1 = ''backup'' then
          (if length cmd_args < 4 then Inl ''usage: ll backup <path> node:<name>''
           else if \<not> is_node_address (cmd_args ! 3) then bad_target (cmd_args ! 3)
           else Inr (Backup (cmd_args ! 2) (cmd_args ! 3)))
        else if cmd_args ! 1 = ''restore'' then
          (if length cmd_args < 3 then Inl ''usage: ll restore node:<name>:<path> [local-path]''
           else if \<not> starts_with (cmd_args ! 2) ''node:'' then
             Inl (''invalid target '' @ quoted (cmd_args ! 2) @ '': expected node:<name>:<path>'')
           else Inr (Restore (cmd_args ! 2) (if 3 < length cmd_args then cmd_args ! 3 else restore_local_path (cmd_args ! 2))))
        else if cmd_args ! 1 = ''storage'' then
          (if length cmd_args < 3 then Inl ''usage: ll storage <gc|prune|stats> [args]''
           else if cmd_args ! 2 = ''gc'' then Inr StorageGC
           else if cmd_args ! 2 = ''prune'' then parse_keep (if 3 < length cmd_args then Some (cmd_args ! 3) else None)
           else if cmd_args ! 2 = ''stats'' then Inr StorageStats
           else unknown_storage (cmd_args ! 2))
        else if cmd_args ! 1 = ''increment'' \<or> cmd_args ! 1 = ''inc'' then
          (if length cmd_args < 4 then Inl ''usage: ll increment <path> node:<name>''
           else if \<not> is_node_address (cmd_args ! 3) then bad_target (cmd_args ! 3)
           else Inr (Increment (cmd_args ! 2) (cmd_args ! 3)))
        else if cmd_args ! 1 = ''version'' \<or> cmd_args ! 1 = ''ver'' then
          (if length cmd_args < 3 then Inl ''usage: ll version <file>''
           else Inr (Version (cmd_args ! 2)))
        else Inl (''unknown subcommand '' @ quoted (cmd_args ! 1)
                  @ ''. Available: cmd, ping, nodes, status, backup, restore, storage, increment, version''))"

section \<open>Properties of the parser\<close>

lemma dropWhile_ll: "''ll'' \<notin> set pre \<Longrightarrow> dropWhile (\<lambda>a. a \<noteq> ''ll'') (pre @ ''ll'' # args) = ''ll'' # args"
  by (induction pre) auto

lemma if_Inr: "(if P then a else b) = Inr c \<longleftrightarrow> (if P then a = Inr c else b = Inr c)"
  by simp

lemma long_form: "parse_command (''ll'' # args) = Inr c \<longleftrightarrow> parse_short_command args = Inr c"
proof (cases "args = []")
  case False
  have at: "(''ll'' # args) ! 1 = args ! 0" "(''ll'' # args) ! 2 = args ! 1" "(''ll'' # args) ! 3 = args ! 2"
    "drop 3 (''ll'' # args) = drop 2 args" by (simp_all add: numeral_2_eq_2 numeral_3_eq_3)
  have len: "length (''ll'' # args) < 2 \<longleftrightarrow> args = []" "length (''ll'' # args) < 3 \<longleftrightarrow> length args < 2"
    "length (''ll'' # args) < 4 \<longleftrightarrow> length args < 3" "3 < length (''ll'' # args) \<longleftrightarrow> 2 < length args"
    by (auto simp: numeral_2_eq_2 numeral_3_eq_3)
  have ll: "''ll'' \<in> set (''ll'' # args)" "dropWhile (\<lambda>a. a \<noteq> ''ll'') (''ll'' # args) = ''ll'' # args" by simp_all
  show ?thesis
    unfolding parse_short_command_def parse_command_def Let_def ll(2)
    by (simp only: at len ll(1) not_not if_False False if_Inr Inl_Inr_False simp_thms)
qed (simp add: parse_command_def parse_short_command_def)

lemma short_form: "''ll'' \<notin> set args \<Longrightarrow> parse_command args = Inr c \<longleftrightarrow> parse_short_command args = Inr c"
  by (simp add: parse_command_def parse_short_command_def)

text \<open>Everything before the first argument \<open>ll\<close> is ignored.\<close>

lemma parse_from_ll:
  assumes "''ll'' \<notin> set pre"
  shows "parse_command (pre @ ''ll'' # args) = parse_command (''ll'' # args)"
proof -
  have m: "''ll'' \<in> set (pre @ ''ll'' # args)" "''ll'' \<in> set (''ll'' # args)" by simp_all
  have d: "dropWhile (\<lambda>a. a \<noteq> ''ll'') (''ll'' # args) = ''ll'' # args" by simp
  show ?thesis unfolding parse_command_def dropWhile_ll [OF assms] d using m by (simp only: not_not if_False simp_thms)
qed

text \<open>C38. The form with the word ll and the short form are the same language with the
  same meaning when no argument is the word ll. But everything before the first ll is
  ignored, so a command meant for another node that has that word among its words is
  parsed as a command of this node.\<close>

theorem short_and_long_forms_agree:
  assumes "''ll'' \<notin> set args"
  shows "(parse_command (''ll'' # args) = Inr c \<longleftrightarrow> parse_command args = Inr c)
    \<and> parse_command (args @ ''ll'' # rest) = parse_command (''ll'' # rest)"
  using assms long_form short_form parse_from_ll by simp

theorem short_and_long_forms_agree_witness:
  "parse_command [''ll'', ''cmd'', ''node:x'', ''ls''] = Inr (Cmd ''node:x'' ''ls'')
   \<and> parse_command [''cmd'', ''node:x'', ''ls'', ''ll'', ''status''] = Inr Status"
proof -
  have "parse_command [''cmd'', ''node:x'', ''ls''] = Inr (Cmd ''node:x'' ''ls'')"
    and "parse_command [''ll'', ''status''] = Inr Status"
    by (simp_all add: parse_command_def parse_short_command_def is_node_address_def join_with_def)
  then show ?thesis using short_and_long_forms_agree [of "[''cmd'', ''node:x'', ''ls'']" _ "[''status'']"] by simp
qed

fun command_target :: "command \<Rightarrow> string option" where
  "command_target (Cmd t c) = Some t"
| "command_target (Ping t) = Some t"
| "command_target (Backup p t) = Some t"
| "command_target (Restore t p) = Some t"
| "command_target (Increment p t) = Some t"
| "command_target _ = None"

definition command_ok :: "command \<Rightarrow> bool" where
  "command_ok c \<longleftrightarrow>
     (case command_target c of None \<Rightarrow> True | Some t \<Rightarrow> is_node_address t)
     \<and> (case c of StoragePrune n \<Rightarrow> 0 < n \<and> n < 2 ^ 64 | _ \<Rightarrow> True)"

lemma parse_keep_ok: "parse_keep arg = Inr c \<Longrightarrow> command_ok c"
  by (auto simp: parse_keep_def parse_usize_def command_ok_def Let_def split: option.splits sum.splits if_splits)

lemma starts_with_node: "starts_with t ''node:'' = is_node_address t"
  by (simp add: starts_with_def is_node_address_def numeral_eq_Suc)

lemma parse_short_ok: "parse_short_command args = Inr c \<Longrightarrow> command_ok c"
  unfolding parse_short_command_def bad_target_def unknown_storage_def starts_with_node
  by (auto simp: command_ok_def split: if_splits dest: parse_keep_ok)

text \<open>Whatever the arguments are, a command that was parsed has a target that starts with
  \<open>node:\<close>, and a number of versions to keep that is positive and fits its
  type.\<close>

theorem parsed_commands_are_checked:
  assumes "parse_command args = Inr c"
  shows "command_ok c"
proof (cases "''ll'' \<in> set args")
  case True
  then obtain pre rest where "args = pre @ ''ll'' # rest" "''ll'' \<notin> set pre" by (meson split_list_first)
  then have "parse_short_command rest = Inr c" using assms parse_from_ll long_form by simp
  then show ?thesis by (rule parse_short_ok)
next
  case False
  with assms short_form show ?thesis by (blast intro: parse_short_ok)
qed

theorem parsed_commands_are_checked_witness:
  "parse_command [''ll'', ''storage'', ''prune''] = Inr (StoragePrune 10) \<and> command_ok (StoragePrune 10)"
proof -
  have "parse_command [''ll'', ''storage'', ''prune''] = Inr (StoragePrune 10)"
    by (simp add: parse_command_def parse_keep_def)
  then show ?thesis using parsed_commands_are_checked by blast
qed

section \<open>Execution\<close>

text \<open>
  The listeners of the command line are those of a restore, each with its tag; \<open>'l\<close> are the
  others. The \<open>k\<close>-th request of a command finds the time and the datagrams \<open>ce_round k\<close>; until its
  timeout the relay server receives \<open>ce_answers k\<close>.
\<close>

datatype 'l cmd_listener = RestoreMeta string | RestoreChunk string | Other 'l

record 'r cmd_env =
  ce_vpn :: "'r vpn_env"
  ce_round :: "nat \<Rightarrow> instant \<times> (instant \<times> socket_addr \<times> bytes) list"
  ce_answers :: "nat \<Rightarrow> (node_id \<times> message) list"
  ce_rand :: "nat \<Rightarrow> u64"
  ce_clock :: "nat \<Rightarrow> u64"
  ce_rtt :: duration
  ce_rnd :: rounding
  ce_json_show :: "json \<Rightarrow> string"
  ce_json_parse :: "string \<Rightarrow> string + json"
  ce_manifest_encode :: "file_manifest \<Rightarrow> string + string"
  ce_manifest_decode :: "string \<Rightarrow> string + file_manifest"
  ce_hex_decode :: "string \<Rightarrow> string + bytes"
  ce_sha256 :: "bytes \<Rightarrow> hash"
  ce_aes :: aes_env
  ce_key :: b32
  ce_nonce :: "nat \<Rightarrow> bytes"
  ce_not_found :: string
  ce_read :: "string \<Rightarrow> string + unit"
  ce_parent :: "string \<Rightarrow> string option"
  ce_create_dir :: "string \<Rightarrow> string + unit"
  ce_write :: "string \<Rightarrow> string write_answer"
  ce_metadata :: metadata_env
  ce_versions :: version_env

text \<open>The router, the disk and the messages handed to the router with success.\<close>

record ('r, 'l) cmd_world =
  cw_vpn :: "('r, 'l cmd_listener) vpn_router"
  cw_disk :: disk
  cw_sent :: "(string \<times> string) list"

text \<open>An operation that waits for a lock for ever does not return.\<close>

datatype cmd_result = Hangs | Returned "string + string"

definition cmd_send ::
  "'r cmd_env \<Rightarrow> nat \<Rightarrow> string \<Rightarrow> string \<Rightarrow> string \<Rightarrow> ('r, 'l) cmd_world \<Rightarrow> ('r, 'l) cmd_world \<times> (string + unit)" where
  "cmd_send env k target msg failure w =
     (case vpn_router_send (ce_vpn env) (fst (ce_round env k)) (snd (ce_round env k)) target (str_bytes msg) (cw_vpn w) of
        (vr, _, Inl e) \<Rightarrow> (w\<lparr>cw_vpn := vr\<rparr>, Inl (failure @ '': '' @ router_error_display (ve_hex (ce_vpn env)) e))
      | (vr, _, Inr _) \<Rightarrow> (w\<lparr>cw_vpn := vr, cw_sent := cw_sent w @ [(target, msg)]\<rparr>, Inr ()))"

definition cmd_read_file :: "'r cmd_env \<Rightarrow> string \<Rightarrow> ('r, 'l) cmd_world \<Rightarrow> string + bytes" where
  "cmd_read_file env path w =
     (case (case cw_disk w path of
              None \<Rightarrow> Inl (ce_not_found env)
            | Some d \<Rightarrow> (case ce_read env path of Inl e \<Rightarrow> Inl e | Inr _ \<Rightarrow> Inr (str_bytes d))) of
        Inl e \<Rightarrow> Inl (''failed to read '' @ quoted path @ '': '' @ e)
      | Inr d \<Rightarrow> Inr d)"

text \<open>The messages of a loop that sends blocks; the first that fails ends it.\<close>

fun send_parts ::
  "'r cmd_env \<Rightarrow> string \<Rightarrow> string \<Rightarrow> nat \<Rightarrow> string list \<Rightarrow> ('r, 'l) cmd_world \<Rightarrow> ('r, 'l) cmd_world \<times> (string + unit)" where
  "send_parts env target what k [] w = (w, Inr ())"
| "send_parts env target what k (m # ms) w =
     (case cmd_send env k target m (''failed to send '' @ what @ '' '' @ show_nat k) w of
        (w, Inl e) \<Rightarrow> (w, Inl e)
      | (w, Inr _) \<Rightarrow> send_parts env target what (Suc k) ms w)"

text \<open>The arrow of the messages is U+2192.\<close>

definition arrow :: string where
  "arrow = '' '' @ [CHR 0xE2, CHR 0x86, CHR 0x92] @ '' ''"

definition truncate_hex :: "string \<Rightarrow> nat \<Rightarrow> string" where
  "truncate_hex hex n = (if length hex \<le> n + 3 then hex else take n hex @ ''...'')"

section \<open>Backup\<close>

definition backup_message :: "'r cmd_env \<Rightarrow> string \<Rightarrow> nat \<Rightarrow> nat \<Rightarrow> nat \<Rightarrow> encrypted_chunk \<Rightarrow> string" where
  "backup_message env n tot fsize i c =
     ''BACKUP_CHUNK:'' @ ce_json_show env (JObject
       [(''file_name'', JString n), (''chunk_index'', JUnsigned (of_nat i)), (''total_chunks'', JUnsigned (of_nat tot)),
        (''file_size'', JUnsigned (of_nat fsize)), (''nonce_hex'', JString (ve_hex (ce_vpn env) (ec_nonce c))),
        (''data_hex'', JString (ve_hex (ce_vpn env) (ec_data c)))])"

definition encrypted_chunks :: "'r cmd_env \<Rightarrow> bytes list \<Rightarrow> encrypted_chunk list" where
  "encrypted_chunks env chunks =
     map (\<lambda>(i, c). encrypt_chunk (ce_aes env) (ce_nonce env i) (of_nat i) c (encryptor_new (ce_key env)))
       (List.enumerate 0 chunks)"

definition backup_blocks :: "'r cmd_env \<Rightarrow> string \<Rightarrow> file_manifest \<Rightarrow> block_location list" where
  "backup_blocks env node m =
     map (\<lambda>(k, c). \<lparr>bl_hash = cm_hash c, bl_index = cm_index c, bl_nodes = [node], bl_last_synced = ce_clock env k\<rparr>)
       (List.enumerate 0 (fm_chunks m))"

text \<open>Steps 4 and 5: the sends, then the registration in a store that starts empty.\<close>

definition backup_chunks ::
  "'r cmd_env \<Rightarrow> string \<Rightarrow> string \<Rightarrow> string \<Rightarrow> string \<Rightarrow> bytes \<Rightarrow> ('r, 'l) cmd_world
   \<Rightarrow> ('r, 'l) cmd_world \<times> (string + string)" where
  "backup_chunks env path target n node data w =
     (let (manifest, chunks) = chunk_data (ce_sha256 env) chunker_new data;
          tot = length chunks;
          msgs = map (\<lambda>(i, c). backup_message env n tot (length data) i c)
                   (List.enumerate 0 (encrypted_chunks env chunks))
      in case send_parts env target ''chunk'' 0 msgs w of
           (w, Inl e) \<Rightarrow> (w, Inl e)
         | (w, Inr _) \<Rightarrow>
             (case ce_manifest_encode env manifest of
                Inl e \<Rightarrow> (w, Inl (''failed to serialize manifest: '' @ e))
              | Inr json \<Rightarrow>
                  (case cmd_send env tot target (''BACKUP_META:'' @ n @ '':'' @ json) ''failed to send metadata'' w of
                     (w, Inl e) \<Rightarrow> (w, Inl e)
                   | (w, Inr _) \<Rightarrow>
                       (case metadata_register (ce_metadata env) (ce_clock env tot) n (fm_file_hash manifest)
                               (of_nat (length data)) (Some manifest) (backup_blocks env node manifest) node
                               (metadata_new_default, cw_disk w) of
                          ((_, disk), Inl e) \<Rightarrow> (w\<lparr>cw_disk := disk\<rparr>, Inl (''failed to register metadata: '' @ metadata_error_display e))
                        | ((_, disk), Inr _) \<Rightarrow>
                            (w\<lparr>cw_disk := disk\<rparr>,
                             Inr (''Backup completed: '' @ path @ arrow @ target @ nl @ ''  File: '' @ n @ '' (''
                                  @ show_nat (length data) @ '' bytes)'' @ nl @ ''  Chunks: '' @ show_nat tot @ nl
                                  @ ''  Encrypted: yes'' @ nl @ ''  Key: ''
                                  @ truncate_hex (ve_hex (ce_vpn env) (as_bytes (ce_key env))) 16))))))"

definition execute_backup ::
  "'r cmd_env \<Rightarrow> string \<Rightarrow> string \<Rightarrow> ('r, 'l) cmd_world \<Rightarrow> ('r, 'l) cmd_world \<times> (string + string)" where
  "execute_backup env path target w =
     (case parse_address target of
        Inl e \<Rightarrow> (w, Inl (''invalid target address: '' @ address_error_display e))
      | Inr parsed \<Rightarrow>
          (case cmd_read_file env path w of
             Inl e \<Rightarrow> (w, Inl e)
           | Inr data \<Rightarrow> backup_chunks env path target (file_name_of path) (pa_name parsed) data w))"

section \<open>Restore\<close>

definition meta_prefix :: "string \<Rightarrow> string" where
  "meta_prefix tag = ''RESTORE_META_RESP:'' @ tag @ '':''"

definition chunk_prefix :: "string \<Rightarrow> string" where
  "chunk_prefix tag = ''RESTORE_CHUNK_RESP:'' @ tag @ '':''"

definition after_prefix :: "string \<Rightarrow> bytes \<Rightarrow> string option" where
  "after_prefix prefix data =
     (case from_utf8 data of
        None \<Rightarrow> None
      | Some msg \<Rightarrow> if starts_with msg prefix then Some (trim_start_matches msg prefix) else None)"

text \<open>What a listener puts into its channel.\<close>

fun cmd_listen :: "'l cmd_listener \<Rightarrow> bytes \<Rightarrow> string option" where
  "cmd_listen (RestoreMeta tag) data = after_prefix (meta_prefix tag) data"
| "cmd_listen (RestoreChunk tag) data = after_prefix (chunk_prefix tag) data"
| "cmd_listen (Other l) data = None"

text \<open>A listener is registered, the request is sent, and the first answer is taken.\<close>

definition cmd_request ::
  "'r cmd_env \<Rightarrow> nat \<Rightarrow> 'l cmd_listener \<Rightarrow> string \<Rightarrow> string \<Rightarrow> string \<Rightarrow> string \<Rightarrow> ('r, 'l) cmd_world
   \<Rightarrow> ('r, 'l) cmd_world \<times> (string + string)" where
  "cmd_request env k l node_addr req failure late w =
     (case cmd_send env k node_addr req failure (w\<lparr>cw_vpn := register_listener l (cw_vpn w)\<rparr>) of
        (w, Inl e) \<Rightarrow> (w, Inl e)
      | (w, Inr _) \<Rightarrow>
          (w, case List.map_filter (\<lambda>(l', _, data). case l' of Client c \<Rightarrow> cmd_listen c data | PingWait _ \<Rightarrow> None)
                     (filter (\<lambda>(l', _, _). l' = Client l)
                        (dispatch (ve_hex (ce_vpn env)) (ce_answers env k) (cw_vpn w))) of
                [] \<Rightarrow> Inl late
              | a # _ \<Rightarrow> Inr a))"

definition meta_tag :: "u64 \<Rightarrow> string" where
  "meta_tag r = ''restore-meta-'' @ show_nat (unat r)"

definition chunk_tag :: "nat \<Rightarrow> u64 \<Rightarrow> string" where
  "chunk_tag i r = ''restore-chunk-'' @ show_nat i @ ''-'' @ show_nat (unat r)"

definition fetch_manifest ::
  "'r cmd_env \<Rightarrow> string \<Rightarrow> string \<Rightarrow> ('r, 'l) cmd_world \<Rightarrow> ('r, 'l) cmd_world \<times> (string + file_manifest)" where
  "fetch_manifest env node_addr remote w =
     (let tag = meta_tag (ce_rand env 0)
      in case cmd_request env 0 (RestoreMeta tag) node_addr (''RESTORE_GET_META:'' @ tag @ '':'' @ remote)
                ''failed to request metadata'' ''timeout waiting for metadata response'' w of
           (w, Inl e) \<Rightarrow> (w, Inl e)
         | (w, Inr json) \<Rightarrow>
             (w, case ce_manifest_decode env json of
                   Inl e \<Rightarrow> Inl (''failed to parse manifest: '' @ e)
                 | Inr m \<Rightarrow> Inr m))"

definition fetch_chunk ::
  "'r cmd_env \<Rightarrow> string \<Rightarrow> string \<Rightarrow> nat \<Rightarrow> ('r, 'l) cmd_world \<Rightarrow> ('r, 'l) cmd_world \<times> (string + bytes)" where
  "fetch_chunk env node_addr remote i w =
     (let tag = chunk_tag i (ce_rand env (Suc i))
      in case cmd_request env (Suc i) (RestoreChunk tag) node_addr (''RESTORE_GET_CHUNK:'' @ tag @ '':'' @ remote)
                (''failed to request chunk '' @ show_nat i) (''timeout waiting for chunk '' @ show_nat i) w of
           (w, Inl e) \<Rightarrow> (w, Inl e)
         | (w, Inr resp) \<Rightarrow>
             (w, case ce_json_parse env resp of
                   Inl e \<Rightarrow> Inl (''invalid chunk response: '' @ e)
                 | Inr j \<Rightarrow>
                     (case json_str (json_index j ''data_hex'') of
                        None \<Rightarrow> Inl ''missing data_hex in chunk response''
                      | Some hex \<Rightarrow>
                          (case ce_hex_decode env hex of
                             Inl e \<Rightarrow> Inl (''invalid hex data: '' @ e)
                           | Inr d \<Rightarrow> Inr d))))"

fun fetch_chunks ::
  "'r cmd_env \<Rightarrow> string \<Rightarrow> string \<Rightarrow> nat list \<Rightarrow> bytes list \<Rightarrow> ('r, 'l) cmd_world
   \<Rightarrow> ('r, 'l) cmd_world \<times> (string + bytes list)" where
  "fetch_chunks env node_addr remote [] ds w = (w, Inr ds)"
| "fetch_chunks env node_addr remote (i # js) ds w =
     (case fetch_chunk env node_addr remote i w of
        (w, Inl e) \<Rightarrow> (w, Inl e)
      | (w, Inr d) \<Rightarrow> fetch_chunks env node_addr remote js (ds @ [d]) w)"

definition write_restored :: "'r cmd_env \<Rightarrow> string \<Rightarrow> bytes \<Rightarrow> ('r, 'l) cmd_world \<Rightarrow> ('r, 'l) cmd_world \<times> (string + unit)" where
  "write_restored env path restored w =
     (case (case ce_parent env path of
              None \<Rightarrow> Inr ()
            | Some p \<Rightarrow> (case ce_create_dir env p of
                          Inl e \<Rightarrow> Inl (''failed to create directory '' @ quoted p @ '': '' @ e)
                        | Inr _ \<Rightarrow> Inr ())) of
        Inl e \<Rightarrow> (w, Inl e)
      | Inr _ \<Rightarrow>
          (case fs_write (ce_write env) path (bytes_str restored) (cw_disk w) of
             (disk, Inl e) \<Rightarrow> (w\<lparr>cw_disk := disk\<rparr>, Inl (''failed to write '' @ quoted path @ '': '' @ e))
           | (disk, Inr _) \<Rightarrow> (w\<lparr>cw_disk := disk\<rparr>, Inr ())))"

definition execute_restore ::
  "'r cmd_env \<Rightarrow> string \<Rightarrow> string \<Rightarrow> ('r, 'l) cmd_world \<Rightarrow> ('r, 'l) cmd_world \<times> (string + string)" where
  "execute_restore env target local_path w =
     (let parts = splitn 3 CHR '':'' target
      in if length parts < 3 then
           (w, Inl (''invalid restore target '' @ quoted target @ '': expected node:<name>:<path>''))
         else
           let node_addr = ''node:'' @ parts ! 1; remote = parts ! 2
           in case fetch_manifest env node_addr remote w of
                (w, Inl e) \<Rightarrow> (w, Inl e)
              | (w, Inr manifest) \<Rightarrow>
                  (case fetch_chunks env node_addr remote [0..<length (fm_chunks manifest)] [] w of
                     (w, Inl e) \<Rightarrow> (w, Inl e)
                   | (w, Inr ds) \<Rightarrow>
                       (case reassemble (ce_sha256 env) manifest ds of
                          Inl e \<Rightarrow> (w, Inl (''reassembly failed: '' @ e))
                        | Inr restored \<Rightarrow>
                            (case write_restored env local_path restored w of
                               (w, Inl e) \<Rightarrow> (w, Inl e)
                             | (w, Inr _) \<Rightarrow>
                                 (w, Inr (''Restore completed: '' @ target @ arrow @ local_path @ nl @ ''  File: ''
                                          @ file_name_of remote @ '' ('' @ show_nat (unat (fm_file_size manifest)) @ '' bytes)''
                                          @ nl @ ''  Chunks: '' @ show_nat (length (fm_chunks manifest)) @ nl
                                          @ ''  Integrity: verified''))))))"

section \<open>Stores\<close>

definition load_version_manager :: "'r cmd_env \<Rightarrow> ('r, 'l) cmd_world \<Rightarrow> string + version_manager" where
  "load_version_manager env w = version_load (ce_versions env) (cw_disk w) default_version_db_path"

definition load_metadata_store :: "'r cmd_env \<Rightarrow> ('r, 'l) cmd_world \<Rightarrow> string + metadata_store" where
  "load_metadata_store env w =
     (case metadata_load (ce_metadata env) (cw_disk w) default_metadata_path of
        Inl e \<Rightarrow> Inl (metadata_error_display e)
      | Inr md \<Rightarrow> Inr md)"

definition execute_storage_gc :: "'r cmd_env \<Rightarrow> ('r, 'l) cmd_world \<Rightarrow> string + string" where
  "execute_storage_gc env w =
     (case load_version_manager env w of
        Inl e \<Rightarrow> Inl e
      | Inr vm \<Rightarrow>
          (case load_metadata_store env w of
             Inl e \<Rightarrow> Inl e
           | Inr md \<Rightarrow> (case gc_collect vm md of Inl e \<Rightarrow> Inl e | Inr r \<Rightarrow> Inr (collect_result_display r))))"

definition execute_storage_stats :: "'r cmd_env \<Rightarrow> ('r, 'l) cmd_world \<Rightarrow> string + string" where
  "execute_storage_stats env w =
     (case load_version_manager env w of
        Inl e \<Rightarrow> Inl e
      | Inr vm \<Rightarrow>
          (case load_metadata_store env w of
             Inl e \<Rightarrow> Inl e
           | Inr md \<Rightarrow> (case gc_storage_stats vm md of Inl e \<Rightarrow> Inl e | Inr r \<Rightarrow> Inr (storage_stats_display r))))"

definition execute_storage_prune :: "'r cmd_env \<Rightarrow> nat \<Rightarrow> ('r, 'l) cmd_world \<Rightarrow> ('r, 'l) cmd_world \<times> cmd_result" where
  "execute_storage_prune env keep w =
     (case load_version_manager env w of
        Inl e \<Rightarrow> (w, Returned (Inl e))
      | Inr vm \<Rightarrow>
          (case gc_prune_old_versions (ce_versions env) keep (vm, cw_disk w) of
             Blocked s \<Rightarrow> (w\<lparr>cw_disk := snd s\<rparr>, Hangs)
           | Done s (Inl e) \<Rightarrow> (w\<lparr>cw_disk := snd s\<rparr>, Returned (Inl e))
           | Done s (Inr pruned) \<Rightarrow>
               (case version_flush (ce_versions env) s of
                  Blocked s \<Rightarrow> (w\<lparr>cw_disk := snd s\<rparr>, Hangs)
                | Done s (Inl e) \<Rightarrow> (w\<lparr>cw_disk := snd s\<rparr>, Returned (Inl (''failed to save version store: '' @ e)))
                | Done s (Inr _) \<Rightarrow>
                    (w\<lparr>cw_disk := snd s\<rparr>,
                     Returned (Inr (''Pruned '' @ show_nat pruned @ '' version(s). Kept '' @ show_nat keep
                                    @ '' most recent version(s) per file.''))))))"

section \<open>Increment and version history\<close>

definition block_message :: "'r cmd_env \<Rightarrow> string \<Rightarrow> nat \<Rightarrow> nat \<Rightarrow> nat \<Rightarrow> bytes \<Rightarrow> string" where
  "block_message env n tot fsize i c =
     ''INCR_BLOCK:'' @ ce_json_show env (JObject
       [(''file_name'', JString n), (''chunk_index'', JUnsigned (of_nat i)), (''total_chunks'', JUnsigned (of_nat tot)),
        (''file_size'', JUnsigned (of_nat fsize)), (''data_hex'', JString (ve_hex (ce_vpn env) c))])"

text \<open>Step 5: the snapshot, at the time \<open>ce_clock 0\<close>.\<close>

definition save_snapshot ::
  "'r cmd_env \<Rightarrow> string \<Rightarrow> file_manifest \<Rightarrow> (string \<Rightarrow> string) \<Rightarrow> ('r, 'l) cmd_world \<Rightarrow> ('r, 'l) cmd_world \<times> cmd_result" where
  "save_snapshot env n manifest report w =
     (case load_version_manager env w of
        Inl e \<Rightarrow> (w, Returned (Inl e))
      | Inr vm \<Rightarrow>
          (case create_snapshot (ce_versions env) (ce_clock env 0) n manifest ''increment'' (vm, cw_disk w) of
             Blocked s \<Rightarrow> (w\<lparr>cw_disk := snd s\<rparr>, Hangs)
           | Done s version_id \<Rightarrow>
               (case version_flush (ce_versions env) s of
                  Blocked s \<Rightarrow> (w\<lparr>cw_disk := snd s\<rparr>, Hangs)
                | Done s (Inl e) \<Rightarrow> (w\<lparr>cw_disk := snd s\<rparr>, Returned (Inl (''failed to save version: '' @ e)))
                | Done s (Inr _) \<Rightarrow> (w\<lparr>cw_disk := snd s\<rparr>, Returned (Inr (report version_id))))))"

definition execute_increment :: "'r cmd_env \<Rightarrow> string \<Rightarrow> string \<Rightarrow> ('r, 'l) cmd_world \<Rightarrow> ('r, 'l) cmd_world \<times> cmd_result" where
  "execute_increment env path target w =
     (case parse_address target of
        Inl e \<Rightarrow> (w, Returned (Inl (''invalid target address: '' @ address_error_display e)))
      | Inr parsed \<Rightarrow>
          (case cmd_read_file env path w of
             Inl e \<Rightarrow> (w, Returned (Inl e))
           | Inr data \<Rightarrow>
               let n = file_name_of path;
                   (manifest, chunks) = chunk_data (ce_sha256 env) chunker_new data;
                   tot = length chunks;
                   msgs = map (\<lambda>(i, c). block_message env n tot (length data) i c) (List.enumerate 0 chunks)
               in case send_parts env target ''block'' 0 msgs w of
                    (w, Inl e) \<Rightarrow> (w, Returned (Inl e))
                  | (w, Inr _) \<Rightarrow>
                      (case ce_manifest_encode env manifest of
                         Inl e \<Rightarrow> (w, Returned (Inl (''failed to serialize manifest: '' @ e)))
                       | Inr json \<Rightarrow>
                           (case cmd_send env tot target (''INCR_MANIFEST:'' @ n @ '':'' @ json) ''failed to send manifest'' w of
                              (w, Inl e) \<Rightarrow> (w, Returned (Inl e))
                            | (w, Inr _) \<Rightarrow>
                                save_snapshot env n manifest (\<lambda>version_id.
                                  ''Incremental sync completed: '' @ path @ arrow @ target @ nl @ ''  File: '' @ n @ '' (''
                                  @ show_nat (length data) @ '' bytes)'' @ nl @ ''  Chunks: '' @ show_nat tot @ nl
                                  @ ''  Version: '' @ version_id) w))))"

text \<open>\<open>{:<n}\<close> of text: the width counts characters, which are the bytes that do not continue one.\<close>

definition char_count :: "string \<Rightarrow> nat" where
  "char_count s = length (filter (\<lambda>c. \<not> (128 \<le> (of_char c :: nat) \<and> of_char c < (192 :: nat))) s)"

definition pad_text :: "nat \<Rightarrow> string \<Rightarrow> string" where
  "pad_text n s = s @ replicate (n - char_count s) CHR '' ''"

definition execute_version :: "'r cmd_env \<Rightarrow> string \<Rightarrow> ('r, 'l) cmd_world \<Rightarrow> string + string" where
  "execute_version env n w =
     (case load_version_manager env w of
        Inl e \<Rightarrow> Inl e
      | Inr vm \<Rightarrow>
          let versions = list_versions vm n in
          if versions = [] then Inr (''No versions found for '' @ quoted n @ ''.'')
          else Inr (''Version history for '' @ quoted n @ '':'' @ nl
                    @ pad_text 22 ''Version ID'' @ '' '' @ pad_text 20 ''Timestamp'' @ '' '' @ pad_text 10 ''Size'' @ '' Annotation'' @ nl
                    @ replicate 80 CHR ''-'' @ nl
                    @ concat (map (\<lambda>v. pad_text 22 (ve_version_id v) @ '' '' @ pad_text 20 (ve_timestamp v) @ '' ''
                                       @ pad_text 10 (show_nat (unat (fm_file_size (ve_manifest v)))) @ '' ''
                                       @ ve_annotation v @ nl) versions)))"

section \<open>Remote command, ping, nodes and status\<close>

definition execute_cmd_subcommand ::
  "'r cmd_env \<Rightarrow> string \<Rightarrow> string \<Rightarrow> ('r, 'l) cmd_world \<Rightarrow> ('r, 'l) cmd_world \<times> (string + string)" where
  "execute_cmd_subcommand env target cmd w =
     (case resolve_address (ve_resolve (ce_vpn env) (fst (ce_round env 0))) target (vr_resolver (cw_vpn w)) of
        (r, Inl e) \<Rightarrow> (w\<lparr>cw_vpn := (cw_vpn w)\<lparr>vr_resolver := r\<rparr>\<rparr>, Inl (''address resolution failed: '' @ address_error_display e))
      | (r, Inr (parsed, i)) \<Rightarrow>
          (case cmd_send env 0 target (''CMD:'' @ cmd) ''send failed'' (w\<lparr>cw_vpn := (cw_vpn w)\<lparr>vr_resolver := r\<rparr>\<rparr>) of
             (w, Inl e) \<Rightarrow> (w, Inl e)
           | (w, Inr _) \<Rightarrow>
               (w, Inr (''Command sent to '' @ pa_name parsed @ '' ('' @ id_to_hex (ve_hex (ce_vpn env)) i @ ''): '' @ cmd))))"

text \<open>\<open>{:.1}\<close> of a number that is not negative.\<close>

definition show_fixed1 :: "f64 \<Rightarrow> string" where
  "show_fixed1 x = (let n = nat (nearest (x * 10)) in show_nat (n div 10) @ ''.'' @ show_nat (n mod 10))"

text \<open>The difference of the two clock readings wraps around, as it does in a release build.\<close>

definition execute_ping :: "'r cmd_env \<Rightarrow> string \<Rightarrow> ('r, 'l) cmd_world \<Rightarrow> ('r, 'l) cmd_world \<times> (string + string)" where
  "execute_ping env target w =
     (case ping_node (ce_vpn env) (fst (ce_round env 0)) (ce_rand env 0) (snd (ce_round env 0)) (ce_answers env 0)
             (ce_rtt env) target (cw_vpn w) of
        (vr, _, Inr rtt) \<Rightarrow>
          (w\<lparr>cw_vpn := vr\<rparr>,
           Inr (''PONG from '' @ target @ '': time='' @ show_fixed1 (ce_rnd env (as_secs_f64 (ce_rnd env) rtt * 1000))
                @ ''ms seq=1 ttl=64 time='' @ show_nat (unat (ce_clock env 1 - ce_clock env 0)) @ ''s''))
      | (vr, _, Inl Timeout) \<Rightarrow> (w\<lparr>cw_vpn := vr\<rparr>, Inl (''Request timeout for '' @ target))
      | (vr, _, Inl e) \<Rightarrow>
          (w\<lparr>cw_vpn := vr\<rparr>,
           Inl (''Ping failed for '' @ target @ '': '' @ router_error_display (ve_hex (ce_vpn env)) e)))"

text \<open>The two enumerations print without padding, since their \<open>Display\<close> ignores the width.\<close>

definition execute_nodes :: "'r cmd_env \<Rightarrow> ('r, 'l) cmd_world \<Rightarrow> string + string" where
  "execute_nodes env w =
     (let nodes = known_nodes_info (cw_vpn w) in
      if nodes = [] then Inr ''No known nodes.''
      else Inr (''Known nodes:'' @ nl
                @ pad_text 20 ''Name'' @ '' '' @ pad_text 20 ''Node ID'' @ '' '' @ pad_text 10 ''Type'' @ '' ''
                @ pad_text 10 ''Status'' @ nl @ replicate 60 CHR ''-'' @ nl
                @ concat (map (\<lambda>(n, i, ct, ns).
                    pad_text 20 n @ '' '' @ pad_text 20 (take 16 (id_to_hex (ve_hex (ce_vpn env)) i)) @ '' ''
                    @ connection_type_display ct @ '' '' @ node_status_display ns @ nl) nodes)))"

definition execute_status :: "'r cmd_env \<Rightarrow> ('r, 'l) cmd_world \<Rightarrow> string + string" where
  "execute_status env w =
     (let st = vpn_status (ce_clock env 0) (cw_vpn w);
          online = length (filter (\<lambda>(_, _, _, ns). ns = Online) (known_nodes_info (cw_vpn w)))
      in Inr (''=== VPN Status ==='' @ nl
              @ ''Node Name:     '' @ vr_local_name (cw_vpn w) @ nl
              @ ''Node ID:       '' @ id_to_hex (ve_hex (ce_vpn env)) (vr_local_id (cw_vpn w)) @ nl
              @ ''Status:        '' @ node_status_display (rs_node_status st) @ nl
              @ ''Connection:    '' @ connection_type_display (rs_connection_type st) @ nl
              @ ''Known Nodes:   '' @ show_nat (rs_known_nodes st) @ nl
              @ ''Online Nodes:  '' @ show_nat online @ nl
              @ ''Active Routes: '' @ show_nat (rs_active_routes st) @ nl
              @ ''Last Update:   '' @ show_nat (unat (rs_last_update st)) @ nl))"

section \<open>The dispatch\<close>

definition returned :: "'w \<times> (string + string) \<Rightarrow> 'w \<times> cmd_result" where
  "returned = (\<lambda>(w, r). (w, Returned r))"

fun execute_command :: "'r cmd_env \<Rightarrow> command \<Rightarrow> ('r, 'l) cmd_world \<Rightarrow> ('r, 'l) cmd_world \<times> cmd_result" where
  "execute_command env (Cmd target c) w = returned (execute_cmd_subcommand env target c w)"
| "execute_command env (Ping target) w = returned (execute_ping env target w)"
| "execute_command env Nodes w = (w, Returned (execute_nodes env w))"
| "execute_command env Status w = (w, Returned (execute_status env w))"
| "execute_command env (Backup path target) w = returned (execute_backup env path target w)"
| "execute_command env (Restore target path) w = returned (execute_restore env target path w)"
| "execute_command env StorageGC w = (w, Returned (execute_storage_gc env w))"
| "execute_command env (StoragePrune keep) w = execute_storage_prune env keep w"
| "execute_command env StorageStats w = (w, Returned (execute_storage_stats env w))"
| "execute_command env (Increment path target) w = execute_increment env path target w"
| "execute_command env (Version n) w = (w, Returned (execute_version env n w))"

definition execute_cmd :: "'r cmd_env \<Rightarrow> string list \<Rightarrow> ('r, 'l) cmd_world \<Rightarrow> ('r, 'l) cmd_world \<times> cmd_result" where
  "execute_cmd env args w =
     (case parse_command args of
        Inl e \<Rightarrow> (w, Returned (Inl e))
      | Inr c \<Rightarrow> execute_command env c w)"

section \<open>Backup: what is sent and what is kept\<close>

lemma cmd_send_effect:
  "cmd_send env k target msg failure w = (w', r) \<Longrightarrow>
     cw_disk w' = cw_disk w \<and> cw_sent w' = cw_sent w @ (if r = Inr () then [(target, msg)] else [])"
  by (auto simp: cmd_send_def split: prod.splits sum.splits)

lemma send_parts_effect:
  "send_parts env target what k msgs w = (w', r) \<Longrightarrow>
     cw_disk w' = cw_disk w \<and> (r = Inr () \<longrightarrow> cw_sent w' = cw_sent w @ map (\<lambda>m. (target, m)) msgs)"
proof (induction msgs arbitrary: k w)
  case (Cons m ms)
  from Cons.prems show ?case
    by (auto split: prod.splits sum.splits dest!: Cons.IH cmd_send_effect)
qed simp

definition backup_messages :: "'r cmd_env \<Rightarrow> string \<Rightarrow> bytes \<Rightarrow> string list" where
  "backup_messages env n data =
     (let chunks = snd (chunk_data (ce_sha256 env) chunker_new data)
      in map (\<lambda>(i, c). backup_message env n (length chunks) (length data) i c)
           (List.enumerate 0 (encrypted_chunks env chunks)))"

lemma register_in_empty_store:
  assumes "io_works env" and "metadata_register env now n h k m bs src (metadata_new_default, disk) = ((s, disk'), r)"
  shows "r = Inr () \<and> (\<exists>j. en_encode env (hm_insert n (metadata_entry_new now n h k m bs src) hm_empty) = Inr j
           \<and> disk' = disk(default_metadata_path \<mapsto> j))"
proof -
  let ?m = "hm_insert n (metadata_entry_new now n h k m bs src) hm_empty"
  obtain j where "en_encode env ?m = Inr j"
    "write_json env default_metadata_path ?m disk = (disk(default_metadata_path \<mapsto> j), Inr ())"
    using write_json_works [OF assms(1)] by blast
  then show ?thesis
    using assms(2) by (auto simp: metadata_register_def metadata_new_default_def metadata_new_def metadata_commit_def
        metadata_save_if_dirty_def metadata_save_def hm_simps hm_contains_def)
qed

lemma backup_chunks_Inr:
  assumes "chunk_data (ce_sha256 env) chunker_new data = (m, cs)"
    and "send_parts env target ''chunk'' 0 (backup_messages env n data) w = (w1, Inr ())"
    and "ce_manifest_encode env m = Inr json"
    and "cmd_send env (length cs) target (''BACKUP_META:'' @ n @ '':'' @ json) ''failed to send metadata'' w1 = (w2, Inr ())"
    and "io_works (ce_metadata env)"
  shows "\<exists>w' out. backup_chunks env path target n node data w = (w', Inr out)"
proof -
  obtain s disk r where 3: "metadata_register (ce_metadata env) (ce_clock env (length cs)) n (fm_file_hash m)
      (of_nat (length data)) (Some m) (backup_blocks env node m) node (metadata_new_default, cw_disk w2)
      = ((s, disk), r)" by (metis surj_pair)
  then have "r = Inr ()" using register_in_empty_store [OF assms(5)] by blast
  with assms 3 show ?thesis by (simp add: backup_chunks_def backup_messages_def Let_def)
qed


section \<open>Restore: only verified data, and no backup\<close>

lemma cmd_request_effect: "cmd_request env k l node_addr req failure late w = (w', r) \<Longrightarrow> cw_disk w' = cw_disk w"
  by (auto simp: cmd_request_def split: prod.splits sum.splits dest!: cmd_send_effect)

lemma fetch_manifest_effect: "fetch_manifest env node_addr remote w = (w', r) \<Longrightarrow> cw_disk w' = cw_disk w"
  by (auto simp: fetch_manifest_def Let_def split: prod.splits sum.splits dest!: cmd_request_effect)

lemma fetch_chunk_effect: "fetch_chunk env node_addr remote i w = (w', r) \<Longrightarrow> cw_disk w' = cw_disk w"
  by (auto simp: fetch_chunk_def Let_def split: prod.splits sum.splits dest!: cmd_request_effect)

lemma fetch_chunks_effect:
  "fetch_chunks env node_addr remote js ds w = (w', r) \<Longrightarrow> cw_disk w' = cw_disk w"
proof (induction js arbitrary: ds w)
  case (Cons i js)
  obtain w1 d where f: "fetch_chunk env node_addr remote i w = (w1, d)" by force
  then have "cw_disk w1 = cw_disk w" by (rule fetch_chunk_effect)
  then show ?case using Cons.prems Cons.IH by (cases d) (force simp: f)+
qed simp

lemma cmd_request_sent:
  "cmd_request env k l node_addr req failure late w = (w', Inr a) \<Longrightarrow> cw_sent w' = cw_sent w @ [(node_addr, req)]"
  by (auto simp: cmd_request_def split: prod.splits sum.splits dest!: cmd_send_effect)

text \<open>The texts that the listener of a request takes out of what arrived, in order.\<close>

definition listened :: "'l cmd_listener \<Rightarrow> (node_id \<times> message) list \<Rightarrow> string list" where
  "listened l received =
     List.map_filter (\<lambda>(_, m). if msg_type m = MtData then cmd_listen l (payload m) else None) received"

definition from_listener :: "'l cmd_listener \<Rightarrow> 'l cmd_listener listener \<times> string \<times> bytes \<Rightarrow> bool" where
  "from_listener l = (\<lambda>(l', _, _). l' = Client l)"

definition call_text :: "'l cmd_listener listener \<times> string \<times> bytes \<Rightarrow> string option" where
  "call_text = (\<lambda>(l', _, data). case l' of Client c \<Rightarrow> cmd_listen c data | PingWait _ \<Rightarrow> None)"

lemma heard_by_each:
  "List.map_filter call_text (filter (from_listener l) (map (\<lambda>l'. (l', s, d)) ls))
   = (case cmd_listen l d of None \<Rightarrow> [] | Some a \<Rightarrow> replicate (length (filter (\<lambda>l'. l' = Client l) ls)) a)"
  by (induction ls) (auto simp: List.map_filter_def call_text_def from_listener_def split: option.split)

lemma map_filter_append: "List.map_filter f (xs @ ys) = List.map_filter f xs @ List.map_filter f ys"
  by (simp add: List.map_filter_def)

lemma map_filter_Cons: "List.map_filter f (x # xs) = (case f x of None \<Rightarrow> [] | Some y \<Rightarrow> [y]) @ List.map_filter f xs"
  by (simp add: List.map_filter_def split: option.split)

lemma heard_by_all:
  "List.map_filter call_text (filter (from_listener l)
       (concat (map (\<lambda>(sender, m). if msg_type m = MtData then map (\<lambda>l'. (l', h sender, payload m)) ls else []) received)))
   = concat (map (replicate (length (filter (\<lambda>l'. l' = Client l) ls))) (listened l received))"
  by (induction received)
    (auto simp: listened_def map_filter_append map_filter_Cons heard_by_each List.map_filter_simps split: option.splits if_splits)

lemma cmd_request_answer:
  assumes "cmd_request env k l node_addr req failure late w = (w', Inr a)"
  shows "\<exists>rest. listened l (ce_answers env k) = a # rest"
proof -
  let ?ls = "vr_listeners (cw_vpn w')"
  have "List.map_filter (\<lambda>(l', _, data). case l' of Client c \<Rightarrow> cmd_listen c data | PingWait _ \<Rightarrow> None)
      (filter (\<lambda>(l', _, _). l' = Client l) (dispatch (ve_hex (ce_vpn env)) (ce_answers env k) (cw_vpn w'))) \<noteq> []
    \<and> a = hd (List.map_filter (\<lambda>(l', _, data). case l' of Client c \<Rightarrow> cmd_listen c data | PingWait _ \<Rightarrow> None)
      (filter (\<lambda>(l', _, _). l' = Client l) (dispatch (ve_hex (ce_vpn env)) (ce_answers env k) (cw_vpn w'))))"
    using assms by (auto simp: cmd_request_def split: prod.splits sum.splits list.splits)
  moreover from this have "vr_running (cw_vpn w')" by (auto simp: dispatch_def List.map_filter_def split: if_splits)
  ultimately have "concat (map (replicate (length (filter (\<lambda>l'. l' = Client l) ?ls))) (listened l (ce_answers env k))) \<noteq> []
      \<and> a = hd (concat (map (replicate (length (filter (\<lambda>l'. l' = Client l) ?ls))) (listened l (ce_answers env k))))"
    by (simp only: dispatch_def simp_thms if_False heard_by_all [unfolded from_listener_def call_text_def])
  then show ?thesis
    by (cases "listened l (ce_answers env k)"; cases "length (filter (\<lambda>l'. l' = Client l) ?ls)") auto
qed

text \<open>The texts that follow a prefix in the data messages that arrived, in order.\<close>

definition texts_after :: "string \<Rightarrow> (node_id \<times> message) list \<Rightarrow> string list" where
  "texts_after prefix received =
     List.map_filter (\<lambda>(_, m). if msg_type m = MtData then after_prefix prefix (payload m) else None) received"

text \<open>The chunk of index \<open>i\<close> that arrived: the first answer to its request.\<close>

definition chunk_arrived :: "'r cmd_env \<Rightarrow> nat \<Rightarrow> bytes \<Rightarrow> bool" where
  "chunk_arrived env i d \<longleftrightarrow>
     (\<exists>resp rest j hex. texts_after (chunk_prefix (chunk_tag i (ce_rand env (Suc i)))) (ce_answers env (Suc i)) = resp # rest
        \<and> ce_json_parse env resp = Inr j \<and> json_str (json_index j ''data_hex'') = Some hex \<and> ce_hex_decode env hex = Inr d)"

definition manifest_arrived :: "'r cmd_env \<Rightarrow> file_manifest \<Rightarrow> bool" where
  "manifest_arrived env m \<longleftrightarrow>
     (\<exists>json rest. texts_after (meta_prefix (meta_tag (ce_rand env 0))) (ce_answers env 0) = json # rest
        \<and> ce_manifest_decode env json = Inr m)"

lemma listened_texts:
  "listened (RestoreMeta t) = texts_after (meta_prefix t)" "listened (RestoreChunk t) = texts_after (chunk_prefix t)"
  by (rule ext, simp only: listened_def texts_after_def cmd_listen.simps)+

definition meta_request :: "'r cmd_env \<Rightarrow> string \<Rightarrow> string" where
  "meta_request env remote = ''RESTORE_GET_META:'' @ meta_tag (ce_rand env 0) @ '':'' @ remote"

definition chunk_request :: "'r cmd_env \<Rightarrow> string \<Rightarrow> nat \<Rightarrow> string" where
  "chunk_request env remote i = ''RESTORE_GET_CHUNK:'' @ chunk_tag i (ce_rand env (Suc i)) @ '':'' @ remote"

lemma fetch_manifest_Inr:
  assumes "fetch_manifest env node_addr remote w = (w', Inr m)"
  shows "manifest_arrived env m \<and> cw_sent w' = cw_sent w @ [(node_addr, meta_request env remote)]"
proof -
  obtain json where r: "cmd_request env 0 (RestoreMeta (meta_tag (ce_rand env 0))) node_addr (meta_request env remote)
      ''failed to request metadata'' ''timeout waiting for metadata response'' w = (w', Inr json)"
    "ce_manifest_decode env json = Inr m"
    using assms by (auto simp: fetch_manifest_def meta_request_def Let_def split: prod.splits sum.splits)
  show ?thesis
    using cmd_request_answer [OF r(1)] cmd_request_sent [OF r(1)] r(2) by (auto simp: manifest_arrived_def listened_texts)
qed

lemma fetch_chunk_Inr:
  assumes "fetch_chunk env node_addr remote i w = (w', Inr d)"
  shows "chunk_arrived env i d \<and> cw_sent w' = cw_sent w @ [(node_addr, chunk_request env remote i)]"
proof -
  obtain resp j hex where r: "cmd_request env (Suc i) (RestoreChunk (chunk_tag i (ce_rand env (Suc i)))) node_addr
      (chunk_request env remote i) (''failed to request chunk '' @ show_nat i) (''timeout waiting for chunk '' @ show_nat i) w
      = (w', Inr resp)"
    "ce_json_parse env resp = Inr j" "json_str (json_index j ''data_hex'') = Some hex" "ce_hex_decode env hex = Inr d"
    using assms by (auto simp: fetch_chunk_def chunk_request_def Let_def split: prod.splits sum.splits option.splits)
  show ?thesis
    using cmd_request_answer [OF r(1)] cmd_request_sent [OF r(1)] r(2-4) by (auto simp: chunk_arrived_def listened_texts)
qed

lemma fetch_chunks_Inr:
  assumes "fetch_chunks env node_addr remote js ds w = (w', Inr ds')"
  shows "\<exists>new. ds' = ds @ new \<and> list_all2 (chunk_arrived env) js new
    \<and> cw_sent w' = cw_sent w @ map (\<lambda>i. (node_addr, chunk_request env remote i)) js"
  using assms
proof (induction js arbitrary: ds w)
  case (Cons i js)
  obtain w1 d where f: "fetch_chunk env node_addr remote i w = (w1, Inr d)"
    using Cons.prems by (auto split: prod.splits sum.splits)
  with Cons.prems have "fetch_chunks env node_addr remote js (ds @ [d]) w1 = (w', Inr ds')" by simp
  from Cons.IH [OF this] fetch_chunk_Inr [OF f] show ?case by auto
qed simp

lemma reassemble_Inr:
  assumes "reassemble h m ds = Inr restored"
  shows "restored = concat ds \<and> h (concat ds) = fm_file_hash m
    \<and> list_all2 (\<lambda>c d. cm_size c = of_nat (length d)) (fm_chunks m) ds"
  using assms by (auto simp: reassemble_def Let_def list_all2_iff check_sizes_None split: if_splits option.splits)

text \<open>C37. A restore that succeeds has asked for the manifest and then once for each chunk
  of it, and changes the local file only: the file then holds the chunks decoded from
  the first answer to each request, one for each chunk of the manifest decoded from
  the first answer to its request, each of the size the manifest says, and the hash of
  all is the hash of the manifest. A restore that fails changes nothing, or only the
  local file when its writing was what failed.\<close>

theorem restore_writes_verified_data:
  "let (w', r) = execute_restore env target path w
   in case r of
        Inl _ \<Rightarrow> \<forall>p. p \<noteq> path \<or> ce_write env path = Inr () \<longrightarrow> cw_disk w' p = cw_disk w p
      | Inr _ \<Rightarrow> \<exists>m ds. manifest_arrived env m \<and> list_all2 (chunk_arrived env) [0..<length (fm_chunks m)] ds
               \<and> list_all2 (\<lambda>c d. cm_size c = of_nat (length d)) (fm_chunks m) ds
               \<and> ce_sha256 env (concat ds) = fm_file_hash m
               \<and> cw_disk w' = (cw_disk w)(path \<mapsto> bytes_str (concat ds))
               \<and> (let parts = splitn 3 CHR '':'' target; node = ''node:'' @ parts ! 1; remote = parts ! 2
                  in cw_sent w' = cw_sent w @ [(node, meta_request env remote)]
                       @ map (\<lambda>i. (node, chunk_request env remote i)) [0..<length (fm_chunks m)])"
proof -
  let ?parts = "splitn 3 CHR '':'' target"
  let ?addr = "''node:'' @ ?parts ! 1" and ?remote = "?parts ! 2"
  obtain w1 rm where 1: "fetch_manifest env ?addr ?remote w = (w1, rm)" by force
  then have d1: "cw_disk w1 = cw_disk w" by (rule fetch_manifest_effect)
  show ?thesis
  proof (cases "length ?parts < 3 \<or> (\<exists>e. rm = Inl e)")
    case True
    with 1 d1 show ?thesis by (auto simp: execute_restore_def Let_def)
  next
    case False
    then obtain m where m: "rm = Inr m" by (cases rm) auto
    obtain w2 rds where 2: "fetch_chunks env ?addr ?remote [0..<length (fm_chunks m)] [] w1 = (w2, rds)" by force
    then have d2: "cw_disk w2 = cw_disk w" using fetch_chunks_effect d1 by metis
    show ?thesis
    proof (cases "\<exists>ds restored. rds = Inr ds \<and> reassemble (ce_sha256 env) m ds = Inr restored")
      case None: False
      with False 1 2 m d2 show ?thesis by (auto simp: execute_restore_def Let_def split: sum.splits)
    next
      case True
      then obtain ds restored where ds: "rds = Inr ds" "reassemble (ce_sha256 env) m ds = Inr restored" by blast
      obtain w3 r3 where 3: "write_restored env path restored w2 = (w3, r3)" by force
      have run: "execute_restore env target path w = (case r3 of Inl e \<Rightarrow> (w3, Inl e)
          | Inr _ \<Rightarrow> (w3, Inr (''Restore completed: '' @ target @ arrow @ path @ nl @ ''  File: ''
               @ file_name_of ?remote @ '' ('' @ show_nat (unat (fm_file_size m)) @ '' bytes)''
               @ nl @ ''  Chunks: '' @ show_nat (length (fm_chunks m)) @ nl @ ''  Integrity: verified'')))"
        using False 1 2 3 m ds by (simp add: execute_restore_def Let_def split: sum.split)
      have w3: "(\<forall>p. p \<noteq> path \<or> ce_write env path = Inr () \<and> r3 \<noteq> Inr () \<longrightarrow> cw_disk w3 p = cw_disk w2 p)
          \<and> (r3 = Inr () \<longrightarrow> cw_disk w3 = (cw_disk w2)(path \<mapsto> bytes_str restored)) \<and> cw_sent w3 = cw_sent w2"
        using 3 by (auto simp: write_restored_def fs_write_def split: sum.splits option.splits)
      show ?thesis
      proof (cases r3)
        case (Inl e)
        with run w3 d2 show ?thesis by simp
      next
        case (Inr u)
        obtain new where "ds = new" "list_all2 (chunk_arrived env) [0..<length (fm_chunks m)] new"
          "cw_sent w2 = cw_sent w1 @ map (\<lambda>i. (?addr, chunk_request env ?remote i)) [0..<length (fm_chunks m)]"
          using fetch_chunks_Inr 2 ds(1) by fastforce
        moreover have "manifest_arrived env m" "cw_sent w1 = cw_sent w @ [(?addr, meta_request env ?remote)]"
          using fetch_manifest_Inr 1 m by blast+
        ultimately have "manifest_arrived env m \<and> list_all2 (chunk_arrived env) [0..<length (fm_chunks m)] ds
            \<and> list_all2 (\<lambda>c d. cm_size c = of_nat (length d)) (fm_chunks m) ds
            \<and> ce_sha256 env (concat ds) = fm_file_hash m
            \<and> cw_disk w3 = (cw_disk w)(path \<mapsto> bytes_str (concat ds))
            \<and> cw_sent w3 = cw_sent w @ [(?addr, meta_request env ?remote)]
                @ map (\<lambda>i. (?addr, chunk_request env ?remote i)) [0..<length (fm_chunks m)]"
          using Inr w3 d2 reassemble_Inr [OF ds(2)] by simp
        moreover obtain out where "execute_restore env target path w = (w3, Inr out)" using run Inr by simp
        ultimately show ?thesis by (simp only: Let_def prod.case sum.case) blast
      qed
    qed
  qed
qed

lemma show_nat_0: "show_nat 0 = ''0''"
  by code_simp

lemma encrypted_size_mismatch:
  assumes "aes_ok (ce_aes env)" and "data \<noteq> []" and "chunk_data h chunker_new data = (m, cs)"
  shows "\<exists>e. reassemble h m (map ec_data (encrypted_chunks env cs)) = Inl (''chunk 0 size mismatch: '' @ e)"
proof -
  let ?k = "ck_chunk_size chunker_new"
  have "0 < ?k" by (simp add: chunker_new_def default_chunk_size_def)
  with assms(2) have "0 < block_count ?k data" by (simp add: block_count_iff)
  then obtain n where n: "[0..<block_count ?k data] = 0 # n" by (simp add: upt_conv_Cons)
  have m: "fm_chunks m = \<lparr>cm_hash = h (block_at ?k data 0), cm_index = 0, cm_offset = 0,
      cm_size = of_nat (length (block_at ?k data 0))\<rparr> # map (\<lambda>i. \<lparr>cm_hash = h (block_at ?k data i), cm_index = of_nat i,
      cm_offset = of_nat (i * ?k), cm_size = of_nat (length (block_at ?k data i))\<rparr>) n"
    "cs = block_at ?k data 0 # map (block_at ?k data) n"
    using chunk_data_facts(2,5) [of h chunker_new data] assms(3) n by simp_all
  obtain c rest where e: "map ec_data (encrypted_chunks env cs) = c # rest"
    "length c = length (block_at ?k data 0) + 16" "length rest = length n"
    using assms(1) by (simp add: encrypted_chunks_def m(2) encrypt_chunk_def Let_def aes_ok_def tag_len_def)
  then show ?thesis by (simp add: reassemble_def m(1) Let_def show_nat_0)
qed

lemma splitn_target:
  "CHR '':'' \<notin> set name \<Longrightarrow> splitn 3 CHR '':'' (''node:'' @ name @ CHR '':'' # remote) = [''node'', name, remote]"
  by (simp add: numeral_3_eq_3) (simp add: takeWhile_append dropWhile_append takeWhile_eq_all_conv)

text \<open>C14. A backup cannot be restored: when the node answers with the manifest of a file
  that is not empty and with its chunks as the backup sent them, encrypted, the
  restore fails on the size of the first chunk, and the disk stays as it was. The
  chunks are never decrypted.\<close>

theorem encrypted_backup_cannot_be_restored:
  assumes "aes_ok (ce_aes backup_env)" and "data \<noteq> []" and "CHR '':'' \<notin> set name"
    and "chunk_data (ce_sha256 env) chunker_new data = (m, cs)"
    and "fetch_manifest env (''node:'' @ name) remote w = (w1, Inr m)"
    and "fetch_chunks env (''node:'' @ name) remote [0..<length (fm_chunks m)] [] w1
           = (w2, Inr (map ec_data (encrypted_chunks backup_env cs)))"
  shows "\<exists>e. execute_restore env (''node:'' @ name @ CHR '':'' # remote) path w
      = (w2, Inl (''reassembly failed: chunk 0 size mismatch: '' @ e)) \<and> cw_disk w2 = cw_disk w"
proof -
  have "cw_disk w2 = cw_disk w" using fetch_manifest_effect [OF assms(5)] fetch_chunks_effect [OF assms(6)] by simp
  with encrypted_size_mismatch [OF assms(1,2,4)] splitn_target [OF assms(3), of remote] show ?thesis
    using assms(5,6) by (auto simp: execute_restore_def Let_def)
qed

section \<open>Pruning\<close>

lemma pruned_pos: "0 < snd (fv_prune k fv) \<longleftrightarrow> k < length (fv_versions fv)"
  by (auto simp: fv_prune_def)

lemma sum_pos: "0 < sum_list (map f xs) \<longleftrightarrow> (\<exists>x \<in> set xs. 0 < f x)" for f :: "'a \<Rightarrow> nat"
  by (induction xs) auto

text \<open>Pruning from the command line hangs whenever there is something to prune, before
  anything is written to the disk; otherwise it removes nothing.\<close>

theorem storage_prune_hangs:
  assumes "load_version_manager env w = Inr vm"
  shows "if \<exists>(n, fv) \<in> set (vm_store vm). keep < length (fv_versions fv)
    then execute_storage_prune env keep w = (w, Hangs)
    else \<exists>w' r. execute_storage_prune env keep w = (w', Returned r)
           \<and> (\<forall>out. r = Inr out \<longrightarrow> out = ''Pruned 0 version(s). Kept '' @ show_nat keep @ '' most recent version(s) per file.'')"
proof -
  have unlocked: "\<not> vm_dirty_locked vm"
    using assms by (auto simp: load_version_manager_def version_load_def version_manager_new_def split: sum.splits option.splits)
  let ?p = "sum_list (map (\<lambda>(_, fv). snd (fv_prune keep fv)) (vm_store vm))"
  have p: "0 < ?p \<longleftrightarrow> (\<exists>(n, fv) \<in> set (vm_store vm). keep < length (fv_versions fv))"
    by (simp add: sum_pos split_beta pruned_pos)
  let ?s = "vm\<lparr>vm_store := map (\<lambda>(n, fv). (n, fst (fv_prune keep fv))) (vm_store vm)\<rparr>"
  show ?thesis
  proof (cases "0 < ?p")
    case True
    with assms unlocked p show ?thesis
      by (simp add: execute_storage_prune_def gc_prune_old_versions_def prune_all_versions_def vs_prune_all_def
          mark_and_save_locked_blocks)
  next
    case False
    have "\<not> vm_dirty_locked ?s" using unlocked by simp
    then obtain s r where "version_flush (ce_versions env) (?s, cw_disk w) = Done s r"
      using save_unlocked unfolding version_flush_def by metis
    moreover have "?p = 0" using False by simp
    ultimately show ?thesis using assms False p
      by (cases r) (simp_all add: execute_storage_prune_def gc_prune_old_versions_def prune_all_versions_def vs_prune_all_def
          show_nat_0 Let_def del: sum_list_eq_0_iff)
  qed
qed

section \<open>Examples\<close>

text \<open>A file of three bytes, a peer that is reached over the relay, and the answers a node
  would give that stored what the backup sent.\<close>

definition sample_cmd_env :: "unit cmd_env" where
  "sample_cmd_env =
     \<lparr>ce_vpn = sample_vpn_env, ce_round = (\<lambda>_. (5, [])),
      ce_answers = (\<lambda>k. [(fill32 2, message_new MtData (str_bytes
         (if k = 0 then meta_prefix (meta_tag 0) @ ''M'' else chunk_prefix (chunk_tag 0 0) @ ''C'')))]),
      ce_rand = (\<lambda>_. 0), ce_clock = (\<lambda>_. 9), ce_rtt = 0, ce_rnd = id, ce_json_show = (\<lambda>_. ''J''),
      ce_json_parse = (\<lambda>_. Inr (JObject [(''data_hex'', JString ''H'')])),
      ce_manifest_encode = (\<lambda>_. Inr ''M''),
      ce_manifest_decode = (\<lambda>_. Inr (fst (chunk_data (\<lambda>_. fill32 0) chunker_new [1, 2, 3]))),
      ce_hex_decode = (\<lambda>_. Inr ([1, 2, 3] @ replicate 16 0)), ce_sha256 = (\<lambda>_. fill32 0), ce_aes = sample_aes,
      ce_key = fill32 7, ce_nonce = (\<lambda>_. replicate 8 0), ce_not_found = ''not found'', ce_read = (\<lambda>_. Inr ()),
      ce_parent = (\<lambda>_. None), ce_create_dir = (\<lambda>_. Inr ()), ce_write = (\<lambda>_. Inr ()), ce_metadata = sample_env,
      ce_versions = sample_version_env\<lparr>en_decode := \<lambda>_. Inr
         [(''f'', \<lparr>fv_file_name = ''f'', fv_versions = map (snapshot_entry [(5, ''f'', sample_manifest, []), (6, ''f'', sample_manifest, [])]) [1, 0]\<rparr>)]\<rparr>\<rparr>"

definition sample_world :: "(unit, nat) cmd_world" where
  "sample_world =
     \<lparr>cw_vpn = (sample_router None)\<lparr>vr_running := True\<rparr>,
      cw_disk = [''f'' \<mapsto> bytes_str [1, 2, 3], default_version_db_path \<mapsto> ''{}''], cw_sent = []\<rparr>"

lemma sample_send_first:
  "\<exists>vr out. vpn_router_send sample_vpn_env 5 [] ''node:b'' d (cw_vpn sample_world) = (vr, out, Inr ())"
  by (simp add: sample_world_def sample_vpn_env_def sample_router_def vpn_new_def
      vpn_with_port_def vpn_router_send_def vpn_resolve_def try_lan_def parse_node_b relay_eval message_new_def)

lemma sample_chunks: "chunk_data (\<lambda>_. fill32 0) chunker_new [1, 2, 3]
    = (fst (chunk_data (\<lambda>_. fill32 0) chunker_new [1, 2, 3]), [[1, 2, 3]])"
  by (simp add: chunk_data_def Let_def block_count_def div_ceil_def block_at_take chunker_new_def default_chunk_size_def)

lemma str_bytes_bytes_str: "str_bytes (bytes_str bs) = bs"
proof (induction bs)
  case (Cons b bs)
  have "unat b < 256" using unsigned_less [of b] by simp
  then have "(of_nat (of_char (char_of (unat b) :: char)) :: byte) = b" by simp
  with Cons show ?case by (simp add: str_bytes_def bytes_str_def)
qed (simp add: str_bytes_def bytes_str_def)

lemma sample_read: "cmd_read_file sample_cmd_env ''f'' sample_world = Inr [1, 2, 3]"
  by (simp add: cmd_read_file_def sample_world_def sample_cmd_env_def default_version_db_path_def str_bytes_bytes_str)

theorem storage_prune_hangs_witness:
  "execute_storage_prune sample_cmd_env 1 sample_world = (sample_world, Hangs)"
proof -
  have "is_blank ''{}'' = False" by (simp add: is_blank_def white3_def)
  then have l: "load_version_manager sample_cmd_env sample_world = Inr ((version_manager_new default_version_db_path)
      \<lparr>vm_store := [(''f'', \<lparr>fv_file_name = ''f'',
         fv_versions = map (snapshot_entry [(5, ''f'', sample_manifest, []), (6, ''f'', sample_manifest, [])]) [1, 0]\<rparr>)]\<rparr>)"
    by (simp add: load_version_manager_def version_load_def read_json_def sample_world_def sample_cmd_env_def
        sample_version_env_def)
  show ?thesis using storage_prune_hangs [OF l, of 1] by simp
qed

text \<open>Two sends, each after the registration of some listeners.\<close>

lemma sample_sends_twice:
  "\<exists>vr out vr' out'. vpn_router_send sample_vpn_env 5 [] ''node:b'' d ((cw_vpn sample_world)\<lparr>vr_listeners := L\<rparr>) = (vr, out, Inr ())
     \<and> vpn_router_send sample_vpn_env 5 [] ''node:b'' d' (vr\<lparr>vr_listeners := vr_listeners vr @ L'\<rparr>) = (vr', out', Inr ())
     \<and> vr_running vr \<and> vr_running vr' \<and> vr_listeners vr = L \<and> vr_listeners vr' = L @ L'"
  by (simp add: sample_world_def sample_vpn_env_def sample_router_def vpn_new_def update_node_def
      vpn_with_port_def vpn_router_send_def vpn_resolve_def try_lan_def parse_node_b relay_eval message_new_def)

lemma sample_env_facts:
  "ce_vpn sample_cmd_env = sample_vpn_env" "ce_round sample_cmd_env k = (5, [])" "ce_sha256 sample_cmd_env = (\<lambda>_. fill32 0)"
  "ce_manifest_encode sample_cmd_env m = Inr ''M''" "ce_metadata sample_cmd_env = sample_env" "io_works sample_env"
  by (simp_all add: sample_cmd_env_def io_works_def sample_env_def)

lemma sample_backup: "\<exists>w' out. execute_backup sample_cmd_env ''f'' ''node:b'' sample_world = (w', Inr out)"
proof -
  have "length (encrypted_chunks sample_cmd_env [[1, 2, 3]]) = 1" by (simp add: encrypted_chunks_def)
  then obtain e where e: "encrypted_chunks sample_cmd_env [[1, 2, 3]] = [e]" by (auto simp: length_Suc_conv)
  define m1 where "m1 = backup_message sample_cmd_env ''f'' (length [[1, 2, 3 :: byte]]) (length [1, 2, 3 :: byte]) 0 e"
  define m2 where "m2 = ''BACKUP_META:'' @ ''f'' @ '':'' @ ''M''"
  have "(cw_vpn sample_world)\<lparr>vr_listeners := []\<rparr> = cw_vpn sample_world"
    by (simp add: sample_world_def sample_router_def vpn_new_def vpn_with_port_def)
  with sample_sends_twice [of "str_bytes m1" "[]" "str_bytes m2" "[]"] obtain vr out vr' out' where
    s: "vpn_router_send sample_vpn_env 5 [] ''node:b'' (str_bytes m1) (cw_vpn sample_world) = (vr, out, Inr ())"
    "vpn_router_send sample_vpn_env 5 [] ''node:b'' (str_bytes m2) vr = (vr', out', Inr ())"
    by auto
  let ?w = "sample_world\<lparr>cw_vpn := vr, cw_sent := cw_sent sample_world @ [(''node:b'', m1)]\<rparr>"
  have 1: "send_parts sample_cmd_env ''node:b'' ''chunk'' 0 [m1] sample_world = (?w, Inr ())"
    by (simp add: cmd_send_def sample_env_facts s(1))
  have 2: "cmd_send sample_cmd_env (length [[1, 2, 3 :: byte]]) ''node:b'' m2 ''failed to send metadata'' ?w
      = (?w\<lparr>cw_vpn := vr', cw_sent := cw_sent ?w @ [(''node:b'', m2)]\<rparr>, Inr ())"
    by (simp add: cmd_send_def sample_env_facts s(2))
  obtain m where m: "chunk_data (\<lambda>_. fill32 0) chunker_new [1, 2, 3] = (m, [[1, 2, 3]])" using sample_chunks by blast
  then have m': "chunk_data (ce_sha256 sample_cmd_env) chunker_new [1, 2, 3] = (m, [[1, 2, 3]])"
    by (simp only: sample_env_facts)
  have msgs: "backup_messages sample_cmd_env ''f'' [1, 2, 3] = [m1]"
    by (simp only: backup_messages_def m' Let_def snd_conv e m1_def) simp
  have f: "file_name_of ''f'' = ''f''" by (simp add: file_name_of_def)
  have io: "io_works (ce_metadata sample_cmd_env)" by (simp add: sample_env_facts)
  have "\<exists>w' out. backup_chunks sample_cmd_env ''f'' ''node:b'' ''f'' ''b'' [1, 2, 3] sample_world = (w', Inr out)"
    using backup_chunks_Inr [OF m' 1 [folded msgs] sample_env_facts(4) 2 [unfolded m2_def] io] .
  then show ?thesis by (simp add: execute_backup_def parse_node_b sample_read f)
qed


lemma after_prefix_eq:
  assumes "ascii p" and "ascii s" and "p \<noteq> []" and "\<not> starts_with s p"
  shows "after_prefix p (str_bytes (p @ s)) = Some s"
proof -
  have "from_utf8 (str_bytes (p @ s)) = Some (p @ s)" using assms(1,2) by (intro from_utf8_str_bytes utf8_ascii) simp
  then show ?thesis using trim_once [OF assms(3,4)] by (simp add: after_prefix_def)
qed

lemma cmd_request_answered:
  assumes "vpn_router_send (ce_vpn env) (fst (ce_round env k)) (snd (ce_round env k)) node_addr (str_bytes req)
      (register_listener l (cw_vpn w)) = (vr, out, Inr ())"
    and "vr_running vr" and "vr_listeners vr = L @ [Client l]" and "Client l \<notin> set L"
    and "ce_answers env k = [(i, message_new MtData data)]" and "cmd_listen l data = Some a"
  shows "cmd_request env k l node_addr req failure late w
    = (w\<lparr>cw_vpn := vr, cw_sent := cw_sent w @ [(node_addr, req)]\<rparr>, Inr a)"
proof -
  have "filter (\<lambda>(l', _, _). l' = Client l) (map (\<lambda>l. (l, h, data)) L) = []" for h :: string
    using assms(4) by (auto simp: filter_empty_conv)
  then have "filter (\<lambda>(l', _, _). l' = Client l) (dispatch (ve_hex (ce_vpn env)) (ce_answers env k) vr)
      = [(Client l, id_to_hex (ve_hex (ce_vpn env)) i, data)]"
    using assms(2,3,5) by (simp add: dispatch_def message_new_def)
  then show ?thesis using assms(1,6) by (simp add: cmd_request_def cmd_send_def List.map_filter_simps)
qed

text \<open>A restore of the file from a node whose only chunk decodes to \<open>d\<close>.\<close>

definition serving :: "bytes \<Rightarrow> unit cmd_env" where
  "serving d = sample_cmd_env\<lparr>ce_hex_decode := \<lambda>_. Inr d\<rparr>"

lemma serving_encrypted: "serving ([1, 2, 3] @ replicate 16 0) = sample_cmd_env"
  by (simp add: serving_def sample_cmd_env_def)

lemma sample_fetches:
  assumes "chunk_data (\<lambda>_. fill32 0) chunker_new [1, 2, 3] = (m, [[1, 2, 3]])"
  obtains w1 w2 where "fetch_manifest (serving d) (''node:'' @ ''b'') ''f'' sample_world = (w1, Inr m)"
    and "fetch_chunks (serving d) (''node:'' @ ''b'') ''f'' [0..<length (fm_chunks m)] [] w1 = (w2, Inr [d])"
    and "length (fm_chunks m) = 1"
proof -
  let ?env = "serving d" and ?w = sample_world
  let ?mt = "meta_tag 0" and ?ct = "chunk_tag 0 0"
  define r1 where "r1 = ''RESTORE_GET_META:'' @ ?mt @ '':'' @ ''f''"
  define r2 where "r2 = ''RESTORE_GET_CHUNK:'' @ ?ct @ '':'' @ ''f''"
  have env: "ce_rand ?env k = 0" "ce_manifest_decode ?env s = Inr m" "ce_json_parse ?env s = Inr (JObject [(''data_hex'', JString ''H'')])"
    "ce_hex_decode ?env s = Inr d" "ce_vpn ?env = sample_vpn_env" "ce_round ?env k = (5, [])"
    "ce_answers ?env 0 = [(fill32 2, message_new MtData (str_bytes (meta_prefix ?mt @ ''M'')))]"
    "ce_answers ?env (Suc 0) = [(fill32 2, message_new MtData (str_bytes (chunk_prefix ?ct @ ''C'')))]" for k s
    by (simp_all add: serving_def sample_cmd_env_def assms)
  obtain vr out vr' out' where
    s: "vpn_router_send sample_vpn_env 5 [] ''node:b'' (str_bytes r1) (register_listener (RestoreMeta ?mt) (cw_vpn ?w)) = (vr, out, Inr ())"
    "vpn_router_send sample_vpn_env 5 [] ''node:b'' (str_bytes r2) (register_listener (RestoreChunk ?ct) vr) = (vr', out', Inr ())"
    "vr_running vr" "vr_running vr'" "vr_listeners vr = [] @ [Client (RestoreMeta ?mt)]"
    "vr_listeners vr' = [Client (RestoreMeta ?mt)] @ [Client (RestoreChunk ?ct)]"
    using sample_sends_twice [of "str_bytes r1" "[Client (RestoreMeta ?mt)]" "str_bytes r2" "[Client (RestoreChunk ?ct)]"]
    by (auto simp: register_listener_def sample_world_def sample_router_def vpn_new_def vpn_with_port_def)
  have l: "cmd_listen (RestoreMeta ?mt) (str_bytes (meta_prefix ?mt @ ''M'')) = Some ''M''"
    "cmd_listen (RestoreChunk ?ct) (str_bytes (chunk_prefix ?ct @ ''C'')) = Some ''C''"
    unfolding cmd_listen.simps
    by (rule after_prefix_eq; simp add: meta_prefix_def chunk_prefix_def meta_tag_def chunk_tag_def starts_with_def)+
  let ?w1 = "?w\<lparr>cw_vpn := vr, cw_sent := cw_sent ?w @ [(''node:b'', r1)]\<rparr>"
  let ?w2 = "?w1\<lparr>cw_vpn := vr', cw_sent := cw_sent ?w1 @ [(''node:b'', r2)]\<rparr>"
  have "cmd_request ?env 0 (RestoreMeta ?mt) ''node:b'' r1 f t ?w = (?w1, Inr ''M'')" for f t
    using s(1,3,5) env(7) l(1) by (intro cmd_request_answered [where L = "[]"]) (simp_all add: env)
  then have 1: "fetch_manifest ?env (''node:'' @ ''b'') ''f'' ?w = (?w1, Inr m)"
    by (simp add: fetch_manifest_def env Let_def r1_def)
  have "cmd_request ?env (Suc 0) (RestoreChunk ?ct) ''node:b'' r2 f t ?w1 = (?w2, Inr ''C'')" for f t
    using s(2,4,6) env(8) l(2) by (intro cmd_request_answered [where L = "[Client (RestoreMeta ?mt)]"]) (simp_all add: env)
  then have c: "fetch_chunk ?env (''node:'' @ ''b'') ''f'' 0 ?w1 = (?w2, Inr d)"
    by (simp add: fetch_chunk_def env Let_def r2_def)
  have n: "length (fm_chunks m) = 1" using assms by (auto simp: chunk_data_def Let_def)
  with c have "fetch_chunks ?env (''node:'' @ ''b'') ''f'' [0..<length (fm_chunks m)] [] ?w1 = (?w2, Inr [d])" by simp
  with 1 n that show thesis by blast
qed

theorem encrypted_backup_cannot_be_restored_witness:
  "\<exists>w' e. execute_restore sample_cmd_env ''node:b:f'' ''g'' sample_world
      = (w', Inl (''reassembly failed: chunk 0 size mismatch: '' @ e)) \<and> cw_disk w' ''g'' = None"
proof -
  obtain m where m: "chunk_data (\<lambda>_. fill32 0) chunker_new [1, 2, 3] = (m, [[1, 2, 3]])" using sample_chunks by blast
  obtain w1 w2 where f: "fetch_manifest sample_cmd_env (''node:'' @ ''b'') ''f'' sample_world = (w1, Inr m)"
    "fetch_chunks sample_cmd_env (''node:'' @ ''b'') ''f'' [0..<length (fm_chunks m)] [] w1 = (w2, Inr [[1, 2, 3] @ replicate 16 0])"
    using sample_fetches [OF m] unfolding serving_encrypted [symmetric] by metis
  have aes: "ce_aes sample_cmd_env = sample_aes" by (simp add: sample_cmd_env_def)
  have "map ec_data (encrypted_chunks sample_cmd_env [[1, 2, 3]]) = [[1, 2, 3] @ replicate 16 0]"
    by (simp add: encrypted_chunks_def encrypt_chunk_def aes sample_aes_def Let_def)
  then have 2: "fetch_chunks sample_cmd_env (''node:'' @ ''b'') ''f'' [0..<length (fm_chunks m)] [] w1
      = (w2, Inr (map ec_data (encrypted_chunks sample_cmd_env [[1, 2, 3]])))" using f(2) by simp
  have "aes_ok (ce_aes sample_cmd_env)" by (simp add: aes sample_aes_ok)
  from encrypted_backup_cannot_be_restored [OF this _ _ m [folded sample_env_facts(3)] f(1) 2, of "''g''"] show ?thesis
    by (auto simp: sample_world_def default_version_db_path_def)
qed

text \<open>From a node that answers with the plain chunk the restore succeeds.\<close>

theorem restore_writes_verified_data_witness:
  "\<exists>w' out ds. execute_restore (serving [1, 2, 3]) ''node:b:f'' ''g'' sample_world = (w', Inr out)
     \<and> length (cw_sent w') = 2 \<and> list_all2 (chunk_arrived (serving [1, 2, 3])) [0..<1] ds
     \<and> cw_disk w' ''g'' = Some (bytes_str (concat ds))"
proof -
  let ?env = "serving [1, 2, 3]"
  obtain m where m: "chunk_data (\<lambda>_. fill32 0) chunker_new [1, 2, 3] = (m, [[1, 2, 3]])" using sample_chunks by blast
  obtain w1 w2 where f: "fetch_manifest ?env (''node:'' @ ''b'') ''f'' sample_world = (w1, Inr m)"
    "fetch_chunks ?env (''node:'' @ ''b'') ''f'' [0..<length (fm_chunks m)] [] w1 = (w2, Inr [[1, 2, 3]])" "length (fm_chunks m) = 1"
    by (rule sample_fetches [OF m])
  have "reassemble (\<lambda>_. fill32 0) m [[1, 2, 3]] = Inr [1, 2, 3]"
    using reassemble_chunks [of chunker_new "\<lambda>_. fill32 0" "[1, 2, 3]"] m
    by (simp add: chunker_new_def default_chunk_size_def)
  moreover have "ce_sha256 ?env = (\<lambda>_. fill32 0)" "ce_parent ?env p = None" "ce_write ?env p = Inr ()" for p
    by (simp_all add: serving_def sample_cmd_env_def)
  ultimately obtain w' out where r: "execute_restore ?env ''node:b:f'' ''g'' sample_world = (w', Inr out)"
    using f splitn_target [of "''b''" "''f''"] by (simp add: execute_restore_def Let_def write_restored_def fs_write_def)
  have "cw_sent sample_world = []" by (simp add: sample_world_def)
  moreover obtain m' ds where t: "manifest_arrived ?env m'" "list_all2 (chunk_arrived ?env) [0..<length (fm_chunks m')] ds"
    "cw_disk w' = (cw_disk sample_world)(''g'' \<mapsto> bytes_str (concat ds))"
    "length (cw_sent w') = length (cw_sent sample_world) + 1 + length (fm_chunks m')"
    using restore_writes_verified_data [of ?env "''node:b:f''" "''g''" sample_world] r by (auto simp: Let_def)
  moreover have "m' = m" using t(1) m by (auto simp: manifest_arrived_def serving_def sample_cmd_env_def)
  ultimately show ?thesis using r f(3) by auto
qed

end
