(* ===== verification/Cli.thy ===== *)
theory Cli
  imports Command
begin

text \<open>
  The program (\<open>src/main.rs\<close>): the ports from the environment, the two static nodes, the
  start of the LAN and the VPN router, the listener that prints what arrives, one command,
  and the stop. What the program prints are lines of its two output streams; the arguments
  are those of the operating system, the name of the program first.
\<close>

section \<open>Start\<close>

definition local_node_name :: string where
  "local_node_name = ''LocalNode''"

definition lan_port_default :: u16 where
  "lan_port_default = 9876"

definition vpn_port_default :: u16 where
  "vpn_port_default = 9877"

text \<open>An environment variable, if it is set and is text, and the port it gives.\<close>

definition env_port :: "u16 \<Rightarrow> string option \<Rightarrow> u16" where
  "env_port d v = (case v of None \<Rightarrow> d | Some s \<Rightarrow> (case parse_u16 s of None \<Rightarrow> d | Some p \<Rightarrow> p))"

definition setup_static_nodes :: "mem_resolver \<Rightarrow> mem_resolver" where
  "setup_static_nodes r =
     (let pikachu_id = id_from_bytes (B32 (map of_nat [0..<32]));
          r = add_static_mapping ''Pikachu'' pikachu_id r;
          charizard_id = id_from_bytes (B32 (map of_nat [32..<64]))
      in add_static_mapping ''Charizard'' charizard_id r)"

datatype output_line = Stdout string | Stderr string

text \<open>The LAN router is shared with the VPN router, which keeps it in the model.\<close>

definition start_lan_router ::
  "udp_env \<Rightarrow> (mem_resolver, 'l) vpn_router \<Rightarrow> (mem_resolver, 'l) vpn_router \<times> (router_error + unit)" where
  "start_lan_router env vr =
     (case vr_lan vr of
        None \<Rightarrow> (vr, Inr ())
      | Some lan \<Rightarrow> (case lan_start env lan of (lan, _, r) \<Rightarrow> (vr\<lparr>vr_lan := Some lan\<rparr>, r)))"

text \<open>What the LAN router receives in the 100 ms before the command.\<close>

definition lan_router_receives ::
  "udp_env \<Rightarrow> (instant \<times> socket_addr \<times> bytes) list \<Rightarrow> (mem_resolver, 'l) vpn_router \<Rightarrow> (mem_resolver, 'l) vpn_router" where
  "lan_router_receives env arrived vr =
     (case vr_lan vr of
        None \<Rightarrow> vr
      | Some lan \<Rightarrow> vr\<lparr>vr_lan := Some (fst (lan_receive_all env arrived lan))\<rparr>)"

definition warning :: "mem_resolver vpn_env \<Rightarrow> string \<Rightarrow> router_error + unit \<Rightarrow> output_line list" where
  "warning env what r =
     (case r of
        Inl e \<Rightarrow> [Stderr (''Warning: '' @ what @ '' router start failed: '' @ router_error_display (ve_hex env) e)]
      | Inr _ \<Rightarrow> [])"

definition program_router :: "node_id \<Rightarrow> u16 \<Rightarrow> u16 \<Rightarrow> (mem_resolver, 'l) vpn_router" where
  "program_router i lan_port vpn_port =
     vpn_new local_node_name i (setup_static_nodes mem_new)
       (Some (lan_with_port local_node_name i lan_port)) (relay_new i vpn_port)"

text \<open>The listener that prints has no state; it is \<open>()\<close> among the listeners.\<close>

definition program_start ::
  "mem_resolver vpn_env \<Rightarrow> (string \<Rightarrow> io_error option) \<Rightarrow> node_id \<Rightarrow> u16 \<Rightarrow> u16
   \<Rightarrow> (instant \<times> socket_addr \<times> bytes) list
   \<Rightarrow> (mem_resolver, unit cmd_listener) vpn_router \<times> output_line list" where
  "program_start env bind i lan_port vpn_port arrived =
     (let (vr, r1) = start_lan_router (ve_udp env) (program_router i lan_port vpn_port);
          (vr, r2) = vpn_start (ve_io_display env) bind vr;
          vr = lan_router_receives (ve_udp env) arrived vr
      in (register_listener (Other ()) vr, warning env ''LAN'' r1 @ warning env ''VPN'' r2))"

definition program_stop :: "(mem_resolver, 'l) vpn_router \<Rightarrow> (mem_resolver, 'l) vpn_router" where
  "program_stop vr =
     (let vr = vpn_stop vr in
      case vr_lan vr of None \<Rightarrow> vr | Some lan \<Rightarrow> vr\<lparr>vr_lan := Some (lan_stop lan)\<rparr>)"

section \<open>The listener\<close>

definition received_text :: "string \<Rightarrow> bytes \<Rightarrow> string option" where
  "received_text from_id data =
     (case from_utf8 data of
        None \<Rightarrow> None
      | Some msg \<Rightarrow>
          let line = (\<lambda>s. Some (''['' @ from_id @ ''] '' @ s)) in
          if starts_with msg ''CMD:'' then line (''Remote command received: '' @ drop (length ''CMD:'') msg)
          else if starts_with msg ''PING:'' then None
          else if starts_with msg ''BACKUP_CHUNK:'' then
            line (''Backup chunk received: '' @ show_nat (length (drop (length ''BACKUP_CHUNK:'') msg)) @ '' bytes of metadata'')
          else if starts_with msg ''BACKUP_META:'' then
            line (''Backup metadata received: '' @ show_nat (length (drop (length ''BACKUP_META:'') msg)) @ '' bytes'')
          else if starts_with msg ''RESTORE_GET_META:'' then line ''Restore metadata request received''
          else if starts_with msg ''RESTORE_GET_CHUNK:'' then line ''Restore chunk request received''
          else line (''Data received: '' @ show_nat (length msg) @ '' bytes''))"

text \<open>What a program prints for the calls of its listeners.\<close>

definition printed_calls :: "(unit cmd_listener listener \<times> string \<times> bytes) list \<Rightarrow> output_line list" where
  "printed_calls calls =
     List.map_filter (\<lambda>(l, from_id, d). if l = Client (Other ()) then map_option Stdout (received_text from_id d) else None) calls"

section \<open>The run\<close>

definition usage_text :: "string list" where
  "usage_text =
     [''LL VPN - Decentralized VPN for Lan-Link'',
      '''',
      ''Usage:'',
      ''  ll cmd node:<name> <command>    Execute command on remote node'',
      ''  ll ping node:<name>             Test connectivity to node'',
      ''  ll nodes                        List known nodes'',
      ''  ll status                       Show local node information'',
      ''  ll backup <path> node:<name>    Backup file to remote node'',
      ''  ll restore node:<name>:<path>   Restore file from remote node'',
      '''',
      ''Examples:'',
      ''  ll ping node:Pikachu'',
      ''  ll cmd node:Charizard uptime'',
      ''  ll backup /etc/config.yaml node:Pikachu'',
      ''  ll restore node:Pikachu:/backup/config.yaml ./restored.yaml'',
      ''  ll nodes'',
      ''  ll status'']"

text \<open>How a run ends: without a router, waiting for ever for a lock, or stopped.\<close>

datatype program_end =
    UsageOnly
  | HangsIn "(mem_resolver, unit) cmd_world"
  | Stopped "(mem_resolver, unit) cmd_world"

text \<open>The resolver of the command is the one the VPN router uses.\<close>

definition program_env :: "mem_resolver cmd_env \<Rightarrow> mem_resolver cmd_env" where
  "program_env env = env\<lparr>ce_vpn := (ce_vpn env)\<lparr>ve_resolve := mem_resolve\<rparr>\<rparr>"

definition program_main ::
  "mem_resolver cmd_env \<Rightarrow> (string \<Rightarrow> io_error option) \<Rightarrow> (b32 \<Rightarrow> bytes) \<Rightarrow> b32 \<Rightarrow> string option \<Rightarrow> string option
   \<Rightarrow> (instant \<times> socket_addr \<times> bytes) list \<Rightarrow> disk \<Rightarrow> string list \<Rightarrow> program_end \<times> output_line list" where
  "program_main env bind verifying_key secret lan_var vpn_var arrived disk args =
     (let lan_port = env_port lan_port_default lan_var;
          vpn_port = env_port vpn_port_default vpn_var
      in if length args < 2 then (UsageOnly, map Stdout usage_text)
         else
           let (node_id, _) = id_generate (ce_sha256 env) verifying_key secret;
               env = program_env env;
               (vr, warnings) = program_start (ce_vpn env) bind node_id lan_port vpn_port arrived
           in case execute_cmd env (drop 1 args) \<lparr>cw_vpn = vr, cw_disk = disk, cw_sent = []\<rparr> of
                (w, Hangs) \<Rightarrow> (HangsIn w, warnings)
              | (w, Returned r) \<Rightarrow>
                  (Stopped (w\<lparr>cw_vpn := program_stop (cw_vpn w)\<rparr>),
                   warnings @ [case r of Inr out \<Rightarrow> Stdout out | Inl e \<Rightarrow> Stderr (''Error: '' @ e)]))"

section \<open>Frames of other programs\<close>

text \<open>The datagrams that a LAN router of a program of this kind builds.\<close>

inductive program_frame :: "bytes \<Rightarrow> bool" where
  discover: "program_frame (build_discover_msg local_node_name i)"
| reply: "program_frame (build_discover_reply local_node_name i)"
| data: "program_frame (build_data_msg local_node_name i d)"

definition program_frames :: "(instant \<times> socket_addr \<times> bytes) list \<Rightarrow> bool" where
  "program_frames arrived \<longleftrightarrow> (\<forall>(t, from_addr, b) \<in> set arrived. program_frame b)"

lemma program_frame_shape:
  "program_frame b \<Longrightarrow> \<exists>ty i rest. b = [ty, of_nat (length local_node_name)] @ str_bytes local_node_name @ as_bytes i @ rest"
  by (induction rule: program_frame.induct)
    (auto simp: build_discover_msg_def build_discover_reply_def build_data_msg_def Let_def)

lemma utf8_local_name: "from_utf8 (str_bytes local_node_name) = Some local_node_name"
  by (rule from_utf8_str_bytes) (simp add: local_node_name_def str_bytes_def)

lemma parsed_name:
  assumes "parse_udp_frame buf = Some (t, n, i, d)" and "unat (buf ! 1) = length m"
    and "sub_slice buf header_size (header_size + length m) = str_bytes m" and "from_utf8 (str_bytes m) = Some m"
  shows "n = m"
  using assms(1) unfolding parse_udp_frame_def Let_def assms(2-4)
  by (auto split: if_splits option.splits)

text \<open>Whatever such a frame is cut to, the name that is parsed is the name of every program.\<close>

lemma program_frame_name:
  assumes "program_frame b" and "parse_udp_frame (take k b) = Some (t, n, i, d)" and "43 \<le> k"
  shows "n = local_node_name"
proof -
  obtain ty j rest where b: "b = [ty, of_nat (length local_node_name)] @ str_bytes local_node_name @ as_bytes j @ rest"
    using program_frame_shape [OF assms(1)] by blast
  let ?h = "[ty, of_nat (length local_node_name)] @ str_bytes local_node_name @ as_bytes j"
  have "length ?h = 43" by (simp add: local_node_name_def)
  then have "take k (?h @ rest) = ?h @ take (k - 43) rest" using assms(3) take_append [of k ?h rest] take_all [of ?h k] by simp
  then have "take k b = [ty, of_nat (length local_node_name)] @ str_bytes local_node_name @ as_bytes j @ take (k - 43) rest"
    by (simp only: b append_assoc)
  note f = frame_fields [OF _ this]
  have "length local_node_name < 256" by (simp add: local_node_name_def)
  then show ?thesis using assms(2) f(2,4) utf8_local_name by (intro parsed_name)
qed

section \<open>A router that knows nobody\<close>

definition no_lan_nodes :: "lan_router \<Rightarrow> bool" where
  "no_lan_nodes lan \<longleftrightarrow> lr_nodes lan = [] \<and> lr_local_name lan = local_node_name"

definition stranded :: "(mem_resolver, 'l) vpn_router \<Rightarrow> bool" where
  "stranded vr \<longleftrightarrow> (case vr_lan vr of None \<Rightarrow> True | Some lan \<Rightarrow> no_lan_nodes lan)
     \<and> rm_known_nodes (vr_relay vr) = [] \<and> rm_relay_table (vr_relay vr) = [] \<and> vr_known vr = []"

lemma receive_keeps_nobody:
  assumes "program_frame b" and "no_lan_nodes lan"
  shows "no_lan_nodes (fst (lan_receive env now from_addr b lan))"
proof (cases "parse_udp_frame (take recv_buffer b)")
  case (Some r)
  obtain t n i d where r: "r = (t, n, i, d)" by (cases r)
  then have "n = local_node_name" using program_frame_name [OF assms(1)] Some by (simp add: recv_buffer_def)
  with assms(2) show ?thesis
    by (cases t) (simp_all add: lan_receive_def Some r no_lan_nodes_def record_node_def Let_def hm_modify_def
        hm_get_def split: option.split)
qed (use assms(2) in \<open>simp add: lan_receive_def\<close>)

lemma receive_all_keeps_nobody:
  "program_frames arrived \<Longrightarrow> no_lan_nodes lan \<Longrightarrow> no_lan_nodes (fst (lan_receive_all env arrived lan))"
proof (induction arrived arbitrary: lan)
  case (Cons a rest)
  obtain t from_addr b where a: "a = (t, from_addr, b)" by (cases a)
  have "program_frame b" "program_frames rest" using Cons.prems(1) by (auto simp: program_frames_def a)
  then have "no_lan_nodes (fst (lan_receive_all env rest (fst (lan_receive env t from_addr b lan))))"
    by (intro Cons.IH receive_keeps_nobody Cons.prems(2))
  then show ?case by (simp add: a split_beta)
qed simp

lemma lan_send_to_nobody:
  assumes "no_lan_nodes lan" and "program_frames meanwhile"
  shows "\<exists>lan' out e. lan_send env meanwhile target d lan = (lan', out, Inl e) \<and> no_lan_nodes lan'"
proof -
  have "no_lan_nodes (fst (lan_receive_all env meanwhile lan))" using receive_all_keeps_nobody assms by blast
  then obtain lan' out where r: "lan_receive_all env meanwhile lan = (lan', out)" "no_lan_nodes lan'"
    by (metis prod.collapse)
  show ?thesis
    using r(2) assms(1) by (auto simp: lan_send_def no_lan_nodes_def hm_get_def Let_def r(1) split: sum.split prod.split)
qed

lemma try_lan_nobody:
  assumes "stranded vr" and "program_frames meanwhile"
  shows "\<exists>vr' out. try_lan env meanwhile target d vr = (vr', out, False) \<and> stranded vr'"
proof (cases "vr_lan vr")
  case (Some lan)
  then obtain lan' out e where "lan_send (ve_udp env) meanwhile target d lan = (lan', out, Inl e)" "no_lan_nodes lan'"
    using lan_send_to_nobody assms unfolding stranded_def by fastforce
  with assms(1) Some show ?thesis by (simp add: try_lan_def stranded_def)
qed (use assms(1) in \<open>simp add: try_lan_def\<close>)

lemma relay_send_to_nobody:
  "stranded vr \<Longrightarrow> relay_send hex net now i m (vr_relay vr) = (vr_relay vr, [], Inl (relay_error.Unreachable (id_to_hex hex i)))"
  by (simp add: stranded_def relay_send_def get_node_addr_def hm_get_def)

lemma stranded_resolver [simp]: "stranded (vr\<lparr>vr_resolver := r\<rparr>) = stranded vr"
  by (simp add: stranded_def)

lemma stranded_listeners [simp]: "stranded (vr\<lparr>vr_listeners := ls\<rparr>) = stranded vr"
  by (simp add: stranded_def)

lemma resolve_stranded: "stranded vr \<Longrightarrow> stranded (fst (vpn_resolve env now target vr))"
  by (auto simp: vpn_resolve_def split: sum.split prod.split)

lemma stranded_send:
  assumes "stranded vr" and "program_frames meanwhile"
  shows "\<exists>vr' out e. vpn_router_send env now meanwhile target d vr = (vr', (out, []), Inl e) \<and> stranded vr'"
proof -
  obtain v1 r where 1: "vpn_resolve env now target vr = (v1, r)" by force
  then have s: "stranded v1" using resolve_stranded [OF assms(1), of env now target] by simp
  obtain v2 out where 2: "try_lan env meanwhile target d v1 = (v2, out, False)" "stranded v2"
    using try_lan_nobody [OF s assms(2)] by blast
  show ?thesis using s 2(2)
    by (auto simp: vpn_router_send_def 1 2(1) relay_send_to_nobody split: sum.split prod.split)
qed

lemma stranded_ping:
  assumes "stranded vr" and "program_frames meanwhile"
  shows "\<exists>vr' out e. ping_node env now rand meanwhile answers took target vr = (vr', (out, []), Inl e) \<and> stranded vr'"
proof -
  let ?p = "''ping-'' @ show_nat (unat rand)"
  let ?m = "message_new MtData (str_bytes (''PING:'' @ ?p))"
  obtain v1 r where 1: "vpn_resolve env now target vr = (v1, r)" by force
  then have s: "stranded v1" using resolve_stranded [OF assms(1), of env now target] by simp
  let ?v = "v1\<lparr>vr_listeners := vr_listeners v1 @ [PingWait ?p]\<rparr>"
  have "stranded ?v" using s by simp
  then obtain v2 out where 2: "try_lan env meanwhile target (message_to_bytes ?m) ?v = (v2, out, False)" "stranded v2"
    using try_lan_nobody [OF _ assms(2)] by blast
  show ?thesis
  proof (cases r)
    case (Inl e)
    with s show ?thesis by (simp add: ping_node_def 1)
  next
    case (Inr q)
    obtain p i where "q = (p, i)" by force
    with Inr 2 show ?thesis by (simp add: ping_node_def 1 Let_def relay_send_to_nobody [OF 2(2)])
  qed
qed

section \<open>Commands of a program that knows nobody\<close>

definition lonely :: "mem_resolver cmd_env \<Rightarrow> (mem_resolver, unit) cmd_world \<Rightarrow> bool" where
  "lonely env w \<longleftrightarrow> stranded (cw_vpn w) \<and> cw_sent w = [] \<and> (\<forall>k. program_frames (snd (ce_round env k)))"

text \<open>A command fails, sends nothing and leaves the table of known nodes empty.\<close>

definition errs :: "mem_resolver cmd_env \<Rightarrow> (mem_resolver, unit) cmd_world \<times> (string + 'a) \<Rightarrow> bool" where
  "errs env = (\<lambda>(w, r). lonely env w \<and> (\<exists>e. r = Inl e))"

lemma cmd_send_errs: "lonely env w \<Longrightarrow> errs env (cmd_send env k target msg failure w)"
proof -
  assume l: "lonely env w"
  then obtain vr out e where "vpn_router_send (ce_vpn env) (fst (ce_round env k)) (snd (ce_round env k)) target (str_bytes msg) (cw_vpn w)
      = (vr, (out, []), Inl e)" "stranded vr"
    using stranded_send unfolding lonely_def by blast
  with l show ?thesis by (simp add: cmd_send_def errs_def lonely_def)
qed

lemma errs_Inl: "errs env p \<Longrightarrow> \<exists>w e. p = (w, Inl e) \<and> lonely env w"
  by (auto simp: errs_def split: prod.splits)

lemma send_parts_lonely:
  "lonely env w \<Longrightarrow> \<exists>w' r. send_parts env target what k msgs w = (w', r) \<and> lonely env w'"
proof (cases msgs)
  case (Cons m ms)
  assume "lonely env w"
  then obtain w' e where "cmd_send env k target m (''failed to send '' @ what @ '' '' @ show_nat k) w = (w', Inl e)" "lonely env w'"
    using cmd_send_errs errs_Inl by blast
  with Cons show ?thesis by simp
qed simp

lemma backup_fails: "lonely env w \<Longrightarrow> errs env (execute_backup env path target w)"
proof -
  assume l: "lonely env w"
  have "errs env (backup_chunks env path target n node data w)" for n node data
  proof -
    obtain m cs where c: "chunk_data (ce_sha256 env) chunker_new data = (m, cs)" by force
    let ?msgs = "map (\<lambda>(i, c). backup_message env n (length cs) (length data) i c) (List.enumerate 0 (encrypted_chunks env cs))"
    obtain w1 r where 1: "send_parts env target ''chunk'' 0 ?msgs w = (w1, r)" "lonely env w1"
      using send_parts_lonely [OF l] by blast
    have 2: "\<exists>w e. cmd_send env (length cs) target msg f w1 = (w, Inl e) \<and> lonely env w" for msg f
      using cmd_send_errs [OF 1(2)] errs_Inl by blast
    show ?thesis
    proof (cases r)
      case (Inr u)
      show ?thesis
      proof (cases "ce_manifest_encode env m")
        case (Inr json)
        obtain w2 e where "cmd_send env (length cs) target (''BACKUP_META:'' @ n @ '':'' @ json) ''failed to send metadata'' w1 = (w2, Inl e)"
          "lonely env w2" using 2 by blast
        with c 1 \<open>r = Inr u\<close> Inr show ?thesis by (simp add: backup_chunks_def errs_def)
      qed (use c 1 \<open>r = Inr u\<close> in \<open>simp add: backup_chunks_def errs_def\<close>)
    qed (use c 1 in \<open>simp add: backup_chunks_def errs_def\<close>)
  qed
  with l show ?thesis by (auto simp: execute_backup_def errs_def split: sum.split)
qed

lemma restore_fails: "lonely env w \<Longrightarrow> errs env (execute_restore env target path w)"
proof -
  assume l: "lonely env w"
  have "\<exists>w' e. fetch_manifest env node remote w = (w', Inl e) \<and> lonely env w'" for node remote
  proof -
    let ?tag = "meta_tag (ce_rand env 0)"
    have "lonely env (w\<lparr>cw_vpn := register_listener (RestoreMeta ?tag) (cw_vpn w)\<rparr>)"
      using l by (simp add: lonely_def register_listener_def)
    then obtain w' e where "cmd_send env 0 node (''RESTORE_GET_META:'' @ ?tag @ '':'' @ remote) ''failed to request metadata''
        (w\<lparr>cw_vpn := register_listener (RestoreMeta ?tag) (cw_vpn w)\<rparr>) = (w', Inl e)" "lonely env w'"
      using cmd_send_errs errs_Inl by blast
    then show ?thesis by (simp add: fetch_manifest_def cmd_request_def)
  qed
  then obtain w' e where "fetch_manifest env (''node:'' @ splitn 3 CHR '':'' target ! 1) (splitn 3 CHR '':'' target ! 2) w = (w', Inl e)"
    "lonely env w'" by blast
  with l show ?thesis by (simp add: execute_restore_def errs_def Let_def)
qed

lemma cmd_fails: "lonely env w \<Longrightarrow> errs env (execute_cmd_subcommand env target c w)"
proof -
  assume l: "lonely env w"
  obtain r q where q: "resolve_address (ve_resolve (ce_vpn env) (fst (ce_round env 0))) target (vr_resolver (cw_vpn w)) = (r, q)" by force
  let ?w = "w\<lparr>cw_vpn := (cw_vpn w)\<lparr>vr_resolver := r\<rparr>\<rparr>"
  have "lonely env ?w" using l by (simp add: lonely_def)
  then obtain w' e where "cmd_send env 0 target (''CMD:'' @ c) ''send failed'' ?w = (w', Inl e)" "lonely env w'"
    using cmd_send_errs errs_Inl by blast
  with q \<open>lonely env ?w\<close> show ?thesis by (auto simp: execute_cmd_subcommand_def errs_def split: sum.split)
qed

lemma ping_fails: "lonely env w \<Longrightarrow> errs env (execute_ping env target w)"
proof -
  assume l: "lonely env w"
  then obtain vr out e where "ping_node (ce_vpn env) (fst (ce_round env 0)) (ce_rand env 0) (snd (ce_round env 0)) (ce_answers env 0)
      (ce_rtt env) target (cw_vpn w) = (vr, (out, []), Inl e)" "stranded vr"
    using stranded_ping unfolding lonely_def by blast
  with l show ?thesis by (cases e) (simp_all add: execute_ping_def errs_def lonely_def)
qed

lemma increment_fails:
  assumes l: "lonely env w"
  shows "\<exists>w' e. execute_increment env path target w = (w', Returned (Inl e)) \<and> lonely env w'"
proof (cases "parse_address target")
  case (Inr parsed)
  note p = this
  show ?thesis
  proof (cases "cmd_read_file env path w")
    case (Inr data)
    let ?n = "file_name_of path"
    obtain m cs where c: "chunk_data (ce_sha256 env) chunker_new data = (m, cs)" by force
    let ?msgs = "map (\<lambda>(i, c). block_message env ?n (length cs) (length data) i c) (List.enumerate 0 cs)"
    obtain w1 r where 1: "send_parts env target ''block'' 0 ?msgs w = (w1, r)" "lonely env w1"
      using send_parts_lonely [OF l] by blast
    show ?thesis
    proof (cases r)
      case (Inr u)
      show ?thesis
      proof (cases "ce_manifest_encode env m")
        case (Inr json)
        obtain w2 e where "cmd_send env (length cs) target (''INCR_MANIFEST:'' @ ?n @ '':'' @ json) ''failed to send manifest'' w1 = (w2, Inl e)"
          "lonely env w2" using cmd_send_errs [OF 1(2)] errs_Inl by blast
        with p \<open>cmd_read_file env path w = Inr data\<close> c 1 \<open>r = Inr u\<close> Inr show ?thesis
          by (simp add: execute_increment_def Let_def)
      qed (use p Inr \<open>cmd_read_file env path w = Inr data\<close> c 1 in \<open>simp add: execute_increment_def Let_def\<close>)
    qed (use p Inr c 1 in \<open>simp add: execute_increment_def Let_def\<close>)
  qed (use p l in \<open>simp add: execute_increment_def\<close>)
qed (use l in \<open>simp add: execute_increment_def\<close>)

lemma returned_errs: "errs env p \<Longrightarrow> \<exists>w e. returned p = (w, Returned (Inl e)) \<and> lonely env w"
  by (auto simp: errs_def returned_def split: prod.splits)

lemma command_fails:
  assumes "lonely env w" and "command_target c \<noteq> None"
  shows "\<exists>w' e. execute_command env c w = (w', Returned (Inl e)) \<and> lonely env w'"
  using assms by (cases c) (simp_all, (metis returned_errs cmd_fails ping_fails backup_fails restore_fails increment_fails)+)

lemma start_lonely:
  assumes "program_frames arrived"
  shows "stranded (fst (program_start env bind i lan_port vpn_port arrived))"
proof -
  let ?lan = "lan_with_port local_node_name i lan_port"
  obtain lan out r where 1: "lan_start (ve_udp env) ?lan = (lan, out, r)" using prod_cases3 by blast
  have "no_lan_nodes lan"
    using 1 by (auto simp: lan_start_def Let_def no_lan_nodes_def lan_with_port_def hm_empty_def split: option.splits)
  then have "no_lan_nodes (fst (lan_receive_all (ve_udp env) arrived lan))" using receive_all_keeps_nobody assms by blast
  then show ?thesis
    by (auto simp: program_start_def start_lan_router_def program_router_def vpn_new_def vpn_with_port_def vpn_start_def 1
        relay_start_def relay_new_def lan_router_receives_def stranded_def register_listener_def hm_empty_def Let_def
        split: prod.split sum.split)
qed

text \<open>C17. A program reaches no other: whatever its arguments and the errors of its
  sockets are, when all datagrams that arrive were built by programs of the same kind,
  a command with a target ends with an error, no message was sent, and no node is
  known. All programs have the same name on the LAN, and none ever registers the
  address of another.\<close>

theorem program_reaches_no_one:
  assumes "parse_command (drop 1 args) = Inr c" and "command_target c \<noteq> None"
    and "program_frames arrived" and "\<And>k. program_frames (snd (ce_round env k))"
  shows "\<exists>w warnings e. program_main env bind vk secret lan_var vpn_var arrived disk args
      = (Stopped w, warnings @ [Stderr (''Error: '' @ e)]) \<and> cw_sent w = [] \<and> vpn_known_count (cw_vpn w) = 0"
proof -
  let ?env = "program_env env" and ?i = "from_public_key (ce_sha256 env) (vk secret)"
  obtain vr warnings where s: "program_start (ce_vpn ?env) bind ?i (env_port lan_port_default lan_var)
      (env_port vpn_port_default vpn_var) arrived = (vr, warnings)" by force
  let ?w = "\<lparr>cw_vpn = vr, cw_disk = disk, cw_sent = []\<rparr>"
  have "lonely ?env ?w"
    using start_lonely [OF assms(3)] assms(4) s by (metis lonely_def fst_conv cmd_world.select_convs program_env_def
        cmd_env.simps(2) cmd_env.surjective cmd_env.update_convs(1))
  then obtain w e where w: "execute_command ?env c ?w = (w, Returned (Inl e))" "lonely ?env w"
    using command_fails assms(2) by blast
  have "parse_command [] = Inl ''empty command. Usage: ll <cmd|ping|nodes|status> [args]''" by (simp add: parse_command_def)
  then have "drop 1 args \<noteq> []" using assms(1) by force
  then have "\<not> length args < 2" by simp
  then have "program_main env bind vk secret lan_var vpn_var arrived disk args
      = (Stopped (w\<lparr>cw_vpn := program_stop (cw_vpn w)\<rparr>), warnings @ [Stderr (''Error: '' @ e)])"
    using s w(1) assms(1) by (simp add: program_main_def id_generate_def execute_cmd_def Let_def)
  moreover have "vr_known (program_stop v) = vr_known v" for v :: "(mem_resolver, unit cmd_listener) vpn_router"
    by (simp add: program_stop_def vpn_stop_def Let_def split: option.split)
  ultimately show ?thesis
    using w(2) by (simp add: lonely_def stranded_def vpn_known_count_def hm_len_def)
qed

section \<open>Example\<close>

text \<open>During the command the reply of another program arrives.\<close>

definition sample_program_env :: "mem_resolver cmd_env" where
  "sample_program_env =
     \<lparr>ce_vpn = \<lparr>ve_hex = (\<lambda>_. []), ve_net = sample_net, ve_io_display = (\<lambda>_. []), ve_udp = sample_udp, ve_resolve = mem_resolve\<rparr>,
      ce_round = (\<lambda>_. (5, [(1, (''10.0.0.9'', 9876), build_discover_reply local_node_name (fill32 9))])),
      ce_answers = ce_answers sample_cmd_env, ce_rand = ce_rand sample_cmd_env, ce_clock = ce_clock sample_cmd_env,
      ce_rtt = 0, ce_rnd = id, ce_json_show = ce_json_show sample_cmd_env, ce_json_parse = ce_json_parse sample_cmd_env,
      ce_manifest_encode = ce_manifest_encode sample_cmd_env, ce_manifest_decode = ce_manifest_decode sample_cmd_env,
      ce_hex_decode = ce_hex_decode sample_cmd_env, ce_sha256 = ce_sha256 sample_cmd_env, ce_aes = sample_aes,
      ce_key = fill32 7, ce_nonce = ce_nonce sample_cmd_env, ce_not_found = ''not found'', ce_read = (\<lambda>_. Inr ()),
      ce_parent = (\<lambda>_. None), ce_create_dir = (\<lambda>_. Inr ()), ce_write = (\<lambda>_. Inr ()), ce_metadata = sample_env,
      ce_versions = ce_versions sample_cmd_env\<rparr>"

theorem program_reaches_no_one_witness:
  "\<exists>w warnings e. program_main sample_program_env (\<lambda>_. None) (\<lambda>_. []) (fill32 1) None (Some ''9900'') [] (\<lambda>_. None)
       [''ll'', ''ping'', ''node:Pikachu''] = (Stopped w, warnings @ [Stderr (''Error: '' @ e)])
     \<and> cw_sent w = [] \<and> vpn_known_count (cw_vpn w) = 0"
proof (rule program_reaches_no_one)
  show "parse_command (drop 1 [''ll'', ''ping'', ''node:Pikachu'']) = Inr (Ping ''node:Pikachu'')"
    by (simp add: parse_command_def parse_short_command_def is_node_address_def)
qed (simp_all add: program_frames_def sample_program_env_def program_frame.reply)

end
