(* ===== verification/ElectionCheck.thy ===== *)
theory ElectionCheck
  imports Election HashMap
begin

text \<open>
  The program that checks the election (\<open>src/bin/verify_election.rs\<close>): nodes with inboxes on
  a simulated network, a node of the election, and the run with its assertions. The program
  does not use the manager of \<open>src/registry/election.rs\<close>; it has rules of its own. A panic,
  of an assertion or of \<open>unwrap\<close> on a payload that is not JSON of the expected type, is
  \<open>None\<close>; the identities that the run generates are its argument. What it prints is left
  out.
\<close>

section \<open>Nodes and network\<close>

record mock_node =
  mn_id :: node_id
  mn_name :: string
  mn_addr :: string
  mn_inbox :: "(string \<times> bytes) list"

definition mock_addr :: "u16 \<Rightarrow> string" where
  "mock_addr port = ''127.0.0.1:'' @ show_nat (unat port)"

definition mock_new :: "node_id \<Rightarrow> string \<Rightarrow> u16 \<Rightarrow> mock_node" where
  "mock_new i name port = \<lparr>mn_id = i, mn_name = name, mn_addr = mock_addr port, mn_inbox = []\<rparr>"

definition mock_receive :: "string \<Rightarrow> bytes \<Rightarrow> mock_node \<Rightarrow> mock_node" where
  "mock_receive from_addr msg node = node\<lparr>mn_inbox := mn_inbox node @ [(from_addr, msg)]\<rparr>"

definition mock_take_messages :: "mock_node \<Rightarrow> mock_node \<times> (string \<times> bytes) list" where
  "mock_take_messages node = (node\<lparr>mn_inbox := []\<rparr>, mn_inbox node)"

text \<open>The network shares its nodes with everyone else: the inboxes are kept here.\<close>

type_synonym sim_network = "(string, mock_node) hashmap"

definition network_register :: "mock_node \<Rightarrow> sim_network \<Rightarrow> sim_network" where
  "network_register node net = hm_insert (mn_addr node) node net"

definition network_send :: "string \<Rightarrow> string \<Rightarrow> bytes \<Rightarrow> sim_network \<Rightarrow> sim_network \<times> (string + unit)" where
  "network_send to_addr from_addr msg net =
     (case hm_get net to_addr of
        Some node \<Rightarrow> (hm_insert to_addr (mock_receive from_addr msg node) net, Inr ())
      | None \<Rightarrow> (net, Inl (''node '' @ to_addr @ '' not found'')))"

definition network_broadcast :: "string \<Rightarrow> bytes \<Rightarrow> sim_network \<Rightarrow> sim_network" where
  "network_broadcast from_addr msg net =
     fold (\<lambda>addr net. if addr \<noteq> from_addr then fst (network_send addr from_addr msg net) else net) (hm_keys net) net"

section \<open>A node of the election\<close>

record election_node =
  vn_id :: node_id
  vn_name :: string
  vn_addr :: string
  vn_status :: registry_status
  vn_term :: u64
  vn_voted_for :: "node_id option"
  vn_votes_received :: "node_id list"
  vn_registry_id :: "node_id option"
  vn_registry_addr :: "string option"
  vn_missed :: u32
  vn_all_nodes :: "(node_id \<times> string \<times> string) list"
  vn_threshold :: u32

definition sim_node_new :: "mock_node \<Rightarrow> election_node" where
  "sim_node_new node =
     \<lparr>vn_id = mn_id node, vn_name = mn_name node, vn_addr = mn_addr node, vn_status = Follower, vn_term = 0,
      vn_voted_for = None, vn_votes_received = [], vn_registry_id = None, vn_registry_addr = None, vn_missed = 0,
      vn_all_nodes = [], vn_threshold = 3\<rparr>"

definition sim_set_known_nodes :: "(node_id \<times> string \<times> string) list \<Rightarrow> election_node \<Rightarrow> election_node" where
  "sim_set_known_nodes nodes n = n\<lparr>vn_all_nodes := nodes\<rparr>"

definition sim_set_registry :: "node_id \<Rightarrow> string \<Rightarrow> election_node \<Rightarrow> election_node" where
  "sim_set_registry i addr n = n\<lparr>vn_registry_id := Some i, vn_registry_addr := Some addr, vn_missed := 0\<rparr>"

definition sim_missed_heartbeat :: "election_node \<Rightarrow> election_node" where
  "sim_missed_heartbeat n = n\<lparr>vn_missed := vn_missed n + 1\<rparr>"

definition sim_registry_healthy :: "election_node \<Rightarrow> bool" where
  "sim_registry_healthy n \<longleftrightarrow> vn_missed n < vn_threshold n"

definition sim_should_start :: "election_node \<Rightarrow> bool" where
  "sim_should_start n \<longleftrightarrow> vn_status n = Follower \<and> vn_registry_id n \<noteq> None \<and> \<not> sim_registry_healthy n"

type_synonym sim_state = "election_node \<times> sim_network"

definition sim_start_election :: "json_codec \<Rightarrow> sim_state \<Rightarrow> sim_state" where
  "sim_start_election c = (\<lambda>(n, net).
     let n = n\<lparr>vn_status := Candidate, vn_term := vn_term n + 1, vn_voted_for := Some (vn_id n),
               vn_votes_received := [vn_id n]\<rparr>;
         payload = \<lparr>er_candidate_id = vn_id n, er_candidate_name = vn_name n, er_term = vn_term n\<rparr>
     in (n, network_broadcast (vn_addr n) (election_type_to_u8 ElectionRequest # enc_request c payload) net))"

definition sim_vote_message :: "json_codec \<Rightarrow> election_node \<Rightarrow> election_request \<Rightarrow> bool \<Rightarrow> bytes" where
  "sim_vote_message c n req granted =
     election_type_to_u8 ElectionVote #
       enc_vote c \<lparr>ev_voter_id = vn_id n, ev_candidate_id = er_candidate_id req, ev_term = er_term req, ev_granted = granted\<rparr>"

definition sim_handle_request :: "json_codec \<Rightarrow> string \<Rightarrow> bytes \<Rightarrow> sim_state \<Rightarrow> sim_state option" where
  "sim_handle_request c from_addr payload = (\<lambda>(n, net).
     case dec_request c payload of
       Inl _ \<Rightarrow> None
     | Inr req \<Rightarrow>
         if er_term req < vn_term n then
           Some (n, fst (network_send from_addr (vn_addr n) (sim_vote_message c n req False) net))
         else
           let n = (if vn_term n < er_term req
                    then n\<lparr>vn_term := er_term req, vn_status := Follower, vn_voted_for := None\<rparr> else n);
               granted = (if vn_voted_for n \<noteq> None then False
                          else if er_candidate_id req = vn_id n then True
                          else True);
               n = (if granted then n\<lparr>vn_voted_for := Some (er_candidate_id req)\<rparr> else n)
           in Some (n, fst (network_send from_addr (vn_addr n) (sim_vote_message c n req granted) net)))"

definition sim_become_leader :: "json_codec \<Rightarrow> sim_state \<Rightarrow> sim_state" where
  "sim_become_leader c = (\<lambda>(n, net).
     let n = n\<lparr>vn_status := Leader, vn_registry_id := Some (vn_id n), vn_registry_addr := Some (vn_addr n)\<rparr>;
         result = \<lparr>es_leader_id = vn_id n, es_leader_name = vn_name n, es_term = vn_term n\<rparr>;
         net = network_broadcast (vn_addr n) (election_type_to_u8 ElectionResult # enc_result c result) net;
         change = \<lparr>rc_registry_id = vn_id n, rc_registry_name = vn_name n, rc_registry_addr = vn_addr n, rc_term = vn_term n\<rparr>
     in (n, network_broadcast (vn_addr n) (election_type_to_u8 RegistryChange # enc_change c change) net))"

definition sim_handle_vote :: "json_codec \<Rightarrow> bytes \<Rightarrow> sim_state \<Rightarrow> sim_state option" where
  "sim_handle_vote c payload = (\<lambda>(n, net).
     case dec_vote c payload of
       Inl _ \<Rightarrow> None
     | Inr vote \<Rightarrow>
         if vn_status n \<noteq> Candidate then Some (n, net)
         else if ev_term vote \<noteq> vn_term n then Some (n, net)
         else if ev_candidate_id vote \<noteq> vn_id n then Some (n, net)
         else if ev_granted vote \<and> ev_voter_id vote \<notin> set (vn_votes_received n) then
           let n = n\<lparr>vn_votes_received := vn_votes_received n @ [ev_voter_id vote]\<rparr>
           in if length (vn_all_nodes n) div 2 < length (vn_votes_received n)
              then Some (sim_become_leader c (n, net)) else Some (n, net)
         else Some (n, net))"

definition sim_handle_result :: "json_codec \<Rightarrow> bytes \<Rightarrow> sim_state \<Rightarrow> sim_state option" where
  "sim_handle_result c payload = (\<lambda>(n, net).
     case dec_result c payload of
       Inl _ \<Rightarrow> None
     | Inr r \<Rightarrow>
         if es_leader_id r = vn_id n then Some (n, net)
         else if es_term r < vn_term n then Some (n, net)
         else Some (n\<lparr>vn_term := es_term r, vn_status := Follower, vn_registry_id := Some (es_leader_id r)\<rparr>, net))"

definition sim_handle_change :: "json_codec \<Rightarrow> bytes \<Rightarrow> sim_state \<Rightarrow> sim_state option" where
  "sim_handle_change c payload = (\<lambda>(n, net).
     case dec_change c payload of
       Inl _ \<Rightarrow> None
     | Inr ch \<Rightarrow>
         if rc_registry_id ch = vn_id n then Some (n, net)
         else if rc_term ch < vn_term n then Some (n, net)
         else Some (n\<lparr>vn_term := rc_term ch, vn_status := Follower, vn_registry_id := Some (rc_registry_id ch),
                      vn_registry_addr := Some (rc_registry_addr ch)\<rparr>, net))"

definition sim_handle_sync :: "json_codec \<Rightarrow> string \<Rightarrow> bytes \<Rightarrow> sim_state \<Rightarrow> sim_state option" where
  "sim_handle_sync c from_addr payload = (\<lambda>(n, net).
     case dec_sync c payload of
       Inl _ \<Rightarrow> None
     | Inr sy \<Rightarrow>
         if vn_status n \<noteq> Leader then Some (n, net)
         else if vn_term n < sy_term sy then Some (n\<lparr>vn_status := Follower\<rparr>, net)
         else
           let response = \<lparr>sr_leader_id = vn_id n, sr_leader_name = vn_name n, sr_term = vn_term n,
                           sr_registry_data = ''{'' @ [CHR 0x22] @ ''names'' @ [CHR 0x22] @ '':{}}''\<rparr>
           in Some (n, fst (network_send from_addr (vn_addr n)
                (election_type_to_u8 RegistrySync # enc_response c response) net)))"

definition sim_handle_message :: "json_codec \<Rightarrow> string \<Rightarrow> bytes \<Rightarrow> sim_state \<Rightarrow> sim_state option" where
  "sim_handle_message c from_addr data s =
     (case data of
        [] \<Rightarrow> Some s
      | msg_type # payload \<Rightarrow>
          (case election_type_from_u8 msg_type of
             Some ElectionRequest \<Rightarrow> sim_handle_request c from_addr payload s
           | Some ElectionVote \<Rightarrow> sim_handle_vote c payload s
           | Some ElectionResult \<Rightarrow> sim_handle_result c payload s
           | Some RegistryChange \<Rightarrow> sim_handle_change c payload s
           | Some RegistrySync \<Rightarrow> sim_handle_sync c from_addr payload s
           | None \<Rightarrow> Some s))"

fun sim_handle_all :: "json_codec \<Rightarrow> (string \<times> bytes) list \<Rightarrow> sim_state \<Rightarrow> sim_state option" where
  "sim_handle_all c [] s = Some s"
| "sim_handle_all c ((from_addr, data) # msgs) s =
     (case sim_handle_message c from_addr data s of None \<Rightarrow> None | Some s \<Rightarrow> sim_handle_all c msgs s)"

definition sim_process_inbox :: "json_codec \<Rightarrow> sim_state \<Rightarrow> sim_state option" where
  "sim_process_inbox c = (\<lambda>(n, net).
     case hm_get net (vn_addr n) of
       None \<Rightarrow> Some (n, net)
     | Some node \<Rightarrow>
         (case mock_take_messages node of
            (node, msgs) \<Rightarrow> sim_handle_all c msgs (n, hm_insert (vn_addr n) node net)))"

section \<open>The run\<close>

fun sim_round :: "json_codec \<Rightarrow> election_node list \<Rightarrow> sim_network \<Rightarrow> (election_node list \<times> sim_network) option" where
  "sim_round c [] net = Some ([], net)"
| "sim_round c (n # ns) net =
     (case sim_process_inbox c (n, net) of
        None \<Rightarrow> None
      | Some (n, net) \<Rightarrow>
          (case sim_round c ns net of None \<Rightarrow> None | Some (ns, net) \<Rightarrow> Some (n # ns, net)))"

fun sim_rounds :: "nat \<Rightarrow> json_codec \<Rightarrow> election_node list \<times> sim_network \<Rightarrow> (election_node list \<times> sim_network) option" where
  "sim_rounds 0 c s = Some s"
| "sim_rounds (Suc k) c s = (case sim_round c (fst s) (snd s) of None \<Rightarrow> None | Some s \<Rightarrow> sim_rounds k c s)"

definition node_names :: "string list" where
  "node_names = [''Alice'', ''Bob'', ''Carol'', ''Dave'', ''Eve'']"

definition base_port :: u16 where
  "base_port = 9900"

text \<open>Steps 1 and 2; one identity for each name.\<close>

definition sim_setup :: "node_id list \<Rightarrow> election_node list \<times> sim_network" where
  "sim_setup ids =
     (let nodes = map (\<lambda>(k, i, name). mock_new i name (base_port + of_nat k)) (List.enumerate 0 (zip ids node_names));
          net = fold network_register nodes hm_empty;
          known = map (\<lambda>n. (mn_id n, mn_name n, mn_addr n)) nodes;
          ens = map (\<lambda>n. sim_set_registry (hd ids) (mock_addr base_port) (sim_set_known_nodes known (sim_node_new n))) nodes
      in (ens[0 := (ens ! 0)\<lparr>vn_status := Leader\<rparr>], net))"

text \<open>Steps 4 and 5: the heartbeats that are missed, and the first election that starts.\<close>

definition sim_miss_three :: "election_node list \<Rightarrow> election_node list" where
  "sim_miss_three ens =
     (case ens of [] \<Rightarrow> [] | n # ns \<Rightarrow> n # map (\<lambda>n. sim_missed_heartbeat (sim_missed_heartbeat (sim_missed_heartbeat n))) ns)"

fun sim_first_election :: "json_codec \<Rightarrow> election_node list \<Rightarrow> sim_network \<Rightarrow> election_node list \<times> sim_network" where
  "sim_first_election c [] net = ([], net)"
| "sim_first_election c (n # ns) net =
     (if sim_should_start n then (case sim_start_election c (n, net) of (n, net) \<Rightarrow> (n # ns, net))
      else case sim_first_election c ns net of (ns, net) \<Rightarrow> (n # ns, net))"

definition sim_leaders :: "election_node list \<Rightarrow> nat list" where
  "sim_leaders ens = filter (\<lambda>k. vn_status (ens ! k) = Leader) [0..<length ens]"

text \<open>The assertions of step 7 and step 9, for the leader at the index \<open>k\<close>.\<close>

definition sim_followers_agree :: "nat \<Rightarrow> election_node list \<Rightarrow> bool" where
  "sim_followers_agree k ens \<longleftrightarrow>
     list_all (\<lambda>j. j = k \<or> vn_status (ens ! j) = Follower \<and> vn_registry_id (ens ! j) = Some (vn_id (ens ! k))) [0..<length ens]"

definition sim_terms_agree :: "nat \<Rightarrow> election_node list \<Rightarrow> bool" where
  "sim_terms_agree k ens \<longleftrightarrow>
     list_all (\<lambda>j. j = k \<or> vn_term (ens ! k) \<le> vn_term (ens ! j) \<or> vn_term (ens ! j) = 0) [0..<length ens]"

definition check_that :: "bool \<Rightarrow> 'a option \<Rightarrow> 'a option" where
  "check_that b r = (if b then r else None)"

text \<open>Step 8 to the end: the result of an old term, the request for the data, the terms.\<close>

definition sim_old_centre_returns ::
  "json_codec \<Rightarrow> nat \<Rightarrow> election_node list \<times> sim_network \<Rightarrow> (election_node list \<times> sim_network) option" where
  "sim_old_centre_returns c k = (\<lambda>(ens, net).
     let alice = hd ens;
         old = \<lparr>es_leader_id = vn_id alice, es_leader_name = ''Alice'', es_term = 0\<rparr>;
         net = network_broadcast (vn_addr alice) (election_type_to_u8 ElectionResult # enc_result c old) net
     in case sim_round c ens net of
          None \<Rightarrow> None
        | Some (ens, net) \<Rightarrow>
            check_that (vn_status (ens ! k) = Leader)
              (let sync = \<lparr>sy_requester_id = vn_id alice, sy_requester_name = ''Alice'', sy_term = vn_term (ens ! k)\<rparr>;
                   net = fst (network_send (vn_addr (ens ! k)) (vn_addr alice)
                                (election_type_to_u8 RegistrySync # enc_sync c sync) net)
               in case sim_round c ens net of
                    None \<Rightarrow> None
                  | Some (ens, net) \<Rightarrow> check_that (sim_terms_agree k ens) (Some (ens, net))))"

definition verify_run :: "json_codec \<Rightarrow> node_id list \<Rightarrow> (election_node list \<times> sim_network) option" where
  "verify_run c ids =
     (case sim_rounds 2 c (sim_setup ids) of
        None \<Rightarrow> None
      | Some (ens, net) \<Rightarrow>
          check_that (list_all sim_registry_healthy ens)
            (case sim_miss_three ens of
               [] \<Rightarrow> None
             | alice # others \<Rightarrow>
                 (case sim_first_election c others net of
                    (others, net) \<Rightarrow>
                      (case sim_rounds 4 c (alice # others, net) of
                         None \<Rightarrow> None
                       | Some (ens, net) \<Rightarrow>
                           (case sim_leaders ens of
                              [k] \<Rightarrow> check_that (sim_followers_agree k ens) (sim_old_centre_returns c k (ens, net))
                            | _ \<Rightarrow> None)))))"

section \<open>The network\<close>

text \<open>A network by the addresses, identities and names of its nodes and by their inboxes.\<close>

definition net_of :: "(string \<times> node_id \<times> string) list \<Rightarrow> (string \<Rightarrow> (string \<times> bytes) list) \<Rightarrow> sim_network" where
  "net_of nodes box = map (\<lambda>(a, i, name). (a, \<lparr>mn_id = i, mn_name = name, mn_addr = a, mn_inbox = box a\<rparr>)) nodes"

lemma net_get_aux:
  "distinct (map fst nodes) \<Longrightarrow> (a, i, name) \<in> set nodes \<Longrightarrow>
     hm_get (net_of nodes box) a = Some \<lparr>mn_id = i, mn_name = name, mn_addr = a, mn_inbox = box a\<rparr>"
  by (induction nodes) (force simp: net_of_def hm_get_def)+

lemma net_of_cong: "(\<And>a. a \<in> fst ` set nodes \<Longrightarrow> box a = box' a) \<Longrightarrow> net_of nodes box = net_of nodes box'"
  by (force simp: net_of_def)

lemma net_insert_aux:
  "distinct (map fst nodes) \<Longrightarrow> (a, i, name) \<in> set nodes \<Longrightarrow>
     hm_insert a \<lparr>mn_id = i, mn_name = name, mn_addr = a, mn_inbox = b\<rparr> (net_of nodes box) = net_of nodes (box(a := b))"
proof (induction nodes)
  case (Cons x nodes)
  obtain a' i' name' where x: "x = (a', i', name')" by (cases x)
  show ?case
  proof (cases "a = a'")
    case True
    then have "a \<notin> fst ` set nodes" using Cons.prems(1) x by simp
    then have "net_of nodes (box(a := b)) = net_of nodes box" "i = i'" "name = name'"
      using Cons.prems(2) x True by (auto intro!: net_of_cong) force+
    with True show ?thesis by (simp add: x net_of_def hm_insert_def)
  qed (use Cons in \<open>auto simp: x net_of_def hm_insert_def\<close>)
qed simp

lemma net_keys: "hm_keys (net_of nodes box) = map fst nodes"
  by (simp add: hm_keys_def net_of_def split_beta comp_def)

definition delivered :: "string \<Rightarrow> string \<Rightarrow> bytes \<Rightarrow> (string \<Rightarrow> (string \<times> bytes) list) \<Rightarrow> string \<Rightarrow> (string \<times> bytes) list" where
  "delivered to_addr from_addr msg box = box(to_addr := box to_addr @ [(from_addr, msg)])"

lemma net_send:
  assumes "distinct (map fst nodes)" and "to_addr \<in> fst ` set nodes"
  shows "network_send to_addr from_addr msg (net_of nodes box) = (net_of nodes (delivered to_addr from_addr msg box), Inr ())"
proof -
  obtain i name where m: "(to_addr, i, name) \<in> set nodes" using assms(2) by force
  show ?thesis using net_get_aux [OF assms(1) m] net_insert_aux [OF assms(1) m]
    by (simp add: network_send_def mock_receive_def delivered_def)
qed

definition broadcast_box :: "string \<Rightarrow> bytes \<Rightarrow> (string \<Rightarrow> (string \<times> bytes) list) \<Rightarrow> string \<Rightarrow> (string \<times> bytes) list" where
  "broadcast_box from_addr msg box a = (if a = from_addr then box a else box a @ [(from_addr, msg)])"

text \<open>A broadcast puts the message once into every inbox but that of the sender.\<close>

lemma net_broadcast:
  assumes "distinct (map fst nodes)"
  shows "network_broadcast from_addr msg (net_of nodes box) = net_of nodes (broadcast_box from_addr msg box)"
proof -
  let ?f = "\<lambda>addr net. if addr \<noteq> from_addr then fst (network_send addr from_addr msg net) else net"
  have "fold ?f as (net_of nodes box)
      = net_of nodes (\<lambda>a. if a \<in> set as \<and> a \<noteq> from_addr then box a @ [(from_addr, msg)] else box a)"
    if "distinct as" "set as \<subseteq> fst ` set nodes" for as
    using that
  proof (induction as arbitrary: box)
    case (Cons a as)
    then have a: "a \<in> fst ` set nodes" "distinct as" "set as \<subseteq> fst ` set nodes" "a \<notin> set as" by auto
    have s: "?f a (net_of nodes box) = net_of nodes (if a \<noteq> from_addr then delivered a from_addr msg box else box)"
      using net_send [OF assms a(1)] by simp
    show ?case using a(4) unfolding fold_simps s Cons.IH [OF a(2,3)]
      by (intro net_of_cong) (auto simp: delivered_def)
  qed simp
  from this [of "map fst nodes"] assms show ?thesis
    unfolding network_broadcast_def net_keys by (simp add: broadcast_box_def) (rule net_of_cong, simp add: broadcast_box_def)
qed

lemma net_take:
  assumes "distinct (map fst nodes)" and "vn_addr n \<in> fst ` set nodes"
  shows "sim_process_inbox c (n, net_of nodes box) = sim_handle_all c (box (vn_addr n)) (n, net_of nodes (box(vn_addr n := [])))"
proof -
  obtain i name where m: "(vn_addr n, i, name) \<in> set nodes" using assms(2) by force
  show ?thesis using net_get_aux [OF assms(1) m] net_insert_aux [OF assms(1) m]
    by (simp add: sim_process_inbox_def mock_take_messages_def)
qed

section \<open>What a node does with its inbox\<close>

text \<open>Decoding gives back what was encoded: the documented contract of \<open>serde_json\<close> on these types.\<close>

definition payloads_ok :: "json_codec \<Rightarrow> bool" where
  "payloads_ok c \<longleftrightarrow> (\<forall>x. dec_request c (enc_request c x) = Inr x) \<and> (\<forall>x. dec_vote c (enc_vote c x) = Inr x)
     \<and> (\<forall>x. dec_result c (enc_result c x) = Inr x) \<and> (\<forall>x. dec_change c (enc_change c x) = Inr x)
     \<and> (\<forall>x. dec_sync c (enc_sync c x) = Inr x)"

definition nodes_ok :: "(string \<times> node_id \<times> string) list \<Rightarrow> election_node \<Rightarrow> bool" where
  "nodes_ok nodes n \<longleftrightarrow> distinct (map fst nodes) \<and> vn_addr n \<in> fst ` set nodes"

definition req_msg :: "json_codec \<Rightarrow> election_request \<Rightarrow> bytes" where
  "req_msg c r = election_type_to_u8 ElectionRequest # enc_request c r"

definition result_msg :: "json_codec \<Rightarrow> election_result \<Rightarrow> bytes" where
  "result_msg c r = election_type_to_u8 ElectionResult # enc_result c r"

definition change_msg :: "json_codec \<Rightarrow> registry_change \<Rightarrow> bytes" where
  "change_msg c r = election_type_to_u8 RegistryChange # enc_change c r"

definition sync_msg :: "json_codec \<Rightarrow> registry_sync \<Rightarrow> bytes" where
  "sync_msg c r = election_type_to_u8 RegistrySync # enc_sync c r"

lemma inbox_in_network:
  assumes "nodes_ok nodes n"
  shows "\<exists>node. hm_get (net_of nodes box) (vn_addr n) = Some node \<and> mn_inbox node = box (vn_addr n)"
proof -
  obtain i name where "(vn_addr n, i, name) \<in> set nodes" using assms unfolding nodes_ok_def by force
  with net_get_aux assms show ?thesis unfolding nodes_ok_def by fastforce
qed

lemma type_codes: "election_type_from_u8 17 = Some ElectionRequest" "election_type_from_u8 18 = Some ElectionVote"
  "election_type_from_u8 19 = Some ElectionResult" "election_type_from_u8 20 = Some RegistryChange"
  "election_type_from_u8 21 = Some RegistrySync"
  by (simp_all add: election_type_from_u8_def)

lemma idle_inbox: "nodes_ok nodes n \<Longrightarrow> box (vn_addr n) = [] \<Longrightarrow> sim_process_inbox c (n, net_of nodes box) = Some (n, net_of nodes box)"
proof -
  assume "nodes_ok nodes n" "box (vn_addr n) = []"
  moreover from this have "box(vn_addr n := []) = box" by auto
  ultimately show ?thesis by (simp add: nodes_ok_def net_take)
qed

text \<open>A follower that hears of a new term votes for whoever asks first.\<close>

lemma follower_votes:
  assumes "payloads_ok c" and "nodes_ok nodes n" and "box (vn_addr n) = [(from_addr, req_msg c r)]"
    and "vn_term n < er_term r" and "from_addr \<in> fst ` set nodes"
  shows "sim_process_inbox c (n, net_of nodes box)
    = Some (n\<lparr>vn_term := er_term r, vn_status := Follower, vn_voted_for := Some (er_candidate_id r)\<rparr>,
            net_of nodes (delivered from_addr (vn_addr n) (sim_vote_message c n r True) (box(vn_addr n := []))))"
proof -
  have "sim_vote_message c (n\<lparr>vn_term := t, vn_status := s, vn_voted_for := v\<rparr>) r True = sim_vote_message c n r True" for s t v
    by (simp add: sim_vote_message_def)
  moreover have "\<not> er_term r < vn_term n" using assms(4) by (rule less_not_sym)
  ultimately show ?thesis
    using assms by (simp add: nodes_ok_def net_take req_msg_def sim_handle_message_def type_codes sim_handle_request_def
        payloads_ok_def net_send Let_def)
qed

lemma follower_follows:
  assumes "payloads_ok c" and "nodes_ok nodes n"
    and "box (vn_addr n) = [(from_addr, result_msg c r), (from_addr', change_msg c ch)]"
    and "vn_term n \<le> es_term r" and "es_leader_id r \<noteq> vn_id n" and "rc_registry_id ch = es_leader_id r" and "rc_term ch = es_term r"
  shows "sim_process_inbox c (n, net_of nodes box)
    = Some (n\<lparr>vn_status := Follower, vn_term := es_term r, vn_registry_id := Some (es_leader_id r),
              vn_registry_addr := Some (rc_registry_addr ch)\<rparr>, net_of nodes (box(vn_addr n := [])))"
  using assms by (simp add: nodes_ok_def net_take result_msg_def change_msg_def sim_handle_message_def type_codes
      sim_handle_result_def sim_handle_change_def payloads_ok_def linorder_not_less)

text \<open>A result of an older term changes nothing.\<close>

lemma old_result_ignored:
  assumes "payloads_ok c" and "nodes_ok nodes n" and "box (vn_addr n) = [(from_addr, result_msg c r)]" and "es_term r < vn_term n"
  shows "sim_process_inbox c (n, net_of nodes box) = Some (n, net_of nodes (box(vn_addr n := [])))"
  using assms by (simp add: nodes_ok_def net_take result_msg_def sim_handle_message_def type_codes sim_handle_result_def payloads_ok_def)

text \<open>One vote, counted by a candidate that it does not yet give a majority, and one that does.\<close>

lemma vote_message:
  assumes "payloads_ok c"
  shows "sim_handle_message c a (sim_vote_message c v r g) (n, net)
    = (if vn_status n = Candidate \<and> er_term r = vn_term n \<and> er_candidate_id r = vn_id n \<and> g
          \<and> vn_id v \<notin> set (vn_votes_received n)
       then let n = n\<lparr>vn_votes_received := vn_votes_received n @ [vn_id v]\<rparr>
            in Some (if length (vn_all_nodes n) div 2 < length (vn_votes_received n) then sim_become_leader c (n, net) else (n, net))
       else Some (n, net))"
  using assms by (simp add: sim_handle_message_def sim_vote_message_def type_codes sim_handle_vote_def payloads_ok_def Let_def)

lemma leader_announces:
  assumes "distinct (map fst nodes)"
  shows "sim_become_leader c (n, net_of nodes box)
    = (n\<lparr>vn_status := Leader, vn_registry_id := Some (vn_id n), vn_registry_addr := Some (vn_addr n)\<rparr>,
       net_of nodes (broadcast_box (vn_addr n) (change_msg c \<lparr>rc_registry_id = vn_id n, rc_registry_name = vn_name n,
           rc_registry_addr = vn_addr n, rc_term = vn_term n\<rparr>)
         (broadcast_box (vn_addr n) (result_msg c \<lparr>es_leader_id = vn_id n, es_leader_name = vn_name n, es_term = vn_term n\<rparr>) box)))"
  using assms by (simp add: sim_become_leader_def net_broadcast Let_def change_msg_def result_msg_def)

definition sync_answer :: "json_codec \<Rightarrow> election_node \<Rightarrow> bytes" where
  "sync_answer c n = election_type_to_u8 RegistrySync # enc_response c \<lparr>sr_leader_id = vn_id n, sr_leader_name = vn_name n,
     sr_term = vn_term n, sr_registry_data = ''{'' @ [CHR 0x22] @ ''names'' @ [CHR 0x22] @ '':{}}''\<rparr>"

lemma leader_answers_sync:
  assumes "payloads_ok c" and "nodes_ok nodes n" and "box (vn_addr n) = [(from_addr, sync_msg c sy)]"
    and "vn_status n = Leader" and "sy_term sy \<le> vn_term n" and "from_addr \<in> fst ` set nodes"
  shows "sim_process_inbox c (n, net_of nodes box)
    = Some (n, net_of nodes (delivered from_addr (vn_addr n) (sync_answer c n) (box(vn_addr n := []))))"
  using assms leD [OF assms(5)] by (simp add: nodes_ok_def net_take sync_msg_def sim_handle_message_def type_codes sim_handle_sync_def
      payloads_ok_def net_send sync_answer_def Let_def)

section \<open>The stages of the run\<close>

definition votes_for :: "election_request \<Rightarrow> election_node \<Rightarrow> election_node" where
  "votes_for r n = n\<lparr>vn_term := er_term r, vn_status := Follower, vn_voted_for := Some (er_candidate_id r)\<rparr>"

definition follows :: "election_node \<Rightarrow> election_node \<Rightarrow> election_node" where
  "follows l n = n\<lparr>vn_status := Follower, vn_term := vn_term l, vn_registry_id := Some (vn_id l),
                   vn_registry_addr := Some (vn_addr l)\<rparr>"

lemma idle_round:
  "(\<And>n. n \<in> set ns \<Longrightarrow> nodes_ok nodes n \<and> box (vn_addr n) = []) \<Longrightarrow> sim_round c ns (net_of nodes box) = Some (ns, net_of nodes box)"
  by (induction ns) (simp_all add: idle_inbox)

lemma idle_rounds:
  "(\<And>n. n \<in> set ns \<Longrightarrow> nodes_ok nodes n \<and> box (vn_addr n) = []) \<Longrightarrow> sim_rounds k c (ns, net_of nodes box) = Some (ns, net_of nodes box)"
  by (induction k) (simp_all add: idle_round)

definition five :: "(string \<times> node_id \<times> string) list \<Rightarrow> election_node list \<Rightarrow> bool" where
  "five nodes ns \<longleftrightarrow> length ns = 5 \<and> distinct (map fst nodes) \<and> map vn_addr ns = map fst nodes
     \<and> distinct (map vn_id ns)"

lemma five_ok: "five nodes ns \<Longrightarrow> n \<in> set ns \<Longrightarrow> nodes_ok nodes n"
  by (simp add: five_def nodes_ok_def) (metis image_eqI list.set_map)

lemma five_facts:
  assumes "five nodes ns"
  shows "distinct (map vn_addr ns)" "distinct (rev (map vn_addr ns))" and "distinct (map vn_id ns)" and "fst ` set nodes = set (map vn_addr ns)"
  using assms set_map [of fst nodes] by (simp_all add: five_def del: set_map)

text \<open>The first round: everyone votes; the candidate has counted the vote of the first node.\<close>

lemma voting_round:
  assumes "payloads_ok c" and f: "five nodes [n0, n1, n2, n3, n4]"
    and "vn_term n0 = 0" "vn_term n2 = 0" "vn_term n3 = 0" "vn_term n4 = 0" and "0 < vn_term n1"
    and "vn_status n1 = Candidate" "vn_votes_received n1 = [vn_id n1]" "length (vn_all_nodes n1) = 5"
    and r: "er_term r = vn_term n1" "er_candidate_id r = vn_id n1"
  shows "sim_round c [n0, n1, n2, n3, n4] (net_of nodes (broadcast_box (vn_addr n1) (req_msg c r) (\<lambda>_. [])))
    = Some ([votes_for r n0, n1\<lparr>vn_votes_received := [vn_id n1, vn_id n0]\<rparr>, votes_for r n2, votes_for r n3, votes_for r n4],
        net_of nodes ((\<lambda>_. [])(vn_addr n1 := map (\<lambda>n. (vn_addr n, sim_vote_message c n r True)) [n2, n3, n4])))"
proof -
  have d: "distinct [vn_addr n0, vn_addr n1, vn_addr n2, vn_addr n3, vn_addr n4]
      \<and> distinct [vn_addr n4, vn_addr n3, vn_addr n2, vn_addr n1, vn_addr n0]"
    "distinct [vn_id n0, vn_id n1, vn_id n2, vn_id n3, vn_id n4]"
    and s: "fst ` set nodes = {vn_addr n0, vn_addr n1, vn_addr n2, vn_addr n3, vn_addr n4}"
    using five_facts [OF f] by simp_all
  note ok = five_ok [OF f]
  note v = follower_votes [OF assms(1), where r = r and from_addr = "vn_addr n1", folded votes_for_def]
  let ?N = "net_of nodes" and ?a = "vn_addr n1" and ?vote = "\<lambda>n. sim_vote_message c n r True"
  define b0 where "b0 = broadcast_box ?a (req_msg c r) (\<lambda>_. [])"
  define b1 where "b1 = delivered ?a (vn_addr n0) (?vote n0) (b0(vn_addr n0 := []))"
  define b2 where "b2 = b1(?a := [])"
  define b3 where "b3 = delivered ?a (vn_addr n2) (?vote n2) (b2(vn_addr n2 := []))"
  define b4 where "b4 = delivered ?a (vn_addr n3) (?vote n3) (b3(vn_addr n3 := []))"
  define b5 where "b5 = delivered ?a (vn_addr n4) (?vote n4) (b4(vn_addr n4 := []))"
  have p0: "sim_process_inbox c (n0, ?N b0) = Some (votes_for r n0, ?N b1)"
    unfolding b1_def by (rule v) (use d(1) s ok assms(3,7) r in \<open>simp_all add: b0_def broadcast_box_def\<close>)
  have "b1 ?a = [(vn_addr n0, ?vote n0)]" using d(1) by (simp add: b1_def b0_def delivered_def broadcast_box_def)
  then have p1: "sim_process_inbox c (n1, ?N b1) = Some (n1\<lparr>vn_votes_received := [vn_id n1, vn_id n0]\<rparr>, ?N b2)"
    using ok [of n1] d(2) assms(8-10) r by (simp add: nodes_ok_def net_take vote_message [OF assms(1)] b2_def)
  have p2: "sim_process_inbox c (n2, ?N b2) = Some (votes_for r n2, ?N b3)"
    unfolding b3_def by (rule v) (use d(1) s ok assms(4,7) r in \<open>simp_all add: b2_def b1_def b0_def delivered_def broadcast_box_def\<close>)
  have p3: "sim_process_inbox c (n3, ?N b3) = Some (votes_for r n3, ?N b4)"
    unfolding b4_def by (rule v) (use d(1) s ok assms(5,7) r in \<open>simp_all add: b3_def b2_def b1_def b0_def delivered_def broadcast_box_def\<close>)
  have p4: "sim_process_inbox c (n4, ?N b4) = Some (votes_for r n4, ?N b5)"
    unfolding b5_def by (rule v) (use d(1) s ok assms(6,7) r in \<open>simp_all add: b4_def b3_def b2_def b1_def b0_def delivered_def broadcast_box_def\<close>)
  have "?N b5 = ?N ((\<lambda>_. [])(?a := map (\<lambda>n. (vn_addr n, ?vote n)) [n2, n3, n4]))"
    by (rule net_of_cong) (use d(1) in \<open>auto simp: s b5_def b4_def b3_def b2_def b1_def b0_def delivered_def broadcast_box_def\<close>)
  then show ?thesis
    by (simp only: b0_def [symmetric] sim_round.simps p0 p1 p2 p3 p4 option.case prod.case)
qed

definition leads :: "election_node \<Rightarrow> election_node" where
  "leads n = n\<lparr>vn_status := Leader, vn_registry_id := Some (vn_id n), vn_registry_addr := Some (vn_addr n)\<rparr>"

definition announcement :: "json_codec \<Rightarrow> election_node \<Rightarrow> (string \<times> bytes) list" where
  "announcement c l =
     [(vn_addr l, result_msg c \<lparr>es_leader_id = vn_id l, es_leader_name = vn_name l, es_term = vn_term l\<rparr>),
      (vn_addr l, change_msg c \<lparr>rc_registry_id = vn_id l, rc_registry_name = vn_name l, rc_registry_addr = vn_addr l, rc_term = vn_term l\<rparr>)]"

lemma follower_hears:
  assumes "payloads_ok c" and "nodes_ok nodes n" and "box (vn_addr n) = announcement c l" and "vn_term n \<le> vn_term l"
    and "vn_id n \<noteq> vn_id l"
  shows "sim_process_inbox c (n, net_of nodes box) = Some (follows l n, net_of nodes (box(vn_addr n := [])))"
  using follower_follows [OF assms(1,2), of box "vn_addr l" "\<lparr>es_leader_id = vn_id l, es_leader_name = vn_name l, es_term = vn_term l\<rparr>"
      "vn_addr l" "\<lparr>rc_registry_id = vn_id l, rc_registry_name = vn_name l, rc_registry_addr = vn_addr l, rc_term = vn_term l\<rparr>"] assms(3-5)
  by (simp add: follows_def announcement_def)

text \<open>The second round: the candidate wins with the third vote, and those after it follow.\<close>

lemma winning_round:
  assumes p: "payloads_ok c" and f: "five nodes [n0, n1, n2, n3, n4]"
    and "vn_status n1 = Candidate" "vn_votes_received n1 = [vn_id n1, vn_id n0]" "length (vn_all_nodes n1) = 5"
    and "vn_term n2 = vn_term n1" "vn_term n3 = vn_term n1" "vn_term n4 = vn_term n1"
    and r: "er_term r = vn_term n1" "er_candidate_id r = vn_id n1"
    and l: "l = leads (n1\<lparr>vn_votes_received := [vn_id n1, vn_id n0, vn_id n2]\<rparr>)"
  shows "sim_round c [n0, n1, n2, n3, n4] (net_of nodes ((\<lambda>_. [])(vn_addr n1 := map (\<lambda>n. (vn_addr n, sim_vote_message c n r True)) [n2, n3, n4])))
    = Some ([n0, l, follows l n2, follows l n3, follows l n4], net_of nodes ((\<lambda>_. [])(vn_addr n0 := announcement c l)))"
proof -
  have d: "distinct [vn_addr n0, vn_addr n1, vn_addr n2, vn_addr n3, vn_addr n4]
      \<and> distinct [vn_addr n4, vn_addr n3, vn_addr n2, vn_addr n1, vn_addr n0]"
    "distinct [vn_id n0, vn_id n1, vn_id n2, vn_id n3, vn_id n4] 
      \<and> vn_id n2 \<noteq> vn_id n1 \<and> vn_id n2 \<noteq> vn_id n0 \<and> vn_id n3 \<noteq> vn_id n1 \<and> vn_id n4 \<noteq> vn_id n1"
    and s: "fst ` set nodes = {vn_addr n0, vn_addr n1, vn_addr n2, vn_addr n3, vn_addr n4}"
    using five_facts [OF f] by auto
  note ok = five_ok [OF f]
  have a: "vn_addr l = vn_addr n1" "vn_id l = vn_id n1" "vn_term l = vn_term n1" "vn_status l = Leader"
    by (simp_all add: l leads_def)
  let ?N = "net_of nodes" and ?a = "vn_addr n1"
  define b0 where "b0 = (\<lambda>_. [])(?a := map (\<lambda>n. (vn_addr n, sim_vote_message c n r True)) [n2, n3, n4])"
  define b1 where "b1 = (\<lambda>x. if x = ?a then [] else announcement c l)"
  define b2 where "b2 = b1(vn_addr n2 := [])"
  define b3 where "b3 = b2(vn_addr n3 := [])"
  define b4 where "b4 = b3(vn_addr n4 := [])"
  have p0: "sim_process_inbox c (n0, ?N b0) = Some (n0, ?N b0)"
    by (rule idle_inbox) (use d(1) ok in \<open>simp_all add: b0_def\<close>)
  have win: "sim_handle_message c x (sim_vote_message c n2 r True) (n1, ?N (\<lambda>_. [])) = Some (l, ?N b1)" for x
    using assms(3-5) r d(2) ok [of n1]
    by (simp add: vote_message [OF p] nodes_ok_def leader_announces l leads_def)
      (rule net_of_cong, simp add: b1_def broadcast_box_def announcement_def l leads_def)
  have late: "sim_handle_message c x (sim_vote_message c n r True) (l, net) = Some (l, net)" for x n net
    by (simp add: vote_message [OF p] a)
  have "b0(?a := []) = (\<lambda>_. [])" by (auto simp: b0_def)
  then have p1: "sim_process_inbox c (n1, ?N b0) = Some (l, ?N b1)"
    using ok [of n1] by (simp add: nodes_ok_def net_take) (simp add: b0_def win late)
  have p2: "sim_process_inbox c (n2, ?N b1) = Some (follows l n2, ?N b2)"
    unfolding b2_def by (rule follower_hears [OF p]) (use d ok assms(6) a in \<open>simp_all add: b1_def\<close>)
  have p3: "sim_process_inbox c (n3, ?N b2) = Some (follows l n3, ?N b3)"
    unfolding b3_def by (rule follower_hears [OF p]) (use d ok assms(7) a in \<open>simp_all add: b1_def b2_def\<close>)
  have p4: "sim_process_inbox c (n4, ?N b3) = Some (follows l n4, ?N b4)"
    unfolding b4_def by (rule follower_hears [OF p]) (use d ok assms(8) a in \<open>simp_all add: b1_def b2_def b3_def\<close>)
  have "?N b4 = ?N ((\<lambda>_. [])(vn_addr n0 := announcement c l))"
    by (rule net_of_cong) (use d(1) in \<open>auto simp: s b4_def b3_def b2_def b1_def\<close>)
  then show ?thesis
    by (simp only: b0_def [symmetric] sim_round.simps p0 p1 p2 p3 p4 option.case prod.case)
qed

text \<open>The third round: the first node follows as well.\<close>

lemma last_follower_round:
  assumes p: "payloads_ok c" and f: "five nodes (n0 # ns)" and "vn_term n0 \<le> vn_term l" and "vn_id n0 \<noteq> vn_id l"
  shows "sim_round c (n0 # ns) (net_of nodes ((\<lambda>_. [])(vn_addr n0 := announcement c l))) = Some (follows l n0 # ns, net_of nodes (\<lambda>_. []))"
proof -
  have "sim_process_inbox c (n0, net_of nodes ((\<lambda>_. [])(vn_addr n0 := announcement c l)))
      = Some (follows l n0, net_of nodes (((\<lambda>_. [])(vn_addr n0 := announcement c l))(vn_addr n0 := [])))"
    by (rule follower_hears [OF p]) (use five_ok [OF f] assms(3,4) in simp_all)
  moreover have "((\<lambda>_. [])(vn_addr n0 := announcement c l))(vn_addr n0 := []) = (\<lambda>_. [])" by auto
  ultimately have "sim_process_inbox c (n0, net_of nodes ((\<lambda>_. [])(vn_addr n0 := announcement c l))) = Some (follows l n0, net_of nodes (\<lambda>_. []))"
    by metis
  moreover have "sim_round c ns (net_of nodes (\<lambda>_. [])) = Some (ns, net_of nodes (\<lambda>_. []))"
    by (rule idle_round) (use five_ok [OF f] in simp)
  ultimately show ?thesis by simp
qed

text \<open>The old centre comes back: its old result is ignored, its request for the data answered.\<close>

lemma old_results_round:
  "payloads_ok c \<Longrightarrow> (\<And>n. n \<in> set ns \<Longrightarrow> nodes_ok nodes n \<and> (box (vn_addr n) = [] \<or> box (vn_addr n) = [(a, result_msg c r)] \<and> es_term r < vn_term n))
   \<Longrightarrow> sim_round c ns (net_of nodes box) = Some (ns, net_of nodes (\<lambda>x. if x \<in> vn_addr ` set ns then [] else box x))"
proof (induction ns arbitrary: box)
  case (Cons n ns)
  have n: "nodes_ok nodes n" "box (vn_addr n) = [] \<or> box (vn_addr n) = [(a, result_msg c r)] \<and> es_term r < vn_term n"
    using Cons.prems(2) [of n] by simp_all
  have e: "box (vn_addr n) = [] \<Longrightarrow> box(vn_addr n := []) = box" by auto
  have "sim_process_inbox c (n, net_of nodes box) = Some (n, net_of nodes (box(vn_addr n := [])))"
    using n(2) old_result_ignored [OF Cons.prems(1) n(1)] idle_inbox [where box = box, OF n(1)] e by metis
  moreover have "sim_round c ns (net_of nodes (box(vn_addr n := [])))
      = Some (ns, net_of nodes (\<lambda>x. if x \<in> vn_addr ` set ns then [] else (box(vn_addr n := [])) x))"
    by (rule Cons.IH [OF Cons.prems(1)]) (use Cons.prems(2) in auto)
  moreover have "(\<lambda>x. if x \<in> vn_addr ` set ns then [] else (box(vn_addr n := [])) x)
      = (\<lambda>x. if x \<in> vn_addr ` set (n # ns) then [] else box x)" by auto
  ultimately show ?case by (simp only: sim_round.simps option.case prod.case)
qed simp

lemma sync_round:
  assumes p: "payloads_ok c" and f: "five nodes (n0 # n1 # ns)"
    and "vn_status n1 = Leader" and "sy_term sy \<le> vn_term n1"
  shows "sim_round c (n0 # n1 # ns) (net_of nodes (delivered (vn_addr n1) (vn_addr n0) (sync_msg c sy) (\<lambda>_. [])))
    = Some (n0 # n1 # ns, net_of nodes ((\<lambda>_. [])(vn_addr n0 := [(vn_addr n1, sync_answer c n1)])))"
proof -
  have d: "vn_addr n0 \<noteq> vn_addr n1" "vn_addr n0 \<notin> vn_addr ` set ns" "vn_addr n0 \<in> fst ` set nodes"
    using five_facts(1,4) [OF f] by auto
  note ok = five_ok [OF f]
  let ?b = "delivered (vn_addr n1) (vn_addr n0) (sync_msg c sy) (\<lambda>_. [])"
  let ?b' = "delivered (vn_addr n0) (vn_addr n1) (sync_answer c n1) (?b(vn_addr n1 := []))"
  have 0: "sim_process_inbox c (n0, net_of nodes ?b) = Some (n0, net_of nodes ?b)"
    by (rule idle_inbox) (use ok d(1) in \<open>simp_all add: delivered_def\<close>)
  have 1: "sim_process_inbox c (n1, net_of nodes ?b) = Some (n1, net_of nodes ?b')"
    by (rule leader_answers_sync [OF p]) (use ok d assms(3,4) in \<open>simp_all add: delivered_def\<close>)
  have b: "?b' = (\<lambda>_. [])(vn_addr n0 := [(vn_addr n1, sync_answer c n1)])"
    using d(1) by (auto simp: delivered_def)
  have 2: "sim_round c ns (net_of nodes ?b') = Some (ns, net_of nodes ?b')"
    by (rule idle_round) (use ok d in \<open>auto simp: b image_iff\<close>)
  show ?thesis using 2 unfolding b by (simp only: sim_round.simps 0 1 b option.case prod.case)
qed

section \<open>The run passes\<close>

definition member :: "(node_id \<times> string \<times> string) list \<Rightarrow> node_id \<Rightarrow> node_id \<times> string \<times> string \<Rightarrow> election_node" where
  "member known centre = (\<lambda>(i, name, a).
     \<lparr>vn_id = i, vn_name = name, vn_addr = a, vn_status = Follower, vn_term = 0, vn_voted_for = None, vn_votes_received = [],
      vn_registry_id = Some centre, vn_registry_addr = Some (mock_addr base_port), vn_missed = 0, vn_all_nodes = known,
      vn_threshold = 3\<rparr>)"

lemma mock_addrs: "distinct [mock_addr 9900, mock_addr 9901, mock_addr 9902, mock_addr 9903, mock_addr 9904]
    \<and> distinct [mock_addr 9904, mock_addr 9903, mock_addr 9902, mock_addr 9901, mock_addr 9900]"
  by (simp add: mock_addr_def show_nat.simps)

definition known_of :: "node_id list \<Rightarrow> (node_id \<times> string \<times> string) list" where
  "known_of ids = zip ids (zip node_names (map mock_addr [9900, 9901, 9902, 9903, 9904]))"

lemma sim_setup_five:
  "sim_setup [i0, i1, i2, i3, i4] =
     (let known = known_of [i0, i1, i2, i3, i4]; ms = map (member known i0) known
      in (ms[0 := (ms ! 0)\<lparr>vn_status := Leader\<rparr>], net_of (map (\<lambda>(i, name, a). (a, i, name)) known) (\<lambda>_. [])))"
  using mock_addrs
  by (simp add: sim_setup_def known_of_def node_names_def base_port_def mock_new_def network_register_def hm_empty_def hm_insert_def
      net_of_def sim_set_registry_def sim_set_known_nodes_def sim_node_new_def member_def Let_def)

lemma five_keep:
  "five nodes ns \<Longrightarrow> map vn_addr ns' = map vn_addr ns \<Longrightarrow> map vn_id ns' = map vn_id ns \<Longrightarrow> five nodes ns'"
  unfolding five_def by (metis length_map)

lemma kept_fields [simp]:
  "vn_addr (votes_for r n) = vn_addr n" "vn_id (votes_for r n) = vn_id n" "vn_term (votes_for r n) = er_term r"
  "vn_addr (follows l n) = vn_addr n" "vn_id (follows l n) = vn_id n" "vn_term (follows l n) = vn_term l"
  "vn_status (follows l n) = Follower" "vn_registry_id (follows l n) = Some (vn_id l)"
  "vn_addr (leads n) = vn_addr n" "vn_id (leads n) = vn_id n" "vn_term (leads n) = vn_term n" "vn_status (leads n) = Leader"
  by (simp_all add: votes_for_def follows_def leads_def)

lemma sim_vote_message_votes_for [simp]: "sim_vote_message c (votes_for r n) r' g = sim_vote_message c n r' g"
  by (simp add: sim_vote_message_def)

lemma election_rounds:
  assumes p: "payloads_ok c" and f: "five nodes [n0, n1, n2, n3, n4]"
    and t: "vn_term n0 = 0" "vn_term n2 = 0" "vn_term n3 = 0" "vn_term n4 = 0" "0 < vn_term n1"
    and n1: "vn_status n1 = Candidate" "vn_votes_received n1 = [vn_id n1]" "length (vn_all_nodes n1) = 5"
    and r: "er_term r = vn_term n1" "er_candidate_id r = vn_id n1"
    and l: "l = leads (n1\<lparr>vn_votes_received := [vn_id n1, vn_id n0, vn_id n2]\<rparr>)"
  shows "sim_rounds 4 c ([n0, n1, n2, n3, n4], net_of nodes (broadcast_box (vn_addr n1) (req_msg c r) (\<lambda>_. [])))
    = Some (follows l (votes_for r n0) # l # map (\<lambda>n. follows l (votes_for r n)) [n2, n3, n4], net_of nodes (\<lambda>_. []))"
proof -
  let ?c = "n1\<lparr>vn_votes_received := [vn_id n1, vn_id n0]\<rparr>" and ?v = "votes_for r"
  let ?ns = "follows l (?v n0) # l # map (\<lambda>n. follows l (?v n)) [n2, n3, n4]"
  note s1 = voting_round [OF p f t n1 r]
  have "five nodes [?v n0, ?c, ?v n2, ?v n3, ?v n4]" by (rule five_keep [OF f]) simp_all
  note s2 = winning_round [OF p this, of r l, simplified]
  have "five nodes (?v n0 # l # map (\<lambda>n. follows l (?v n)) [n2, n3, n4])"
    by (rule five_keep [OF f]) (simp_all add: l)
  note s3 = last_follower_round [OF p this, of l]
  have "five nodes ?ns" by (rule five_keep [OF f]) (simp_all add: l)
  then have s4: "sim_round c ?ns (net_of nodes (\<lambda>_. [])) = Some (?ns, net_of nodes (\<lambda>_. []))"
    by (intro idle_round) (simp add: five_ok)
  have "vn_id n0 \<noteq> vn_id n1" using five_facts(3) [OF f] by simp
  then show ?thesis
    using s1 s2 s3 s4 n1 r by (simp add: numeral_eq_Suc l)
qed

lemma old_centre:
  assumes p: "payloads_ok c" and f: "five nodes [n0, n1, n2, n3, n4]" and "vn_status n1 = Leader"
    and t: "vn_term n0 = t" "vn_term n1 = t" "vn_term n2 = t" "vn_term n3 = t" "vn_term n4 = t" "0 < t"
  shows "sim_old_centre_returns c 1 ([n0, n1, n2, n3, n4], net_of nodes (\<lambda>_. []))
    = Some ([n0, n1, n2, n3, n4], net_of nodes ((\<lambda>_. [])(vn_addr n0 := [(vn_addr n1, sync_answer c n1)])))"
proof -
  let ?ns = "[n0, n1, n2, n3, n4]"
  let ?old = "\<lparr>es_leader_id = vn_id n0, es_leader_name = ''Alice'', es_term = 0\<rparr>"
  let ?b = "broadcast_box (vn_addr n0) (result_msg c ?old) (\<lambda>_. [])"
  let ?sync = "\<lparr>sy_requester_id = vn_id n0, sy_requester_name = ''Alice'', sy_term = t\<rparr>"
  have tt: "vn_term n = t" if "n \<in> set ?ns" for n using that t by auto
  have "sim_round c ?ns (net_of nodes ?b) = Some (?ns, net_of nodes (\<lambda>x. if x \<in> vn_addr ` set ?ns then [] else ?b x))"
    by (rule old_results_round [OF p, where a = "vn_addr n0" and r = ?old])
      (simp add: five_ok [OF f] tt t(6) broadcast_box_def del: set_simps)
  moreover have "net_of nodes (\<lambda>x. if x \<in> vn_addr ` set ?ns then [] else ?b x) = net_of nodes (\<lambda>_. [])"
    by (rule net_of_cong) (simp only: five_facts(4) [OF f] set_map if_True)
  ultimately have 1: "sim_round c ?ns (net_of nodes ?b) = Some (?ns, net_of nodes (\<lambda>_. []))" by simp
  have d: "distinct (map fst nodes)" "vn_addr n1 \<in> fst ` set nodes"
    using five_ok [OF f, of n1] by (simp_all add: nodes_ok_def)
  have 2: "sim_round c ?ns (net_of nodes (delivered (vn_addr n1) (vn_addr n0) (sync_msg c ?sync) (\<lambda>_. [])))
      = Some (?ns, net_of nodes ((\<lambda>_. [])(vn_addr n0 := [(vn_addr n1, sync_answer c n1)])))"
    by (rule sync_round [OF p f assms(3)]) (simp add: t)
  have "[0..<5] = [0, 1, 2, 3, 4 :: nat]" by (simp add: upt_conv_Cons)
  then have "sim_terms_agree 1 ?ns" by (simp add: sim_terms_agree_def t numeral_3_eq_3)
  then show ?thesis
    using 1 2 net_broadcast [OF d(1)] net_send [OF d] assms(3) t(2)
    by (simp add: sim_old_centre_returns_def Let_def check_that_def result_msg_def [symmetric] sync_msg_def [symmetric]
        del: sim_round.simps election_type_to_u8.simps)
qed

definition fresh_node :: "node_id \<Rightarrow> election_node \<Rightarrow> bool" where
  "fresh_node i n \<longleftrightarrow> vn_status n = Follower \<and> vn_term n = 0 \<and> vn_missed n = 0 \<and> vn_threshold n = 3
     \<and> vn_registry_id n = Some i \<and> length (vn_all_nodes n) = 5"

definition late_node :: "election_node \<Rightarrow> election_node" where
  "late_node n = sim_missed_heartbeat (sim_missed_heartbeat (sim_missed_heartbeat n))"

lemma late_fields [simp]:
  "vn_addr (late_node n) = vn_addr n" "vn_id (late_node n) = vn_id n" "vn_name (late_node n) = vn_name n"
  "vn_term (late_node n) = vn_term n" "vn_status (late_node n) = vn_status n" "vn_registry_id (late_node n) = vn_registry_id n"
  "vn_threshold (late_node n) = vn_threshold n" "vn_missed (late_node n) = vn_missed n + 3"
  "vn_all_nodes (late_node n) = vn_all_nodes n"
  by (simp_all add: late_node_def sim_missed_heartbeat_def)

lemma first_election:
  assumes "fresh_node i n" and "distinct (map fst nodes)"
    and "n' = (late_node n)\<lparr>vn_status := Candidate, vn_term := 1, vn_voted_for := Some (vn_id n), vn_votes_received := [vn_id n]\<rparr>"
  shows "sim_first_election c (late_node n # ns) (net_of nodes (\<lambda>_. []))
    = (n' # ns, net_of nodes (broadcast_box (vn_addr n')
        (req_msg c \<lparr>er_candidate_id = vn_id n, er_candidate_name = vn_name n, er_term = 1\<rparr>) (\<lambda>_. [])))"
  using assms(1) net_broadcast [OF assms(2)]
  by (simp add: assms(3) fresh_node_def sim_should_start_def sim_registry_healthy_def sim_start_election_def req_msg_def Let_def)

lemma run_from_setup:
  assumes p: "payloads_ok c" and f: "five nodes [m0, m1, m2, m3, m4]"
    and n: "fresh_node i m0" "fresh_node i m1" "fresh_node i m2" "fresh_node i m3" "fresh_node i m4"
    and start: "sim_setup ids = ([m0\<lparr>vn_status := Leader\<rparr>, m1, m2, m3, m4], net_of nodes (\<lambda>_. []))"
  shows "\<exists>n0 n1 ns. five nodes (n0 # n1 # ns) \<and> map vn_status (n0 # n1 # ns) = [Follower, Leader, Follower, Follower, Follower]
    \<and> list_all (\<lambda>n. vn_term n = 1 \<and> vn_registry_id n = Some (vn_id m1)) (n0 # n1 # ns)
    \<and> verify_run c ids = Some (n0 # n1 # ns, net_of nodes ((\<lambda>_. [])(vn_addr n0 := [(vn_addr n1, sync_answer c n1)])))"
proof -
  let ?m0 = "m0\<lparr>vn_status := Leader\<rparr>"
  let ?r = "\<lparr>er_candidate_id = vn_id m1, er_candidate_name = vn_name m1, er_term = 1\<rparr>"
  define k where "k = (late_node m1)\<lparr>vn_status := Candidate, vn_term := 1, vn_voted_for := Some (vn_id m1), vn_votes_received := [vn_id m1]\<rparr>"
  define l where "l = leads (k\<lparr>vn_votes_received := [vn_id k, vn_id ?m0, vn_id (late_node m2)]\<rparr>)"
  have k: "vn_id k = vn_id m1" "vn_addr k = vn_addr m1" "vn_term k = 1" "vn_status k = Candidate" "vn_votes_received k = [vn_id k]"
    "length (vn_all_nodes k) = 5" using n(2) by (simp_all add: k_def fresh_node_def)
  have l: "vn_id l = vn_id m1" "vn_addr l = vn_addr m1" "vn_term l = 1" "vn_status l = Leader" "vn_registry_id l = Some (vn_id m1)"
    by (simp_all add: l_def k leads_def)
  let ?f = "\<lambda>n. follows l (votes_for ?r n)"
  let ?fin = "[?f ?m0, l, ?f (late_node m2), ?f (late_node m3), ?f (late_node m4)]"
  have five: "five nodes [?m0, m1, m2, m3, m4]" "five nodes [?m0, k, late_node m2, late_node m3, late_node m4]" "five nodes ?fin"
    by (rule five_keep [OF f]; simp add: k l)+
  have 2: "sim_rounds 2 c (sim_setup ids) = Some ([?m0, m1, m2, m3, m4], net_of nodes (\<lambda>_. []))"
    unfolding start by (rule idle_rounds) (use five_ok [OF five(1)] in simp)
  have "distinct (map fst nodes)" using f by (simp add: five_def)
  note 3 = first_election [OF n(2) this k_def, of c "[late_node m2, late_node m3, late_node m4]"]
  have 4: "sim_rounds 4 c ([?m0, k, late_node m2, late_node m3, late_node m4], net_of nodes (broadcast_box (vn_addr k) (req_msg c ?r) (\<lambda>_. [])))
      = Some (?fin, net_of nodes (\<lambda>_. []))"
    using election_rounds [OF p five(2) _ _ _ _ _ k(4-6) _ _ l_def, of ?r] n by (simp add: fresh_node_def k)
  have 5: "sim_old_centre_returns c 1 (?fin, net_of nodes (\<lambda>_. []))
      = Some (?fin, net_of nodes ((\<lambda>_. [])(vn_addr (?f ?m0) := [(vn_addr l, sync_answer c l)])))"
    by (rule old_centre [OF p five(3), where t = 1]) (simp_all add: l)
  have idx: "[0..<5] = [0, 1, 2, 3, 4 :: nat]" by (simp add: upt_conv_Cons)
  have lead: "sim_leaders ?fin = [1]" and agree: "sim_followers_agree 1 ?fin"
    by (simp_all add: sim_leaders_def sim_followers_agree_def idx numeral_eq_Suc l)
  have healthy: "list_all sim_registry_healthy [?m0, m1, m2, m3, m4]"
    using n by (simp add: sim_registry_healthy_def fresh_node_def)
  have "verify_run c ids = Some (?fin, net_of nodes ((\<lambda>_. [])(vn_addr (?f ?m0) := [(vn_addr l, sync_answer c l)])))"
    by (simp only: verify_run_def check_that_def sim_miss_three_def late_node_def [symmetric] 2 3 4 5 lead agree healthy
        option.case prod.case list.case list.map if_True)
  then show ?thesis using five(3)
    by - (rule exI [of _ "?f ?m0"], rule exI [of _ l], rule exI [of _ "[?f (late_node m2), ?f (late_node m3), ?f (late_node m4)]"],
      simp add: l)
qed

text \<open>C9. The verification program passes: for any five different identities no assertion
  fails, Bob, the first node that misses the heartbeats, is the only leader in the
  end, all nodes follow him in term 1, and the answer to the request for the data lies
  unread in the inbox of Alice.\<close>

theorem verification_passes:
  assumes "payloads_ok c" and "length ids = 5" and "distinct ids"
  shows "\<exists>ens net node. verify_run c ids = Some (ens, net)
    \<and> map vn_status ens = [Follower, Leader, Follower, Follower, Follower]
    \<and> list_all (\<lambda>n. vn_term n = 1 \<and> vn_registry_id n = Some (ids ! 1)) ens
    \<and> hm_get net (vn_addr (ens ! 0)) = Some node \<and> mn_inbox node = [(vn_addr (ens ! 1), sync_answer c (ens ! 1))]"
proof -
  obtain i0 i1 i2 i3 i4 where ids: "ids = [i0, i1, i2, i3, i4]"
    using assms(2) by (auto simp: numeral_eq_Suc length_Suc_conv)
  let ?known = "known_of ids" and ?nodes = "map (\<lambda>(i, name, a). (a, i, name)) (known_of ids)"
  have kn: "?known = [(i0, ''Alice'', mock_addr 9900), (i1, ''Bob'', mock_addr 9901), (i2, ''Carol'', mock_addr 9902),
      (i3, ''Dave'', mock_addr 9903), (i4, ''Eve'', mock_addr 9904)]"
    by (simp add: known_of_def node_names_def ids)
  let ?m = "member ?known i0"
  let ?ms = "[?m (i0, ''Alice'', mock_addr 9900), ?m (i1, ''Bob'', mock_addr 9901), ?m (i2, ''Carol'', mock_addr 9902),
      ?m (i3, ''Dave'', mock_addr 9903), ?m (i4, ''Eve'', mock_addr 9904)]"
  have fields: "vn_addr (?m (i, name, a)) = a" "vn_id (?m (i, name, a)) = i" "fresh_node i0 (?m (i, name, a))" for i name a
    by (simp_all add: member_def fresh_node_def kn)
  have f: "five ?nodes ?ms"
    using mock_addrs assms(3) unfolding five_def kn by (simp add: member_def ids)
  have "sim_setup ids = ([(hd ?ms)\<lparr>vn_status := Leader\<rparr>, ?ms ! 1, ?ms ! 2, ?ms ! 3, ?ms ! 4], net_of ?nodes (\<lambda>_. []))"
    using sim_setup_five [of i0 i1 i2 i3 i4] by (simp only: ids [symmetric] Let_def) (simp add: kn numeral_eq_Suc)
  then obtain n0 n1 ns where r: "five ?nodes (n0 # n1 # ns)" "map vn_status (n0 # n1 # ns) = [Follower, Leader, Follower, Follower, Follower]"
      "list_all (\<lambda>n. vn_term n = 1 \<and> vn_registry_id n = Some i1) (n0 # n1 # ns)"
      "verify_run c ids = Some (n0 # n1 # ns, net_of ?nodes ((\<lambda>_. [])(vn_addr n0 := [(vn_addr n1, sync_answer c n1)])))"
    using run_from_setup [OF assms(1) f fields(3) fields(3) fields(3) fields(3) fields(3), of ids] by (auto simp: fields numeral_eq_Suc)
  obtain node where "hm_get (net_of ?nodes ((\<lambda>_. [])(vn_addr n0 := [(vn_addr n1, sync_answer c n1)]))) (vn_addr n0) = Some node"
      "mn_inbox node = [(vn_addr n1, sync_answer c n1)]"
    using inbox_in_network [OF five_ok [OF r(1), of n0]] by fastforce
  moreover have "ids ! 1 = i1" by (simp add: ids)
  ultimately show ?thesis using r(2,3) by (simp add: r(4))
qed

section \<open>The rules of the manager\<close>

text \<open>The manager of the program itself refuses, in the same situation (compare
  \<open>follower_votes\<close>), every candidate whose hash is not above the prefix of its own
  identity: what the run shows does not carry over to it.\<close>

lemma manager_refuses_by_hash:
  assumes "er_candidate_id req \<noteq> em_local_id m"
    and "compute_candidate_hash sha256 (er_candidate_id req) (er_term req) \<le> of_be (take 8 (as_bytes (em_local_id m)))"
  shows "\<not> snd (snd (vote_on_request sha256 now req m))"
  using assms by (simp add: vote_on_request_def should_vote_for_def become_follower_def reset_heartbeat_monitor_def Let_def split_beta)
    (metis linorder_not_less)

section \<open>Example\<close>

text \<open>A codec that writes identities and numbers at fixed widths and the length of a name in unary.\<close>

definition get_id :: "nat \<Rightarrow> bytes \<Rightarrow> node_id" where
  "get_id k b = B32 (sub_slice b k (k + 32))"

definition get_u64 :: "nat \<Rightarrow> bytes \<Rightarrow> u64" where
  "get_u64 k b = of_nat (of_be (sub_slice b k (k + 8)))"

definition put_u64 :: "u64 \<Rightarrow> bytes" where
  "put_u64 t = to_be 8 (unat t)"

definition wire_codec :: json_codec where
  "wire_codec =
     \<lparr>enc_request = (\<lambda>r. as_bytes (er_candidate_id r) @ put_u64 (er_term r) @ str_bytes (er_candidate_name r)),
      dec_request = (\<lambda>b. Inr \<lparr>er_candidate_id = get_id 0 b, er_candidate_name = bytes_str (drop 40 b), er_term = get_u64 32 b\<rparr>),
      enc_vote = (\<lambda>v. as_bytes (ev_voter_id v) @ as_bytes (ev_candidate_id v) @ put_u64 (ev_term v) @ [if ev_granted v then 1 else 0]),
      dec_vote = (\<lambda>b. Inr \<lparr>ev_voter_id = get_id 0 b, ev_candidate_id = get_id 32 b, ev_term = get_u64 64 b, ev_granted = (b ! 72 = 1)\<rparr>),
      enc_result = (\<lambda>r. as_bytes (es_leader_id r) @ put_u64 (es_term r) @ str_bytes (es_leader_name r)),
      dec_result = (\<lambda>b. Inr \<lparr>es_leader_id = get_id 0 b, es_leader_name = bytes_str (drop 40 b), es_term = get_u64 32 b\<rparr>),
      enc_change = (\<lambda>r. as_bytes (rc_registry_id r) @ put_u64 (rc_term r) @ replicate (length (rc_registry_name r)) 1 @ [0]
        @ str_bytes (rc_registry_name r) @ str_bytes (rc_registry_addr r)),
      dec_change = (\<lambda>b. let n = length (takeWhile (\<lambda>x. x = 1) (drop 40 b)); t = bytes_str (drop (41 + n) b) in
        Inr \<lparr>rc_registry_id = get_id 0 b, rc_registry_name = take n t, rc_registry_addr = drop n t, rc_term = get_u64 32 b\<rparr>),
      enc_sync = (\<lambda>r. as_bytes (sy_requester_id r) @ put_u64 (sy_term r) @ str_bytes (sy_requester_name r)),
      dec_sync = (\<lambda>b. Inr \<lparr>sy_requester_id = get_id 0 b, sy_requester_name = bytes_str (drop 40 b), sy_term = get_u64 32 b\<rparr>),
      enc_response = (\<lambda>r. str_bytes (sr_registry_data r)),
      dec_response = (\<lambda>b. Inl [])\<rparr>"

lemma wire_parts:
  "get_id 0 (as_bytes i @ rest) = i" "get_id 32 (as_bytes j @ as_bytes i @ rest) = i"
  "get_u64 32 (as_bytes i @ put_u64 t @ rest) = t" "get_u64 64 (as_bytes i @ as_bytes j @ put_u64 t @ rest) = t"
proof -
  have "unat t < 2 ^ LENGTH(64)" by (rule unsigned_less)
  then have "of_nat (of_be (put_u64 t)) = t"
    by (simp add: put_u64_def of_be_to_be_id)
  then show "get_u64 32 (as_bytes i @ put_u64 t @ rest) = t" "get_u64 64 (as_bytes i @ as_bytes j @ put_u64 t @ rest) = t"
    by (simp_all add: get_u64_def sub_slice_def put_u64_def)
qed (simp_all add: get_id_def sub_slice_def)

lemma wire_codec_ok: "payloads_ok wire_codec"
proof -
  have l: "length (put_u64 t) = 8" for t by (simp add: put_u64_def)
  have "takeWhile (\<lambda>x. x = 1) (replicate n 1 @ 0 # rest) = replicate n (1 :: byte)" for n rest
    by (induction n) simp_all
  moreover have "bytes_str (str_bytes a @ str_bytes b) = a @ b" for a b
    by (metis bytes_str_str_bytes map_append str_bytes_def)
  ultimately show ?thesis
    by (simp add: payloads_ok_def wire_codec_def wire_parts l Let_def nth_append)
qed

theorem verification_passes_witness:
  "\<exists>ens net. verify_run wire_codec (map fill32 [1, 2, 3, 4, 5]) = Some (ens, net)
     \<and> map vn_status ens = [Follower, Leader, Follower, Follower, Follower]"
proof -
  have "distinct (map fill32 [1, 2, 3, 4, 5])" by (simp add: fill32_def)
  then show ?thesis using verification_passes [OF wire_codec_ok, of "map fill32 [1, 2, 3, 4, 5]"] by auto
qed

end
