(* ===== verification/IdentityFile.thy ===== *)
theory IdentityFile
  imports NodeId Json Disk Float64
begin

text \<open>
  The rest of \<open>src/vpn/identity.rs\<close>: the distance of two identities as a number, and the file
  with an identity and its secret key. JSON text, hexadecimal text and \<open>std::fs\<close> are the
  record \<open>identity_env\<close>; the text of an \<open>io::Error\<close> stands for it. A panic is \<open>None\<close>.
\<close>

definition id_distance_f64 :: "rounding \<Rightarrow> node_id \<Rightarrow> node_id \<Rightarrow> f64" where
  "id_distance_f64 rnd a b = rnd (of_nat (unat (id_distance a b)))"

record identity_env =
  ie_show :: "json \<Rightarrow> string"
  ie_parse :: "string \<Rightarrow> string + json"
  ie_hex :: "bytes \<Rightarrow> string"
  ie_unhex :: "string \<Rightarrow> hex_error + bytes"
  ie_hex_error :: "hex_error \<Rightarrow> string"
  ie_not_found :: string
  ie_read :: "string \<Rightarrow> string + unit"
  ie_write :: "string \<Rightarrow> string write_answer"

definition id_save :: "identity_env \<Rightarrow> node_id \<Rightarrow> b32 \<Rightarrow> string \<Rightarrow> disk \<Rightarrow> disk \<times> (string + unit)" where
  "id_save env i signing_key path disk =
     (let data = JObject [(''node_id'', JString (id_to_hex (ie_hex env) i)),
                          (''secret_key'', JString (ie_hex env (as_bytes signing_key)))]
      in fs_write (ie_write env) path (ie_show env data) disk)"

definition id_load :: "identity_env \<Rightarrow> string \<Rightarrow> disk \<Rightarrow> (string + node_id \<times> b32) option" where
  "id_load env path disk =
     (case (case disk path of
              None \<Rightarrow> Inl (ie_not_found env)
            | Some d \<Rightarrow> (case ie_read env path of Inl e \<Rightarrow> Inl e | Inr _ \<Rightarrow> Inr d)) of
        Inl e \<Rightarrow> Some (Inl e)
      | Inr data \<Rightarrow>
          (case ie_parse env data of
             Inl e \<Rightarrow> Some (Inl e)
           | Inr json \<Rightarrow>
               (case json_str (json_index json ''node_id'') of
                  None \<Rightarrow> None
                | Some node_id_hex \<Rightarrow>
                    (case json_str (json_index json ''secret_key'') of
                       None \<Rightarrow> None
                     | Some secret_hex \<Rightarrow>
                         (case id_from_hex (ie_unhex env) node_id_hex of
                            Inl e \<Rightarrow> Some (Inl (ie_hex_error env e))
                          | Inr node_id \<Rightarrow>
                              (case ie_unhex env secret_hex of
                                 Inl e \<Rightarrow> Some (Inl (ie_hex_error env e))
                               | Inr secret \<Rightarrow>
                                   if length secret \<noteq> 32 then None else Some (Inr (node_id, B32 secret))))))))"

text \<open>
  What was saved is loaded again, and the identity does not have to be the one of the key:
  neither operation compares them.
\<close>

theorem saved_identity_loads:
  assumes "hex_ok (ie_hex env) (ie_unhex env)" and "\<And>v. ie_parse env (ie_show env v) = Inr v" and "ie_read env path = Inr ()"
    and "id_save env i key path disk = (disk', Inr ())"
  shows "id_load env path disk' = Some (Inr (i, key))"
  using assms by (auto simp: id_save_def id_load_def Let_def id_from_hex_def hex_ok_def id_to_hex_def dest!: fs_write_Inr)

text \<open>A file whose secret key has another length panics instead of giving an error.\<close>

lemma short_secret_panics:
  assumes "disk path = Some d" and "ie_read env path = Inr ()" and "ie_parse env d = Inr json"
    and "json_str (json_index json ''node_id'') = Some n" and "json_str (json_index json ''secret_key'') = Some s"
    and "id_from_hex (ie_unhex env) n = Inr i" and "ie_unhex env s = Inr secret" and "length secret \<noteq> 32"
  shows "id_load env path disk = None"
  using assms by (simp add: id_load_def)

end
