(* ===== verification/Watch.thy ===== *)
theory Watch
  imports Heartbeat Selfheal
begin

text \<open>
  Heartbeats and self-healing together: the self-healing manager is the callback of the
  heartbeat manager (\<open>impl HeartbeatCallback for SelfHealManager\<close> in \<open>src/vpn/selfheal.rs\<close>,
  \<open>set_callback\<close> in \<open>src/vpn/heartbeat.rs\<close>). The lemmas show which nodes each of the two holds
  to be offline.
\<close>

section \<open>The pair\<close>

fun heal_callback :: "instant \<Rightarrow> u64 \<Rightarrow> heartbeat_event \<Rightarrow> heal_run \<Rightarrow> heal_run" where
  "heal_callback now clock (OnNodeOnline i) run = heal_on_node_online now clock i run"
| "heal_callback now clock (OnNodeOffline i) run = on_node_offline now clock i run"
| "heal_callback now clock (OnSent i sequence) run = run"
| "heal_callback now clock (OnReceived i sequence) run = heal_on_heartbeat_received now clock i run"

type_synonym watch_state = "(u64 \<times> heartbeat_manager) \<times> heal_run"

datatype watch_op =
    WatchRound "node_id \<Rightarrow> heartbeat_message \<Rightarrow> heartbeat_error + unit" instant u64
  | WatchHeard instant u64 heartbeat_message
  | WatchNode instant node_id
  | TrackNode u64 node_id
  | PathBroken instant node_id

fun watch_step :: "watch_op \<Rightarrow> watch_state \<Rightarrow> watch_state" where
  "watch_step (WatchRound send now clock) (hb, run) =
     (case heartbeat_round send now clock hb of (hb, evs) \<Rightarrow> (hb, fold (heal_callback now clock) evs run))"
| "watch_step (WatchHeard now clock msg) ((sq, m), run) =
     (case handle_heartbeat now msg m of (m, evs) \<Rightarrow> ((sq, m), fold (heal_callback now clock) evs run))"
| "watch_step (WatchNode now i) ((sq, m), run) = ((sq, hb_add_node now i m), run)"
| "watch_step (TrackNode clock i) (hb, (h, evs)) = (hb, (heal_add_node clock i h, evs))"
| "watch_step (PathBroken now i) (hb, run) = (hb, handle_path_failure now i run)"

definition hb_off :: "heartbeat_manager \<Rightarrow> node_id \<Rightarrow> bool" where
  "hb_off m i \<longleftrightarrow> (\<exists>s. hm_get (hm_nodes m) i = Some s \<and> \<not> hs_is_online s)"

definition heal_off :: "heal_manager \<Rightarrow> node_id \<Rightarrow> bool" where
  "heal_off h i \<longleftrightarrow> (\<exists>s. hm_get (sm_states h) i = Some s \<and> hn_is_offline s)"

definition hb_ok :: "heartbeat_manager \<Rightarrow> bool" where
  "hb_ok m \<longleftrightarrow> hm_ok (hm_nodes m) \<and> (\<forall>i s. hm_get (hm_nodes m) i = Some s \<longrightarrow> hs_node_id s = i)"

section \<open>What the callbacks do to the nodes that are offline\<close>

lemma heal_off_update:
  "heal_off (update_heal_state clock i f h) j \<longleftrightarrow>
     (if j = i then hn_is_offline (f (case hm_get (sm_states h) i of Some s \<Rightarrow> s | None \<Rightarrow> heal_node_new clock i)) else heal_off h j)"
  by (simp add: heal_off_def update_heal_state_def hm_simps)

lemma heal_off_multihop [simp]: "heal_off (h\<lparr>sm_multihop := x\<rparr>) j = heal_off h j"
  by (simp add: heal_off_def)

lemma heal_off_add [simp]: "heal_off (heal_add_node clock i h) j = heal_off h j"
  by (auto simp: heal_off_def heal_add_node_def hm_simps heal_node_new_def hm_contains_def)

lemma off_offline: "heal_off (fst (on_node_offline now clock i run)) j \<longleftrightarrow> j = i \<or> heal_off (fst run) j"
proof -
  have "heal_off (update_heal_state clock i mark_offline h) j \<longleftrightarrow> j = i \<or> heal_off h j" for h
    by (simp add: heal_off_update mark_offline_def)
  then show ?thesis by (auto simp: on_node_offline_def Let_def split_beta split: option.split)
qed

lemma off_recovered: "heal_off (fst (on_node_recovered now clock i run)) j \<longleftrightarrow> j \<noteq> i \<and> heal_off (fst run) j"
proof -
  have "heal_off (update_heal_state clock i (mark_online clock) h) j \<longleftrightarrow> j \<noteq> i \<and> heal_off h j" for h
    by (simp add: heal_off_update mark_online_def)
  then show ?thesis
    by (auto simp: on_node_recovered_def rebuild_route_def Let_def split_beta split: option.split)
qed

lemma off_online: "heal_off (fst (heal_on_node_online now clock i run)) j \<longleftrightarrow> j \<noteq> i \<and> heal_off (fst run) j"
  by (auto simp: heal_on_node_online_def Let_def split_beta off_recovered heal_get_state_def split: option.split)
    (auto simp: heal_off_def)

lemma off_received: "heal_off (fst (heal_on_heartbeat_received now clock i run)) j \<longleftrightarrow> j \<noteq> i \<and> heal_off (fst run) j"
proof -
  let ?h = "heal_add_node clock i (fst run)"
  have a: "heal_off ?h j = heal_off (fst run) j" by simp
  obtain s where s: "hm_get (sm_states ?h) i = Some s"
    by (cases "hm_get (sm_states (fst run)) i") (simp_all add: heal_add_node_def hm_contains_def hm_simps)
  have "heal_off (?h\<lparr>sm_states := hm_insert i s' (sm_states ?h)\<rparr>) j \<longleftrightarrow> (if j = i then hn_is_offline s' else heal_off ?h j)" for s'
    by (simp add: heal_off_def hm_simps)
  with s a show ?thesis
    by (auto simp: heal_on_heartbeat_received_def Let_def split_beta off_recovered mark_online_def)
qed

lemma off_path: "heal_off (fst (handle_path_failure now i run)) j = heal_off (fst run) j"
  by (auto simp: handle_path_failure_def Let_def split_beta split: option.split sum.split)

section \<open>What a round finds\<close>

lemma check_state_facts:
  "hs_is_online (fst (check_state now iv thr s)) \<longleftrightarrow> hs_is_online s \<and> snd (check_state now iv thr s) = []"
  "snd (check_state now iv thr s) \<noteq> [] \<Longrightarrow> snd (check_state now iv thr s) = [OnNodeOffline (hs_node_id s)] \<and> hs_is_online s"
  "hs_node_id (fst (check_state now iv thr s)) = hs_node_id s"
  by (auto simp: check_state_def Let_def split: if_splits)

definition sent_only :: "heartbeat_event list \<Rightarrow> bool" where
  "sent_only evs \<longleftrightarrow> (\<forall>e \<in> set evs. \<exists>i q. e = OnSent i q)"

lemma send_fold_facts:
  assumes "fold (send_one send l c sq) is (nodes, evs) = (nodes', evs')" and "hm_ok nodes" and "sent_only evs"
  shows "hm_ok nodes'" and "sent_only evs'"
    and "\<exists>f. (\<forall>s. hs_node_id (f s) = hs_node_id s \<and> hs_is_online (f s) = hs_is_online s)
        \<and> hm_get nodes' i = map_option f (hm_get nodes i)"
proof -
  have "hm_ok nodes' \<and> sent_only evs' \<and> (\<exists>f. (\<forall>s. hs_node_id (f s) = hs_node_id s \<and> hs_is_online (f s) = hs_is_online s)
        \<and> hm_get nodes' i = map_option f (hm_get nodes i))"
    using assms
  proof (induction "is" arbitrary: nodes evs)
    case Nil
    then show ?case by (auto intro!: exI [of _ id] simp: option.map_id)
  next
    case (Cons j js)
    obtain n1 e1 where st: "send_one send l c sq j (nodes, evs) = (n1, e1)" by force
    let ?g = "\<lambda>s :: node_heartbeat_state. s\<lparr>hs_send_sequence := sq\<rparr>"
    have 1: "hm_ok n1" "sent_only e1" "hm_get n1 i = hm_get nodes i \<or> hm_get n1 i = map_option ?g (hm_get nodes i)"
      using st Cons.prems(2,3) by (auto simp: send_one_def sent_only_def hm_get_modify split: sum.splits)
    from Cons.prems(1) have "fold (send_one send l c sq) js (n1, e1) = (nodes', evs')" by (simp add: st)
    from Cons.IH [OF this 1(1,2)] obtain f where f: "hm_ok nodes'" "sent_only evs'"
      "\<And>s. hs_node_id (f s) = hs_node_id s \<and> hs_is_online (f s) = hs_is_online s" "hm_get nodes' i = map_option f (hm_get n1 i)"
      by blast
    have "hm_get nodes' i = map_option f (hm_get nodes i) \<or> hm_get nodes' i = map_option (f \<circ> ?g) (hm_get nodes i)"
      using f(4) 1(3) by (auto simp: option.map_comp)
    then show ?case
    proof
      assume "hm_get nodes' i = map_option (f \<circ> ?g) (hm_get nodes i)"
      then show ?thesis using f by (intro conjI exI [of _ "f \<circ> ?g"]) (simp_all add: comp_def)
    qed (use f in blast)
  qed
  then show "hm_ok nodes'" and "sent_only evs'"
    and "\<exists>f. (\<forall>s. hs_node_id (f s) = hs_node_id s \<and> hs_is_online (f s) = hs_is_online s)
        \<and> hm_get nodes' i = map_option f (hm_get nodes i)" by blast+
qed

text \<open>A round takes offline exactly the nodes that it reports, and all of those were online.\<close>

lemma round_reports:
  assumes "heartbeat_round send now clock (sq, m) = ((sq', m'), evs)" and "hb_ok m"
  shows "hb_ok m'" and "hb_off m' i \<longleftrightarrow> hb_off m i \<or> OnNodeOffline i \<in> set evs"
    and "\<forall>e \<in> set evs. (\<exists>i q. e = OnSent i q) \<or> (\<exists>i. e = OnNodeOffline i)"
    and "OnNodeOffline i \<in> set evs \<Longrightarrow> \<not> hb_off m i"
proof -
  let ?check = "check_state now (hm_interval m) (hm_offline_threshold m)"
  obtain nodes es where f: "fold (send_one send (hm_local_id m) clock sq) (hm_keys (hm_nodes m)) (hm_nodes m, []) = (nodes, es)" by force
  have ok: "hm_ok (hm_nodes m)" "\<And>i s. hm_get (hm_nodes m) i = Some s \<Longrightarrow> hs_node_id s = i"
    using assms(2) by (auto simp: hb_ok_def)
  note sf = send_fold_facts [OF f ok(1)]
  have n: "hm_ok nodes" "sent_only es" using sf(1,2) by (simp_all add: sent_only_def)
  have same: "\<exists>f. (\<forall>s. hs_node_id (f s) = hs_node_id s \<and> hs_is_online (f s) = hs_is_online s)
      \<and> hm_get nodes j = map_option f (hm_get (hm_nodes m) j)" for j
    by (rule sf(3)) (simp add: sent_only_def)
  have id: "hs_node_id s = j" if h: "hm_get nodes j = Some s" for j s
  proof -
    obtain s0 where "hm_get (hm_nodes m) j = Some s0" "hs_node_id s = hs_node_id s0"
      using same [of j] h by fastforce
    with ok(2) show ?thesis by simp
  qed
  have off: "hb_off m j \<longleftrightarrow> (\<exists>s. hm_get nodes j = Some s \<and> \<not> hs_is_online s)" for j
  proof -
    obtain f where f: "\<forall>s. hs_is_online (f s) = hs_is_online s" "hm_get nodes j = map_option f (hm_get (hm_nodes m) j)"
      using same [of j] by blast
    then show ?thesis by (cases "hm_get (hm_nodes m) j") (simp_all add: hb_off_def)
  qed
  have m': "hm_nodes m' = map (\<lambda>(i, s). (i, fst (?check s))) nodes" "evs = es @ concat (map (\<lambda>(i, s). snd (?check s)) nodes)"
    using assms(1) by (auto simp: heartbeat_round_def f Let_def case_prod_unfold comp_def)
  have get: "hm_get (hm_nodes m') j = map_option (\<lambda>s. fst (?check s)) (hm_get nodes j)" for j
    by (simp add: m'(1) hm_get_def map_of_map)
  have rep: "OnNodeOffline j \<in> set evs \<longleftrightarrow> (\<exists>s. hm_get nodes j = Some s \<and> snd (?check s) \<noteq> [])" for j
  proof
    assume "OnNodeOffline j \<in> set evs"
    then obtain k s where k: "(k, s) \<in> set nodes" "OnNodeOffline j \<in> set (snd (?check s))"
      using n(2) by (auto simp: m'(2) sent_only_def)
    then have c: "snd (?check s) \<noteq> []" by auto
    with k show "\<exists>s. hm_get nodes j = Some s \<and> snd (?check s) \<noteq> []"
      using check_state_facts(2) [OF c] id [of k s] n(1) by (auto simp: hm_get_iff)
  next
    assume "\<exists>s. hm_get nodes j = Some s \<and> snd (?check s) \<noteq> []"
    then obtain s where s: "(j, s) \<in> set nodes" "snd (?check s) \<noteq> []" "hs_node_id s = j"
      using id n(1) by (auto simp: hm_get_iff)
    have "snd (?check s) = [OnNodeOffline j]" using check_state_facts(2) [OF s(2)] s(3) by simp
    with s(1) show "OnNodeOffline j \<in> set evs" by (force simp: m'(2))
  qed
  have "hm_ok (hm_nodes m')" using n(1) by (simp add: m'(1) hm_ok_def split_beta comp_def)
  moreover have "hs_node_id s = j" if h: "hm_get (hm_nodes m') j = Some s" for j s
  proof -
    obtain s0 where "hm_get nodes j = Some s0" "s = fst (?check s0)" using h get [of j] by auto
    with id [of j s0] show ?thesis by (simp add: check_state_facts(3))
  qed
  ultimately show "hb_ok m'" by (simp add: hb_ok_def)
  show "hb_off m' i \<longleftrightarrow> hb_off m i \<or> OnNodeOffline i \<in> set evs"
    unfolding hb_off_def [of m'] get off rep by (auto simp: check_state_facts(1))
  show "\<forall>e \<in> set evs. (\<exists>i q. e = OnSent i q) \<or> (\<exists>i. e = OnNodeOffline i)"
  proof
    fix e
    assume "e \<in> set evs"
    then consider "e \<in> set es" | s where "e \<in> set (snd (?check s))" by (auto simp: m'(2))
    then show "(\<exists>i q. e = OnSent i q) \<or> (\<exists>i. e = OnNodeOffline i)"
    proof cases
      case (2 s)
      then have "snd (?check s) \<noteq> []" by auto
      from check_state_facts(2) [OF this] 2 show ?thesis by auto
    qed (use n(2) in \<open>simp add: sent_only_def\<close>)
  qed
  show "OnNodeOffline i \<in> set evs \<Longrightarrow> \<not> hb_off m i"
    unfolding rep off using check_state_facts(2) by force
qed

lemma callback_round:
  assumes "\<forall>e \<in> set evs. (\<exists>i q. e = OnSent i q) \<or> (\<exists>i. e = OnNodeOffline i)"
  shows "heal_off (fst (fold (heal_callback now clock) evs run)) j \<longleftrightarrow> heal_off (fst run) j \<or> OnNodeOffline j \<in> set evs"
  using assms
proof (induction evs arbitrary: run)
  case (Cons e evs)
  then show ?case by (cases e) (auto simp: off_offline)
qed simp

section \<open>Both agree\<close>

lemma heard_off:
  assumes "handle_heartbeat now msg m = (m', evs)" and "hb_ok m"
  shows "hb_ok m'" and "hb_off m' j \<longleftrightarrow> j \<noteq> hb_sender_id msg \<and> hb_off m j"
    and "heal_off (fst (fold (heal_callback now' clock) evs run)) j \<longleftrightarrow> j \<noteq> hb_sender_id msg \<and> heal_off (fst run) j"
  using assms by (auto simp: handle_heartbeat_def Let_def hb_ok_def hb_off_def hm_simps heartbeat_state_new_def
      off_online off_received split: option.splits if_splits)

definition agree :: "watch_state \<Rightarrow> bool" where
  "agree = (\<lambda>((sq, m), (h, evs)). hb_ok m \<and> heal_ok h \<and> (\<forall>i. heal_off h i \<longleftrightarrow> hb_off m i))"

lemma heal_ok_callback: "heal_ok (fst run) \<Longrightarrow> heal_ok (fst (fold (heal_callback now clock) evs run))"
proof (induction evs arbitrary: run)
  case (Cons e evs)
  have "heal_ok (fst (heal_callback now clock e run))"
    using tracked.lawful_went_offline tracked.lawful_node_online tracked.lawful_heartbeat Cons.prems
    by (cases e) (simp_all add: tracked.lawful_def)
  then show ?case by (simp add: Cons.IH)
qed simp

lemma hb_off_add: "hb_off (hb_add_node now i m) j = hb_off m j" and hb_ok_add: "hb_ok m \<Longrightarrow> hb_ok (hb_add_node now i m)"
  by (auto simp: hb_add_node_def hb_off_def hb_ok_def hm_simps heartbeat_state_new_def hm_contains_def)

lemma agree_step: "agree w \<Longrightarrow> agree (watch_step op w)"
proof -
  assume a: "agree w"
  obtain sq m h es where w: "w = ((sq, m), (h, es))" by (metis surj_pair)
  have ok: "hb_ok m" "heal_ok h" "\<And>i. heal_off h i \<longleftrightarrow> hb_off m i" using a by (auto simp: agree_def w)
  show ?thesis
  proof (cases op)
    case (WatchRound send now clock)
    obtain sq' m' evs where r: "heartbeat_round send now clock (sq, m) = ((sq', m'), evs)" by (metis surj_pair)
    note rr = round_reports [OF r ok(1)]
    show ?thesis
      using rr(1,2) callback_round [OF rr(3), of now clock "(h, es)"] heal_ok_callback [of "(h, es)" now clock evs] ok
      by (auto simp: agree_def w WatchRound r split_beta)
  next
    case (WatchHeard now clock msg)
    obtain m' evs where r: "handle_heartbeat now msg m = (m', evs)" by force
    show ?thesis
      using heard_off [OF r ok(1)] heal_ok_callback [of "(h, es)" now clock evs] ok
      by (auto simp: agree_def w WatchHeard r split_beta)
  next
    case (WatchNode now i)
    then show ?thesis using ok by (simp add: agree_def w hb_off_add hb_ok_add)
  next
    case (TrackNode clock i)
    have "heal_ok (heal_add_node clock i h)"
      using tracked.lawful_add ok(2) by (simp add: tracked.lawful_def)
    with TrackNode show ?thesis using ok by (simp add: agree_def w)
  next
    case (PathBroken now i)
    have "heal_ok (fst (handle_path_failure now i (h, es)))"
      using tracked.lawful_path [of _ "(h, es)"] ok(2) by (simp add: tracked.lawful_def)
    with PathBroken show ?thesis using ok off_path [of now i "(h, es)"] by (simp add: agree_def w split_beta)
  qed
qed

interpretation watch: op_machine watch_step agree
  by unfold_locales (rule agree_step)

lemma offline_sets:
  "hb_ok m \<Longrightarrow> i \<in> set (offline_nodes m) \<longleftrightarrow> hb_off m i"
  "heal_ok h \<Longrightarrow> i \<in> set (heal_offline_nodes h) \<longleftrightarrow> heal_off h i"
  by (force simp: offline_nodes_def hb_off_def hb_ok_def hm_values_def hm_get_iff)
    (force simp: heal_offline_nodes_def heal_off_def heal_ok_def hm_values_def hm_get_iff)

text \<open>C32. The self-healing manager and the heartbeat manager that reports to it always
  hold the same nodes to be offline: after any rounds, any heartbeats, any nodes added
  to either and any broken paths, from empty managers.\<close>

theorem heartbeat_and_healing_agree:
  assumes "hm_nodes m0 = hm_empty" and "sm_states h0 = hm_empty"
    and "fold watch_step ops ((sq0, m0), (h0, evs0)) = ((sq, m), (h, evs))"
  shows "set (heal_offline_nodes h) = set (offline_nodes m)"
proof -
  have "agree ((sq0, m0), (h0, evs0))"
    using assms(1,2) by (simp add: agree_def hb_ok_def heal_ok_def hb_off_def heal_off_def hm_simps)
  from watch.run_inv [OF this, of ops] have "agree ((sq, m), (h, evs))" by (simp only: assms(3))
  then show ?thesis using offline_sets unfolding agree_def by blast
qed

section \<open>After a false recovery\<close>

fun hears_from :: "node_id \<Rightarrow> watch_op \<Rightarrow> bool" where
  "hears_from i (WatchHeard now clock msg) \<longleftrightarrow> hb_sender_id msg = i"
| "hears_from i _ \<longleftrightarrow> False"

definition forgotten :: "node_id \<Rightarrow> watch_state \<Rightarrow> bool" where
  "forgotten i = (\<lambda>((sq, m), (h, evs)). hb_ok m \<and> heal_ok h \<and> hb_off m i \<and> \<not> heal_off h i)"

lemma forgotten_step: "forgotten i w \<Longrightarrow> \<not> hears_from i op \<Longrightarrow> forgotten i (watch_step op w)"
proof -
  assume f: "forgotten i w" and n: "\<not> hears_from i op"
  obtain sq m h es where w: "w = ((sq, m), (h, es))" by (metis surj_pair)
  have ok: "hb_ok m" "heal_ok h" "hb_off m i" "\<not> heal_off h i" using f by (auto simp: forgotten_def w)
  show ?thesis
  proof (cases op)
    case (WatchRound send now clock)
    obtain sq' m' evs where r: "heartbeat_round send now clock (sq, m) = ((sq', m'), evs)" by (metis surj_pair)
    note rr = round_reports [OF r ok(1)]
    show ?thesis
      using rr(1) rr(2,4) [of i] callback_round [OF rr(3), of now clock "(h, es)" i] heal_ok_callback [of "(h, es)" now clock evs] ok
      by (auto simp: forgotten_def w WatchRound r split_beta)
  next
    case (WatchHeard now clock msg)
    obtain m' evs where r: "handle_heartbeat now msg m = (m', evs)" by force
    show ?thesis
      using heard_off(1) [OF r ok(1)] heard_off(2,3) [OF r ok(1), where j = i] heal_ok_callback [of "(h, es)" now clock evs] ok n
      by (auto simp: forgotten_def w WatchHeard r split_beta)
  next
    case (WatchNode now j)
    then show ?thesis using ok by (simp add: forgotten_def w hb_off_add hb_ok_add)
  next
    case (TrackNode clock j)
    have "heal_ok (heal_add_node clock j h)"
      using tracked.lawful_add ok(2) by (simp add: tracked.lawful_def)
    with TrackNode show ?thesis using ok by (simp add: forgotten_def w)
  next
    case (PathBroken now j)
    have "heal_ok (fst (handle_path_failure now j (h, es)))"
      using tracked.lawful_path [of _ "(h, es)"] ok(2) by (simp add: tracked.lawful_def)
    with PathBroken show ?thesis using ok off_path [of now j "(h, es)"] by (simp add: forgotten_def w split_beta)
  qed
qed

lemma forgotten_run: "forgotten i w \<Longrightarrow> \<forall>op \<in> set ops. \<not> hears_from i op \<Longrightarrow> forgotten i (fold watch_step ops w)"
  by (induction ops arbitrary: w) (simp_all add: forgotten_step)

text \<open>C33. One iteration of the healing loop that probes an offline node while the DHT
  knows any node makes the two managers disagree for good: although nothing was sent
  to the node or heard from it, healing holds it to be online, and no later round or
  heartbeat of another node tells it otherwise, while the heartbeat manager holds it
  to be offline.\<close>

theorem false_recovery_stays:
  assumes "hm_nodes m0 = hm_empty" and "sm_states h0 = hm_empty"
    and "fold watch_step ops ((sq0, m0), (h0, evs0)) = ((sq, m), (h, evs))"
    and "i \<in> set (offline_nodes m)"
    and "sm_heal_pongs h = []" and "sm_recovery_check_interval h \<le> elapsed now (ht_last_recovery_check t)"
    and "sm_dht h \<noteq> None" and "sm_multihop h = Some mh" and "mm_dht mh = Some d" and "all_nodes d \<noteq> []"
    and "heal_get_state h i = Some s" and "probe_due clock h s" and "i \<noteq> mm_local_id mh"
    and "heal_iteration env hex now clock (t, (h, evs), disk) = (t', (h', evs'), disk')"
    and "\<forall>op \<in> set ops'. \<not> hears_from i op"
    and "fold watch_step ops' ((sq, m), (h', evs')) = ((sq'', m''), (h'', evs''))"
  shows "NodeRecovered i clock \<in> set evs' \<and> i \<in> set (offline_nodes m'') \<and> i \<notin> set (heal_offline_nodes h'')"
proof -
  have "agree ((sq0, m0), (h0, evs0))"
    using assms(1,2) by (simp add: agree_def hb_ok_def heal_ok_def hb_off_def heal_off_def hm_simps)
  from watch.run_inv [OF this, of ops] have a: "hb_ok m" "heal_ok h" by (simp_all add: assms(3) agree_def)
  note r = iteration_recovers [OF a(2) assms(5-14)]
  have "heal_ok h'"
    using tracked.lawful_iteration [of _ "(t, (h, evs), disk)" env hex now clock] a(2) assms(14) by (simp add: tracked.lawful_def)
  moreover have "\<not> heal_off h' i" using r by (simp add: heal_off_def heal_get_state_def)
  ultimately have "forgotten i ((sq, m), (h', evs'))"
    using a(1) assms(4) offline_sets(1) by (simp add: forgotten_def)
  from forgotten_run [OF this assms(15)] have "forgotten i ((sq'', m''), (h'', evs''))" by (simp only: assms(16))
  then show ?thesis using r offline_sets by (simp add: forgotten_def)
qed

section \<open>Example\<close>

text \<open>
  A node that is silent from the time 0; the threshold is one missed heartbeat. The DHT knows
  another node.
\<close>

definition watched :: heartbeat_manager where
  "watched = set_offline_threshold 1 (heartbeat_with_interval (fill32 1) 10)"

definition healing :: heal_manager where
  "healing = (heal_new (fill32 1))\<lparr>sm_dht := Some (one_node_dht (fill32 5)),
     sm_multihop := Some (multihop_set_dht (one_node_dht (fill32 5)) (multihop_new 0 (fill32 1)))\<rparr>"

definition silence :: "watch_op list" where
  "silence = [WatchNode 0 (fill32 2), TrackNode 0 (fill32 2), WatchRound (\<lambda>_ _. Inl (HbTimeout [])) 21 21]"

lemma silence_run:
  "fold watch_step silence ((0, watched), (healing, [])) =
     ((1, watched\<lparr>hm_nodes := [(fill32 2, \<lparr>hs_node_id = fill32 2, hs_last_heartbeat = 0, hs_missed_count = 1, hs_is_online = False,
        hs_send_sequence = 0, hs_recv_sequence = 0\<rparr>)]\<rparr>),
      (healing\<lparr>sm_states := [(fill32 2, \<lparr>hn_node_id = fill32 2, hn_last_seen = 0, hn_failed_attempts = 0, hn_is_offline = True,
        hn_last_recovery_attempt = 0\<rparr>)]\<rparr>, [NodeOffline (fill32 2) 21]))"
  by (simp add: silence_def watched_def set_offline_threshold_def heartbeat_with_interval_def heartbeat_new_def hb_add_node_def
      heal_add_node_def healing_def heal_new_def hm_contains_def hm_defs heartbeat_state_new_def heal_node_new_def
      heartbeat_round_def send_one_def hm_keys_def check_state_def elapsed_def should_be_offline_def on_node_offline_def
      update_heal_state_def mark_offline_def mh_remove_route_def find_routes_by_next_hop_def multihop_new_def multihop_set_dht_def Let_def)

lemma start_facts: "hm_nodes watched = hm_empty" "sm_states healing = hm_empty"
  by (simp_all add: watched_def set_offline_threshold_def heartbeat_with_interval_def heartbeat_new_def healing_def heal_new_def)

theorem heartbeat_and_healing_agree_witness:
  "let ((sq, m), (h, evs)) = fold watch_step silence ((0, watched), (healing, []))
   in set (heal_offline_nodes h) = set (offline_nodes m) \<and> fill32 2 \<in> set (offline_nodes m)"
proof -
  obtain sq m h evs where r: "fold watch_step silence ((0, watched), (healing, [])) = ((sq, m), (h, evs))" by (metis surj_pair)
  have "offline_nodes m = [fill32 2]" using r silence_run by (auto simp: offline_nodes_def hm_values_def)
  with heartbeat_and_healing_agree [OF start_facts r] show ?thesis by (simp add: r)
qed

theorem false_recovery_stays_witness:
  "\<exists>sq m h evs sq'' m'' h'' evs''. fold watch_step silence ((0, watched), (healing, [])) = ((sq, m), (h, evs))
     \<and> fold watch_step [WatchRound (\<lambda>_ _. Inr ()) 50 50] ((sq, m), fst (snd (heal_iteration sample_heal_env (\<lambda>_. [])
          (int (from_secs 30)) 40 (\<lparr>ht_last_recovery_check = 0, ht_last_persist = 0\<rparr>, (h, evs), \<lambda>_. None)))) = ((sq'', m''), (h'', evs''))
     \<and> fill32 2 \<in> set (offline_nodes m'') \<and> fill32 2 \<notin> set (heal_offline_nodes h'')"
proof -
  let ?t = "\<lparr>ht_last_recovery_check = 0, ht_last_persist = 0\<rparr>"
  let ?mh = "multihop_set_dht (one_node_dht (fill32 5)) (multihop_new 0 (fill32 1))"
  let ?s = "\<lparr>hn_node_id = fill32 2, hn_last_seen = 0, hn_failed_attempts = 0, hn_is_offline = True, hn_last_recovery_attempt = 0\<rparr>"
  obtain sq m h evs where r: "fold watch_step silence ((0, watched), (healing, [])) = ((sq, m), (h, evs))" by (metis surj_pair)
  have "offline_nodes m = [fill32 2]" using r silence_run by (auto simp: offline_nodes_def hm_values_def)
  then have m: "fill32 2 \<in> set (offline_nodes m)" by simp
  have h: "h = healing\<lparr>sm_states := [(fill32 2, ?s)]\<rparr>" using r silence_run by auto
  obtain t' h' evs' disk' where i: "heal_iteration sample_heal_env (\<lambda>_. []) (int (from_secs 30)) 40 (?t, (h, evs), \<lambda>_. None)
      = (t', (h', evs'), disk')" by (metis surj_pair)
  obtain sq'' m'' h'' evs'' where r'': "fold watch_step [WatchRound (\<lambda>_ _. Inr ()) 50 50] ((sq, m), (h', evs')) = ((sq'', m''), (h'', evs''))"
    by (metis surj_pair)
  have "all_nodes (one_node_dht (fill32 5)) \<noteq> []" by (simp add: all_nodes_def one_node_dht_def)
  then have "fill32 2 \<in> set (offline_nodes m'') \<and> fill32 2 \<notin> set (heal_offline_nodes h'')"
    by (intro false_recovery_stays [OF start_facts r m _ _ _ _ _ _ _ _ _ i _ r'', where mh = ?mh and s = ?s, THEN conjunct2])
      (simp_all add: h healing_def heal_new_def multihop_new_def multihop_set_dht_def hm_simps elapsed_def from_secs_def
         default_recovery_check_secs_def heal_get_state_def hm_get_def probe_due_def has_exceeded_max_attempts_def
         default_max_failed_attempts_def)
  with r i r'' show ?thesis
    by - (rule exI [of _ sq], rule exI [of _ m], rule exI [of _ h], rule exI [of _ evs],
      rule exI [of _ sq''], rule exI [of _ m''], rule exI [of _ h''], rule exI [of _ evs''], simp del: watch_step.simps)
qed

end
