(* ===== verification/Spec2Isabelle.thy ===== *)
theory Spec2Isabelle
  imports Dht Cluster Multihop Address Multipath Incremental Heartbeat HolePunch Session Center Selfheal Download
    Handshake Bootstrap Cli ElectionCheck IdentityFile Watch
begin

text \<open>
  Verification of ll-vpn, a Rust library that names, finds and connects the nodes of a
  private mesh network and stores files on them. This theory gathers the development; the
  models and their properties stand in the theories of the components.

  The parts of the program and their theories:

  Nodes are 32-byte identities (\<open>src/vpn/identity.rs\<close>, theory \<open>NodeId\<close>, their
  file in \<open>IdentityFile\<close>). Messages travel
  over TCP frames through pooled connections, directly or through a relay
  (\<open>src/vpn/relay.rs\<close>, theory \<open>Relay\<close>). A Kademlia-style table of K-buckets and a value
  store find nodes and data (\<open>src/vpn/dht.rs\<close>, theory \<open>Dht\<close>); multi-hop routing asks it
  for next hops and keeps routes with candidates for failover (\<open>src/vpn/multihop.rs\<close>,
  theory \<open>Multihop\<close>, with the error and connection types of \<open>src/router.rs\<close>, theory
  \<open>Router\<close>). Names resolve through caches (\<open>src/address.rs\<close>, theory \<open>Address\<close>). Heartbeats
  decide which nodes are online (\<open>src/vpn/heartbeat.rs\<close>, theory \<open>Heartbeat\<close>). One node is the
  registry centre; when its heartbeats fail the others elect a new one
  (\<open>src/registry/election.rs\<close>, theory \<open>Election\<close>, and theory \<open>Cluster\<close> for several nodes
  together); the centre keeps the names, their nodes and the reverse map, answers messages
  and saves to a file (\<open>src/registry/center.rs\<close>, theory \<open>Center\<close>). Sessions hold keys and
  counters (\<open>src/vpn/session.rs\<close>, theory \<open>Session\<close>). Data moves in fragments over several paths (\<open>src/vpn/multipath.rs\<close>, theory
  \<open>Multipath\<close>), through NAT by hole punching (\<open>src/vpn/hole_punch.rs\<close>, theory \<open>HolePunch\<close>).
  Files are cut into hashed chunks (\<open>src/storage/chunk.rs\<close>, theory \<open>Chunk\<close>) and compared by
  blocks (\<open>src/storage/diff.rs\<close>, theory \<open>Diff\<close>); a metadata store records which node has
  which block (\<open>src/storage/metadata.rs\<close>, theory \<open>Metadata\<close>), a version manager keeps the
  manifests of old versions (\<open>src/storage/version.rs\<close>, theory \<open>Version\<close>, its dates in
  \<open>Calendar\<close>), and garbage collection compares the two (\<open>src/storage/gc.rs\<close>, theory \<open>Gc\<close>).
  Changed blocks are synchronised over requests and answers (\<open>src/storage/incremental.rs\<close>,
  theory \<open>Incremental\<close>), downloads are spread over nodes and put in order
  (\<open>src/storage/download.rs\<close>, theory \<open>Download\<close>), and chunks are encrypted
  (\<open>src/storage/encrypt.rs\<close>, theory \<open>Encrypt\<close>).
  When nodes go offline or come back, self-healing reroutes and probes
  (\<open>src/vpn/selfheal.rs\<close>, theory \<open>Selfheal\<close>, and as the callback of the heartbeats theory
  \<open>Watch\<close>). A node is found on the local network by
  broadcast (\<open>src/lan_router.rs\<close>, theory \<open>Lan\<close>) and otherwise reached over the relay: the VPN
  router tries both and dispatches what arrives (\<open>src/vpn/vpn_router.rs\<close>, theory \<open>VpnRouter\<close>).
  Handshake (\<open>src/vpn/handshake.rs\<close>, theory \<open>Handshake\<close>), bootstrapping
  (\<open>src/vpn/bootstrap.rs\<close>, theory \<open>Bootstrap\<close>) and traffic limits (\<open>src/vpn/stats.rs\<close>, theory
  \<open>Stats\<close>) stand beside them. The command line parses and runs the commands over all of this
  (\<open>src/vpn/command.rs\<close>, theory \<open>Command\<close>); the program starts the routers, runs one command
  and prints what arrives (\<open>src/main.rs\<close>, theory \<open>Cli\<close>). A second program runs an election
  among five nodes on a simulated network, by rules of its own
  (\<open>src/bin/verify_election.rs\<close>, theory \<open>ElectionCheck\<close>).

  Shared theories: \<open>Prelude\<close> (integer types, byte strings, clocks, lists, the locale
  \<open>op_machine\<close>), \<open>HashMap\<close> (\<open>std::collections::HashMap\<close> as an association list, the locale
  \<open>map_store\<close> and its interpretation \<open>hm\<close>), \<open>Wire\<close> (the locale \<open>wire_tag\<close> of the one-byte
  message tags, interpreted for every tag type of the code), \<open>Disk\<close> (files that hold JSON,
  with the file system and the encoder as parameters), \<open>Text\<close> (the string functions of the
  standard library that the code calls), \<open>Json\<close> (the values of \<open>serde_json\<close> and their
  accessors), \<open>Float64\<close> (floating-point numbers and saturating subtraction).

  How state and operations correspond to the code. A struct is a record with a field
  prefix of its own; the field order is that of the struct. A method is a function from
  the old to the new state, named as in the code, with a prefix where several structs have
  the name. Locks and atomics are left out: each operation is atomic, and no lock is
  poisoned; only the lock of the dirty flag in \<open>version.rs\<close> is modelled, because the code
  takes it twice (a call that waits for it is \<open>Blocked\<close>). A clock that an operation reads is an argument; an operation that reads it
  several times reads it once in the model. A hash map iterates in the order of its list,
  and the theorems hold for every order. Machine integers are words of their width, so
  overflow wraps as in a release build; lengths and indices of memory (\<open>usize\<close>) are natural
  numbers. Errors are values: \<open>Inl\<close> an error, \<open>Inr\<close> a result, with the error texts of the
  code. An \<open>f64\<close> (path scores and weights, rates, tokens, estimates) is a rational with the
  rounding of every operation as a parameter. A call of a callback or a listener shows as an
  event or a value with its arguments. Logging has no counterpart.

  Library code is a parameter: SHA-256 (\<open>sha256\<close>, or \<open>h\<close>), the JSON codec of the election
  payloads (\<open>json_codec\<close>) and of the files and the registry messages (\<open>json_env\<close>,
  \<open>registry_codec\<close>), the calls of \<open>std::fs\<close> (a failed write leaves what a parameter says), the standard hasher, hexadecimal text, AES-256-GCM (\<open>aes_env\<close>), the Noise library (\<open>noise_env\<close>), the network
  functions of the relay, the UDP socket of the LAN router and the socket of a punch (records
  of the results of their calls). What arrives from the network, random numbers and times are
  arguments. The hypotheses on them are
  stated where they are used: SHA-256 without a collision among the files and blocks at
  hand, and a rounding that is monotone and exact on integers up to 2^53.

  What the lemmas show:

  \<open>Dht\<close>: every run keeps the buckets within their size, distinct, without the local node
  and each node in the bucket of its distance (interpretation \<open>dht\<close> of \<open>op_machine\<close>);
  bucket indices are the leading zero bits of the XOR distance; \<open>find_node\<close> returns the
  nearest known nodes (interpretation \<open>dht_find\<close> of the locale \<open>node_finder\<close>, which
  \<open>Multihop\<close> uses); queries, PUT and GET over messages; the codec of node lists.
  \<open>Relay\<close>: frames round-trip and a stream of them is read back; the pool keeps its bound
  (interpretation \<open>pool\<close>), and what happens to its slots when peers disappear.
  \<open>Election\<close>: at most one vote per term, leadership only by a majority of distinct votes
  (interpretation \<open>el\<close>), terms never fall, and where the code departs from this.
  \<open>Cluster\<close>: two nodes never lead in one term, by rule induction on the steps of a network
  that loses, delays, duplicates and reorders.
  \<open>Multihop\<close>: the table keeps its bound (interpretation \<open>mh\<close>), discovery takes the nearest
  node, failover alternates between two candidates.
  \<open>Router\<close>: the best route is the stored one (interpretation \<open>rt\<close>).
  \<open>Address\<close>: exactly which addresses parse; both resolvers meet the locale
  \<open>address_resolver\<close>, the wrapper over any resolver that does.
  \<open>Multipath\<close>: fragments cover the data and reassemble from any arrival order; the walk
  over the weights ends on the last path; a skip strands a fragment.
  \<open>Heartbeat\<close>: exactly when a silent node goes offline; the message codec round-trips.
  \<open>HolePunch\<close>: exactly when a punch succeeds and what it records.
  \<open>Session\<close>: the life cycle, increasing receive counters, and where the manager loses them
  (interpretation \<open>sess\<close>). \<open>Center\<close>: the two maps agree (interpretations \<open>reg\<close>, \<open>regfile\<close>),
  messages and file answer as the maps do. \<open>Metadata\<close>: every run refines operations on an
  abstract store of facts and holders, with its own rule for which version wins, and survives
  a restart (interpretation \<open>md\<close>); what synchronisation does.
  \<open>Version\<close>: snapshots restore what they saved, pruning blocks on its own lock. \<open>Calendar\<close>:
  the date arithmetic is the Gregorian calendar. \<open>Gc\<close>: exactly which blocks are reported.
  \<open>Chunk\<close> and \<open>Diff\<close>: reassembly is the inverse of cutting and accepts only the original;
  the blocks of a difference suffice to build the new file.
  \<open>Incremental\<close>: an upload sends exactly the blocks the peer lacks, a download fetches exactly
  the blocks it lacks and leaves exactly the remote file, and a failure leaves everything as
  it was, except the local file when its writing failed. \<open>Download\<close>: the reorder buffer
  delivers in order, and which accounts of the manager go wrong. \<open>Encrypt\<close>: round trip, and
  an index of its own for every chunk. \<open>Selfheal\<close>: routes avoid a node that went offline, the
  state file round-trips, probes need no contact (interpretation \<open>heal\<close>). \<open>Watch\<close>: heartbeats and self-healing hold the
  same nodes to be offline (interpretation \<open>watch\<close>) until a false recovery, which stays. \<open>Lan\<close>: frames
  round-trip, discovery is mutual, and what is lost (interpretation \<open>udpt\<close>). \<open>VpnRouter\<close>: what a
  send over either way does at the receiver, and that known nodes never go offline
  (interpretation \<open>vpn\<close>). \<open>Handshake\<close>: both sides are established, and so is a peer without a
  key; the replay check never fires (interpretation \<open>resp\<close>). \<open>Bootstrap\<close>: configurations are
  sorted (interpretation \<open>bconf\<close>), bootstrapping never succeeds. \<open>Stats\<close>: rates stay below
  peaks (interpretation \<open>traffic\<close>), and the bound of the token bucket with its rounding errors.
  \<open>Command\<close>: both forms of a command agree, parsed commands are checked, a restore writes
  verified data only, and no backup can be restored. \<open>Cli\<close>: programs of this kind do not
  reach each other. \<open>ElectionCheck\<close>: the run passes all its assertions for any identities,
  stage by stage over a network given by its inboxes; the manager has another rule for its
  votes. \<open>IdentityFile\<close>: what was saved is loaded, matching or not.

  Bounds and termination. No model uses fuel: every loop of the code is a structural
  recursion or a function with a measure (\<open>handle_connection\<close> on the bytes left,
  \<open>drain\<close> on the buffer, \<open>frag_loop\<close> on the data left, \<open>advance_path\<close> on the paths left).
  Where a counter could wrap, the theorem names the bound it needs: 2^64 steps for the
  election terms, 2^32 blocks for a difference, 1024 fragments for a reorder buffer.

  Not modelled: threads and accept loops (their bodies are, as steps), the order in which
  the lines of different threads are printed, logging, and what the two programs print on
  the way, except the result of a command, the warnings and what the listener prints.
\<close>

end
